(* ===== verification/Gum_Prelude.thy ===== *)
theory Gum_Prelude
  imports Main "HOL-Library.Monad_Syntax" "HOL-Library.State_Monad" "HOL-Library.Word"
begin

text \<open>
  What every theory of the development shares: reading and updating the state of the
  \<^theory_text>\<open>State_Monad\<close>, a weakest-precondition operator \<open>wp\<close> for it and its rules, the
  notion that a computation leaves a part of the state alone (\<open>frame\<close>) and its rules,
  and list lemmas about searching, replacing and inserting by key. The collections
  \<open>wp_rules\<close> and \<open>frame_rules\<close> grow in the later theories: each operation of the code
  adds its own rule after its definition.
\<close>

section \<open>Collections\<close>

named_theorems wp_rules "introduction rules that compute a weakest precondition"
named_theorems frame_rules "introduction rules for frame, one per operation"

section \<open>State access\<close>

definition gets :: "('s \<Rightarrow> 'a) \<Rightarrow> ('s, 'a) state" where
  "gets f = State (\<lambda>s. (f s, s))"

definition modify :: "('s \<Rightarrow> 's) \<Rightarrow> ('s, unit) state" where
  "modify f = State (\<lambda>s. ((), f s))"

abbreviation ret :: "'a \<Rightarrow> ('s, 'a) state" where
  "ret \<equiv> State_Monad.return"

lemma run_gets [simp]: "run_state (gets f) s = (f s, s)"
  by (simp add: gets_def)

lemma run_modify [simp]: "run_state (modify f) s = ((), f s)"
  by (simp add: modify_def)

section \<open>Weakest preconditions\<close>

text \<open>
  \<open>wp m Q s\<close>: started in \<open>s\<close>, the computation \<open>m\<close> ends with a result and a state that
  satisfy \<open>Q\<close>. Every computation of the model returns, so this is total correctness.
\<close>

definition wp :: "('s, 'a) state \<Rightarrow> ('a \<Rightarrow> 's \<Rightarrow> bool) \<Rightarrow> 's \<Rightarrow> bool" where
  "wp m Q s = Q (fst (run_state m s)) (snd (run_state m s))"

lemma wp_run: "run_state m s = (a, s') \<Longrightarrow> wp m Q s \<Longrightarrow> Q a s'"
  by (simp add: wp_def)

lemma wp_of_run: "(\<And>a s'. run_state m s = (a, s') \<Longrightarrow> Q a s') \<Longrightarrow> wp m Q s"
  by (simp add: wp_def)

lemma wp_iff: "wp m Q s \<longleftrightarrow> (\<forall>a s'. run_state m s = (a, s') \<longrightarrow> Q a s')"
  by (auto simp: wp_def)

lemma wp_mono: "wp m Q s \<Longrightarrow> (\<And>a s'. Q a s' \<Longrightarrow> Q' a s') \<Longrightarrow> wp m Q' s"
  by (simp add: wp_def)

lemma wp_conj: "wp m Q s \<Longrightarrow> wp m Q' s \<Longrightarrow> wp m (\<lambda>a s'. Q a s' \<and> Q' a s') s"
  by (simp add: wp_def)

lemma wp_return [wp_rules]: "Q a s \<Longrightarrow> wp (ret a) Q s"
  by (simp add: wp_def)

lemma wp_bind [wp_rules]: "wp m (\<lambda>a. wp (f a) Q) s \<Longrightarrow> wp (State_Monad.bind m f) Q s"
  by (simp add: wp_def case_prod_beta)

lemma wp_step:
  "wp m R s \<Longrightarrow> (\<And>a s'. R a s' \<Longrightarrow> wp (f a) Q s') \<Longrightarrow> wp (State_Monad.bind m f) Q s"
  by (simp add: wp_def case_prod_beta)

lemma wp_gets [wp_rules]: "Q (f s) s \<Longrightarrow> wp (gets f) Q s"
  by (simp add: wp_def)

lemma wp_modify [wp_rules]: "Q () (f s) \<Longrightarrow> wp (modify f) Q s"
  by (simp add: wp_def)

lemma wp_if [wp_rules]:
  "(b \<Longrightarrow> wp m Q s) \<Longrightarrow> (\<not> b \<Longrightarrow> wp n Q s) \<Longrightarrow> wp (if b then m else n) Q s"
  by simp

lemma wp_let [wp_rules]: "(\<And>x. x = t \<Longrightarrow> wp (f x) Q s) \<Longrightarrow> wp (let x = t in f x) Q s"
  by simp

lemma wp_case_option [wp_rules]:
  "(x = None \<Longrightarrow> wp m Q s) \<Longrightarrow> (\<And>y. x = Some y \<Longrightarrow> wp (f y) Q s) \<Longrightarrow>
   wp (case x of None \<Rightarrow> m | Some y \<Rightarrow> f y) Q s"
  by (cases x) auto

lemma wp_case_prod [wp_rules]:
  "(\<And>a b. x = (a, b) \<Longrightarrow> wp (f a b) Q s) \<Longrightarrow> wp (case x of (a, b) \<Rightarrow> f a b) Q s"
  by (cases x) auto

section \<open>Frames\<close>

text \<open>\<open>frame g m\<close>: running \<open>m\<close> does not change what \<open>g\<close> reads from the state.\<close>

definition frame :: "('s \<Rightarrow> 'b) \<Rightarrow> ('s, 'a) state \<Rightarrow> bool" where
  "frame g m \<longleftrightarrow> (\<forall>s. g (snd (run_state m s)) = g s)"

lemma frameI: "(\<And>s. wp m (\<lambda>_ s'. g s' = g s) s) \<Longrightarrow> frame g m"
  by (simp add: frame_def wp_def)

lemma frame_run: "frame g m \<Longrightarrow> run_state m s = (a, s') \<Longrightarrow> g s' = g s"
  by (metis frame_def snd_conv)

lemma frame_wp: "frame g m \<Longrightarrow> (\<And>a s'. g s' = g s \<Longrightarrow> Q a s') \<Longrightarrow> wp m Q s"
  by (simp add: frame_def wp_def)

lemma frame_comp: "frame g m \<Longrightarrow> frame (\<lambda>s. h (g s)) m"
  by (simp add: frame_def)

lemma frame_return [frame_rules]: "frame g (ret a)"
  by (simp add: frame_def)

lemma frame_bind [frame_rules]:
  "frame g m \<Longrightarrow> (\<And>a. frame g (f a)) \<Longrightarrow> frame g (State_Monad.bind m f)"
  by (simp add: frame_def case_prod_beta)

lemma frame_gets [frame_rules]: "frame g (gets f)"
  by (simp add: frame_def)

lemma frame_modify [frame_rules]: "(\<And>s. g (f s) = g s) \<Longrightarrow> frame g (modify f)"
  by (simp add: frame_def)

lemma frame_if [frame_rules]:
  "(b \<Longrightarrow> frame g m) \<Longrightarrow> (\<not> b \<Longrightarrow> frame g n) \<Longrightarrow> frame g (if b then m else n)"
  by simp

lemma frame_let [frame_rules]: "(\<And>x. x = t \<Longrightarrow> frame g (f x)) \<Longrightarrow> frame g (let x = t in f x)"
  by simp

lemma frame_case_option [frame_rules]:
  "(x = None \<Longrightarrow> frame g m) \<Longrightarrow> (\<And>y. x = Some y \<Longrightarrow> frame g (f y)) \<Longrightarrow>
   frame g (case x of None \<Rightarrow> m | Some y \<Rightarrow> f y)"
  by (cases x) auto

lemma frame_case_prod [frame_rules]:
  "(\<And>a b. x = (a, b) \<Longrightarrow> frame g (f a b)) \<Longrightarrow> frame g (case x of (a, b) \<Rightarrow> f a b)"
  by (cases x) auto

section \<open>Lists searched and changed by key\<close>

text \<open>
  The first element with a property, replaced by a list (empty to delete, a singleton to
  replace): what one pass over a database file does for a delete or a modify.
\<close>

fun subst_first :: "('a \<Rightarrow> bool) \<Rightarrow> 'a list \<Rightarrow> 'a list \<Rightarrow> 'a list" where
  "subst_first P ys [] = []"
| "subst_first P ys (x # xs) = (if P x then ys @ xs else x # subst_first P ys xs)"

text \<open>An element inserted before the first element with a property, else at the end.\<close>

fun insert_before :: "('a \<Rightarrow> bool) \<Rightarrow> 'a \<Rightarrow> 'a list \<Rightarrow> 'a list" where
  "insert_before P y [] = [y]"
| "insert_before P y (x # xs) = (if P x then y # x # xs else x # insert_before P y xs)"

lemma find_Some_iff_ex: "(\<exists>y. List.find P xs = Some y) \<longleftrightarrow> (\<exists>x\<in>set xs. P x)"
  by (induction xs) auto

lemma find_None_iff_all: "List.find P xs = None \<longleftrightarrow> (\<forall>x\<in>set xs. \<not> P x)"
  by (induction xs) auto

lemma find_SomeD: "List.find P xs = Some y \<Longrightarrow> y \<in> set xs \<and> P y"
  by (induction xs) (auto split: if_splits)

lemma subst_first_none: "\<forall>x\<in>set xs. \<not> P x \<Longrightarrow> subst_first P ys xs = xs"
  by (induction xs) auto

lemma subst_first_split:
  "(\<exists>x\<in>set xs. P x) \<Longrightarrow>
   \<exists>us x vs. xs = us @ x # vs \<and> P x \<and> (\<forall>u\<in>set us. \<not> P u) \<and>
            subst_first P ys xs = us @ ys @ vs"
proof (induction xs)
  case Nil
  then show ?case by simp
next
  case (Cons a xs)
  show ?case
  proof (cases "P a")
    case True
    then show ?thesis by (intro exI[of _ "[]"]) auto
  next
    case False
    with Cons obtain us x vs where "xs = us @ x # vs" "P x" "\<forall>u\<in>set us. \<not> P u"
      "subst_first P ys xs = us @ ys @ vs" by auto
    with False show ?thesis by (intro exI[of _ "a # us"]) auto
  qed
qed

lemma insert_before_split:
  "\<exists>us vs. xs = us @ vs \<and> insert_before P y xs = us @ y # vs \<and> (\<forall>u\<in>set us. \<not> P u) \<and>
          (vs = [] \<or> P (hd vs))"
proof (induction xs)
  case Nil
  then show ?case by simp
next
  case (Cons a xs)
  show ?case
  proof (cases "P a")
    case True
    then show ?thesis by (intro exI[of _ "[]"] exI[of _ "a # xs"]) simp
  next
    case False
    from Cons obtain us vs where "xs = us @ vs" "insert_before P y xs = us @ y # vs"
      "\<forall>u\<in>set us. \<not> P u" "vs = [] \<or> P (hd vs)" by blast
    with False show ?thesis by (intro exI[of _ "a # us"] exI[of _ vs]) simp
  qed
qed

lemma set_insert_before [simp]: "set (insert_before P y xs) = insert y (set xs)"
  by (induction xs) auto

lemma length_insert_before [simp]: "length (insert_before P y xs) = Suc (length xs)"
  by (induction xs) auto

lemma distinct_map_insert_before:
  "distinct (map f (insert_before P y xs)) \<longleftrightarrow> f y \<notin> f ` set xs \<and> distinct (map f xs)"
  by (induction xs) auto

lemma sorted_insert_before:
  fixes f :: "'a \<Rightarrow> 'b::linorder"
  shows "sorted (map f xs) \<Longrightarrow> sorted (map f (insert_before (\<lambda>x. f y < f x) y xs))"
  by (induction xs) (auto simp: not_less intro: order.strict_implies_order)

lemma set_subst_first_subset: "set (subst_first P ys xs) \<subseteq> set xs \<union> set ys"
  by (induction xs) auto

lemma distinct_map_delete_first:
  "distinct (map f xs) \<Longrightarrow> distinct (map f (subst_first P [] xs))"
  by (induction xs) (auto dest!: subsetD[OF set_subst_first_subset])

lemma distinct_map_subst_first:
  "distinct (map f xs) \<Longrightarrow> (\<And>x. x \<in> set xs \<Longrightarrow> P x \<Longrightarrow> f x = f y) \<Longrightarrow>
   distinct (map f (subst_first P [y] xs))"
proof (induction xs)
  case Nil
  then show ?case by simp
next
  case (Cons a xs)
  show ?case
  proof (cases "P a")
    case True
    with Cons.prems show ?thesis by simp
  next
    case False
    have "f a \<notin> f ` set (subst_first P [y] xs)"
    proof
      assume "f a \<in> f ` set (subst_first P [y] xs)"
      moreover have "f a \<notin> f ` set xs" using Cons.prems(1) by auto
      ultimately have "f a = f y" "\<exists>x\<in>set xs. P x"
        using set_subst_first_subset[of P "[y]" xs] subst_first_none[of xs P "[y]"]
        by auto
      then obtain x where "x \<in> set xs" "f x = f a" using Cons.prems(2) by auto
      then have "f a \<in> f ` set xs" by (metis image_eqI)
      with Cons.prems(1) show False by simp
    qed
    with Cons False show ?thesis by auto
  qed
qed

lemma sorted_delete_first:
  "sorted (map f xs) \<Longrightarrow> sorted (map f (subst_first P [] xs))"
  by (induction xs) (auto dest!: subsetD[OF set_subst_first_subset])

lemma map_subst_first:
  "(\<And>x. x \<in> set xs \<Longrightarrow> P x \<Longrightarrow> f x = f y) \<Longrightarrow> map f (subst_first P [y] xs) = map f xs"
  by (induction xs) auto

end
