(* ===== verification/Gum_Types.thy ===== *)
theory Gum_Types
  imports Gum_Prelude
begin

unbundle bit_operations_syntax

text \<open>
  The data the components share: nullable C strings, the error codes of
  \<^verbatim>\<open>include/gum/common/gum-error.h\<close> with their D-Bus names
  (\<^verbatim>\<open>src/common/gum-error.c\<close>), the user and group types
  (\<^verbatim>\<open>gum-user-types.c\<close>, \<^verbatim>\<open>gum-group-types.h\<close>), the libc structures of the
  four account databases, and the record \<open>env\<close> of the functions that are not under
  \<^verbatim>\<open>src/\<close> (GLib, crypt, logind) and are parameters of the model.
\<close>

section \<open>Nullable strings and ids\<close>

text \<open>\<open>None\<close> is the NULL pointer. \<open>g_strcmp0 a b == 0\<close> is equality of such values.\<close>

type_synonym pstr = "string option"
type_synonym uid_t = "32 word"
type_synonym gid_t = "32 word"

definition GUM_USER_INVALID_UID :: uid_t where
  "GUM_USER_INVALID_UID = 0xFFFFFFFF"

definition GUM_GROUP_INVALID_GID :: gid_t where
  "GUM_GROUP_INVALID_GID = 0xFFFFFFFF"

section \<open>Error codes\<close>

datatype GumError =
    GUM_ERROR_NONE
  | GUM_ERROR_UNKNOWN
  | GUM_ERROR_INTERNAL_SERVER
  | GUM_ERROR_PERMISSION_DENIED
  | GUM_ERROR_USER_ALREADY_EXISTS
  | GUM_ERROR_USER_GROUP_ADD_FAILURE
  | GUM_ERROR_USER_UID_NOT_AVAILABLE
  | GUM_ERROR_USER_INVALID_USER_TYPE
  | GUM_ERROR_USER_SECRET_ENCRYPT_FAILURE
  | GUM_ERROR_USER_NOT_FOUND
  | GUM_ERROR_USER_INVALID_DATA
  | GUM_ERROR_USER_GROUP_DELETE_FAILURE
  | GUM_ERROR_USER_SELF_DESTRUCTION
  | GUM_ERROR_USER_SESSION_TERM_FAILURE
  | GUM_ERROR_USER_NO_CHANGES
  | GUM_ERROR_USER_LOCK_FAILURE
  | GUM_ERROR_GROUP_ALREADY_EXISTS
  | GUM_ERROR_GROUP_GID_NOT_AVAILABLE
  | GUM_ERROR_GROUP_INVALID_GROUP_TYPE
  | GUM_ERROR_GROUP_SECRET_ENCRYPT_FAILURE
  | GUM_ERROR_GROUP_NOT_FOUND
  | GUM_ERROR_GROUP_USER_ALREADY_A_MEMBER
  | GUM_ERROR_GROUP_INVALID_DATA
  | GUM_ERROR_GROUP_SELF_DESTRUCTION
  | GUM_ERROR_GROUP_HAS_USER
  | GUM_ERROR_GROUP_NO_CHANGES
  | GUM_ERROR_DB_ALREADY_LOCKED
  | GUM_ERROR_FILE_OPEN
  | GUM_ERROR_FILE_ATTRIBUTE
  | GUM_ERROR_FILE_MOVE
  | GUM_ERROR_FILE_WRITE
  | GUM_ERROR_HOME_DIR_CREATE_FAILURE
  | GUM_ERROR_HOME_DIR_DELETE_FAILURE
  | GUM_ERROR_HOME_DIR_COPY_FAILURE
  | GUM_ERROR_INVALID_NAME
  | GUM_ERROR_INVALID_NICKNAME
  | GUM_ERROR_INVALID_SECRET
  | GUM_ERROR_INVALID_STR
  | GUM_ERROR_INVALID_STR_LEN
  | GUM_ERROR_INVALID_INPUT
  | GUM_ERROR_USER_ERR

text \<open>The value the C enumeration gives each constant.\<close>

fun gum_error_code :: "GumError \<Rightarrow> nat" where
  "gum_error_code GUM_ERROR_NONE = 0"
| "gum_error_code GUM_ERROR_UNKNOWN = 1"
| "gum_error_code GUM_ERROR_INTERNAL_SERVER = 2"
| "gum_error_code GUM_ERROR_PERMISSION_DENIED = 3"
| "gum_error_code GUM_ERROR_USER_ALREADY_EXISTS = 32"
| "gum_error_code GUM_ERROR_USER_GROUP_ADD_FAILURE = 33"
| "gum_error_code GUM_ERROR_USER_UID_NOT_AVAILABLE = 34"
| "gum_error_code GUM_ERROR_USER_INVALID_USER_TYPE = 35"
| "gum_error_code GUM_ERROR_USER_SECRET_ENCRYPT_FAILURE = 36"
| "gum_error_code GUM_ERROR_USER_NOT_FOUND = 37"
| "gum_error_code GUM_ERROR_USER_INVALID_DATA = 38"
| "gum_error_code GUM_ERROR_USER_GROUP_DELETE_FAILURE = 39"
| "gum_error_code GUM_ERROR_USER_SELF_DESTRUCTION = 40"
| "gum_error_code GUM_ERROR_USER_SESSION_TERM_FAILURE = 41"
| "gum_error_code GUM_ERROR_USER_NO_CHANGES = 42"
| "gum_error_code GUM_ERROR_USER_LOCK_FAILURE = 43"
| "gum_error_code GUM_ERROR_GROUP_ALREADY_EXISTS = 64"
| "gum_error_code GUM_ERROR_GROUP_GID_NOT_AVAILABLE = 65"
| "gum_error_code GUM_ERROR_GROUP_INVALID_GROUP_TYPE = 66"
| "gum_error_code GUM_ERROR_GROUP_SECRET_ENCRYPT_FAILURE = 67"
| "gum_error_code GUM_ERROR_GROUP_NOT_FOUND = 68"
| "gum_error_code GUM_ERROR_GROUP_USER_ALREADY_A_MEMBER = 69"
| "gum_error_code GUM_ERROR_GROUP_INVALID_DATA = 70"
| "gum_error_code GUM_ERROR_GROUP_SELF_DESTRUCTION = 71"
| "gum_error_code GUM_ERROR_GROUP_HAS_USER = 72"
| "gum_error_code GUM_ERROR_GROUP_NO_CHANGES = 73"
| "gum_error_code GUM_ERROR_DB_ALREADY_LOCKED = 90"
| "gum_error_code GUM_ERROR_FILE_OPEN = 91"
| "gum_error_code GUM_ERROR_FILE_ATTRIBUTE = 92"
| "gum_error_code GUM_ERROR_FILE_MOVE = 93"
| "gum_error_code GUM_ERROR_FILE_WRITE = 94"
| "gum_error_code GUM_ERROR_HOME_DIR_CREATE_FAILURE = 95"
| "gum_error_code GUM_ERROR_HOME_DIR_DELETE_FAILURE = 96"
| "gum_error_code GUM_ERROR_HOME_DIR_COPY_FAILURE = 97"
| "gum_error_code GUM_ERROR_INVALID_NAME = 120"
| "gum_error_code GUM_ERROR_INVALID_NICKNAME = 121"
| "gum_error_code GUM_ERROR_INVALID_SECRET = 130"
| "gum_error_code GUM_ERROR_INVALID_STR = 140"
| "gum_error_code GUM_ERROR_INVALID_STR_LEN = 141"
| "gum_error_code GUM_ERROR_INVALID_INPUT = 160"
| "gum_error_code GUM_ERROR_USER_ERR = 400"

definition error_prefix :: string where
  "error_prefix = ''org.O1.SecurityAccounts.gUserManagement.Error''"

text \<open>
  The table registered with D-Bus. The suffix of each name is kept apart from the common
  prefix, which the C preprocessor pastes in front of each literal.
\<close>

definition gum_errors_suffix :: "(GumError \<times> string) list" where
  "gum_errors_suffix = [
    (GUM_ERROR_UNKNOWN, ''.Unknown''),
    (GUM_ERROR_INTERNAL_SERVER, ''.InternalServerError''),
    (GUM_ERROR_PERMISSION_DENIED, ''.PermissionDenied''),
    (GUM_ERROR_USER_ALREADY_EXISTS, ''.UserAlreadyExists''),
    (GUM_ERROR_USER_GROUP_ADD_FAILURE, ''.UserGroupAddFailure''),
    (GUM_ERROR_USER_UID_NOT_AVAILABLE, ''.UidNotAvailable''),
    (GUM_ERROR_USER_INVALID_USER_TYPE, ''.InvalidUserType''),
    (GUM_ERROR_USER_SECRET_ENCRYPT_FAILURE, ''.UserEncryptFailure''),
    (GUM_ERROR_USER_NOT_FOUND, ''.UserNotFound''),
    (GUM_ERROR_USER_INVALID_DATA, ''.UserInvalidData''),
    (GUM_ERROR_USER_GROUP_DELETE_FAILURE, ''.UserGroupDeleteFailure''),
    (GUM_ERROR_USER_SELF_DESTRUCTION, ''.UserSelfDestruction''),
    (GUM_ERROR_USER_SESSION_TERM_FAILURE, ''.UserSessionTermFailure''),
    (GUM_ERROR_USER_NO_CHANGES, ''.UserNoChanges''),
    (GUM_ERROR_USER_LOCK_FAILURE, ''.UserLockFailure''),
    (GUM_ERROR_GROUP_ALREADY_EXISTS, ''.GroupAlreadyExists''),
    (GUM_ERROR_GROUP_GID_NOT_AVAILABLE, ''.GidNotAvailable''),
    (GUM_ERROR_GROUP_INVALID_GROUP_TYPE, ''.InvalidGroupType''),
    (GUM_ERROR_GROUP_SECRET_ENCRYPT_FAILURE, ''.GroupEncryptFailure''),
    (GUM_ERROR_GROUP_NOT_FOUND, ''.GroupNotFound''),
    (GUM_ERROR_GROUP_USER_ALREADY_A_MEMBER, ''.GroupUserAlreadyMember''),
    (GUM_ERROR_GROUP_INVALID_DATA, ''.GroupInvalidData''),
    (GUM_ERROR_GROUP_SELF_DESTRUCTION, ''.GroupSelfDestruction''),
    (GUM_ERROR_GROUP_HAS_USER, ''.GroupHasUser''),
    (GUM_ERROR_GROUP_NO_CHANGES, ''.GroupNoChanges''),
    (GUM_ERROR_DB_ALREADY_LOCKED, ''.DbAlreadyLocked''),
    (GUM_ERROR_FILE_OPEN, ''.FileOpenError''),
    (GUM_ERROR_FILE_ATTRIBUTE, ''.FileAttributeError''),
    (GUM_ERROR_FILE_MOVE, ''.FileMoveError''),
    (GUM_ERROR_FILE_WRITE, ''.FileWriteError''),
    (GUM_ERROR_HOME_DIR_CREATE_FAILURE, ''.HomeDirCreateFailure''),
    (GUM_ERROR_HOME_DIR_DELETE_FAILURE, ''.HomeDirDeleteFailure''),
    (GUM_ERROR_HOME_DIR_COPY_FAILURE, ''.HomeDirCopyFailure''),
    (GUM_ERROR_INVALID_NAME, ''.InvalidName''),
    (GUM_ERROR_INVALID_NICKNAME, ''.InvalidNickName''),
    (GUM_ERROR_INVALID_SECRET, ''.InvalidSecret''),
    (GUM_ERROR_INVALID_STR, ''.InvalidString''),
    (GUM_ERROR_INVALID_STR_LEN, ''.InvalidStringLength''),
    (GUM_ERROR_INVALID_INPUT, ''.InvalidInput'')]"

definition gum_errors :: "(nat \<times> string) list" where
  "gum_errors = map (\<lambda>(e, n). (gum_error_code e, error_prefix @ n)) gum_errors_suffix"

text \<open>A GError as the code builds it: the domain quark, the code and the message.\<close>

record gerror_t =
  g_domain :: "32 word"
  g_code :: int
  g_message :: string

text \<open>The \<open>(uis)\<close> GVariant that carries it over D-Bus is the triple of its fields.\<close>

definition gum_error_new_from_variant ::
    "(32 word \<times> int \<times> string) option \<Rightarrow> gerror_t option" where
  "gum_error_new_from_variant v =
     (case v of None \<Rightarrow> None
      | Some (d, c, m) \<Rightarrow> Some \<lparr>g_domain = d, g_code = c, g_message = m\<rparr>)"

definition gum_error_to_variant ::
    "gerror_t option \<Rightarrow> (32 word \<times> int \<times> string) option" where
  "gum_error_to_variant e =
     (case e of None \<Rightarrow> None | Some g \<Rightarrow> Some (g_domain g, g_code g, g_message g))"

lemma gum_error_variant_inverse:
  "gum_error_new_from_variant (gum_error_to_variant e) = e"
  by (simp add: gum_error_new_from_variant_def gum_error_to_variant_def split: option.splits)

section \<open>User and group types\<close>

text \<open>
  The user types are bits, combined into masks; the group types are an enumeration that
  the property setter stores without a check.
\<close>

type_synonym GumUserType = "32 word"

definition GUM_USERTYPE_NONE :: GumUserType where "GUM_USERTYPE_NONE = 0x00"
definition GUM_USERTYPE_SYSTEM :: GumUserType where "GUM_USERTYPE_SYSTEM = 0x01"
definition GUM_USERTYPE_ADMIN :: GumUserType where "GUM_USERTYPE_ADMIN = 0x02"
definition GUM_USERTYPE_GUEST :: GumUserType where "GUM_USERTYPE_GUEST = 0x04"
definition GUM_USERTYPE_NORMAL :: GumUserType where "GUM_USERTYPE_NORMAL = 0x08"
definition GUM_USERTYPE_SECURITY :: GumUserType where "GUM_USERTYPE_SECURITY = 0x10"

definition GUM_USERTYPE_COUNT :: nat where "GUM_USERTYPE_COUNT = 6"

definition GUM_USERTYPE_MAX_VALUE :: GumUserType where
  "GUM_USERTYPE_MAX_VALUE = push_bit (GUM_USERTYPE_COUNT - 1) 1"

lemmas usertype_defs =
  GUM_USERTYPE_NONE_def GUM_USERTYPE_SYSTEM_def GUM_USERTYPE_ADMIN_def
  GUM_USERTYPE_GUEST_def GUM_USERTYPE_NORMAL_def GUM_USERTYPE_SECURITY_def

type_synonym GumGroupType = "32 word"

definition GUM_GROUPTYPE_NONE :: GumGroupType where "GUM_GROUPTYPE_NONE = 0"
definition GUM_GROUPTYPE_SYSTEM :: GumGroupType where "GUM_GROUPTYPE_SYSTEM = 1"
definition GUM_GROUPTYPE_USER :: GumGroupType where "GUM_GROUPTYPE_USER = 2"

lemmas grouptype_defs =
  GUM_GROUPTYPE_NONE_def GUM_GROUPTYPE_SYSTEM_def GUM_GROUPTYPE_USER_def

definition user_type_strings :: "(GumUserType \<times> string) list" where
  "user_type_strings = [
     (GUM_USERTYPE_NONE, ''none''),
     (GUM_USERTYPE_SYSTEM, ''system''),
     (GUM_USERTYPE_ADMIN, ''admin''),
     (GUM_USERTYPE_GUEST, ''guest''),
     (GUM_USERTYPE_NORMAL, ''normal''),
     (GUM_USERTYPE_SECURITY, ''security'')]"

text \<open>The \<open>while (type) { type >>= 1; index++; }\<close> loop: the position of the top bit.\<close>

function user_type_index_loop :: "GumUserType \<Rightarrow> int \<Rightarrow> int" where
  "user_type_index_loop t index =
     (if t = 0 then index else user_type_index_loop (drop_bit 1 t) (index + 1))"
  by pat_completeness auto
termination
proof (relation "measure (\<lambda>(t, index). unat t)")
  fix t :: GumUserType and index :: int
  assume "t \<noteq> 0"
  then have "0 < unat t" by (simp add: unat_gt_0)
  then show "((drop_bit 1 t, index + 1), (t, index)) \<in> measure (\<lambda>(t, index). unat t)"
    by (simp add: drop_bit_Suc unat_div)
qed simp

declare user_type_index_loop.simps [simp del]

definition get_user_type_strings_index :: "GumUserType \<Rightarrow> int" where
  "get_user_type_strings_index t =
     (if t \<ge> GUM_USERTYPE_MAX_VALUE then -1 else user_type_index_loop t 0)"

definition gum_user_type_to_string :: "GumUserType \<Rightarrow> pstr" where
  "gum_user_type_to_string t =
     (let ind = get_user_type_strings_index t
      in if ind \<le> 0 \<or> ind \<ge> int GUM_USERTYPE_COUNT then None
         else Some (snd (user_type_strings ! nat ind)))"

fun user_type_from_string_loop :: "(GumUserType \<times> string) list \<Rightarrow> string \<Rightarrow> GumUserType" where
  "user_type_from_string_loop [] s = GUM_USERTYPE_NONE"
| "user_type_from_string_loop ((t, n) # rest) s =
     (if s = n then t else user_type_from_string_loop rest s)"

definition gum_user_type_from_string :: "pstr \<Rightarrow> GumUserType" where
  "gum_user_type_from_string s =
     (case s of None \<Rightarrow> GUM_USERTYPE_NONE
      | Some str \<Rightarrow> if length str \<le> 0 then GUM_USERTYPE_NONE
                    else user_type_from_string_loop user_type_strings str)"

definition gum_user_type_to_strv :: "16 word \<Rightarrow> string list" where
  "gum_user_type_to_strv types =
     map snd (filter (\<lambda>(t, n). (ucast types :: 32 word) AND t \<noteq> 0) user_type_strings)"

fun user_type_from_strv_loop :: "16 word \<Rightarrow> string list \<Rightarrow> 16 word" where
  "user_type_from_strv_loop res [] = res"
| "user_type_from_strv_loop res (s # rest) =
     user_type_from_strv_loop (ucast ((ucast res :: 32 word) OR gum_user_type_from_string (Some s)))
       rest"

definition gum_user_type_from_strv :: "string list option \<Rightarrow> 16 word" where
  "gum_user_type_from_strv types =
     (case types of None \<Rightarrow> ucast GUM_USERTYPE_NONE
      | Some strv \<Rightarrow> if length strv \<le> 0 then ucast GUM_USERTYPE_NONE
                     else user_type_from_strv_loop (ucast GUM_USERTYPE_NONE) strv)"

section \<open>The libc structures of the account databases\<close>

text \<open>
  \<^verbatim>\<open>struct passwd\<close>, \<^verbatim>\<open>struct spwd\<close>, \<^verbatim>\<open>struct group\<close> and
  \<^verbatim>\<open>struct sgrp\<close>. Pointers that the code leaves NULL are \<open>None\<close>; a
  \<open>long\<close> field of the shadow entry is an \<open>int\<close> (the code stores configuration values
  of 32 bits, a day count and -1 in it, so its width never shows).
\<close>

record passwd =
  pw_name :: pstr
  pw_passwd :: pstr
  pw_uid :: uid_t
  pw_gid :: gid_t
  pw_gecos :: pstr
  pw_dir :: pstr
  pw_shell :: pstr

record spwd =
  sp_namp :: pstr
  sp_pwdp :: pstr
  sp_lstchg :: int
  sp_min :: int
  sp_max :: int
  sp_warn :: int
  sp_inact :: int
  sp_expire :: int
  sp_flag :: "64 word"

record group_t =
  gr_name :: pstr
  gr_passwd :: pstr
  gr_gid :: gid_t
  gr_mem :: "string list option"

record sgrp =
  sg_namp :: pstr
  sg_passwd :: pstr
  sg_adm :: "string list option"
  sg_mem :: "string list option"

section \<open>Functions outside the repository\<close>

text \<open>
  GLib's string vectors, checksum, path builder and UTF-8 test, \<open>crypt(3)\<close>, and what
  logind does with its list of sessions when asked to terminate a user. Nothing is assumed of them here: a property that
  relies on one names the law it needs.
\<close>

record env =
  g_strsplit :: "string \<Rightarrow> string \<Rightarrow> string list"
  g_strjoinv :: "string \<Rightarrow> string list \<Rightarrow> string"
  g_checksum_md5 :: "string \<Rightarrow> string"
  g_build_filename :: "string list \<Rightarrow> string"
  g_utf8_validate :: "string \<Rightarrow> bool"
  libc_crypt :: "string \<Rightarrow> string \<Rightarrow> string option"

section \<open>Properties of the user types\<close>

lemma GUM_USERTYPE_MAX_VALUE_eq: "GUM_USERTYPE_MAX_VALUE = 32"
  by (simp add: GUM_USERTYPE_MAX_VALUE_def GUM_USERTYPE_COUNT_def push_bit_eq_mult)

lemma user_type_below_32:
  assumes "(t :: GumUserType) < 32"
  obtains n where "n \<in> set [0..<32]" and "t = word_of_nat n"
proof -
  have "unat t < unat (32 :: GumUserType)" using assms by (rule unat_mono)
  then have "unat t \<in> set [0..<32]" by simp
  then show ?thesis by (rule that) simp
qed

lemma user_type_top_bit:
  "\<forall>n\<in>set [1..<32].
     let t = word_of_nat n :: GumUserType; u = gum_user_type_from_string (gum_user_type_to_string t)
     in u \<in> set [1, 2, 4, 8, 16] \<and> u \<le> t \<and> t < 2 * u \<and>
        (t \<in> set [1, 2, 4, 8, 16] \<longrightarrow> u = t)"
  by code_simp

text \<open>
  A user type survives the trip through its name. More generally, for every mask of
  user types that fits in the enumeration, the name given to it denotes its highest type:
  the one bit \<open>u\<close> with \<open>u \<le> t < 2 * u\<close>.
\<close>

theorem gum_user_type_string_roundtrip:
  assumes "0 < t" and "t < GUM_USERTYPE_MAX_VALUE"
  shows "let u = gum_user_type_from_string (gum_user_type_to_string t)
         in u \<in> set [1, 2, 4, 8, 16] \<and> u \<le> t \<and> t < 2 * u \<and>
            (t \<in> set [1, 2, 4, 8, 16] \<longrightarrow> u = t)"
proof -
  obtain n where n: "n \<in> set [0..<32]" and t: "t = word_of_nat n"
    using assms(2) unfolding GUM_USERTYPE_MAX_VALUE_eq by (rule user_type_below_32)
  have "n \<noteq> 0" using assms(1) t by (cases "n = 0") auto
  with n have "n \<in> set [1..<32]" by simp
  from bspec [OF user_type_top_bit this] show ?thesis unfolding t Let_def .
qed

theorem gum_user_type_string_roundtrip_witness:
  "gum_user_type_from_string (gum_user_type_to_string 3) = 2"
  using gum_user_type_string_roundtrip [of 3]
  by (simp add: GUM_USERTYPE_MAX_VALUE_eq Let_def) auto

lemma and_power_2: "(x :: 'a::len word) AND 2 ^ n = (if bit x n then 2 ^ n else 0)"
  by (rule bit_word_eqI) (auto simp: bit_and_iff bit_exp_iff)

lemma user_types_mask:
  "(x :: 16 word) AND 31 =
     (if bit x 0 then 1 else 0) OR (if bit x 1 then 2 else 0) OR (if bit x 2 then 4 else 0) OR
     (if bit x 3 then 8 else 0) OR (if bit x 4 then 16 else 0)"
proof -
  have "x AND 31 = x AND (1 OR 2 OR 4 OR 8 OR 16)" by simp
  also have "\<dots> = (x AND 2 ^ 0) OR (x AND 2 ^ 1) OR (x AND 2 ^ 2) OR (x AND 2 ^ 3) OR (x AND 2 ^ 4)"
    by (simp only: bit.conj_disj_distrib) simp
  finally show ?thesis by (simp only: and_power_2) simp
qed

lemma ucast_and_power_2: 
  "(ucast (x :: 16 word) :: 32 word) AND 2 ^ n \<noteq> 0 \<longleftrightarrow> n < 32 \<and> bit x n"
  by (auto simp: and_power_2 bit_ucast_iff) 

lemma gum_user_type_to_strv_bits:
  "gum_user_type_to_strv x =
     (if bit x 0 then [''system''] else []) @ (if bit x 1 then [''admin''] else []) @
     (if bit x 2 then [''guest''] else []) @ (if bit x 3 then [''normal''] else []) @
     (if bit x 4 then [''security''] else [])"
  using ucast_and_power_2[of x 0] ucast_and_power_2[of x 1] ucast_and_power_2[of x 2]
     ucast_and_power_2[of x 3] ucast_and_power_2[of x 4]
  by (simp add: gum_user_type_to_strv_def user_type_strings_def usertype_defs)

lemma user_type_from_string_names:
  "gum_user_type_from_string (Some ''system'') = 1"
  "gum_user_type_from_string (Some ''admin'') = 2"
  "gum_user_type_from_string (Some ''guest'') = 4"
  "gum_user_type_from_string (Some ''normal'') = 8"
  "gum_user_type_from_string (Some ''security'') = 16"
  by code_simp+

lemma gum_user_type_from_strv_bits:
  "gum_user_type_from_strv
     (Some ((if b0 then [''system''] else []) @ (if b1 then [''admin''] else []) @
            (if b2 then [''guest''] else []) @ (if b3 then [''normal''] else []) @
            (if b4 then [''security''] else []))) =
   (if b0 then 1 else 0) OR (if b1 then 2 else 0) OR (if b2 then 4 else 0) OR
   (if b3 then 8 else 0) OR (if b4 then 16 else 0)"
  by (cases b0; cases b1; cases b2; cases b3; cases b4)
    (simp_all add: gum_user_type_from_strv_def user_type_from_string_names GUM_USERTYPE_NONE_def)

text \<open>
  Listing the names of a mask and reading the list back gives the mask, less the bits
  that belong to no user type.
\<close>

theorem gum_user_type_strv_roundtrip:
  "gum_user_type_from_strv (Some (gum_user_type_to_strv types)) = types AND 31"
  by (simp only: gum_user_type_to_strv_bits gum_user_type_from_strv_bits user_types_mask)

end
