(* ===== verification/Gum_String_Utils.thy ===== *)
theory Gum_String_Utils
  imports Gum_Types
begin

text \<open>
  \<^verbatim>\<open>src/common/gum-string-utils.c\<close>: searching, reading, replacing, deleting and
  appending in string vectors and in strings of separated fields (the gecos field of a
  passwd entry). GLib's \<open>g_strsplit\<close> and \<open>g_strjoinv\<close> are parameters; the locale
  \<open>strv_ops\<close> states their documented laws, and the laws of the fields of a string are
  proved in it once.
\<close>

section \<open>The operations\<close>

fun search_stringv_loop :: "string list \<Rightarrow> string \<Rightarrow> bool" where
  "search_stringv_loop [] s = False"
| "search_stringv_loop (x # xs) s = (if s = x then True else search_stringv_loop xs s)"

definition gum_string_utils_search_stringv :: "string list option \<Rightarrow> pstr \<Rightarrow> bool" where
  "gum_string_utils_search_stringv stringv search_str =
     (case (stringv, search_str) of
        (Some strv, Some s) \<Rightarrow> search_stringv_loop strv s
      | _ \<Rightarrow> False)"

definition gum_string_utils_search_string :: "env \<Rightarrow> pstr \<Rightarrow> pstr \<Rightarrow> pstr \<Rightarrow> bool" where
  "gum_string_utils_search_string E strings separator search_str =
     (case (strings, separator, search_str) of
        (Some strs, Some sep, Some s) \<Rightarrow>
          gum_string_utils_search_stringv (Some (g_strsplit E strs sep)) (Some s)
      | _ \<Rightarrow> False)"

definition gum_string_utils_get_string :: "env \<Rightarrow> pstr \<Rightarrow> pstr \<Rightarrow> nat \<Rightarrow> pstr" where
  "gum_string_utils_get_string E strings separator str_ind =
     (case (strings, separator) of
        (Some strs, Some sep) \<Rightarrow>
          (let strv = g_strsplit E strs sep
           in if str_ind < length strv then Some (strv ! str_ind) else None)
      | _ \<Rightarrow> None)"

text \<open>The body of the loop over \<open>dest_ind\<close> in \<open>gum_string_utils_insert_string\<close>.\<close>

definition insert_string_field :: "string list \<Rightarrow> string \<Rightarrow> nat \<Rightarrow> nat \<Rightarrow> string" where
  "insert_string_field src_strv str_to_insert str_ind dest_ind =
     (if dest_ind = str_ind then str_to_insert
      else if dest_ind < length src_strv then src_strv ! dest_ind
      else [])"

definition gum_string_utils_insert_string ::
    "env \<Rightarrow> pstr \<Rightarrow> pstr \<Rightarrow> pstr \<Rightarrow> nat \<Rightarrow> nat \<Rightarrow> pstr" where
  "gum_string_utils_insert_string E strings separator str_to_insert str_ind total_strings =
     (case (separator, str_to_insert) of
        (Some sep, Some str) \<Rightarrow>
          if str_ind \<ge> total_strings then None
          else
            (let src_strv = (case strings of None \<Rightarrow> [] | Some s \<Rightarrow> g_strsplit E s sep);
                 dest_strv = map (insert_string_field src_strv str str_ind) [0..<total_strings]
             in Some (g_strjoinv E sep dest_strv))
      | _ \<Rightarrow> None)"

fun delete_string_loop :: "string list \<Rightarrow> string \<Rightarrow> string list" where
  "delete_string_loop [] s = []"
| "delete_string_loop (x # xs) s =
     (if x \<noteq> s then x # delete_string_loop xs s else delete_string_loop xs s)"

definition gum_string_utils_delete_string ::
    "string list option \<Rightarrow> pstr \<Rightarrow> string list option" where
  "gum_string_utils_delete_string src_strv str =
     (if \<not> gum_string_utils_search_stringv src_strv str then None
      else (case (src_strv, str) of
              (Some strv, Some s) \<Rightarrow> Some (delete_string_loop strv s)
            | _ \<Rightarrow> None))"

text \<open>Appending NULL terminates the copy at the old length.\<close>

definition gum_string_utils_append_string ::
    "string list option \<Rightarrow> pstr \<Rightarrow> string list option" where
  "gum_string_utils_append_string src_strv str =
     Some ((case src_strv of None \<Rightarrow> [] | Some strv \<Rightarrow> strv) @
           (case str of None \<Rightarrow> [] | Some s \<Rightarrow> [s]))"

section \<open>Lemmas on string vectors\<close>

lemma search_stringv_loop_iff [simp]: "search_stringv_loop xs s \<longleftrightarrow> s \<in> set xs"
  by (induction xs) auto

lemma delete_string_loop_eq [simp]: "delete_string_loop xs s = removeAll s xs"
  by (induction xs) auto

lemma search_stringv_iff:
  "gum_string_utils_search_stringv v s \<longleftrightarrow> (\<exists>xs x. v = Some xs \<and> s = Some x \<and> x \<in> set xs)"
  by (auto simp: gum_string_utils_search_stringv_def split: option.splits)

lemma search_stringv_Some [simp]:
  "gum_string_utils_search_stringv (Some xs) (Some x) \<longleftrightarrow> x \<in> set xs"
  by (simp add: search_stringv_iff)

lemma search_stringv_None [simp]:
  "\<not> gum_string_utils_search_stringv None s" "\<not> gum_string_utils_search_stringv v None"
  by (simp_all add: search_stringv_iff)

lemma delete_string_Some [simp]:
  "gum_string_utils_delete_string (Some xs) (Some x) =
     (if x \<in> set xs then Some (removeAll x xs) else None)"
  by (simp add: gum_string_utils_delete_string_def)

lemma append_string_Some [simp]:
  "gum_string_utils_append_string (Some xs) (Some x) = Some (xs @ [x])"
  by (simp add: gum_string_utils_append_string_def)

lemma delete_append_string:
  "gum_string_utils_delete_string (gum_string_utils_append_string (Some v) (Some s)) (Some s) =
     Some (removeAll s v)"
  by simp

section \<open>The laws of GLib's string vectors\<close>

text \<open>
  For a separator of one character: joining pieces that do not contain it and splitting
  the result gives the pieces back (the empty string is the exception: GLib documents that
  it splits into no piece), splitting gives pieces without the separator, and joining the
  pieces of a string restores it.
\<close>

locale strv_ops =
  fixes split :: "string \<Rightarrow> string \<Rightarrow> string list"
    and join :: "string \<Rightarrow> string list \<Rightarrow> string"
  assumes split_empty: "split [] [c] = []"
    and split_join: "xs \<noteq> [] \<Longrightarrow> xs \<noteq> [[]] \<Longrightarrow> \<forall>x\<in>set xs. c \<notin> set x \<Longrightarrow>
                     split (join [c] xs) [c] = xs"
    and split_pieces: "x \<in> set (split s [c]) \<Longrightarrow> c \<notin> set x"
    and join_split: "join [c] (split s [c]) = s"
begin

lemma split_eq_Nil_iff: "split s [c] = [] \<longleftrightarrow> s = []"
proof
  assume "split s [c] = []"
  then have "join [c] [] = s" using join_split [of c s] by simp
  moreover have "join [c] [] = []" using join_split [of c "[]"] split_empty [of c] by simp
  ultimately show "s = []" by simp
qed (simp add: split_empty)

end

text \<open>
  The environment whose string vectors obey the laws: what the clients of this theory
  assume, and the laws of the fields of a separated string that follow.
\<close>

locale gecos_env =
  fixes E :: env
  assumes strv: "strv_ops (g_strsplit E) (g_strjoinv E)"

sublocale gecos_env \<subseteq> strv_ops "g_strsplit E" "g_strjoinv E"
  by (rule strv)

context gecos_env
begin

lemma get_string_no_sep:
  "gum_string_utils_get_string E s (Some [c]) i = Some v \<Longrightarrow> c \<notin> set v"
  by (auto simp: gum_string_utils_get_string_def Let_def dest: split_pieces [OF nth_mem]
           split: option.splits if_splits)

lemma get_string_None_iff:
  "gum_string_utils_get_string E s (Some [c]) 0 = None \<longleftrightarrow> s = None \<or> s = Some []"
  by (auto simp: gum_string_utils_get_string_def Let_def split_eq_Nil_iff split: option.splits)

lemma insert_string_Some_iff:
  "(\<exists>g. gum_string_utils_insert_string E s (Some sep) v i n = Some g) \<longleftrightarrow> v \<noteq> None \<and> i < n"
  by (auto simp: gum_string_utils_insert_string_def Let_def split: option.splits)

lemma get_insert_string:
  assumes "c \<notin> set v" and "i < n" and "1 < n" and "j < n"
  shows "gum_string_utils_get_string E
           (gum_string_utils_insert_string E s (Some [c]) (Some v) i n) (Some [c]) j =
         Some (if j = i then v
               else case gum_string_utils_get_string E s (Some [c]) j of None \<Rightarrow> [] | Some x \<Rightarrow> x)"
proof -
  define src where "src = (case s of None \<Rightarrow> [] | Some t \<Rightarrow> g_strsplit E t [c])"
  define dest where "dest = map (insert_string_field src v i) [0..<n]"
  have src: "\<forall>x\<in>set src. c \<notin> set x"
    by (auto simp: src_def dest: split_pieces split: option.splits)
  have "\<forall>x\<in>set dest. c \<notin> set x"
    using assms(1) src by (auto simp: dest_def insert_string_field_def)
  moreover have "dest \<noteq> []" and "dest \<noteq> [[]]"
    using assms(3) by (auto simp: dest_def dest!: arg_cong [of _ "[[]]" length])
  ultimately have split: "g_strsplit E (g_strjoinv E [c] dest) [c] = dest"
    by (intro split_join)
  have ins: "gum_string_utils_insert_string E s (Some [c]) (Some v) i n = Some (g_strjoinv E [c] dest)"
    using assms(2) by (simp add: gum_string_utils_insert_string_def dest_def src_def Let_def)
  have len: "length dest = n" by (simp add: dest_def)
  have "gum_string_utils_get_string E (Some (g_strjoinv E [c] dest)) (Some [c]) j = Some (dest ! j)"
    using split len assms(4) by (simp add: gum_string_utils_get_string_def)
  moreover have "dest ! j = insert_string_field src v i j"
    using assms(4) by (simp add: dest_def)
  ultimately show ?thesis
    using ins by (auto simp: insert_string_field_def src_def gum_string_utils_get_string_def Let_def
                       split: option.splits)
qed

end

section \<open>A reference implementation of the laws\<close>

text \<open>
  Executable string vectors with the behaviour GLib documents for \<open>g_strsplit\<close> with an
  unbounded number of tokens and \<open>g_strjoinv\<close>, for separators of one character. They are
  no part of the model: they show that the laws can hold, and let closed instances of the
  model be evaluated.
\<close>

fun ref_split_aux :: "char \<Rightarrow> string \<Rightarrow> string list" where
  "ref_split_aux c [] = [[]]"
| "ref_split_aux c (x # s) =
     (if x = c then [] # ref_split_aux c s
      else (case ref_split_aux c s of [] \<Rightarrow> [[x]] | p # ps \<Rightarrow> (x # p) # ps))"

fun ref_strsplit :: "string \<Rightarrow> string \<Rightarrow> string list" where
  "ref_strsplit s sep =
     (if s = [] then [] else case sep of [c] \<Rightarrow> ref_split_aux c s | _ \<Rightarrow> [s])"

fun ref_strjoinv :: "string \<Rightarrow> string list \<Rightarrow> string" where
  "ref_strjoinv sep [] = []"
| "ref_strjoinv sep [x] = x"
| "ref_strjoinv sep (x # y # xs) = x @ sep @ ref_strjoinv sep (y # xs)"

lemma ref_split_aux_ne: "ref_split_aux c s \<noteq> []"
  by (induction s) (auto split: list.splits)

lemma ref_split_aux_append:
  "c \<notin> set x \<Longrightarrow> ref_split_aux c (x @ c # s) = x # ref_split_aux c s"
  by (induction x) auto

lemma ref_split_aux_single: "c \<notin> set x \<Longrightarrow> ref_split_aux c x = [x]"
  by (induction x) auto

lemma ref_split_aux_join:
  "xs \<noteq> [] \<Longrightarrow> \<forall>x\<in>set xs. c \<notin> set x \<Longrightarrow> ref_split_aux c (ref_strjoinv [c] xs) = xs"
  by (induction "[c]" xs rule: ref_strjoinv.induct)
    (auto simp: ref_split_aux_append ref_split_aux_single)

lemma ref_split_aux_pieces: "x \<in> set (ref_split_aux c s) \<Longrightarrow> c \<notin> set x"
  by (induction s arbitrary: x) (auto split: if_splits list.splits)

lemma ref_join_Cons_Cons:
  "xs \<noteq> [] \<Longrightarrow> ref_strjoinv sep ((a # x) # xs') = a # ref_strjoinv sep (x # xs')"
  by (cases xs') auto

lemma ref_join_split_aux: "ref_strjoinv [c] (ref_split_aux c s) = s"
proof (induction s)
  case Nil
  then show ?case by simp
next
  case (Cons a s)
  obtain p ps where "ref_split_aux c s = p # ps"
    using ref_split_aux_ne [of c s] by (cases "ref_split_aux c s") auto
  with Cons show ?case by (cases ps) auto
qed

lemma ref_join_eq_Nil: "ref_strjoinv [c] xs = [] \<Longrightarrow> xs = [] \<or> xs = [[]]"
  by (induction "[c]" xs rule: ref_strjoinv.induct) auto

interpretation ref_strv: strv_ops ref_strsplit ref_strjoinv
proof unfold_locales
  fix c :: char and xs :: "string list"
  assume xs: "xs \<noteq> []" "xs \<noteq> [[]]" "\<forall>x\<in>set xs. c \<notin> set x"
  then have "ref_strjoinv [c] xs \<noteq> []" using ref_join_eq_Nil by blast
  with xs show "ref_strsplit (ref_strjoinv [c] xs) [c] = xs"
    by (simp add: ref_split_aux_join)
qed (auto simp: ref_split_aux_pieces ref_join_split_aux split: if_splits)

text \<open>An environment to evaluate closed instances in.\<close>

fun ref_build_filename :: "string list \<Rightarrow> string" where
  "ref_build_filename [] = []"
| "ref_build_filename [x] = x"
| "ref_build_filename (x # y # xs) =
     rev (dropWhile (\<lambda>c. c = CHR ''/'') (rev x)) @ ''/'' @
     ref_build_filename (dropWhile (\<lambda>c. c = CHR ''/'') y # xs)"

definition ref_env :: env where
  "ref_env = \<lparr>g_strsplit = ref_strsplit, g_strjoinv = ref_strjoinv,
     g_checksum_md5 = (\<lambda>s. ''0cc175b9c0f1b6a831c399e269772661''),
     g_build_filename = ref_build_filename, g_utf8_validate = (\<lambda>s. True),
     libc_crypt = (\<lambda>secret salt.
       Some (take (if take 3 salt = ''$1$'' then 11 else 19) salt @ ''$'' @ secret))\<rparr>"

interpretation ref: gecos_env ref_env
  by (rule gecos_env.intro) (simp add: ref_env_def ref_strv.strv_ops_axioms)

section \<open>Properties\<close>

text \<open>
  Writing field \<open>i\<close> of an \<open>n\<close>-field string and reading field \<open>j\<close> back gives the
  value written if \<open>j = i\<close>, and the old field (the empty string if there was none)
  otherwise: no write disturbs a neighbour, whatever the value, as long as it holds no
  separator.
\<close>

theorem gum_string_utils_insert_get:
  assumes "strv_ops (g_strsplit E) (g_strjoinv E)"
    and "c \<notin> set v" and "i < n" and "1 < n" and "j < n"
  shows "gum_string_utils_get_string E
           (gum_string_utils_insert_string E s (Some [c]) (Some v) i n) (Some [c]) j =
         Some (if j = i then v
               else case gum_string_utils_get_string E s (Some [c]) j of None \<Rightarrow> [] | Some x \<Rightarrow> x)"
  using assms by (intro gecos_env.get_insert_string gecos_env.intro)

theorem gum_string_utils_insert_get_witness:
  "gum_string_utils_get_string ref_env
     (gum_string_utils_insert_string ref_env (Some ''Ann,,12'') (Some '','') (Some ''normal'') 4 5)
     (Some '','') 2 = Some ''12''"
proof -
  have "strv_ops (g_strsplit ref_env) (g_strjoinv ref_env)" by (rule ref.strv)
  from gum_string_utils_insert_get [OF this, of "CHR '',''" "''normal''" 4 5 2 "Some ''Ann,,12''"]
  show ?thesis by (simp add: gum_string_utils_get_string_def ref_env_def)
qed

end
