(* ===== verification/Gum_Validate.thy ===== *)
theory Gum_Validate
  imports Gum_String_Utils
begin

text \<open>
  \<^verbatim>\<open>src/common/gum-validate.c\<close> and the patterns of
  \<^verbatim>\<open>include/gum/common/gum-validate.h\<close>. The two POSIX patterns are anchored and have
  no back reference, so matching one is membership in the language of a regular
  expression; they are regular expressions of a small datatype, matched by derivatives,
  and the character classes are those of the C locale (the program never calls
  \<open>setlocale\<close>). A validation returns \<open>Inr ()\<close> for TRUE and \<open>Inl\<close> the error it sets for
  FALSE. \<open>regcomp\<close> of the two constant patterns succeeds.
\<close>

section \<open>Regular expressions\<close>

datatype rx = REmpty | REps | RCls "char \<Rightarrow> bool" | RAlt rx rx | RSeq rx rx | RStar rx

fun nullable :: "rx \<Rightarrow> bool" where
  "nullable REmpty = False"
| "nullable REps = True"
| "nullable (RCls p) = False"
| "nullable (RAlt r s) = (nullable r \<or> nullable s)"
| "nullable (RSeq r s) = (nullable r \<and> nullable s)"
| "nullable (RStar r) = True"

fun deriv :: "char \<Rightarrow> rx \<Rightarrow> rx" where
  "deriv c REmpty = REmpty"
| "deriv c REps = REmpty"
| "deriv c (RCls p) = (if p c then REps else REmpty)"
| "deriv c (RAlt r s) = RAlt (deriv c r) (deriv c s)"
| "deriv c (RSeq r s) =
     (if nullable r then RAlt (RSeq (deriv c r) s) (deriv c s) else RSeq (deriv c r) s)"
| "deriv c (RStar r) = RSeq (deriv c r) (RStar r)"

fun regexec :: "rx \<Rightarrow> string \<Rightarrow> bool" where
  "regexec r [] = nullable r"
| "regexec r (c # s) = regexec (deriv c r) s"

fun lang :: "rx \<Rightarrow> string set" where
  "lang REmpty = {}"
| "lang REps = {[]}"
| "lang (RCls p) = {[c] |c. p c}"
| "lang (RAlt r s) = lang r \<union> lang s"
| "lang (RSeq r s) = {u @ v |u v. u \<in> lang r \<and> v \<in> lang s}"
| "lang (RStar r) = {concat ws |ws. set ws \<subseteq> lang r}"

lemma nullable_iff: "nullable r \<longleftrightarrow> [] \<in> lang r"
  by (induction r) (auto intro: exI [of _ "[]"])

lemma concat_eq_Cons:
  "concat ws = c # s \<Longrightarrow> \<exists>w ws'. (c # w) \<in> set ws \<and> set ws' \<subseteq> set ws \<and> s = w @ concat ws'"
proof (induction ws)
  case Nil
  then show ?case by simp
next
  case (Cons w ws)
  show ?case
  proof (cases w)
    case Nil
    with Cons show ?thesis by auto
  next
    case (Cons a w')
    with \<open>concat (w # ws) = c # s\<close> show ?thesis
      by (intro exI [of _ w'] exI [of _ ws]) auto
  qed
qed

lemma deriv_lang: "s \<in> lang (deriv c r) \<longleftrightarrow> c # s \<in> lang r"
proof (induction r arbitrary: s)
  case (RSeq r1 r2)
  show ?case
    by (auto simp: RSeq.IH nullable_iff append_eq_Cons_conv Cons_eq_append_conv)
next
  case (RStar r)
  show ?case
  proof
    assume "s \<in> lang (deriv c (RStar r))"
    then obtain u ws where "s = u @ concat ws" "c # u \<in> lang r" "set ws \<subseteq> lang r"
      by (auto simp: RStar.IH)
    then show "c # s \<in> lang (RStar r)" by (auto intro!: exI [of _ "(c # u) # ws"])
  next
    assume "c # s \<in> lang (RStar r)"
    then obtain ws where "c # s = concat ws" "set ws \<subseteq> lang r" by auto
    then obtain w ws' where "c # w \<in> lang r" "set ws' \<subseteq> lang r" "s = w @ concat ws'"
      using concat_eq_Cons [of ws c s] by fastforce
    then show "s \<in> lang (deriv c (RStar r))" by (auto simp: RStar.IH)
  qed
qed auto

lemma regexec_iff: "regexec r s \<longleftrightarrow> s \<in> lang r"
  by (induction s arbitrary: r) (auto simp: nullable_iff deriv_lang)

lemma lang_RStar_RCls: "lang (RStar (RCls p)) = {s. \<forall>c\<in>set s. p c}"
proof (intro set_eqI iffI)
  fix s
  assume "s \<in> lang (RStar (RCls p))"
  then show "s \<in> {s. \<forall>c\<in>set s. p c}" by fastforce
next
  fix s
  assume "s \<in> {s. \<forall>c\<in>set s. p c}"
  then show "s \<in> lang (RStar (RCls p))"
    by (auto intro!: exI [of _ "map (\<lambda>c. [c]) s"] simp: concat_map_singleton)
qed

section \<open>Character classes\<close>

definition char_in :: "nat \<Rightarrow> nat \<Rightarrow> char \<Rightarrow> bool" where
  "char_in lo hi c \<longleftrightarrow> lo \<le> (of_char c :: nat) \<and> (of_char c :: nat) \<le> hi"

definition is_alpha :: "char \<Rightarrow> bool" where
  "is_alpha c \<longleftrightarrow> char_in 0x41 0x5A c \<or> char_in 0x61 0x7A c"

definition is_digit :: "char \<Rightarrow> bool" where
  "is_digit c \<longleftrightarrow> char_in 0x30 0x39 c"

definition is_cntrl :: "char \<Rightarrow> bool" where
  "is_cntrl c \<longleftrightarrow> char_in 0x00 0x1F c \<or> c = CHR 0x7F"

definition hex_digit :: "char \<Rightarrow> bool" where
  "hex_digit c \<longleftrightarrow> is_digit c \<or> char_in 0x61 0x66 c"

text \<open>\<^verbatim>\<open>^[A-Za-z_][A-Za-z0-9_.-]*[A-Za-z0-9_.$-]\?$\<close>\<close>

definition name_start :: "char \<Rightarrow> bool" where
  "name_start c \<longleftrightarrow> is_alpha c \<or> c = CHR ''_''"

definition name_mid :: "char \<Rightarrow> bool" where
  "name_mid c \<longleftrightarrow> is_alpha c \<or> is_digit c \<or> c = CHR ''_'' \<or> c = CHR ''.'' \<or> c = CHR ''-''"

definition name_end :: "char \<Rightarrow> bool" where
  "name_end c \<longleftrightarrow> name_mid c \<or> c = CHR ''$''"

definition GUM_NAME_PATTERN :: rx where
  "GUM_NAME_PATTERN =
     RSeq (RCls name_start) (RSeq (RStar (RCls name_mid)) (RAlt (RCls name_end) REps))"

text \<open>\<^verbatim>\<open>^[^\x2C\x3A[:cntrl:]]*$\<close>\<close>

definition GUM_DB_ENTRY_PATTERN :: rx where
  "GUM_DB_ENTRY_PATTERN = RStar (RCls (\<lambda>c. c \<noteq> CHR 0x2C \<and> c \<noteq> CHR 0x3A \<and> \<not> is_cntrl c))"

section \<open>The validation functions\<close>

definition UT_NAMESIZE :: nat where "UT_NAMESIZE = 32"

definition gum_validate_name :: "pstr \<Rightarrow> GumError + unit" where
  "gum_validate_name name =
     (case name of
        None \<Rightarrow> Inl GUM_ERROR_INVALID_NAME
      | Some s \<Rightarrow>
          if length s = 0 \<or> length s > UT_NAMESIZE then Inl GUM_ERROR_INVALID_NAME
          else if \<not> regexec GUM_NAME_PATTERN s then Inl GUM_ERROR_INVALID_NAME
          else Inr ())"

definition gum_validate_generate_username :: "env \<Rightarrow> pstr \<Rightarrow> GumError + string" where
  "gum_validate_generate_username E str =
     (case str of
        None \<Rightarrow> Inl GUM_ERROR_INVALID_NAME
      | Some s \<Rightarrow>
          if length s = 0 then Inl GUM_ERROR_INVALID_NAME
          else
            (let hid = g_checksum_md5 E s;
                 gen_name = (if \<not> is_alpha (hid ! 0) then hid[0 := CHR ''U''] else hid)
             in case gum_validate_name (Some gen_name) of
                  Inl e \<Rightarrow> Inl e
                | Inr _ \<Rightarrow> Inr gen_name))"

definition gum_validate_db_string_entry_regx :: "pstr \<Rightarrow> GumError + unit" where
  "gum_validate_db_string_entry_regx str =
     (case str of
        None \<Rightarrow> Inl GUM_ERROR_INVALID_STR
      | Some s \<Rightarrow> if \<not> regexec GUM_DB_ENTRY_PATTERN s then Inl GUM_ERROR_INVALID_STR else Inr ())"

definition db_string_invalid :: "char list" where
  "db_string_invalid =
     [CHR 0x01, CHR 0x02, CHR 0x03, CHR 0x04, CHR 0x05, CHR 0x06, CHR 0x07,
      CHR 0x08, CHR 0x09, CHR 0x0A, CHR 0x0B, CHR 0x0C, CHR 0x0D, CHR 0x0E, CHR 0x0F,
      CHR 0x10, CHR 0x11, CHR 0x12, CHR 0x13, CHR 0x14, CHR 0x15, CHR 0x16, CHR 0x17,
      CHR 0x18, CHR 0x19, CHR 0x1A, CHR 0x1B, CHR 0x1C, CHR 0x1D, CHR 0x1E, CHR 0x1F,
      CHR 0x7F, CHR 0x2C, CHR 0x3A]"

definition db_secret_invalid :: "char list" where
  "db_secret_invalid =
     [CHR 0x01, CHR 0x02, CHR 0x03, CHR 0x04, CHR 0x05, CHR 0x06, CHR 0x07,
      CHR 0x08, CHR 0x09, CHR 0x0A, CHR 0x0B, CHR 0x0C, CHR 0x0D, CHR 0x0E, CHR 0x0F,
      CHR 0x10, CHR 0x11, CHR 0x12, CHR 0x13, CHR 0x14, CHR 0x15, CHR 0x16, CHR 0x17,
      CHR 0x18, CHR 0x19, CHR 0x1A, CHR 0x1B, CHR 0x1C, CHR 0x1D, CHR 0x1E, CHR 0x1F,
      CHR 0x7F, CHR 0x3A]"

text \<open>\<open>strpbrk(s, invalid) != NULL\<close>\<close>

definition strpbrk :: "string \<Rightarrow> char list \<Rightarrow> bool" where
  "strpbrk s invalid = list_ex (\<lambda>c. List.member invalid c) s"

definition gum_validate_db_string_entry :: "pstr \<Rightarrow> GumError + unit" where
  "gum_validate_db_string_entry str =
     (case str of
        None \<Rightarrow> Inl GUM_ERROR_INVALID_STR
      | Some s \<Rightarrow>
          if length s > 0 \<and> strpbrk s db_string_invalid then Inl GUM_ERROR_INVALID_STR
          else Inr ())"

definition gum_validate_db_secret_entry :: "pstr \<Rightarrow> GumError + unit" where
  "gum_validate_db_secret_entry str =
     (case str of
        None \<Rightarrow> Inl GUM_ERROR_INVALID_SECRET
      | Some s \<Rightarrow>
          if strpbrk s db_secret_invalid then Inl GUM_ERROR_INVALID_SECRET else Inr ())"

abbreviation valid :: "GumError + unit \<Rightarrow> bool" where
  "valid r \<equiv> (r = Inr ())"

section \<open>Lemmas\<close>

lemma lang_name_pattern:
  "s \<in> lang GUM_NAME_PATTERN \<longleftrightarrow>
   s \<noteq> [] \<and> name_start (hd s) \<and> (\<forall>c\<in>set (butlast (tl s)). name_mid c) \<and>
   (tl s \<noteq> [] \<longrightarrow> name_end (last s))"
proof
  assume "s \<in> lang GUM_NAME_PATTERN"
  then obtain x u v where "s = x @ u @ v" "x \<in> lang (RCls name_start)"
    "u \<in> {s. \<forall>c\<in>set s. name_mid c}" "v \<in> lang (RAlt (RCls name_end) REps)"
    unfolding GUM_NAME_PATTERN_def lang.simps(5) lang_RStar_RCls by blast
  then obtain a where "s = a # u @ v" "name_start a" "\<forall>c\<in>set u. name_mid c"
    "v = [] \<or> (\<exists>c. v = [c] \<and> name_end c)" by auto
  moreover from this have "u \<noteq> [] \<Longrightarrow> v = [] \<Longrightarrow> name_end (last u)"
    by (auto simp: name_end_def)
  ultimately show "s \<noteq> [] \<and> name_start (hd s) \<and> (\<forall>c\<in>set (butlast (tl s)). name_mid c) \<and>
      (tl s \<noteq> [] \<longrightarrow> name_end (last s))"
    by (auto simp: butlast_append dest: in_set_butlastD)
next
  assume A: "s \<noteq> [] \<and> name_start (hd s) \<and> (\<forall>c\<in>set (butlast (tl s)). name_mid c) \<and>
    (tl s \<noteq> [] \<longrightarrow> name_end (last s))"
  then obtain a t where s: "s = a # t" by (cases s) auto
  show "s \<in> lang GUM_NAME_PATTERN"
  proof (cases "t = []")
    case True
    with A s have "[a] \<in> lang (RCls name_start)" by simp
    moreover have "[] \<in> lang (RStar (RCls name_mid))" unfolding lang_RStar_RCls by simp
    moreover have "[] \<in> lang (RAlt (RCls name_end) REps)" by simp
    ultimately show ?thesis
      unfolding GUM_NAME_PATTERN_def lang.simps(5) s True
      by (metis (mono_tags, lifting) append_Nil2 mem_Collect_eq)
  next
    case False
    then have "t = butlast t @ [last t]" by simp
    moreover have "[a] \<in> lang (RCls name_start)" using A s by simp
    moreover have "butlast t \<in> lang (RStar (RCls name_mid))"
      using A s unfolding lang_RStar_RCls by simp
    moreover have "[last t] \<in> lang (RAlt (RCls name_end) REps)" using A s False by simp
    ultimately show ?thesis
      unfolding GUM_NAME_PATTERN_def lang.simps(5) s
      by (metis (mono_tags, lifting) append_Cons append_Nil mem_Collect_eq)
  qed
qed

lemma gum_validate_name_iff:
  "valid (gum_validate_name n) \<longleftrightarrow>
     (\<exists>s. n = Some s \<and> 0 < length s \<and> length s \<le> UT_NAMESIZE \<and> name_start (hd s) \<and>
          (\<forall>c\<in>set (butlast (tl s)). name_mid c) \<and> (tl s \<noteq> [] \<longrightarrow> name_end (last s)))"
  by (auto simp: gum_validate_name_def regexec_iff lang_name_pattern split: option.splits if_splits)

lemma name_chars:
  assumes "valid (gum_validate_name (Some s))" and "c \<in> set s"
  shows "name_end c"
proof -
  from assms(1) have s: "s \<noteq> []" "name_start (hd s)" "\<forall>c\<in>set (butlast (tl s)). name_mid c"
    "tl s \<noteq> [] \<longrightarrow> name_end (last s)"
    by (auto simp: gum_validate_name_iff)
  from assms(2) s(1) consider "c = hd s" | "c \<in> set (tl s)" by (cases s) auto
  then show ?thesis
  proof cases
    case 1
    with s(2) show ?thesis by (auto simp: name_start_def name_end_def name_mid_def)
  next
    case 2
    then have "tl s \<noteq> []" by auto
    then have "set (tl s) = set (butlast (tl s)) \<union> {last (tl s)}"
      by (metis append_butlast_last_id set_append list.set(1,2))
    with 2 s(3,4) \<open>tl s \<noteq> []\<close> show ?thesis
      by (auto simp: name_end_def last_tl)
  qed
qed

lemma name_end_not_special:
  "name_end c \<Longrightarrow> c \<noteq> CHR '':'' \<and> c \<noteq> CHR '','' \<and> c \<noteq> CHR ''/'' \<and> \<not> is_cntrl c"
  by (auto simp: name_end_def name_mid_def is_alpha_def is_digit_def char_in_def is_cntrl_def)

lemma of_char_inject: "(of_char c :: nat) = of_char d \<longleftrightarrow> c = d"
  by (simp add: of_char_eq_iff)

lemma is_cntrl_member:
  "is_cntrl c \<and> c \<noteq> CHR 0x00 \<or> c = CHR '','' \<or> c = CHR '':'' \<longleftrightarrow> c \<in> set db_string_invalid"
  unfolding is_cntrl_def char_in_def db_string_invalid_def
  by (simp add: of_char_inject [symmetric]) presburger

lemma strpbrk_iff [simp]: "strpbrk s cs \<longleftrightarrow> (\<exists>c\<in>set s. c \<in> set cs)"
  by (auto simp: strpbrk_def list_ex_iff)

lemma gum_validate_db_string_entry_iff:
  assumes "CHR 0x00 \<notin> set s"
  shows "valid (gum_validate_db_string_entry (Some s)) \<longleftrightarrow>
           (\<forall>c\<in>set s. c \<noteq> CHR '','' \<and> c \<noteq> CHR '':'' \<and> \<not> is_cntrl c)"
proof -
  have "valid (gum_validate_db_string_entry (Some s)) \<longleftrightarrow> (\<forall>c\<in>set s. c \<notin> set db_string_invalid)"
    by (auto simp: gum_validate_db_string_entry_def)
  also have "\<dots> \<longleftrightarrow> (\<forall>c\<in>set s. c \<noteq> CHR '','' \<and> c \<noteq> CHR '':'' \<and> \<not> is_cntrl c)"
    using assms by (auto simp flip: is_cntrl_member)
  finally show ?thesis .
qed

lemma db_string_no_sep:
  "valid (gum_validate_db_string_entry (Some s)) \<Longrightarrow> CHR '','' \<notin> set s \<and> CHR '':'' \<notin> set s \<and> CHR 0x0A \<notin> set s"
  by (auto simp: gum_validate_db_string_entry_def db_string_invalid_def split: if_splits)

lemma db_secret_no_sep:
  "valid (gum_validate_db_secret_entry (Some s)) \<Longrightarrow> CHR '':'' \<notin> set s \<and> CHR 0x0A \<notin> set s"
  by (auto simp: gum_validate_db_secret_entry_def db_secret_invalid_def split: if_splits)

lemma hex_digit_name_mid: "hex_digit c \<Longrightarrow> name_mid c"
  by (auto simp: hex_digit_def name_mid_def is_alpha_def char_in_def)

section \<open>Properties\<close>

text \<open>
  The name check accepts exactly the names of 1 to 32 characters that start with a
  letter or an underscore, go on with letters, digits, underscores, dots and dashes, and
  may end in a dollar sign. So no accepted name can break a line of a database or a path:
  it holds no colon, comma, slash or control character.
\<close>

theorem gum_validate_name_accepts:
  "(gum_validate_name n = Inr ()) \<longleftrightarrow>
     (\<exists>s. n = Some s \<and> 0 < length s \<and> length s \<le> 32 \<and> name_start (hd s) \<and>
          (\<forall>c\<in>set (butlast (tl s)). name_mid c) \<and> (tl s = [] \<or> name_end (last s)) \<and>
          (\<forall>c\<in>set s. c \<noteq> CHR '':'' \<and> c \<noteq> CHR '','' \<and> c \<noteq> CHR ''/'' \<and> \<not> is_cntrl c))"
  (is "?L \<longleftrightarrow> ?R")
proof
  assume L: ?L
  then obtain s where s: "n = Some s" "0 < length s" "length s \<le> UT_NAMESIZE"
    "name_start (hd s)" "\<forall>c\<in>set (butlast (tl s)). name_mid c" "tl s \<noteq> [] \<longrightarrow> name_end (last s)"
    by (auto simp: gum_validate_name_iff)
  have "\<forall>c\<in>set s. c \<noteq> CHR '':'' \<and> c \<noteq> CHR '','' \<and> c \<noteq> CHR ''/'' \<and> \<not> is_cntrl c"
    using name_chars [OF L [unfolded s(1)]] name_end_not_special by blast
  with s show ?R by (auto simp: UT_NAMESIZE_def)
next
  assume ?R
  then show ?L by (auto simp: gum_validate_name_iff UT_NAMESIZE_def)
qed

theorem gum_validate_name_accepts_witness:
  "gum_validate_name (Some ''a$'') = Inr ()"
  unfolding gum_validate_name_accepts
  by (simp add: name_start_def name_end_def name_mid_def is_alpha_def char_in_def is_cntrl_def)

text \<open>
  The hand-written check of a database field and the pattern check of the same field
  accept the same C strings (a C string holds no NUL).
\<close>

theorem gum_validate_db_string_entry_equiv:
  assumes "CHR 0x00 \<notin> set s"
  shows "gum_validate_db_string_entry (Some s) = gum_validate_db_string_entry_regx (Some s)"
proof -
  have "regexec GUM_DB_ENTRY_PATTERN s \<longleftrightarrow> (\<forall>c\<in>set s. c \<noteq> CHR '','' \<and> c \<noteq> CHR '':'' \<and> \<not> is_cntrl c)"
    unfolding GUM_DB_ENTRY_PATTERN_def regexec_iff lang_RStar_RCls by simp
  then show ?thesis
    using gum_validate_db_string_entry_iff [OF assms]
    by (auto simp: gum_validate_db_string_entry_regx_def gum_validate_db_string_entry_def
             split: if_splits)
qed

theorem gum_validate_db_string_entry_equiv_witness:
  "gum_validate_db_string_entry_regx (Some ''a:b'') = Inl GUM_ERROR_INVALID_STR"
  using gum_validate_db_string_entry_equiv [of "''a:b''"]
  by (simp add: gum_validate_db_string_entry_def db_string_invalid_def)

text \<open>
  What GLib documents of an MD5 checksum: 32 hexadecimal digits.
\<close>

locale checksum_env =
  fixes E :: env
  assumes md5_length: "length (g_checksum_md5 E s) = 32"
    and md5_hex: "c \<in> set (g_checksum_md5 E s) \<Longrightarrow> hex_digit c"
begin

lemma generate_username_valid:
  assumes "s \<noteq> []"
  shows "\<exists>n. gum_validate_generate_username E (Some s) = Inr n \<and>
             valid (gum_validate_name (Some n)) \<and> length n = 32"
proof -
  define hid where "hid = g_checksum_md5 E s"
  define n where "n = (if \<not> is_alpha (hid ! 0) then hid[0 := CHR ''U''] else hid)"
  have len: "length hid = 32" by (simp add: hid_def md5_length)
  have hex: "\<forall>c\<in>set hid. name_mid c"
    using md5_hex hex_digit_name_mid by (auto simp: hid_def)
  obtain a t where at: "hid = a # t" using len by (cases hid) auto
  have n: "n = (if is_alpha a then a else CHR ''U'') # t"
    by (simp add: n_def at)
  have "is_alpha (hd n)" by (simp add: n is_alpha_def char_in_def)
  moreover have "\<forall>c\<in>set (tl n). name_mid c" using hex by (simp add: n at)
  moreover have "length n = 32" using len by (simp add: n at)
  ultimately have "valid (gum_validate_name (Some n))"
    by (auto simp: gum_validate_name_iff name_start_def name_end_def UT_NAMESIZE_def last_tl [symmetric]
             dest: in_set_butlastD intro: last_in_set)
  moreover from this [unfolded n_def hid_def] have "gum_validate_generate_username E (Some s) = Inr n"
    using assms unfolding n_def hid_def
    by (simp add: gum_validate_generate_username_def Let_def)
  ultimately show ?thesis using \<open>length n = 32\<close> by blast
qed

end

interpretation ref_checksum: checksum_env ref_env
  by unfold_locales (auto simp: ref_env_def hex_digit_def is_digit_def char_in_def)

text \<open>
  The name generated for a nickname is always produced, valid and 32 characters long:
  the longest length the name check lets through, which an MD5 digest just fits.
\<close>

theorem gum_validate_generate_username_valid:
  assumes "checksum_env E" and "s \<noteq> []"
  shows "\<exists>n. gum_validate_generate_username E (Some s) = Inr n \<and>
             gum_validate_name (Some n) = Inr () \<and> length n = 32"
  using assms by (rule checksum_env.generate_username_valid)

theorem gum_validate_generate_username_valid_witness:
  "\<exists>n. gum_validate_generate_username ref_env (Some ''Zoe'') = Inr n \<and>
       gum_validate_name (Some n) = Inr () \<and> length n = 32"
  by (rule gum_validate_generate_username_valid [OF ref_checksum.checksum_env_axioms]) simp

end
