(* ===== verification/Gum_Config.thy ===== *)
theory Gum_Config
  imports Gum_Validate "HOL-Library.AList"
begin

text \<open>
  \<^verbatim>\<open>src/common/gum-dictionary.c\<close> and \<^verbatim>\<open>src/common/gum-config.c\<close>: the
  string-to-GVariant dictionary, and the configuration built in it from the compiled
  defaults and the key file. Of GVariant the code uses six types; reading a value at
  another type than its own is a failed GLib type check, which returns 0 or NULL. What the
  build, the platform and the key-file parser supply is collected in the records
  \<open>build_conf\<close> and \<open>conf_source\<close>, parameters of the definitions.
\<close>

section \<open>Dictionaries\<close>

datatype gvariant =
    GV_boolean bool
  | GV_int32 int
  | GV_uint32 "32 word"
  | GV_int64 int
  | GV_uint64 "64 word"
  | GV_string string

type_synonym dictionary = "(string \<times> gvariant) list"

text \<open>A dictionary pointer; \<open>None\<close> is NULL.\<close>

type_synonym dict_p = "dictionary option"

definition gum_dictionary_new :: dictionary where
  "gum_dictionary_new = []"

definition gum_dictionary_get :: "dict_p \<Rightarrow> pstr \<Rightarrow> gvariant option" where
  "gum_dictionary_get dict key =
     (case (dict, key) of (Some d, Some k) \<Rightarrow> map_of d k | _ \<Rightarrow> None)"

text \<open>The setters and \<open>remove\<close> return the result and the dictionary.\<close>

definition gum_dictionary_set :: "dict_p \<Rightarrow> pstr \<Rightarrow> gvariant option \<Rightarrow> bool \<times> dict_p" where
  "gum_dictionary_set dict key val =
     (case (dict, key, val) of
        (Some d, Some k, Some v) \<Rightarrow> (True, Some (AList.update k v d))
      | _ \<Rightarrow> (False, dict))"

definition gum_dictionary_remove :: "dict_p \<Rightarrow> pstr \<Rightarrow> bool \<times> dict_p" where
  "gum_dictionary_remove dict key =
     (case (dict, key) of
        (Some d, Some k) \<Rightarrow> (map_of d k \<noteq> None, Some (AList.delete k d))
      | _ \<Rightarrow> (False, dict))"

text \<open>
  The typed getters: \<open>Some\<close> the value stored into the out parameter if they return TRUE.
\<close>

definition gum_dictionary_get_boolean :: "dict_p \<Rightarrow> pstr \<Rightarrow> bool option" where
  "gum_dictionary_get_boolean dict key =
     (case gum_dictionary_get dict key of None \<Rightarrow> None
      | Some v \<Rightarrow> Some (case v of GV_boolean b \<Rightarrow> b | _ \<Rightarrow> False))"

definition gum_dictionary_get_int32 :: "dict_p \<Rightarrow> pstr \<Rightarrow> int option" where
  "gum_dictionary_get_int32 dict key =
     (case gum_dictionary_get dict key of None \<Rightarrow> None
      | Some v \<Rightarrow> Some (case v of GV_int32 i \<Rightarrow> i | _ \<Rightarrow> 0))"

definition gum_dictionary_get_uint32 :: "dict_p \<Rightarrow> pstr \<Rightarrow> 32 word option" where
  "gum_dictionary_get_uint32 dict key =
     (case gum_dictionary_get dict key of None \<Rightarrow> None
      | Some v \<Rightarrow> Some (case v of GV_uint32 i \<Rightarrow> i | _ \<Rightarrow> 0))"

definition gum_dictionary_get_int64 :: "dict_p \<Rightarrow> pstr \<Rightarrow> int option" where
  "gum_dictionary_get_int64 dict key =
     (case gum_dictionary_get dict key of None \<Rightarrow> None
      | Some v \<Rightarrow> Some (case v of GV_int64 i \<Rightarrow> i | _ \<Rightarrow> 0))"

definition gum_dictionary_get_uint64 :: "dict_p \<Rightarrow> pstr \<Rightarrow> 64 word option" where
  "gum_dictionary_get_uint64 dict key =
     (case gum_dictionary_get dict key of None \<Rightarrow> None
      | Some v \<Rightarrow> Some (case v of GV_uint64 i \<Rightarrow> i | _ \<Rightarrow> 0))"

definition gum_dictionary_get_string :: "dict_p \<Rightarrow> pstr \<Rightarrow> pstr" where
  "gum_dictionary_get_string dict key =
     (case gum_dictionary_get dict key of None \<Rightarrow> None
      | Some v \<Rightarrow> (case v of GV_string s \<Rightarrow> Some s | _ \<Rightarrow> None))"

definition gum_dictionary_set_boolean :: "dict_p \<Rightarrow> pstr \<Rightarrow> bool \<Rightarrow> bool \<times> dict_p" where
  "gum_dictionary_set_boolean dict key b = gum_dictionary_set dict key (Some (GV_boolean b))"

definition gum_dictionary_set_int32 :: "dict_p \<Rightarrow> pstr \<Rightarrow> int \<Rightarrow> bool \<times> dict_p" where
  "gum_dictionary_set_int32 dict key i = gum_dictionary_set dict key (Some (GV_int32 i))"

definition gum_dictionary_set_uint32 :: "dict_p \<Rightarrow> pstr \<Rightarrow> 32 word \<Rightarrow> bool \<times> dict_p" where
  "gum_dictionary_set_uint32 dict key i = gum_dictionary_set dict key (Some (GV_uint32 i))"

definition gum_dictionary_set_int64 :: "dict_p \<Rightarrow> pstr \<Rightarrow> int \<Rightarrow> bool \<times> dict_p" where
  "gum_dictionary_set_int64 dict key i = gum_dictionary_set dict key (Some (GV_int64 i))"

definition gum_dictionary_set_uint64 :: "dict_p \<Rightarrow> pstr \<Rightarrow> 64 word \<Rightarrow> bool \<times> dict_p" where
  "gum_dictionary_set_uint64 dict key i = gum_dictionary_set dict key (Some (GV_uint64 i))"

text \<open>\<open>g_variant_new_string\<close> returns NULL for NULL and for a string that is not UTF-8.\<close>

definition gum_dictionary_set_string :: "env \<Rightarrow> dict_p \<Rightarrow> pstr \<Rightarrow> pstr \<Rightarrow> bool \<times> dict_p" where
  "gum_dictionary_set_string E dict key val =
     gum_dictionary_set dict key
       (case val of None \<Rightarrow> None
        | Some s \<Rightarrow> if g_utf8_validate E s then Some (GV_string s) else None)"

text \<open>
  The dictionary as the \<open>a{sv}\<close> variant, a list of entries in the order of the hash table,
  and back: \<open>g_hash_table_insert\<close> replaces an entry that has the key.
\<close>

fun new_from_variant_loop :: "dictionary \<Rightarrow> (string \<times> gvariant) list \<Rightarrow> dictionary" where
  "new_from_variant_loop dict [] = dict"
| "new_from_variant_loop dict ((k, v) # rest) =
     new_from_variant_loop (AList.update k v dict) rest"

definition gum_dictionary_new_from_variant :: "(string \<times> gvariant) list option \<Rightarrow> dict_p" where
  "gum_dictionary_new_from_variant variant =
     (case variant of None \<Rightarrow> None
      | Some es \<Rightarrow> Some (new_from_variant_loop gum_dictionary_new es))"

definition gum_dictionary_to_variant :: "dict_p \<Rightarrow> (string \<times> gvariant) list option" where
  "gum_dictionary_to_variant dict =
     (case dict of None \<Rightarrow> None | Some d \<Rightarrow> Some (map (\<lambda>(k, v). (k, v)) d))"

fun dictionary_copy_loop :: "dict_p \<Rightarrow> (string \<times> gvariant) list \<Rightarrow> dict_p" where
  "dictionary_copy_loop dict [] = dict"
| "dictionary_copy_loop dict ((k, v) # rest) =
     dictionary_copy_loop (snd (gum_dictionary_set dict (Some k) (Some v))) rest"

definition gum_dictionary_copy :: "dict_p \<Rightarrow> dict_p" where
  "gum_dictionary_copy other =
     (case other of None \<Rightarrow> None
      | Some d \<Rightarrow> dictionary_copy_loop (Some gum_dictionary_new) d)"

section \<open>Number conversion\<close>

definition isspace :: "char \<Rightarrow> bool" where
  "isspace c \<longleftrightarrow> c = CHR '' '' \<or> char_in 0x09 0x0D c"

definition digit_val :: "char \<Rightarrow> int" where
  "digit_val c = int (of_char c - 0x30)"

fun decimal :: "int \<Rightarrow> string \<Rightarrow> int" where
  "decimal acc [] = acc"
| "decimal acc (c # cs) = decimal (acc * 10 + digit_val c) cs"

text \<open>
  \<open>strtol\<close> and \<open>strtoul\<close> in base 10: the value, the number of characters read (the end
  pointer), and whether \<open>errno\<close> was set to ERANGE. Without a digit nothing is read.
\<close>

record strto_res =
  st_val :: int
  st_end :: nat
  st_erange :: bool

definition strto_neg :: "string \<Rightarrow> bool" where
  "strto_neg str =
     (case dropWhile isspace str of [] \<Rightarrow> False | c # cs \<Rightarrow> c = CHR ''-'')"

definition strto_digits :: "string \<Rightarrow> string" where
  "strto_digits str =
     (case dropWhile isspace str of [] \<Rightarrow> []
      | c # cs \<Rightarrow> if c = CHR ''-'' \<or> c = CHR ''+'' then cs else c # cs)"

definition c_strto :: "int \<Rightarrow> int \<Rightarrow> string \<Rightarrow> strto_res" where
  "c_strto lo hi str =
     (let ds = takeWhile is_digit (strto_digits str);
          rest = dropWhile is_digit (strto_digits str);
          v = (if strto_neg str then - decimal 0 ds else decimal 0 ds)
      in if ds = [] then \<lparr>st_val = 0, st_end = 0, st_erange = False\<rparr>
         else \<lparr>st_val = max lo (min hi v), st_end = length str - length rest,
               st_erange = (v < lo \<or> hi < v)\<rparr>)"

definition LONG_MAX :: int where "LONG_MAX = 0x7FFFFFFFFFFFFFFF"
definition LONG_MIN :: int where "LONG_MIN = -0x8000000000000000"
definition ULONG_MAX :: int where "ULONG_MAX = 0xFFFFFFFFFFFFFFFF"
definition INT_MAX :: int where "INT_MAX = 0x7FFFFFFF"
definition INT_MIN :: int where "INT_MIN = -0x80000000"
definition UINT_MAX :: int where "UINT_MAX = 0xFFFFFFFF"

text \<open>\<open>Some v\<close> for TRUE with \<open>*val = v\<close>; both are called with a NULL end pointer.\<close>

definition convert_strtol :: "pstr \<Rightarrow> int option" where
  "convert_strtol str =
     (case str of None \<Rightarrow> None
      | Some s \<Rightarrow>
          (let r = c_strto LONG_MIN LONG_MAX s
           in if st_erange r \<or> st_end r = 0 \<or> st_end r \<noteq> length s then None
              else Some (st_val r)))"

fun has_minus_sign :: "string \<Rightarrow> bool" where
  "has_minus_sign [] = False"
| "has_minus_sign (c # s) =
     (if \<not> isspace c then (if c = CHR ''-'' then True else False) else has_minus_sign s)"

definition convert_strtoul :: "pstr \<Rightarrow> int option" where
  "convert_strtoul str =
     (case str of None \<Rightarrow> None
      | Some s \<Rightarrow>
          if has_minus_sign s then None
          else
            (let r = c_strto 0 ULONG_MAX s
             in if st_erange r \<or> st_end r = 0 \<or> st_end r \<noteq> length s then None
                else Some (st_val r)))"

section \<open>Configuration keys\<close>

abbreviation GUM_CONFIG_GENERAL_DEF_USR_GROUPS :: string where "GUM_CONFIG_GENERAL_DEF_USR_GROUPS \<equiv> ''General/DEFAULT_USR_GROUPS''"
abbreviation GUM_CONFIG_GENERAL_USR_PRIMARY_GRPNAME :: string where "GUM_CONFIG_GENERAL_USR_PRIMARY_GRPNAME \<equiv> ''General/USR_PRIMARY_GRPNAME''"
abbreviation GUM_CONFIG_GENERAL_DEF_ADMIN_GROUPS :: string where "GUM_CONFIG_GENERAL_DEF_ADMIN_GROUPS \<equiv> ''General/DEFAULT_ADMIN_GROUPS''"
abbreviation GUM_CONFIG_GENERAL_PASSWD_FILE :: string where "GUM_CONFIG_GENERAL_PASSWD_FILE \<equiv> ''General/PASSWD_FILE''"
abbreviation GUM_CONFIG_GENERAL_SHADOW_FILE :: string where "GUM_CONFIG_GENERAL_SHADOW_FILE \<equiv> ''General/SHADOW_FILE''"
abbreviation GUM_CONFIG_GENERAL_GROUP_FILE :: string where "GUM_CONFIG_GENERAL_GROUP_FILE \<equiv> ''General/GROUP_FILE''"
abbreviation GUM_CONFIG_GENERAL_GSHADOW_FILE :: string where "GUM_CONFIG_GENERAL_GSHADOW_FILE \<equiv> ''General/GSHADOW_FILE''"
abbreviation GUM_CONFIG_GENERAL_HOME_DIR_PREF :: string where "GUM_CONFIG_GENERAL_HOME_DIR_PREF \<equiv> ''General/HOME_DIR''"
abbreviation GUM_CONFIG_GENERAL_SHELL :: string where "GUM_CONFIG_GENERAL_SHELL \<equiv> ''General/SHELL''"
abbreviation GUM_CONFIG_GENERAL_SEC_SHELL :: string where "GUM_CONFIG_GENERAL_SEC_SHELL \<equiv> ''General/SEC_SHELL''"
abbreviation GUM_CONFIG_GENERAL_SKEL_DIR :: string where "GUM_CONFIG_GENERAL_SKEL_DIR \<equiv> ''General/SKEL_DIR''"
abbreviation GUM_CONFIG_GENERAL_USERINFO_DIR :: string where "GUM_CONFIG_GENERAL_USERINFO_DIR \<equiv> ''General/USERINFO_DIR''"
abbreviation GUM_CONFIG_GENERAL_UID_MIN :: string where "GUM_CONFIG_GENERAL_UID_MIN \<equiv> ''General/UID_MIN''"
abbreviation GUM_CONFIG_GENERAL_UID_MAX :: string where "GUM_CONFIG_GENERAL_UID_MAX \<equiv> ''General/UID_MAX''"
abbreviation GUM_CONFIG_GENERAL_SYS_UID_MIN :: string where "GUM_CONFIG_GENERAL_SYS_UID_MIN \<equiv> ''General/SYS_UID_MIN''"
abbreviation GUM_CONFIG_GENERAL_SYS_UID_MAX :: string where "GUM_CONFIG_GENERAL_SYS_UID_MAX \<equiv> ''General/SYS_UID_MAX''"
abbreviation GUM_CONFIG_GENERAL_SEC_UID_MIN :: string where "GUM_CONFIG_GENERAL_SEC_UID_MIN \<equiv> ''General/SEC_UID_MIN''"
abbreviation GUM_CONFIG_GENERAL_SEC_UID_MAX :: string where "GUM_CONFIG_GENERAL_SEC_UID_MAX \<equiv> ''General/SEC_UID_MAX''"
abbreviation GUM_CONFIG_GENERAL_GID_MIN :: string where "GUM_CONFIG_GENERAL_GID_MIN \<equiv> ''General/GID_MIN''"
abbreviation GUM_CONFIG_GENERAL_GID_MAX :: string where "GUM_CONFIG_GENERAL_GID_MAX \<equiv> ''General/GID_MAX''"
abbreviation GUM_CONFIG_GENERAL_SYS_GID_MIN :: string where "GUM_CONFIG_GENERAL_SYS_GID_MIN \<equiv> ''General/SYS_GID_MIN''"
abbreviation GUM_CONFIG_GENERAL_SYS_GID_MAX :: string where "GUM_CONFIG_GENERAL_SYS_GID_MAX \<equiv> ''General/SYS_GID_MAX''"
abbreviation GUM_CONFIG_GENERAL_PASS_MIN_DAYS :: string where "GUM_CONFIG_GENERAL_PASS_MIN_DAYS \<equiv> ''General/PASS_MIN_DAYS''"
abbreviation GUM_CONFIG_GENERAL_PASS_MAX_DAYS :: string where "GUM_CONFIG_GENERAL_PASS_MAX_DAYS \<equiv> ''General/PASS_MAX_DAYS''"
abbreviation GUM_CONFIG_GENERAL_PASS_WARN_AGE :: string where "GUM_CONFIG_GENERAL_PASS_WARN_AGE \<equiv> ''General/PASS_WARN_AGE''"
abbreviation GUM_CONFIG_GENERAL_UMASK :: string where "GUM_CONFIG_GENERAL_UMASK \<equiv> ''General/UMASK''"
abbreviation GUM_CONFIG_GENERAL_ENCRYPT_METHOD :: string where "GUM_CONFIG_GENERAL_ENCRYPT_METHOD \<equiv> ''General/ENCRYPT_METHOD''"
abbreviation GUM_CONFIG_GENERAL_SMACK64_NEW_FILES :: string where "GUM_CONFIG_GENERAL_SMACK64_NEW_FILES \<equiv> ''General/SMACK64_NEW_FILES''"
abbreviation GUM_CONFIG_GENERAL_SMACK64_USER_FILES :: string where "GUM_CONFIG_GENERAL_SMACK64_USER_FILES \<equiv> ''General/SMACK64_USER_FILES''"
abbreviation GUM_CONFIG_DBUS_DAEMON_TIMEOUT :: string where "GUM_CONFIG_DBUS_DAEMON_TIMEOUT \<equiv> ''ObjectTimeouts/DAEMON_TIMEOUT''"
abbreviation GUM_CONFIG_DBUS_USER_TIMEOUT :: string where "GUM_CONFIG_DBUS_USER_TIMEOUT \<equiv> ''ObjectTimeouts/USER_TIMEOUT''"
abbreviation GUM_CONFIG_DBUS_GROUP_TIMEOUT :: string where "GUM_CONFIG_DBUS_GROUP_TIMEOUT \<equiv> ''ObjectTimeouts/GROUP_TIMEOUT''"

text \<open>
  The keys the code compares with in \<open>_load_config\<close> (integers, unsigned integers) and in
  \<open>gum_config_set_string\<close> (paths below the system root).
\<close>

definition int_keys :: "string list" where
  "int_keys = [GUM_CONFIG_DBUS_DAEMON_TIMEOUT, GUM_CONFIG_DBUS_USER_TIMEOUT,
     GUM_CONFIG_GENERAL_PASS_MAX_DAYS, GUM_CONFIG_GENERAL_PASS_MIN_DAYS,
     GUM_CONFIG_GENERAL_PASS_WARN_AGE, GUM_CONFIG_DBUS_GROUP_TIMEOUT]"

definition uint_keys :: "string list" where
  "uint_keys = [GUM_CONFIG_GENERAL_UID_MIN, GUM_CONFIG_GENERAL_UID_MAX,
     GUM_CONFIG_GENERAL_SYS_UID_MIN, GUM_CONFIG_GENERAL_SYS_UID_MAX,
     GUM_CONFIG_GENERAL_SEC_UID_MIN, GUM_CONFIG_GENERAL_SEC_UID_MAX,
     GUM_CONFIG_GENERAL_GID_MIN, GUM_CONFIG_GENERAL_GID_MAX,
     GUM_CONFIG_GENERAL_SYS_GID_MIN, GUM_CONFIG_GENERAL_SYS_GID_MAX,
     GUM_CONFIG_GENERAL_UMASK]"

definition sysroot_keys :: "string list" where
  "sysroot_keys = [GUM_CONFIG_GENERAL_PASSWD_FILE, GUM_CONFIG_GENERAL_SHADOW_FILE,
     GUM_CONFIG_GENERAL_GROUP_FILE, GUM_CONFIG_GENERAL_GSHADOW_FILE,
     GUM_CONFIG_GENERAL_SKEL_DIR, GUM_CONFIG_GENERAL_HOME_DIR_PREF]"

section \<open>The configuration object\<close>

record gum_config =
  config_file_path :: pstr
  config_table :: dictionary
  sysroot :: pstr

text \<open>The macros that \<^verbatim>\<open>configure.ac\<close> defines.\<close>

record build_conf =
  GUM_SYSCONF_DIR :: string
  GUM_PASSWD_FILE :: string
  GUM_SHADOW_FILE :: string
  GUM_GROUP_FILE :: string
  GUM_GSHADOW_FILE :: string
  GUM_HOME_DIR_PREFIX :: string
  GUM_SHELL :: string
  GUM_SKEL_DIR :: string
  GUM_DEF_GROUPS :: string
  GUM_DEF_ADMIN_GROUPS :: string
  GUM_ENCRYPT_METHOD :: string

definition GUM_UMASK :: "32 word" where "GUM_UMASK = 0x3F"

text \<open>
  The platform: the value of \<open>TZ_SYS_HOME\<close>, which paths are readable, and what GLib's
  key-file parser makes of a path, an error or the groups with their keys and raw values.
\<close>

record conf_source =
  tz_sys_home :: pstr
  access_r_ok :: "string \<Rightarrow> bool"
  key_file_load :: "string \<Rightarrow> (string \<times> (string \<times> string) list) list option"

definition sysroot_set :: "gum_config \<Rightarrow> bool" where
  "sysroot_set c = (case sysroot c of None \<Rightarrow> False | Some r \<Rightarrow> r \<noteq> [])"

definition gum_config_get_int :: "gum_config \<Rightarrow> string \<Rightarrow> int \<Rightarrow> int" where
  "gum_config_get_int self key retval =
     (case gum_dictionary_get_int32 (Some (config_table self)) (Some key) of
        None \<Rightarrow> retval | Some v \<Rightarrow> v)"

definition gum_config_get_uint :: "gum_config \<Rightarrow> string \<Rightarrow> 32 word \<Rightarrow> 32 word" where
  "gum_config_get_uint self key retval =
     (case gum_dictionary_get_uint32 (Some (config_table self)) (Some key) of
        None \<Rightarrow> retval | Some v \<Rightarrow> v)"

definition gum_config_get_string :: "gum_config \<Rightarrow> string \<Rightarrow> pstr" where
  "gum_config_get_string self key =
     gum_dictionary_get_string (Some (config_table self)) (Some key)"

definition store_table :: "gum_config \<Rightarrow> bool \<times> dict_p \<Rightarrow> gum_config" where
  "store_table self r =
     (case snd r of None \<Rightarrow> self | Some d \<Rightarrow> self\<lparr>config_table := d\<rparr>)"

definition gum_config_set_int :: "gum_config \<Rightarrow> string \<Rightarrow> int \<Rightarrow> gum_config" where
  "gum_config_set_int self key val =
     store_table self (gum_dictionary_set_int32 (Some (config_table self)) (Some key) val)"

definition gum_config_set_uint :: "gum_config \<Rightarrow> string \<Rightarrow> 32 word \<Rightarrow> gum_config" where
  "gum_config_set_uint self key val =
     store_table self (gum_dictionary_set_uint32 (Some (config_table self)) (Some key) val)"

definition gum_config_set_string :: "env \<Rightarrow> gum_config \<Rightarrow> string \<Rightarrow> string \<Rightarrow> gum_config" where
  "gum_config_set_string E self key val =
     (if sysroot_set self \<and> List.member sysroot_keys key then
        store_table self (gum_dictionary_set_string E (Some (config_table self)) (Some key)
          (Some (g_build_filename E [the (sysroot self), val])))
      else
        store_table self (gum_dictionary_set_string E (Some (config_table self)) (Some key)
          (Some val)))"

definition gum_config_prepend_sysroot :: "env \<Rightarrow> gum_config \<Rightarrow> pstr \<Rightarrow> pstr" where
  "gum_config_prepend_sysroot E self str =
     (case str of None \<Rightarrow> None
      | Some s \<Rightarrow> if sysroot_set self then Some (g_build_filename E [the (sysroot self), s])
                  else Some s)"

section \<open>Loading\<close>

definition check_config_file :: "env \<Rightarrow> conf_source \<Rightarrow> string \<Rightarrow> pstr \<Rightarrow> pstr" where
  "check_config_file E src path root =
     (let filename =
        (case root of
           None \<Rightarrow> g_build_filename E [path, ''gumd.conf'']
         | Some r \<Rightarrow> if r \<noteq> [] then g_build_filename E [r, path, ''gumd.conf'']
                     else g_build_filename E [path, ''gumd.conf''])
      in if access_r_ok src filename then Some filename else None)"

text \<open>The body of the loop over the keys: \<open>key\<close> is already \<open>group/key\<close>.\<close>

definition load_key :: "env \<Rightarrow> gum_config \<Rightarrow> string \<Rightarrow> string \<Rightarrow> gum_config" where
  "load_key E self key val =
     (if List.member int_keys key then
        (case convert_strtol (Some val) of
           None \<Rightarrow> self
         | Some cv \<Rightarrow> if cv \<le> INT_MAX \<and> cv \<ge> INT_MIN then gum_config_set_int self key cv else self)
      else if List.member uint_keys key then
        (case convert_strtoul (Some val) of
           None \<Rightarrow> self
         | Some cv \<Rightarrow> if cv \<le> UINT_MAX then gum_config_set_uint self key (word_of_int cv) else self)
      else gum_config_set_string E self key val)"

fun load_keys :: "env \<Rightarrow> gum_config \<Rightarrow> string \<Rightarrow> (string \<times> string) list \<Rightarrow> gum_config" where
  "load_keys E self grp [] = self"
| "load_keys E self grp ((k, v) # rest) =
     load_keys E (load_key E self (grp @ ''/'' @ k) v) grp rest"

fun load_groups ::
    "env \<Rightarrow> gum_config \<Rightarrow> (string \<times> (string \<times> string) list) list \<Rightarrow> gum_config" where
  "load_groups E self [] = self"
| "load_groups E self ((g, ks) # rest) = load_groups E (load_keys E self g ks) rest"

definition load_config ::
    "env \<Rightarrow> build_conf \<Rightarrow> conf_source \<Rightarrow> gum_config \<Rightarrow> bool \<times> gum_config" where
  "load_config E B src self =
     (let self = self\<lparr>config_file_path :=
            check_config_file E src (GUM_SYSCONF_DIR B @ ''/gumd'') (sysroot self)\<rparr>
      in case config_file_path self of
           None \<Rightarrow> (True, self)
         | Some path \<Rightarrow>
             (case key_file_load src path of
                None \<Rightarrow> (False, self)
              | Some groups \<Rightarrow> (True, load_groups E self groups)))"

definition config_defaults :: "env \<Rightarrow> build_conf \<Rightarrow> conf_source \<Rightarrow> gum_config \<Rightarrow> gum_config" where
  "config_defaults E B src self0 =
     (let str = gum_config_set_string E; uint = gum_config_set_uint; int = gum_config_set_int;
          self = str self0 GUM_CONFIG_GENERAL_PASSWD_FILE (GUM_PASSWD_FILE B);
          self = str self GUM_CONFIG_GENERAL_SHADOW_FILE (GUM_SHADOW_FILE B);
          self = str self GUM_CONFIG_GENERAL_GROUP_FILE (GUM_GROUP_FILE B);
          self = str self GUM_CONFIG_GENERAL_GSHADOW_FILE (GUM_GSHADOW_FILE B);
          self = (case tz_sys_home src of
                    Some home_path \<Rightarrow> str self GUM_CONFIG_GENERAL_HOME_DIR_PREF home_path
                  | None \<Rightarrow> str self GUM_CONFIG_GENERAL_HOME_DIR_PREF (GUM_HOME_DIR_PREFIX B));
          self = str self GUM_CONFIG_GENERAL_SHELL (GUM_SHELL B);
          self = str self GUM_CONFIG_GENERAL_SEC_SHELL (GUM_SHELL B);
          self = str self GUM_CONFIG_GENERAL_SKEL_DIR (GUM_SKEL_DIR B);
          self = uint self GUM_CONFIG_GENERAL_UID_MIN 1000;
          self = uint self GUM_CONFIG_GENERAL_UID_MAX 60000;
          self = uint self GUM_CONFIG_GENERAL_SYS_UID_MIN 100;
          self = uint self GUM_CONFIG_GENERAL_SYS_UID_MAX 999;
          self = uint self GUM_CONFIG_GENERAL_SEC_UID_MIN 60001;
          self = uint self GUM_CONFIG_GENERAL_SEC_UID_MAX 60100;
          self = uint self GUM_CONFIG_GENERAL_GID_MIN 1000;
          self = uint self GUM_CONFIG_GENERAL_GID_MAX 60000;
          self = uint self GUM_CONFIG_GENERAL_SYS_GID_MIN 100;
          self = uint self GUM_CONFIG_GENERAL_SYS_GID_MAX 999;
          self = int self GUM_CONFIG_GENERAL_PASS_MAX_DAYS 99999;
          self = int self GUM_CONFIG_GENERAL_PASS_MIN_DAYS 0;
          self = int self GUM_CONFIG_GENERAL_PASS_WARN_AGE 7;
          self = uint self GUM_CONFIG_GENERAL_UMASK GUM_UMASK;
          self = str self GUM_CONFIG_GENERAL_DEF_USR_GROUPS (GUM_DEF_GROUPS B);
          self = str self GUM_CONFIG_GENERAL_DEF_ADMIN_GROUPS (GUM_DEF_ADMIN_GROUPS B);
          self = str self GUM_CONFIG_GENERAL_ENCRYPT_METHOD (GUM_ENCRYPT_METHOD B)
      in self)"

definition gum_config_initialize ::
    "env \<Rightarrow> build_conf \<Rightarrow> conf_source \<Rightarrow> gum_config \<Rightarrow> gum_config" where
  "gum_config_initialize E B src self = snd (load_config E B src (config_defaults E B src self))"

text \<open>
  The singleton: the second argument is \<open>glob_config\<close>, and the result is its new value,
  which is also what the function returns. Only the first call reads the system root.
\<close>

definition gum_config_new ::
    "env \<Rightarrow> build_conf \<Rightarrow> conf_source \<Rightarrow> pstr \<Rightarrow> gum_config option \<Rightarrow> gum_config" where
  "gum_config_new E B src root glob =
     (case glob of
        None \<Rightarrow> gum_config_initialize E B src
                  \<lparr>config_file_path = None, config_table = gum_dictionary_new, sysroot = root\<rparr>
      | Some c \<Rightarrow> c)"

section \<open>Lemmas on dictionaries\<close>

lemma gum_dictionary_get_set:
  "gum_dictionary_get (snd (gum_dictionary_set (Some d) (Some k) (Some v))) (Some k') =
     (if k' = k then Some v else map_of d k')"
  by (simp add: gum_dictionary_get_def gum_dictionary_set_def update_conv')

lemma new_from_variant_loop_map_of:
  "map_of (new_from_variant_loop d es) = map_of d ++ map_of (rev es)"
  by (induction d es rule: new_from_variant_loop.induct)
    (auto simp: update_conv' map_add_def fun_eq_iff split: option.splits)

lemma new_from_variant_loop_distinct:
  "distinct (map fst d) \<Longrightarrow> distinct (map fst (new_from_variant_loop d es))"
  by (induction d es rule: new_from_variant_loop.induct) (auto simp: distinct_update)

lemma dictionary_copy_loop_eq:
  "dictionary_copy_loop (Some d) es = Some (new_from_variant_loop d es)"
  by (induction es arbitrary: d) (auto simp: gum_dictionary_set_def)

lemma map_of_rev_distinct:
  "distinct (map fst xs) \<Longrightarrow> map_of (rev xs) = map_of xs"
  by (rule map_of_eqI) (auto simp: rev_map [symmetric] simp del: rev_map)

section \<open>Lemmas on number conversion\<close>

lemma digit_not_space: "is_digit c \<Longrightarrow> \<not> isspace c"
  by (auto simp: isspace_def is_digit_def char_in_def)

lemma sign_not_space: "c = CHR ''-'' \<or> c = CHR ''+'' \<Longrightarrow> \<not> isspace c \<and> \<not> is_digit c"
  by (auto simp: isspace_def is_digit_def char_in_def)

definition numeral_string :: "string \<Rightarrow> string \<Rightarrow> string \<Rightarrow> string \<Rightarrow> bool" where
  "numeral_string s ws sg ds \<longleftrightarrow>
     s = ws @ sg @ ds \<and> (\<forall>c\<in>set ws. isspace c) \<and> sg \<in> {[], ''-'', ''+''} \<and>
     ds \<noteq> [] \<and> (\<forall>c\<in>set ds. is_digit c)"

lemma dropWhile_append_hd:
  "(\<forall>c\<in>set ws. P c) \<Longrightarrow> r = [] \<or> \<not> P (hd r) \<Longrightarrow> dropWhile P (ws @ r) = r"
  by (induction ws) (cases r, auto)

lemma strto_numeral:
  assumes "numeral_string s ws sg ds"
  shows "strto_neg s \<longleftrightarrow> sg = ''-''" and "strto_digits s = ds"
proof -
  from assms have s: "s = ws @ (sg @ ds)" and ws: "\<forall>c\<in>set ws. isspace c"
    and sg: "sg \<in> {[], ''-'', ''+''}" and ds: "ds \<noteq> []" "\<forall>c\<in>set ds. is_digit c"
    by (simp_all add: numeral_string_def)
  obtain a r where at: "ds = a # r" "is_digit a" using ds by (cases ds) auto
  have 2: "\<not> isspace a" "\<not> isspace CHR ''-''" "\<not> isspace CHR ''+''"
    using at(2) by (rule digit_not_space) (simp_all add: sign_not_space)
  have "\<not> isspace (hd (sg @ ds))" using sg 2 by (elim insertE emptyE) (simp_all add: at(1))
  then have 1: "dropWhile isspace s = sg @ ds"
    unfolding s by (intro dropWhile_append_hd ws) (rule disjI2)
  have 3: "a \<noteq> CHR ''-''" "a \<noteq> CHR ''+''" using at(2) sign_not_space by blast+
  from sg consider "sg = []" | "sg = ''-''" | "sg = ''+''" by blast
  then show "strto_neg s \<longleftrightarrow> sg = ''-''" and "strto_digits s = ds"
    by (cases; simp add: strto_neg_def strto_digits_def 1 3 at(1))+
qed

lemma c_strto_numeral:
  assumes "numeral_string s ws sg ds"
  shows "c_strto lo hi s =
    (let v = if sg = ''-'' then - decimal 0 ds else decimal 0 ds
     in \<lparr>st_val = max lo (min hi v), st_end = length s, st_erange = (v < lo \<or> hi < v)\<rparr>)"
proof -
  from assms have ds: "ds \<noteq> []" "\<forall>c\<in>set ds. is_digit c" by (simp_all add: numeral_string_def)
  then have "takeWhile is_digit ds = ds" "dropWhile is_digit ds = []"
    by (simp_all add: takeWhile_eq_all_conv dropWhile_eq_Nil_conv)
  with ds(1) show ?thesis
    unfolding c_strto_def strto_numeral [OF assms] Let_def by (simp only:) simp
qed

lemma strto_split:
  "\<exists>sg. s = takeWhile isspace s @ sg @ strto_digits s \<and> sg \<in> {[], ''-'', ''+''}"
proof (cases "dropWhile isspace s")
  case Nil
  then have "s = takeWhile isspace s" by (metis append_Nil2 takeWhile_dropWhile_id)
  moreover have "strto_digits s = []" unfolding strto_digits_def Nil by simp
  ultimately show ?thesis by (intro exI [of _ "[]"]) simp
next
  case (Cons c cs)
  then have "s = takeWhile isspace s @ c # cs" by (metis takeWhile_dropWhile_id)
  with Cons show ?thesis
    by (intro exI [of _ "if c = CHR ''-'' \<or> c = CHR ''+'' then [c] else []"])
      (auto simp: strto_digits_def)
qed

lemma c_strto_consumed:
  assumes "st_end (c_strto lo hi s) \<noteq> 0" and "st_end (c_strto lo hi s) = length s"
  shows "\<exists>ws sg ds. numeral_string s ws sg ds"
proof -
  define rest where "rest = dropWhile is_digit (strto_digits s)"
  have ds: "takeWhile is_digit (strto_digits s) \<noteq> []"
    using assms(1) by (auto simp: c_strto_def Let_def)
  then have "length s - length rest = length s"
    using assms(2) by (simp add: c_strto_def rest_def Let_def)
  moreover have "s \<noteq> []" using assms by auto
  ultimately have "rest = []" by (cases rest; cases s) auto
  then have digits: "\<forall>c\<in>set (strto_digits s). is_digit c"
    by (simp add: rest_def dropWhile_eq_Nil_conv)
  obtain sg where "s = takeWhile isspace s @ sg @ strto_digits s" "sg \<in> {[], ''-'', ''+''}"
    using strto_split by blast
  moreover have "\<forall>c\<in>set (takeWhile isspace s). isspace c" by (auto dest: set_takeWhileD)
  moreover have "strto_digits s \<noteq> []" using ds by auto
  ultimately show ?thesis unfolding numeral_string_def using digits by blast
qed

lemma decimal_nonneg: "0 \<le> acc \<Longrightarrow> 0 \<le> decimal acc ds"
  by (induction ds arbitrary: acc) (auto simp: digit_val_def)

lemma convert_strtol_iff:
  "convert_strtol (Some s) = Some v \<longleftrightarrow>
     (\<exists>ws sg ds. numeral_string s ws sg ds \<and> LONG_MIN \<le> v \<and> v \<le> LONG_MAX \<and>
        v = (if sg = ''-'' then - decimal 0 ds else decimal 0 ds))" (is "?L \<longleftrightarrow> ?R")
proof
  assume L: ?L
  then have e: "\<not> st_erange (c_strto LONG_MIN LONG_MAX s)"
    "st_end (c_strto LONG_MIN LONG_MAX s) \<noteq> 0"
    "st_end (c_strto LONG_MIN LONG_MAX s) = length s"
    "st_val (c_strto LONG_MIN LONG_MAX s) = v"
    by (auto simp: convert_strtol_def Let_def split: if_splits)
  from c_strto_consumed [OF e(2,3)] obtain ws sg ds where n: "numeral_string s ws sg ds" by blast
  with e show ?R by (intro exI [of _ ws] exI [of _ sg] exI [of _ ds])
    (simp add: c_strto_numeral [OF n] Let_def)
next
  assume ?R
  then obtain ws sg ds where n: "numeral_string s ws sg ds" "LONG_MIN \<le> v" "v \<le> LONG_MAX"
    "v = (if sg = ''-'' then - decimal 0 ds else decimal 0 ds)" by blast
  have "s \<noteq> []" using n(1) by (auto simp: numeral_string_def)
  with n show ?L
    by (simp add: convert_strtol_def c_strto_numeral [OF n(1)] Let_def)
qed

lemma has_minus_sign_eq: "has_minus_sign s \<longleftrightarrow> strto_neg s"
  by (induction s) (auto simp: strto_neg_def)

lemma convert_strtoul_iff:
  "convert_strtoul (Some s) = Some v \<longleftrightarrow>
     (\<exists>ws sg ds. numeral_string s ws sg ds \<and> sg \<noteq> ''-'' \<and> v = decimal 0 ds \<and> v \<le> ULONG_MAX)"
  (is "?L \<longleftrightarrow> ?R")
proof
  assume L: ?L
  then have e: "\<not> st_erange (c_strto 0 ULONG_MAX s)" "st_end (c_strto 0 ULONG_MAX s) \<noteq> 0"
    "st_end (c_strto 0 ULONG_MAX s) = length s" "st_val (c_strto 0 ULONG_MAX s) = v"
    "\<not> strto_neg s"
    by (auto simp: convert_strtoul_def has_minus_sign_eq Let_def split: if_splits)
  from c_strto_consumed [OF e(2,3)] obtain ws sg ds where n: "numeral_string s ws sg ds" by blast
  with e show ?R by (intro exI [of _ ws] exI [of _ sg] exI [of _ ds])
    (simp add: c_strto_numeral [OF n] strto_numeral [OF n] Let_def)
next
  assume ?R
  then obtain ws sg ds where n: "numeral_string s ws sg ds" "sg \<noteq> ''-''" "v = decimal 0 ds"
    "v \<le> ULONG_MAX" by blast
  have "s \<noteq> []" using n(1) by (auto simp: numeral_string_def)
  moreover have "0 \<le> v" using n(3) by (simp add: decimal_nonneg)
  ultimately show ?L using n
    by (simp add: convert_strtoul_def has_minus_sign_eq c_strto_numeral [OF n(1)]
        strto_numeral [OF n(1)] Let_def)
qed

section \<open>Lemmas on the configuration\<close>

text \<open>The type a key is read at.\<close>

datatype gv_type = TInt | TUint | TString

definition key_type :: "string \<Rightarrow> gv_type" where
  "key_type k = (if k \<in> set int_keys then TInt else if k \<in> set uint_keys then TUint else TString)"

definition has_type :: "gvariant \<Rightarrow> gv_type \<Rightarrow> bool" where
  "has_type v t = (case t of
      TInt \<Rightarrow> (\<exists>i. v = GV_int32 i \<and> INT_MIN \<le> i \<and> i \<le> INT_MAX)
    | TUint \<Rightarrow> (\<exists>u. v = GV_uint32 u)
    | TString \<Rightarrow> (\<exists>s. v = GV_string s))"

definition config_typed :: "gum_config \<Rightarrow> bool" where
  "config_typed c \<longleftrightarrow> (\<forall>k v. map_of (config_table c) k = Some v \<longrightarrow> has_type v (key_type k))"

lemma map_of_set_int:
  "map_of (config_table (gum_config_set_int c k i)) k' =
     (if k' = k then Some (GV_int32 i) else map_of (config_table c) k')"
  by (simp add: gum_config_set_int_def store_table_def gum_dictionary_set_int32_def
      gum_dictionary_set_def update_conv')

lemma map_of_set_uint:
  "map_of (config_table (gum_config_set_uint c k i)) k' =
     (if k' = k then Some (GV_uint32 i) else map_of (config_table c) k')"
  by (simp add: gum_config_set_uint_def store_table_def gum_dictionary_set_uint32_def
      gum_dictionary_set_def update_conv')

lemma map_of_set_string:
  "map_of (config_table (gum_config_set_string E c k s)) k' =
     (let s' = if sysroot_set c \<and> k \<in> set sysroot_keys
               then g_build_filename E [the (sysroot c), s] else s
      in if k' = k \<and> g_utf8_validate E s' then Some (GV_string s') else map_of (config_table c) k')"
  by (simp add: gum_config_set_string_def store_table_def gum_dictionary_set_string_def
      gum_dictionary_set_def update_conv' Let_def)

lemmas map_of_set = map_of_set_int map_of_set_uint map_of_set_string

lemma uint_not_int: "k \<in> set uint_keys \<Longrightarrow> k \<notin> set int_keys"
  by (auto simp: uint_keys_def int_keys_def)

lemma config_typed_set_int:
  "config_typed c \<Longrightarrow> key_type k = TInt \<Longrightarrow> INT_MIN \<le> i \<Longrightarrow> i \<le> INT_MAX \<Longrightarrow>
   config_typed (gum_config_set_int c k i)"
  by (auto simp: config_typed_def map_of_set_int has_type_def)

lemma config_typed_set_uint:
  "config_typed c \<Longrightarrow> key_type k = TUint \<Longrightarrow> config_typed (gum_config_set_uint c k i)"
  by (auto simp: config_typed_def map_of_set_uint has_type_def)

lemma config_typed_set_string:
  "config_typed c \<Longrightarrow> key_type k = TString \<Longrightarrow> config_typed (gum_config_set_string E c k s)"
  by (auto simp: config_typed_def map_of_set_string has_type_def Let_def)

lemma config_typed_load_key: "config_typed c \<Longrightarrow> config_typed (load_key E c k v)"
  by (auto simp: load_key_def key_type_def split: option.splits
      intro!: config_typed_set_int config_typed_set_uint config_typed_set_string)

text \<open>The entries of a key file in the order they are loaded, under their full keys.\<close>

definition key_file_entries ::
    "(string \<times> (string \<times> string) list) list \<Rightarrow> (string \<times> string) list" where
  "key_file_entries groups = concat (map (\<lambda>(g, ks). map (\<lambda>(k, v). (g @ ''/'' @ k, v)) ks) groups)"

lemma load_keys_fold:
  "load_keys E c g ks = fold (\<lambda>(k, v) c. load_key E c k v) (map (\<lambda>(k, v). (g @ ''/'' @ k, v)) ks) c"
  by (induction ks arbitrary: c) auto

lemma load_groups_fold:
  "load_groups E c gs = fold (\<lambda>(k, v) c. load_key E c k v) (key_file_entries gs) c"
  by (induction gs arbitrary: c) (auto simp: key_file_entries_def load_keys_fold)

lemma config_typed_load_groups: "config_typed c \<Longrightarrow> config_typed (load_groups E c gs)"
  unfolding load_groups_fold
  by (rule fold_invariant [where Q = "\<lambda>_. True"]) (auto intro: config_typed_load_key)

lemma config_typed_load_config: "config_typed c \<Longrightarrow> config_typed (snd (load_config E B src c))"
  by (auto simp: load_config_def Let_def split: option.splits intro!: config_typed_load_groups)
    (simp_all add: config_typed_def)

lemma key_types_string:
  "key_type GUM_CONFIG_GENERAL_PASSWD_FILE = TString"
  "key_type GUM_CONFIG_GENERAL_SHADOW_FILE = TString"
  "key_type GUM_CONFIG_GENERAL_GROUP_FILE = TString"
  "key_type GUM_CONFIG_GENERAL_GSHADOW_FILE = TString"
  "key_type GUM_CONFIG_GENERAL_HOME_DIR_PREF = TString"
  "key_type GUM_CONFIG_GENERAL_SHELL = TString"
  "key_type GUM_CONFIG_GENERAL_SEC_SHELL = TString"
  "key_type GUM_CONFIG_GENERAL_SKEL_DIR = TString"
  "key_type GUM_CONFIG_GENERAL_DEF_USR_GROUPS = TString"
  "key_type GUM_CONFIG_GENERAL_DEF_ADMIN_GROUPS = TString"
  "key_type GUM_CONFIG_GENERAL_ENCRYPT_METHOD = TString"
  by code_simp+

lemma config_typed_defaults:
  "config_typed c \<Longrightarrow> config_typed (config_defaults E B src c)"
  unfolding config_defaults_def Let_def
  by (intro config_typed_set_string config_typed_set_int config_typed_set_uint)
    (auto split: option.splits simp: key_types_string INT_MIN_def INT_MAX_def
       int_keys_def uint_keys_def key_type_def intro!: config_typed_set_string)

text \<open>The value an entry gives an unsigned key, if it is accepted.\<close>

definition uint_value :: "string \<Rightarrow> 32 word option" where
  "uint_value v =
     (case convert_strtoul (Some v) of
        Some cv \<Rightarrow> if cv \<le> UINT_MAX then Some (word_of_int cv) else None
      | None \<Rightarrow> None)"

definition uint_values :: "string \<Rightarrow> (string \<times> string) list \<Rightarrow> 32 word list" where
  "uint_values k es = List.map_filter (\<lambda>(k', v). if k' = k then uint_value v else None) es"

definition uint_defaults :: "(string \<times> 32 word) list" where
  "uint_defaults = [(GUM_CONFIG_GENERAL_UMASK, 0x3F),
     (GUM_CONFIG_GENERAL_SYS_GID_MAX, 999), (GUM_CONFIG_GENERAL_SYS_GID_MIN, 100),
     (GUM_CONFIG_GENERAL_GID_MAX, 60000), (GUM_CONFIG_GENERAL_GID_MIN, 1000),
     (GUM_CONFIG_GENERAL_SEC_UID_MAX, 60100), (GUM_CONFIG_GENERAL_SEC_UID_MIN, 60001),
     (GUM_CONFIG_GENERAL_SYS_UID_MAX, 999), (GUM_CONFIG_GENERAL_SYS_UID_MIN, 100),
     (GUM_CONFIG_GENERAL_UID_MAX, 60000), (GUM_CONFIG_GENERAL_UID_MIN, 1000)]"

lemma load_key_uint:
  assumes "k \<in> set uint_keys"
  shows "map_of (config_table (load_key E c k' v)) k =
    (if k' = k then (case uint_value v of Some u \<Rightarrow> Some (GV_uint32 u)
                     | None \<Rightarrow> map_of (config_table c) k)
     else map_of (config_table c) k)"
  using assms uint_not_int [OF assms]
  by (auto simp: load_key_def uint_value_def map_of_set Let_def split: option.splits)

lemma load_keys_uint:
  assumes "k \<in> set uint_keys"
  shows "map_of (config_table (fold (\<lambda>(k, v) c. load_key E c k v) es c)) k =
    (if uint_values k es = [] then map_of (config_table c) k
     else Some (GV_uint32 (last (uint_values k es))))"
proof (induction es arbitrary: c)
  case Nil
  then show ?case by (simp add: uint_values_def map_filter_simps)
next
  case (Cons e es)
  obtain k' v where e: "e = (k', v)" by (cases e)
  have "uint_values k (e # es) =
      (if k' = k then (case uint_value v of Some u \<Rightarrow> [u] | None \<Rightarrow> []) else []) @ uint_values k es"
    by (simp add: uint_values_def map_filter_simps e split: option.splits)
  then show ?case
    using Cons.IH [of "load_key E c k' v"] load_key_uint [OF assms, of E c k' v]
    by (simp add: e split: option.splits)
qed

lemma key_types_int:
  "key_type GUM_CONFIG_GENERAL_PASS_MAX_DAYS = TInt"
  "key_type GUM_CONFIG_GENERAL_PASS_MIN_DAYS = TInt"
  "key_type GUM_CONFIG_GENERAL_PASS_WARN_AGE = TInt"
  by code_simp+

lemma map_of_set_int_other:
  "k \<in> set uint_keys \<Longrightarrow> key_type k' = TInt \<Longrightarrow>
   map_of (config_table (gum_config_set_int c k' i)) k = map_of (config_table c) k"
  by (auto simp: map_of_set_int key_type_def uint_not_int split: if_splits)

lemma map_of_set_string_other:
  "k \<in> set uint_keys \<Longrightarrow> key_type k' = TString \<Longrightarrow>
   map_of (config_table (gum_config_set_string E c k' s)) k = map_of (config_table c) k"
  by (auto simp: map_of_set_string key_type_def Let_def split: if_splits)

lemma map_of_defaults_uint:
  "\<forall>k\<in>set uint_keys. map_of (config_table (config_defaults E B src c)) k =
     map_option GV_uint32 (map_of uint_defaults k)"
proof
  fix k assume k: "k \<in> set uint_keys"
  have tz: "(case x of None \<Rightarrow> gum_config_set_string E c' key d
      | Some h \<Rightarrow> gum_config_set_string E c' key h) =
      gum_config_set_string E c' key (case x of None \<Rightarrow> d | Some h \<Rightarrow> h)" for x c' key d
    by (cases x) auto
  note string = map_of_set_string_other [OF k] and int = map_of_set_int_other [OF k]
  show "map_of (config_table (config_defaults E B src c)) k =
      map_option GV_uint32 (map_of uint_defaults k)"
    unfolding config_defaults_def Let_def tz string [OF key_types_string(1)]
      string [OF key_types_string(2)] string [OF key_types_string(3)] string [OF key_types_string(4)]
      string [OF key_types_string(5)] string [OF key_types_string(6)] string [OF key_types_string(7)]
      string [OF key_types_string(8)] string [OF key_types_string(9)] string [OF key_types_string(10)]
      string [OF key_types_string(11)] int [OF key_types_int(1)] int [OF key_types_int(2)]
      int [OF key_types_int(3)] map_of_set_uint GUM_UMASK_def
    unfolding uint_defaults_def map_of.simps fst_conv snd_conv fun_upd_apply if_distrib [of "map_option GV_uint32"] option.map
    using k unfolding uint_keys_def set_simps insert_iff empty_iff by presburger
qed

lemma sysroot_set_simps [simp]:
  "sysroot (gum_config_set_int c k i) = sysroot c"
  "sysroot (gum_config_set_uint c k u) = sysroot c"
  "sysroot (gum_config_set_string E c k s) = sysroot c"
  by (simp_all add: gum_config_set_string_def gum_config_set_int_def gum_config_set_uint_def
      store_table_def split: option.splits)

lemma config_defaults_sysroot [simp]: "sysroot (config_defaults E B src c) = sysroot c"
  by (simp add: config_defaults_def Let_def split: option.split)

definition loaded_entries ::
    "env \<Rightarrow> build_conf \<Rightarrow> conf_source \<Rightarrow> pstr \<Rightarrow> (string \<times> string) list" where
  "loaded_entries E B src root =
     (case check_config_file E src (GUM_SYSCONF_DIR B @ ''/gumd'') root of
        None \<Rightarrow> []
      | Some path \<Rightarrow> (case key_file_load src path of
                        None \<Rightarrow> [] | Some groups \<Rightarrow> key_file_entries groups))"

lemma load_config_table:
  "config_table (snd (load_config E B src c)) =
   config_table (fold (\<lambda>(k, v) c. load_key E c k v) (loaded_entries E B src (sysroot c))
     (c\<lparr>config_file_path := check_config_file E src (GUM_SYSCONF_DIR B @ ''/gumd'') (sysroot c)\<rparr>))"
  by (simp add: load_config_def loaded_entries_def load_groups_fold Let_def split: option.splits)

section \<open>Properties\<close>

text \<open>A build and a platform to evaluate in: the second value of \<open>UID_MIN\<close> is refused.\<close>

definition ref_build :: build_conf where
  "ref_build =
     \<lparr>GUM_SYSCONF_DIR = ''/etc'', GUM_PASSWD_FILE = ''/etc/passwd'',
      GUM_SHADOW_FILE = ''/etc/shadow'', GUM_GROUP_FILE = ''/etc/group'',
      GUM_GSHADOW_FILE = ''/etc/gshadow'', GUM_HOME_DIR_PREFIX = ''/home'',
      GUM_SHELL = ''/bin/sh'', GUM_SKEL_DIR = ''/etc/skel'', GUM_DEF_GROUPS = [],
      GUM_DEF_ADMIN_GROUPS = [], GUM_ENCRYPT_METHOD = ''SHA512''\<rparr>"

definition ref_source :: conf_source where
  "ref_source =
     \<lparr>tz_sys_home = None, access_r_ok = (\<lambda>p. True),
      key_file_load = (\<lambda>p. Some [(''General'', [(''UID_MIN'', ''2000''), (''UID_MIN'', ''-1'')])])\<rparr>"



text \<open>
  The value of an id range or the umask is the last acceptable one the key file gives
  for it, or the compiled default: a value that is no number, is negative or does not fit
  in 32 bits is passed over and never truncated.
\<close>

theorem gum_config_new_uint:
  assumes "k \<in> set uint_keys"
  shows "gum_config_get_uint (gum_config_new E B src root None) k retval =
         last (the (map_of uint_defaults k) # uint_values k (loaded_entries E B src root))"
proof -
  define c0 where "c0 = \<lparr>config_file_path = None, config_table = gum_dictionary_new, sysroot = root\<rparr>"
  have c: "gum_config_new E B src root None = snd (load_config E B src (config_defaults E B src c0))"
    by (simp add: gum_config_new_def gum_config_initialize_def c0_def)
  obtain u where "map_of uint_defaults k = Some u"
    using assms by (auto simp: uint_keys_def uint_defaults_def)
  then show ?thesis
    using assms map_of_defaults_uint [of E B src c0]
    by (simp add: gum_config_get_uint_def gum_dictionary_get_uint32_def gum_dictionary_get_def c
        load_config_table load_keys_uint [OF assms] c0_def)
qed

theorem gum_config_new_uint_witness:
  "gum_config_get_uint (gum_config_new ref_env ref_build ref_source None None)
     GUM_CONFIG_GENERAL_UID_MIN 7 = 2000"
proof -
  have "GUM_CONFIG_GENERAL_UID_MIN \<in> set uint_keys" by (simp add: uint_keys_def)
  moreover have "uint_values GUM_CONFIG_GENERAL_UID_MIN
      (loaded_entries ref_env ref_build ref_source None) = [2000]"
    by code_simp
  ultimately show ?thesis
    using gum_config_new_uint [of _ ref_env ref_build ref_source None 7] by simp
qed

text \<open>
  C40. A text is accepted as an unsigned number exactly if it is white space, an optional
  plus sign and decimal digits up to the end, whose value fits in 64 bits; the value is the
  one the digits denote.
\<close>

theorem convert_strtoul_accepts:
  "convert_strtoul (Some s) = Some v \<longleftrightarrow>
     (\<exists>ws sg ds. s = ws @ sg @ ds \<and> (\<forall>c\<in>set ws. isspace c) \<and> sg \<in> {[], ''+''} \<and>
        ds \<noteq> [] \<and> (\<forall>c\<in>set ds. is_digit c) \<and> v = decimal 0 ds \<and> v \<le> 2 ^ 64 - 1)"
proof -
  have "ULONG_MAX = 2 ^ 64 - 1" by (simp add: ULONG_MAX_def)
  have eq: "numeral_string s ws sg ds \<and> sg \<noteq> ''-'' \<and> X \<longleftrightarrow>
      s = ws @ sg @ ds \<and> (\<forall>c\<in>set ws. isspace c) \<and> sg \<in> {[], ''+''} \<and>
      ds \<noteq> [] \<and> (\<forall>c\<in>set ds. is_digit c) \<and> X" for ws sg ds X
    by (auto simp: numeral_string_def)
  show ?thesis unfolding convert_strtoul_iff \<open>ULONG_MAX = _\<close> eq ..
qed

theorem convert_strtoul_accepts_witness:
  "convert_strtoul (Some ''+12'') = Some 12"
proof -
  have "''+12'' = [] @ ''+'' @ ''12'' \<and> (\<forall>c\<in>set []. isspace c) \<and> ''+'' \<in> {[], ''+''} \<and>
      ''12'' \<noteq> [] \<and> (\<forall>c\<in>set ''12''. is_digit c) \<and> (12::int) = decimal 0 ''12'' \<and> (12::int) \<le> 2 ^ 64 - 1"
    by (simp add: is_digit_def char_in_def digit_val_def)
  then show ?thesis unfolding convert_strtoul_accepts by (intro exI)
qed

text \<open>
  A dictionary sent as a variant and read back, or copied, has the same value at
  every key.
\<close>

theorem gum_dictionary_variant_roundtrip:
  assumes "distinct (map fst d)"
  shows "gum_dictionary_get
           (gum_dictionary_new_from_variant (gum_dictionary_to_variant (Some d))) key =
         gum_dictionary_get (Some d) key \<and>
         gum_dictionary_get (gum_dictionary_copy (Some d)) key = gum_dictionary_get (Some d) key"
  using assms
  by (simp add: gum_dictionary_new_from_variant_def gum_dictionary_to_variant_def
      gum_dictionary_copy_def dictionary_copy_loop_eq gum_dictionary_get_def gum_dictionary_new_def
      new_from_variant_loop_map_of map_of_rev_distinct split: option.splits)

theorem gum_dictionary_variant_roundtrip_witness:
  "gum_dictionary_get_uint32
     (gum_dictionary_new_from_variant (gum_dictionary_to_variant
        (Some [(''uid'', GV_uint32 7), (''name'', GV_string ''ann'')]))) (Some ''uid'') = Some 7"
  using gum_dictionary_variant_roundtrip
    [of "[(''uid'', GV_uint32 7), (''name'', GV_string ''ann'')]" "Some ''uid''"]
  by (simp add: gum_dictionary_get_uint32_def gum_dictionary_get_def)

end
