(* ===== verification/Gum_World.thy ===== *)
theory Gum_World
  imports Gum_Config
begin

text \<open>
  The world the daemon acts on, as the state of a monad: the account files, the home
  directories, the database lock, the process's user ids, the \<open>GError\<close> under construction
  and a log of external effects. Everything the system decides (whether a call fails, how
  far a file can be read, time, random bytes) is an oracle of the record \<open>ctx\<close>, indexed by
  a clock that every system call advances; so a statement about all oracles is one about
  every pattern of failures. The theory also models \<^verbatim>\<open>src/common/gum-lock.c\<close>, the
  privilege functions of \<^verbatim>\<open>gum-utils.c\<close>, and what the C library's \<open>fget*ent\<close> and
  \<open>put*ent\<close> do with entries.
\<close>

section \<open>Files\<close>

text \<open>A line of an account file is an entry of one of the four databases or other text.\<close>

datatype line =
    PwLine passwd
  | SpLine spwd
  | GrLine group_t
  | SgLine sgrp
  | TextLine string

record attrs =
  i_mode :: "32 word"
  i_uid :: uid_t
  i_gid :: gid_t
  i_xattr :: "(string \<times> string) list"

record inode = attrs +
  i_lines :: "line list"

text \<open>A directory tree: files with their content, symbolic links and directories.\<close>

datatype htree =
    HFile attrs string
  | HLink attrs string
  | HDir attrs "(string \<times> htree) list"

section \<open>Oracles\<close>

datatype syscall =
    SysFopenR | SysFopenW | SysStat | SysLstat | SysChmod | SysChown
  | SysListxattr | SysGetxattr | SysSetxattr
  | SysWrite | SysFflush | SysFsync | SysFclose | SysUnlink | SysLink | SysRename
  | SysAccess | SysOpendir | SysMkdir | SysCopy | SysRemove
  | SysLckpwdf | SysUlckpwdf | SysSeteuid | SysUrandom | SysSpawn | SysDBus | SysKeyfile

text \<open>
  \<open>fault t c\<close>: the system call \<open>c\<close> fails at time \<open>t\<close>. \<open>short_read t\<close>: a stream opened at
  time \<open>t\<close> can be read to its end (\<open>None\<close>) or returns an error after some lines.
  \<open>copy_attrs\<close>: the attributes GIO gives the copy of a file. \<open>stat_target\<close>: the attributes
  of what a symbolic link at a path resolves to. \<open>use_systemd\<close> is the build option
  \<^verbatim>\<open>USE_SYSTEMD\<close>, \<open>logind_terminate\<close> what terminating a user leaves of the sessions.
\<close>

record ctx =
  c_env :: env
  glob_config :: gum_config
  getpid :: nat
  getegid :: gid_t
  sysconfdir :: string
  creat_mode :: "32 word"
  fault :: "nat \<Rightarrow> syscall \<Rightarrow> bool"
  short_read :: "nat \<Rightarrow> nat option"
  clock_days :: "nat \<Rightarrow> int"
  urandom :: "nat \<Rightarrow> 8 word list"
  proc_umask :: "32 word"
  copy_attrs :: "attrs \<Rightarrow> attrs"
  stat_target :: "string \<Rightarrow> attrs option"
  use_systemd :: bool
  logind_terminate :: "nat \<Rightarrow> uid_t \<Rightarrow> uid_t list \<Rightarrow> uid_t list"

datatype event =
    EvScript "string list"
  | EvChmodTarget string "32 word"
  | EvChownTarget string uid_t gid_t
  | EvBeyondLink string

record world =
  files :: "string \<Rightarrow> inode option"
  trees :: "string \<Rightarrow> htree option"
  infos :: "string \<Rightarrow> pstr option"
  gerror :: "GumError option"
  lock_count :: int
  pwdf_held :: bool
  ruid :: uid_t
  euid :: uid_t
  tick :: nat
  sessions :: "uid_t list"
  events :: "event list"

type_synonym 'a wm = "(world, 'a) state"

section \<open>Primitives\<close>

text \<open>A system call: FALSE if the oracle lets it fail. The clock advances.\<close>

definition sys :: "ctx \<Rightarrow> syscall \<Rightarrow> bool wm" where
  "sys C c = State (\<lambda>w. (\<not> fault C (tick w) c, w\<lparr>tick := tick w + 1\<rparr>))"

text \<open>
  \<open>GUM_SET_ERROR\<close> and \<open>GUM_RETURN_WITH_ERROR\<close> store a new error, replacing an earlier
  one; a call that passes NULL for its error argument is \<open>no_error\<close> of the computation.
\<close>

definition set_error :: "GumError \<Rightarrow> unit wm" where
  "set_error e = modify (\<lambda>w. w\<lparr>gerror := Some e\<rparr>)"

definition fail_with :: "GumError \<Rightarrow> bool wm" where
  "fail_with e = do { set_error e; ret False }"

definition no_error :: "'a wm \<Rightarrow> 'a wm" where
  "no_error m = do {
     e \<leftarrow> gets gerror;
     r \<leftarrow> m;
     modify (\<lambda>w. w\<lparr>gerror := e\<rparr>);
     ret r }"

definition log_event :: "event \<Rightarrow> unit wm" where
  "log_event e = modify (\<lambda>w. w\<lparr>events := events w @ [e]\<rparr>)"

text \<open>\<open>a && b\<close> and the loop over a list that stops at the first FALSE.\<close>

definition and_then :: "bool wm \<Rightarrow> bool wm \<Rightarrow> bool wm" where
  "and_then a b = do { x \<leftarrow> a; if x then b else ret False }"

fun all_ok :: "('a \<Rightarrow> bool wm) \<Rightarrow> 'a list \<Rightarrow> bool wm" where
  "all_ok f [] = ret True"
| "all_ok f (x # xs) = and_then (f x) (all_ok f xs)"

lemma wp_sys [wp_rules]:
  "(\<And>b. Q b (s\<lparr>tick := tick s + 1\<rparr>)) \<Longrightarrow> wp (sys C c) Q s"
  by (simp add: wp_def sys_def)

lemma wp_set_error [wp_rules]: "Q () (s\<lparr>gerror := Some e\<rparr>) \<Longrightarrow> wp (set_error e) Q s"
  by (simp add: wp_def set_error_def)

lemma wp_fail_with [wp_rules]: "Q False (s\<lparr>gerror := Some e\<rparr>) \<Longrightarrow> wp (fail_with e) Q s"
  by (simp add: fail_with_def wp_bind wp_set_error wp_return)

lemma wp_no_error [wp_rules]:
  "wp m (\<lambda>r s'. Q r (s'\<lparr>gerror := gerror s\<rparr>)) s \<Longrightarrow> wp (no_error m) Q s"
  unfolding no_error_def by (intro wp_rules) (auto elim!: wp_mono intro!: wp_rules)

lemma wp_log_event [wp_rules]: "Q () (s\<lparr>events := events s @ [e]\<rparr>) \<Longrightarrow> wp (log_event e) Q s"
  by (simp add: wp_def log_event_def)

lemma wp_and_then [wp_rules]:
  "wp a (\<lambda>x. wp (if x then b else ret False) Q) s \<Longrightarrow> wp (and_then a b) Q s"
  unfolding and_then_def by (rule wp_bind)

lemma frame_sys [frame_rules]: "(\<And>w n. g (w\<lparr>tick := n\<rparr>) = g w) \<Longrightarrow> frame g (sys C c)"
  by (simp add: frame_def sys_def)

lemma frame_set_error [frame_rules]:
  "(\<And>w e. g (w\<lparr>gerror := e\<rparr>) = g w) \<Longrightarrow> frame g (set_error e)"
  by (simp add: frame_def set_error_def)

lemma frame_fail_with [frame_rules]:
  "(\<And>w e. g (w\<lparr>gerror := e\<rparr>) = g w) \<Longrightarrow> frame g (fail_with e)"
  unfolding fail_with_def by (intro frame_rules)

lemma frame_no_error [frame_rules]:
  "(\<And>w e. g (w\<lparr>gerror := e\<rparr>) = g w) \<Longrightarrow> frame g m \<Longrightarrow> frame g (no_error m)"
  unfolding no_error_def by (intro frame_rules)

lemma frame_log_event [frame_rules]:
  "(\<And>w e. g (w\<lparr>events := e\<rparr>) = g w) \<Longrightarrow> frame g (log_event e)"
  by (simp add: frame_def log_event_def)

lemma frame_and_then [frame_rules]: "frame g a \<Longrightarrow> frame g b \<Longrightarrow> frame g (and_then a b)"
  unfolding and_then_def by (intro frame_rules)

lemma frame_all_ok [frame_rules]: "(\<And>x. frame g (f x)) \<Longrightarrow> frame g (all_ok f xs)"
  by (induction xs) (auto intro: frame_rules)

section \<open>Entries of the C library\<close>

text \<open>
  \<open>fgetpwent\<close> and its relatives return the entries of their database in order and skip
  every other line, so a loop over them is one over these lists.
\<close>

fun pw_entries :: "line list \<Rightarrow> passwd list" where
  "pw_entries [] = []"
| "pw_entries (PwLine p # ls) = p # pw_entries ls"
| "pw_entries (_ # ls) = pw_entries ls"

fun sp_entries :: "line list \<Rightarrow> spwd list" where
  "sp_entries [] = []"
| "sp_entries (SpLine p # ls) = p # sp_entries ls"
| "sp_entries (_ # ls) = sp_entries ls"

fun gr_entries :: "line list \<Rightarrow> group_t list" where
  "gr_entries [] = []"
| "gr_entries (GrLine p # ls) = p # gr_entries ls"
| "gr_entries (_ # ls) = gr_entries ls"

fun sg_entries :: "line list \<Rightarrow> sgrp list" where
  "sg_entries [] = []"
| "sg_entries (SgLine p # ls) = p # sg_entries ls"
| "sg_entries (_ # ls) = sg_entries ls"

text \<open>
  \<open>putpwent\<close> and its relatives refuse an entry without a name or with a colon or newline
  in a field (a comma too in a list), write NULL as the empty string or list, and turn the
  separators of a gecos field into spaces.
\<close>

definition valid_field :: "pstr \<Rightarrow> bool" where
  "valid_field f = (case f of None \<Rightarrow> True | Some s \<Rightarrow> \<not> strpbrk s [CHR '':'', CHR 0x0A])"

definition valid_list_field :: "string list option \<Rightarrow> bool" where
  "valid_list_field f =
     (case f of None \<Rightarrow> True
      | Some xs \<Rightarrow> list_all (\<lambda>s. \<not> strpbrk s [CHR '':'', CHR 0x0A, CHR '','']) xs)"

definition nn :: "pstr \<Rightarrow> pstr" where
  "nn f = Some (case f of None \<Rightarrow> [] | Some s \<Rightarrow> s)"

definition nnl :: "string list option \<Rightarrow> string list option" where
  "nnl f = Some (case f of None \<Rightarrow> [] | Some xs \<Rightarrow> xs)"

definition rewrite_field :: "pstr \<Rightarrow> pstr" where
  "rewrite_field f =
     Some (case f of None \<Rightarrow> []
           | Some s \<Rightarrow> map (\<lambda>c. if c = CHR '':'' \<or> c = CHR 0x0A then CHR '' '' else c) s)"

definition passwd_line :: "passwd \<Rightarrow> passwd option" where
  "passwd_line p =
     (if pw_name p \<noteq> None \<and> valid_field (pw_name p) \<and> valid_field (pw_passwd p) \<and>
         valid_field (pw_dir p) \<and> valid_field (pw_shell p)
      then Some (p\<lparr>pw_passwd := nn (pw_passwd p), pw_gecos := rewrite_field (pw_gecos p),
                   pw_dir := nn (pw_dir p), pw_shell := nn (pw_shell p)\<rparr>)
      else None)"

definition spwd_line :: "spwd \<Rightarrow> spwd option" where
  "spwd_line p =
     (if sp_namp p \<noteq> None \<and> valid_field (sp_namp p) \<and> valid_field (sp_pwdp p)
      then Some (p\<lparr>sp_pwdp := nn (sp_pwdp p)\<rparr>) else None)"

definition group_line :: "group_t \<Rightarrow> group_t option" where
  "group_line g =
     (if gr_name g \<noteq> None \<and> valid_field (gr_name g) \<and> valid_field (gr_passwd g) \<and>
         valid_list_field (gr_mem g)
      then Some (g\<lparr>gr_passwd := nn (gr_passwd g), gr_mem := nnl (gr_mem g)\<rparr>) else None)"

definition sgrp_line :: "sgrp \<Rightarrow> sgrp option" where
  "sgrp_line g =
     (if sg_namp g \<noteq> None \<and> valid_field (sg_namp g) \<and> valid_field (sg_passwd g) \<and>
         valid_list_field (sg_adm g) \<and> valid_list_field (sg_mem g)
      then Some (g\<lparr>sg_passwd := nn (sg_passwd g), sg_adm := nnl (sg_adm g),
                   sg_mem := nnl (sg_mem g)\<rparr>) else None)"

text \<open>A stream written to is the path it was opened on; an entry is appended to it.\<close>

definition append_line :: "string \<Rightarrow> line \<Rightarrow> unit wm" where
  "append_line path l = modify (\<lambda>w. w\<lparr>files := (files w)(path :=
     map_option (\<lambda>i. i\<lparr>i_lines := i_lines i @ [l]\<rparr>) (files w path))\<rparr>)"

definition put_line :: "ctx \<Rightarrow> string \<Rightarrow> line option \<Rightarrow> bool wm" where
  "put_line C path l =
     (case l of None \<Rightarrow> ret False
      | Some x \<Rightarrow> do { ok \<leftarrow> sys C SysWrite;
                       if ok then do { append_line path x; ret True } else ret False })"

definition putpwent :: "ctx \<Rightarrow> passwd \<Rightarrow> string \<Rightarrow> bool wm" where
  "putpwent C p path = put_line C path (map_option PwLine (passwd_line p))"

definition putspent :: "ctx \<Rightarrow> spwd \<Rightarrow> string \<Rightarrow> bool wm" where
  "putspent C p path = put_line C path (map_option SpLine (spwd_line p))"

definition putgrent :: "ctx \<Rightarrow> group_t \<Rightarrow> string \<Rightarrow> bool wm" where
  "putgrent C p path = put_line C path (map_option GrLine (group_line p))"

definition putsgent :: "ctx \<Rightarrow> sgrp \<Rightarrow> string \<Rightarrow> bool wm" where
  "putsgent C p path = put_line C path (map_option SgLine (sgrp_line p))"

section \<open>Privileges and the database lock\<close>

text \<open>
  \<open>seteuid\<close>: the result is only logged by the code. The saved user id of the daemon is 0,
  so the call succeeds unless the oracle lets it fail.
\<close>

definition seteuid :: "ctx \<Rightarrow> uid_t \<Rightarrow> unit wm" where
  "seteuid C u = do {
     ok \<leftarrow> sys C SysSeteuid;
     if ok then modify (\<lambda>w. w\<lparr>euid := u\<rparr>) else ret () }"

definition gum_utils_drop_privileges :: "ctx \<Rightarrow> unit wm" where
  "gum_utils_drop_privileges C = do { r \<leftarrow> gets ruid; seteuid C r }"

definition gum_utils_gain_privileges :: "ctx \<Rightarrow> unit wm" where
  "gum_utils_gain_privileges C = seteuid C 0"

definition lckpwdf :: "ctx \<Rightarrow> bool wm" where
  "lckpwdf C = do {
     held \<leftarrow> gets pwdf_held;
     ok \<leftarrow> sys C SysLckpwdf;
     if \<not> held \<and> ok then do { modify (\<lambda>w. w\<lparr>pwdf_held := True\<rparr>); ret True }
     else ret False }"

text \<open>The descriptor is given up even when closing it reports an error.\<close>

definition ulckpwdf :: "ctx \<Rightarrow> bool wm" where
  "ulckpwdf C = do {
     held \<leftarrow> gets pwdf_held;
     ok \<leftarrow> sys C SysUlckpwdf;
     modify (\<lambda>w. w\<lparr>pwdf_held := False\<rparr>);
     ret (held \<and> ok) }"

definition gum_lock_pwdf_lock :: "ctx \<Rightarrow> bool wm" where
  "gum_lock_pwdf_lock C = do {
     n \<leftarrow> gets lock_count;
     locked \<leftarrow> (if n = 0 then do { gum_utils_gain_privileges C; lckpwdf C } else ret True);
     if \<not> locked then ret False
     else do { modify (\<lambda>w. w\<lparr>lock_count := lock_count w + 1\<rparr>); ret True } }"

definition gum_lock_pwdf_unlock :: "ctx \<Rightarrow> bool wm" where
  "gum_lock_pwdf_unlock C = do {
     n \<leftarrow> gets lock_count;
     if n > 0 then do {
       modify (\<lambda>w. w\<lparr>lock_count := lock_count w - 1\<rparr>);
       n' \<leftarrow> gets lock_count;
       if n' = 0 then do {
         ok \<leftarrow> ulckpwdf C;
         if \<not> ok then ret False
         else do { gum_utils_drop_privileges C; ret True } }
       else ret True }
     else if n \<le> 0 then ret False
     else ret True }"

section \<open>Nested locks\<close>

text \<open>
  What a client of a nested lock relies on, and the two notions it needs: a computation is
  \<open>balanced\<close> if it gives back every lock it takes, and \<open>releases\<close> one lock if it gives back
  one more.
\<close>

definition balanced :: "('s \<Rightarrow> bool) \<Rightarrow> ('s \<Rightarrow> int) \<Rightarrow> ('s, 'a) state \<Rightarrow> bool" where
  "balanced J depth m \<longleftrightarrow>
     (\<forall>s. J s \<longrightarrow> wp m (\<lambda>_ s'. J s' \<and> depth s' = depth s) s)"

definition releases :: "('s \<Rightarrow> bool) \<Rightarrow> ('s \<Rightarrow> int) \<Rightarrow> ('s, 'a) state \<Rightarrow> bool" where
  "releases J depth m \<longleftrightarrow>
     (\<forall>s. J s \<longrightarrow> 0 < depth s \<longrightarrow> wp m (\<lambda>_ s'. J s' \<and> depth s' = depth s - 1) s)"

named_theorems lock_rules "introduction rules for balanced and releases"

lemma balanced_return [lock_rules]: "balanced J depth (ret x)"
  by (simp add: balanced_def wp_return)

lemma balanced_bind [lock_rules]:
  "balanced J depth m \<Longrightarrow> (\<And>x. balanced J depth (f x)) \<Longrightarrow>
   balanced J depth (State_Monad.bind m f)"
  by (simp add: balanced_def wp_def case_prod_beta)

lemma releases_bind [lock_rules]:
  "balanced J depth m \<Longrightarrow> (\<And>x. releases J depth (f x)) \<Longrightarrow>
   releases J depth (State_Monad.bind m f)"
  by (simp add: balanced_def releases_def wp_def case_prod_beta)

lemma lock_split [lock_rules]:
  "(b \<Longrightarrow> balanced J depth m) \<Longrightarrow> (\<not> b \<Longrightarrow> balanced J depth n) \<Longrightarrow>
   balanced J depth (if b then m else n)"
  "(b \<Longrightarrow> releases J depth m) \<Longrightarrow> (\<not> b \<Longrightarrow> releases J depth n) \<Longrightarrow>
   releases J depth (if b then m else n)"
  "(\<And>x. x = t \<Longrightarrow> balanced J depth (f x)) \<Longrightarrow> balanced J depth (let x = t in f x)"
  "(\<And>x. x = t \<Longrightarrow> releases J depth (f x)) \<Longrightarrow> releases J depth (let x = t in f x)"
  "(z = None \<Longrightarrow> balanced J depth m) \<Longrightarrow> (\<And>y. z = Some y \<Longrightarrow> balanced J depth (h y)) \<Longrightarrow>
   balanced J depth (case z of None \<Rightarrow> m | Some y \<Rightarrow> h y)"
  "(z = None \<Longrightarrow> releases J depth m) \<Longrightarrow> (\<And>y. z = Some y \<Longrightarrow> releases J depth (h y)) \<Longrightarrow>
   releases J depth (case z of None \<Rightarrow> m | Some y \<Rightarrow> h y)"
  "(\<And>a b. p = (a, b) \<Longrightarrow> balanced J depth (k a b)) \<Longrightarrow>
   balanced J depth (case p of (a, b) \<Rightarrow> k a b)"
  "(\<And>a b. p = (a, b) \<Longrightarrow> releases J depth (k a b)) \<Longrightarrow>
   releases J depth (case p of (a, b) \<Rightarrow> k a b)"
  by (auto split: option.splits prod.splits)

locale nested_lock =
  fixes lock unlock :: "('s, bool) state"
    and J :: "'s \<Rightarrow> bool" and depth :: "'s \<Rightarrow> int"
  assumes lock_step: "J s \<Longrightarrow>
      wp lock (\<lambda>ok s'. J s' \<and> depth s' = (if ok then depth s + 1 else depth s)) s"
    and unlock_step: "J s \<Longrightarrow> 0 < depth s \<Longrightarrow>
      wp unlock (\<lambda>_ s'. J s' \<and> depth s' = depth s - 1) s"
    and depth_nonneg: "J s \<Longrightarrow> 0 \<le> depth s"
begin

lemma releases_unlock: "releases J depth unlock"
  using unlock_step by (simp add: releases_def)

lemma releases_unlock_then:
  "(\<And>x. balanced J depth (f x)) \<Longrightarrow> releases J depth (State_Monad.bind unlock f)"
  using unlock_step by (simp add: releases_def balanced_def wp_def case_prod_beta)

lemma balanced_lock:
  assumes fail: "balanced J depth (f False)" and rel: "releases J depth (f True)"
  shows "balanced J depth (State_Monad.bind lock f)"
  unfolding balanced_def
proof (intro allI impI wp_bind)
  fix s assume i: "J s"
  have "wp (f ok) (\<lambda>_ s'. J s' \<and> depth s' = depth s) t"
    if t: "J t \<and> depth t = (if ok then depth s + 1 else depth s)" for ok t
  proof (cases ok)
    case True
    with t depth_nonneg [OF i] have "0 < depth t" by simp
    with rel t True have "wp (f True) (\<lambda>_ s'. J s' \<and> depth s' = depth t - 1) t"
      unfolding releases_def by blast
    with True t show ?thesis by simp
  next
    case False
    with t have "J t" "depth t = depth s" by simp_all
    from fail \<open>J t\<close> have "wp (f False) (\<lambda>_ s'. J s' \<and> depth s' = depth t) t"
      unfolding balanced_def by blast
    with False \<open>depth t = depth s\<close> show ?thesis by simp
  qed
  with lock_step [OF i] show "wp lock (\<lambda>ok. wp (f ok) (\<lambda>_ s'. J s' \<and> depth s' = depth s)) s"
    by (rule wp_mono)
qed

end

text \<open>
  The database lock is held exactly while its count is positive, whatever fails. So it is
  a nested lock.
\<close>

definition lock_ok :: "world \<Rightarrow> bool" where
  "lock_ok w \<longleftrightarrow> 0 \<le> lock_count w \<and> (pwdf_held w \<longleftrightarrow> 0 < lock_count w)"

lemma frame_lock_ok: "frame (\<lambda>w. (lock_count w, pwdf_held w)) m \<Longrightarrow> balanced lock_ok lock_count m"
  by (auto simp: balanced_def frame_def wp_def lock_ok_def)

lemma gum_lock_step:
  "lock_ok w \<Longrightarrow>
   wp (gum_lock_pwdf_lock C)
      (\<lambda>ok w'. lock_ok w' \<and> lock_count w' = (if ok then lock_count w + 1 else lock_count w)) w"
  unfolding gum_lock_pwdf_lock_def lckpwdf_def gum_utils_gain_privileges_def seteuid_def
  by (intro wp_rules) (auto simp: lock_ok_def)

lemma gum_unlock_step:
  "lock_ok w \<Longrightarrow> 0 < lock_count w \<Longrightarrow>
   wp (gum_lock_pwdf_unlock C) (\<lambda>_ w'. lock_ok w' \<and> lock_count w' = lock_count w - 1) w"
  unfolding gum_lock_pwdf_unlock_def ulckpwdf_def gum_utils_drop_privileges_def seteuid_def
  by (intro wp_rules) (auto simp: lock_ok_def)

interpretation pwdf: nested_lock "gum_lock_pwdf_lock C" "gum_lock_pwdf_unlock C" lock_ok lock_count
  for C
  by (rule nested_lock.intro) (simp_all add: gum_lock_step gum_unlock_step lock_ok_def [THEN iffD1])

lemmas [lock_rules] = pwdf.releases_unlock_then pwdf.releases_unlock pwdf.balanced_lock

section \<open>A world to evaluate in\<close>

text \<open>
  Small account files, a configuration and a context in which no call fails, for the closed
  instances of the properties.
\<close>

definition ref_config :: gum_config where
  "ref_config = \<lparr>config_file_path = None,
     config_table =
       [(GUM_CONFIG_GENERAL_PASSWD_FILE, GV_string ''p''),
        (GUM_CONFIG_GENERAL_SHADOW_FILE, GV_string ''s''),
        (GUM_CONFIG_GENERAL_GROUP_FILE, GV_string ''g''),
        (GUM_CONFIG_GENERAL_GSHADOW_FILE, GV_string ''gs''),
        (GUM_CONFIG_GENERAL_HOME_DIR_PREF, GV_string ''/home''),
        (GUM_CONFIG_GENERAL_SKEL_DIR, GV_string ''/skel''),
        (GUM_CONFIG_GENERAL_ENCRYPT_METHOD, GV_string ''SHA512''),
        (GUM_CONFIG_GENERAL_UID_MIN, GV_uint32 1000), (GUM_CONFIG_GENERAL_UID_MAX, GV_uint32 1003),
        (GUM_CONFIG_GENERAL_GID_MIN, GV_uint32 1000), (GUM_CONFIG_GENERAL_GID_MAX, GV_uint32 1003),
        (GUM_CONFIG_GENERAL_SYS_UID_MIN, GV_uint32 200), (GUM_CONFIG_GENERAL_SYS_UID_MAX, GV_uint32 299),
        (GUM_CONFIG_GENERAL_SEC_UID_MIN, GV_uint32 300), (GUM_CONFIG_GENERAL_SEC_UID_MAX, GV_uint32 399),
        (GUM_CONFIG_GENERAL_SYS_GID_MIN, GV_uint32 200), (GUM_CONFIG_GENERAL_SYS_GID_MAX, GV_uint32 299),
        (GUM_CONFIG_GENERAL_USERINFO_DIR, GV_string ''/info/''),
        (GUM_CONFIG_GENERAL_DEF_USR_GROUPS, GV_string ''audio''),
        (GUM_CONFIG_DBUS_DAEMON_TIMEOUT, GV_int32 20)],
     sysroot = None\<rparr>"

definition ref_ctx :: ctx where
  "ref_ctx = \<lparr>c_env = ref_env, glob_config = ref_config, getpid = 42, getegid = 0,
     sysconfdir = ''/etc'', creat_mode = 0x1B6,
     fault = (\<lambda>t c. False), short_read = (\<lambda>t. None), clock_days = (\<lambda>t. 17000),
     urandom = (\<lambda>t. replicate 16 7), proc_umask = 0x12, copy_attrs = (\<lambda>a. a),
     stat_target = (\<lambda>p. None), use_systemd = True,
     logind_terminate = (\<lambda>t u us. removeAll u us)\<rparr>"

definition ref_attrs :: attrs where
  "ref_attrs = \<lparr>i_mode = 0x1A4, i_uid = 0, i_gid = 0, i_xattr = []\<rparr>"

definition ref_file :: "line list \<Rightarrow> inode" where
  "ref_file ls = \<lparr>i_mode = 0x1A4, i_uid = 0, i_gid = 0, i_xattr = [], i_lines = ls\<rparr>"

definition ref_passwd :: "string \<Rightarrow> uid_t \<Rightarrow> gid_t \<Rightarrow> passwd" where
  "ref_passwd n u g = \<lparr>pw_name = Some n, pw_passwd = Some ''x'', pw_uid = u, pw_gid = g,
     pw_gecos = Some [], pw_dir = Some (''/home/'' @ n), pw_shell = Some ''/bin/sh''\<rparr>"

definition ref_group :: "string \<Rightarrow> gid_t \<Rightarrow> string list \<Rightarrow> group_t" where
  "ref_group n g ms = \<lparr>gr_name = Some n, gr_passwd = Some ''x'', gr_gid = g, gr_mem = Some ms\<rparr>"

definition ref_sgrp :: "string \<Rightarrow> string list \<Rightarrow> sgrp" where
  "ref_sgrp n ms = \<lparr>sg_namp = Some n, sg_passwd = Some ''*'', sg_adm = Some [], sg_mem = Some ms\<rparr>"

definition ref_spwd :: "string \<Rightarrow> spwd" where
  "ref_spwd n = \<lparr>sp_namp = Some n, sp_pwdp = Some ''h'', sp_lstchg = 17000, sp_min = 0, sp_max = 99999,
     sp_warn = 7, sp_inact = -1, sp_expire = -1, sp_flag = -1\<rparr>"

definition ref_world :: world where
  "ref_world = \<lparr>
     files = [''p'' \<mapsto> ref_file [PwLine (ref_passwd ''root'' 0 0), PwLine (ref_passwd ''ann'' 1000 1000)],
              ''s'' \<mapsto> ref_file [SpLine (ref_spwd ''root''), SpLine (ref_spwd ''ann'')],
              ''g'' \<mapsto> ref_file [GrLine (ref_group ''root'' 0 []), GrLine (ref_group ''ann'' 1000 []),
                              GrLine (ref_group ''audio'' 1001 [''ann''])],
              ''gs'' \<mapsto> ref_file [SgLine (ref_sgrp ''audio'' [''ann''])]],
     trees = Map.empty, infos = Map.empty, gerror = None, lock_count = 0, pwdf_held = False, ruid = 200, euid = 200,
     tick = 0, sessions = [], events = []\<rparr>"

section \<open>Properties\<close>

text \<open>
  C37. The database lock nests. Taking it succeeds at once when it is already held, and
  otherwise exactly if \<open>lckpwdf\<close> does; a failure leaves the count alone; giving it back
  lowers the count and lets go of the file lock exactly at zero. Through all of this, under
  every pattern of failures, the file lock is held exactly while the count is positive.
\<close>

theorem gum_lock_pwdf_nests:
  assumes "lock_ok w"
  shows "wp (gum_lock_pwdf_lock C) (\<lambda>ok w'.
           lock_ok w' \<and> (pwdf_held w \<longrightarrow> ok) \<and>
           lock_count w' = (if ok then lock_count w + 1 else lock_count w) \<and>
           files w' = files w \<and>
           wp (gum_lock_pwdf_unlock C) (\<lambda>r w''. if ok then
               lock_ok w'' \<and> lock_count w'' = lock_count w \<and> pwdf_held w'' = pwdf_held w \<and>
               (pwdf_held w \<longrightarrow> r)
             else \<not> pwdf_held w'' \<and> \<not> r \<and> lock_count w'' = 0) w') w"
  using assms
  unfolding gum_lock_pwdf_lock_def gum_lock_pwdf_unlock_def lckpwdf_def ulckpwdf_def
    gum_utils_gain_privileges_def gum_utils_drop_privileges_def seteuid_def
  by (intro wp_rules conjI impI) (auto simp: lock_ok_def intro!: wp_rules)

theorem gum_lock_pwdf_nests_witness:
  "lock_count (snd (run_state
     (do { gum_lock_pwdf_lock ref_ctx; gum_lock_pwdf_unlock ref_ctx }) ref_world)) = 0"
proof -
  have "lock_ok ref_world" by (simp add: lock_ok_def ref_world_def)
  from gum_lock_pwdf_nests [OF this, of ref_ctx] show ?thesis
    by (simp add: wp_def case_prod_beta ref_world_def split: if_splits)
qed

end
