(* ===== verification/Gum_File.thy ===== *)
theory Gum_File
  imports Gum_World
begin

text \<open>
  \<^verbatim>\<open>src/common/gum-file.c\<close> for the account files: opening a database with its
  duplicate, committing the duplicate, the update by callback that every change of a
  database goes through, and the lookups. A stream opened for reading is the list of lines
  that can be read from it; a stream opened for writing is its path.
\<close>

section \<open>Opening and attributes\<close>

definition truncate_read :: "nat option \<Rightarrow> line list \<Rightarrow> line list" where
  "truncate_read n ls = (case n of None \<Rightarrow> ls | Some k \<Rightarrow> take k ls)"

text \<open>\<open>_open_file (fn, "r")\<close> and \<open>_open_file (fn, "w+")\<close>.\<close>

definition open_file_r :: "ctx \<Rightarrow> pstr \<Rightarrow> line list option wm" where
  "open_file_r C fn =
     (case fn of None \<Rightarrow> ret None
      | Some path \<Rightarrow> do {
          t \<leftarrow> gets tick;
          ok \<leftarrow> sys C SysFopenR;
          f \<leftarrow> gets (\<lambda>w. files w path);
          ret (if ok then map_option (\<lambda>i. truncate_read (short_read C t) (i_lines i)) f
               else None) })"

definition open_file_w :: "ctx \<Rightarrow> pstr \<Rightarrow> string option wm" where
  "open_file_w C fn =
     (case fn of None \<Rightarrow> ret None
      | Some path \<Rightarrow> do {
          ok \<leftarrow> sys C SysFopenW;
          if \<not> ok then ret None
          else do {
            modify (\<lambda>w. w\<lparr>files := (files w)(path \<mapsto>
              (case files w path of
                 None \<Rightarrow> \<lparr>i_mode = creat_mode C, i_uid = euid w, i_gid = 0, i_xattr = [], i_lines = []\<rparr>
               | Some i \<Rightarrow> i\<lparr>i_lines := []\<rparr>))\<rparr>);
            ret (Some path) } })"

definition update_inode :: "string \<Rightarrow> (inode \<Rightarrow> inode) \<Rightarrow> unit wm" where
  "update_inode path f =
     modify (\<lambda>w. w\<lparr>files := (files w)(path := map_option f (files w path))\<rparr>)"

definition lsetxattr :: "ctx \<Rightarrow> string \<Rightarrow> string \<Rightarrow> string \<Rightarrow> bool wm" where
  "lsetxattr C path name val = do {
     ok \<leftarrow> sys C SysSetxattr;
     f \<leftarrow> gets (\<lambda>w. files w path);
     if ok \<and> f \<noteq> None
     then do { update_inode path (\<lambda>i. i\<lparr>i_xattr := AList.update name val (i_xattr i)\<rparr>); ret True }
     else ret False }"

definition XATTR_NAME_SMACK :: string where
  "XATTR_NAME_SMACK = ''security.SMACK64''"

definition set_smack64_attr :: "ctx \<Rightarrow> string \<Rightarrow> string \<Rightarrow> bool wm" where
  "set_smack64_attr C path key =
     (case gum_config_get_string (glob_config C) key of
        None \<Rightarrow> ret True
      | Some smack_label \<Rightarrow>
          if length smack_label > 0 then lsetxattr C path XATTR_NAME_SMACK smack_label
          else ret True)"

text \<open>
  The loop over the attribute names: an attribute that is empty or cannot be read is
  passed over, one that cannot be written ends the copy.
\<close>

fun copy_xattrs :: "ctx \<Rightarrow> string \<Rightarrow> (string \<times> string) list \<Rightarrow> bool wm" where
  "copy_xattrs C to [] = ret True"
| "copy_xattrs C to ((name, val) # rest) = do {
     ok1 \<leftarrow> sys C SysGetxattr;
     ok2 \<leftarrow> (if ok1 \<and> val \<noteq> [] then sys C SysGetxattr else ret False);
     if ok2 then do {
       ok \<leftarrow> lsetxattr C to name val;
       if \<not> ok then ret False else copy_xattrs C to rest }
     else copy_xattrs C to rest }"

definition chmod :: "ctx \<Rightarrow> string \<Rightarrow> 32 word \<Rightarrow> bool wm" where
  "chmod C path m = do {
     ok \<leftarrow> sys C SysChmod;
     f \<leftarrow> gets (\<lambda>w. files w path);
     if ok \<and> f \<noteq> None then do { update_inode path (\<lambda>i. i\<lparr>i_mode := m\<rparr>); ret True }
     else ret False }"

definition chown :: "ctx \<Rightarrow> string \<Rightarrow> uid_t \<Rightarrow> gid_t \<Rightarrow> bool wm" where
  "chown C path u g = do {
     ok \<leftarrow> sys C SysChown;
     f \<leftarrow> gets (\<lambda>w. files w path);
     if ok \<and> f \<noteq> None then do { update_inode path (\<lambda>i. i\<lparr>i_uid := u, i_gid := g\<rparr>); ret True }
     else ret False }"

definition stat_file :: "ctx \<Rightarrow> string \<Rightarrow> inode option wm" where
  "stat_file C path = do {
     ok \<leftarrow> sys C SysStat;
     f \<leftarrow> gets (\<lambda>w. files w path);
     ret (if ok then f else None) }"

definition copy_file_attributes :: "ctx \<Rightarrow> string \<Rightarrow> string \<Rightarrow> bool wm" where
  "copy_file_attributes C from to = do {
     st \<leftarrow> stat_file C from;
     case st of None \<Rightarrow> ret False
     | Some from_stat \<Rightarrow> do {
         ok \<leftarrow> and_then (chmod C to (i_mode from_stat))
                       (chown C to (i_uid from_stat) (i_gid from_stat));
         if \<not> ok then ret False
         else do {
           size_ok \<leftarrow> sys C SysListxattr;
           if size_ok \<and> i_xattr from_stat \<noteq> [] then do {
             names_ok \<leftarrow> sys C SysListxattr;
             if names_ok then copy_xattrs C to (i_xattr from_stat) else ret True }
           else ret True } } }"

definition g_unlink :: "ctx \<Rightarrow> string \<Rightarrow> unit wm" where
  "g_unlink C path = do {
     ok \<leftarrow> sys C SysUnlink;
     if ok then modify (\<lambda>w. w\<lparr>files := (files w)(path := None)\<rparr>) else ret () }"

section \<open>The pair of database files\<close>

text \<open>The streams opened, if it succeeds.\<close>

definition prepare_dup :: "ctx \<Rightarrow> string \<Rightarrow> string \<Rightarrow> line list \<Rightarrow> (line list \<times> string) option wm" where
  "prepare_dup C src dup source = do {
     ok \<leftarrow> set_smack64_attr C dup GUM_CONFIG_GENERAL_SMACK64_NEW_FILES;
     if \<not> ok then do { set_error GUM_ERROR_FILE_ATTRIBUTE; g_unlink C dup; ret None }
     else do {
       ok \<leftarrow> copy_file_attributes C src dup;
       if \<not> ok then do { set_error GUM_ERROR_FILE_ATTRIBUTE; g_unlink C dup; ret None }
       else ret (Some (source, dup)) } }"

definition gum_file_open_db_files ::
    "ctx \<Rightarrow> pstr \<Rightarrow> pstr \<Rightarrow> (line list \<times> string) option wm" where
  "gum_file_open_db_files C source_file_path dup_file_path =
     (case (source_file_path, dup_file_path) of
        (Some src, Some dup) \<Rightarrow> do {
          source \<leftarrow> open_file_r C (Some src);
          case source of None \<Rightarrow> do { set_error GUM_ERROR_FILE_OPEN; ret None }
          | Some ls \<Rightarrow> do {
              d \<leftarrow> open_file_w C (Some dup);
              case d of None \<Rightarrow> do { set_error GUM_ERROR_FILE_OPEN; ret None }
              | Some dp \<Rightarrow> prepare_dup C src dp ls } }
      | _ \<Rightarrow> do { set_error GUM_ERROR_FILE_OPEN; ret None })"

definition link_file :: "ctx \<Rightarrow> string \<Rightarrow> string \<Rightarrow> bool wm" where
  "link_file C old new = do {
     ok \<leftarrow> sys C SysLink;
     f \<leftarrow> gets (\<lambda>w. files w old);
     n \<leftarrow> gets (\<lambda>w. files w new);
     if ok \<and> f \<noteq> None \<and> n = None
     then do { modify (\<lambda>w. w\<lparr>files := (files w)(new := f)\<rparr>); ret True }
     else ret False }"

definition g_rename :: "ctx \<Rightarrow> string \<Rightarrow> string \<Rightarrow> bool wm" where
  "g_rename C old new = do {
     ok \<leftarrow> sys C SysRename;
     f \<leftarrow> gets (\<lambda>w. files w old);
     if ok \<and> f \<noteq> None
     then do { modify (\<lambda>w. w\<lparr>files := (files w)(old := None, new := f)\<rparr>); ret True }
     else ret False }"

text \<open>\<open>fflush (dup) != 0 || fsync (..) != 0 || fclose (dup) != 0\<close>, negated.\<close>

definition sync_file :: "ctx \<Rightarrow> bool wm" where
  "sync_file C =
     and_then (sys C SysFflush) (and_then (sys C SysFsync) (sys C SysFclose))"

definition unlink_opt :: "ctx \<Rightarrow> pstr \<Rightarrow> unit wm" where
  "unlink_opt C path = (case path of None \<Rightarrow> ret () | Some p \<Rightarrow> g_unlink C p)"

definition gum_file_close_db_files :: "ctx \<Rightarrow> pstr \<Rightarrow> pstr \<Rightarrow> string option \<Rightarrow> bool wm" where
  "gum_file_close_db_files C source_file_path dup_file_path dup_file = do {
     written \<leftarrow> (case dup_file of None \<Rightarrow> ret False | Some _ \<Rightarrow> sync_file C);
     if \<not> written then do { set_error GUM_ERROR_FILE_WRITE; unlink_opt C dup_file_path; ret False }
     else case source_file_path of
       None \<Rightarrow> do { set_error GUM_ERROR_FILE_WRITE; unlink_opt C dup_file_path; ret False }
     | Some src \<Rightarrow>
         (case dup_file_path of
            None \<Rightarrow> fail_with GUM_ERROR_FILE_WRITE
          | Some dup \<Rightarrow> do {
              let old_file_path = src @ ''.old'';
              g_unlink C old_file_path;
              link_file C src old_file_path;
              moved \<leftarrow> g_rename C dup src;
              if moved then do { unlink_opt C dup_file_path; ret True }
              else do {
                set_error GUM_ERROR_FILE_MOVE;
                g_unlink C old_file_path;
                unlink_opt C dup_file_path;
                ret False } }) }"

section \<open>The update\<close>

fun decimal_digits :: "nat \<Rightarrow> string" where
  "decimal_digits n =
     (if n < 10 then [char_of (48 + n)] else decimal_digits (n div 10) @ [char_of (48 + n mod 10)])"

declare decimal_digits.simps [simp del]

definition dup_path :: "ctx \<Rightarrow> string \<Rightarrow> string" where
  "dup_path C path = path @ ''-tmp.'' @ decimal_digits (getpid C)"

text \<open>
  The callback reads the lines of the source and writes to the duplicate; the object, the
  operation and the user data that the C code passes along are fixed in it. A NULL source
  path is printed as \<open>(null)\<close> into the name of a duplicate that is never opened.
\<close>

type_synonym update_cb = "line list \<Rightarrow> string \<Rightarrow> bool wm"

definition gum_file_update :: "ctx \<Rightarrow> update_cb option \<Rightarrow> pstr \<Rightarrow> bool wm" where
  "gum_file_update C callback source_file_path = do {
     let dup_file_path = dup_path C (case source_file_path of None \<Rightarrow> ''(null)'' | Some p \<Rightarrow> p);
     opened \<leftarrow> gum_file_open_db_files C source_file_path (Some dup_file_path);
     case opened of None \<Rightarrow> ret False
     | Some (source_file, dup_file) \<Rightarrow>
         (case callback of
            None \<Rightarrow> do {
              set_error GUM_ERROR_FILE_WRITE;
              g_unlink C dup_file_path;
              ret False }
          | Some cb \<Rightarrow> do {
              ok \<leftarrow> cb source_file dup_file;
              if \<not> ok then do { g_unlink C dup_file_path; ret False }
              else gum_file_close_db_files C source_file_path (Some dup_file_path)
                     (Some dup_file) }) }"

section \<open>Lookups\<close>

definition gum_file_getpwnam :: "ctx \<Rightarrow> pstr \<Rightarrow> pstr \<Rightarrow> passwd option wm" where
  "gum_file_getpwnam C username filename =
     (if username = None \<or> filename = None then ret None
      else do {
        fp \<leftarrow> open_file_r C filename;
        case fp of None \<Rightarrow> ret None
        | Some ls \<Rightarrow> ret (List.find (\<lambda>p. pw_name p = username) (pw_entries ls)) })"

definition gum_file_getpwuid :: "ctx \<Rightarrow> uid_t \<Rightarrow> pstr \<Rightarrow> passwd option wm" where
  "gum_file_getpwuid C uid filename =
     (if filename = None then ret None
      else do {
        fp \<leftarrow> open_file_r C filename;
        case fp of None \<Rightarrow> ret None
        | Some ls \<Rightarrow> ret (List.find (\<lambda>p. pw_uid p = uid) (pw_entries ls)) })"

definition gum_file_find_user_by_gid :: "ctx \<Rightarrow> gid_t \<Rightarrow> pstr \<Rightarrow> passwd option wm" where
  "gum_file_find_user_by_gid C primary_gid filename =
     (if filename = None \<or> primary_gid = GUM_GROUP_INVALID_GID then ret None
      else do {
        fp \<leftarrow> open_file_r C filename;
        case fp of None \<Rightarrow> ret None
        | Some ls \<Rightarrow> ret (List.find (\<lambda>p. pw_gid p = primary_gid) (pw_entries ls)) })"

definition gum_file_getspnam :: "ctx \<Rightarrow> pstr \<Rightarrow> pstr \<Rightarrow> spwd option wm" where
  "gum_file_getspnam C username filename =
     (if username = None \<or> filename = None then ret None
      else do {
        fp \<leftarrow> open_file_r C filename;
        case fp of None \<Rightarrow> ret None
        | Some ls \<Rightarrow> ret (List.find (\<lambda>p. sp_namp p = username) (sp_entries ls)) })"

definition gum_file_getgrnam :: "ctx \<Rightarrow> pstr \<Rightarrow> pstr \<Rightarrow> group_t option wm" where
  "gum_file_getgrnam C grname filename =
     (if grname = None \<or> filename = None then ret None
      else do {
        fp \<leftarrow> open_file_r C filename;
        case fp of None \<Rightarrow> ret None
        | Some ls \<Rightarrow> ret (List.find (\<lambda>g. gr_name g = grname) (gr_entries ls)) })"

definition gum_file_getgrgid :: "ctx \<Rightarrow> gid_t \<Rightarrow> pstr \<Rightarrow> group_t option wm" where
  "gum_file_getgrgid C gid filename =
     (if filename = None then ret None
      else do {
        fp \<leftarrow> open_file_r C filename;
        case fp of None \<Rightarrow> ret None
        | Some ls \<Rightarrow> ret (List.find (\<lambda>g. gr_gid g = gid) (gr_entries ls)) })"

definition file_test_exists :: "pstr \<Rightarrow> bool wm" where
  "file_test_exists path =
     gets (\<lambda>w. case path of None \<Rightarrow> False | Some p \<Rightarrow> files w p \<noteq> None)"

definition gum_file_getsgnam :: "ctx \<Rightarrow> pstr \<Rightarrow> pstr \<Rightarrow> sgrp option wm" where
  "gum_file_getsgnam C grname filename =
     (if grname = None \<or> filename = None then ret None
      else do {
        ex \<leftarrow> file_test_exists filename;
        if \<not> ex then ret None
        else do {
          fp \<leftarrow> open_file_r C filename;
          case fp of None \<Rightarrow> ret None
          | Some ls \<Rightarrow> ret (List.find (\<lambda>g. sg_namp g = grname) (sg_entries ls)) } })"

section \<open>Lemmas: what each call touches\<close>

text \<open>The files other than one path.\<close>

definition others :: "string \<Rightarrow> world \<Rightarrow> string \<Rightarrow> inode option" where
  "others path w = (files w)(path := None)"

lemma others_simps [simp]:
  "others path (w\<lparr>tick := n\<rparr>) = others path w"
  "others path (w\<lparr>gerror := e\<rparr>) = others path w"
  "others path (w\<lparr>euid := u\<rparr>) = others path w"
  "others path (w\<lparr>files := (files w)(path := f)\<rparr>) = others path w"
  by (simp_all add: others_def)

lemma others_eqD: "others path w' = others path w \<Longrightarrow> p \<noteq> path \<Longrightarrow> files w' p = files w p"
  by (metis others_def fun_upd_apply)

lemma frame_update_inode_others [frame_rules]: "frame (others path) (update_inode path f)"
  unfolding update_inode_def by (intro frame_rules) simp

lemma frame_lsetxattr_others [frame_rules]: "frame (others path) (lsetxattr C path n v)"
  unfolding lsetxattr_def by (intro frame_rules) simp

lemma frame_set_smack64_attr_others [frame_rules]: "frame (others path) (set_smack64_attr C path k)"
  unfolding set_smack64_attr_def by (intro frame_rules)

lemma frame_copy_xattrs_others [frame_rules]: "frame (others path) (copy_xattrs C path xs)"
  by (induction xs rule: copy_xattrs.induct) (auto intro!: frame_rules)

lemma frame_copy_file_attributes_others [frame_rules]:
  "frame (others to) (copy_file_attributes C from to)"
  unfolding copy_file_attributes_def stat_file_def chmod_def chown_def
  by (intro frame_rules) simp_all

lemma frame_open_file_w_others [frame_rules]: "frame (others path) (open_file_w C (Some path))"
  unfolding open_file_w_def option.case by (intro frame_rules) simp_all

lemma frame_g_unlink_others [frame_rules]: "frame (others path) (g_unlink C path)"
  unfolding g_unlink_def by (intro frame_rules) simp_all

lemma frame_append_line_others [frame_rules]: "frame (others path) (append_line path l)"
  unfolding append_line_def by (intro frame_rules) simp

lemma frame_put_line_others [frame_rules]: "frame (others path) (put_line C path l)"
  unfolding put_line_def by (intro frame_rules) simp

lemma frame_open_file_r [frame_rules]:
  "(\<And>w n. g (w\<lparr>tick := n\<rparr>) = g w) \<Longrightarrow> frame g (open_file_r C fn)"
  unfolding open_file_r_def by (intro frame_rules)

text \<open>Whatever does not read the files and the clock is kept by everything here.\<close>

definition file_indep :: "(world \<Rightarrow> 'a) \<Rightarrow> bool" where
  "file_indep g \<longleftrightarrow> (\<forall>w n. g (w\<lparr>tick := n\<rparr>) = g w) \<and> (\<forall>w f. g (w\<lparr>files := f\<rparr>) = g w) \<and>
     (\<forall>w e. g (w\<lparr>gerror := e\<rparr>) = g w)"

lemma frame_file_ops:
  assumes "file_indep g"
  shows "frame g (open_file_w C fn)" "frame g (update_inode path f)" "frame g (g_unlink C path)"
    "frame g (append_line path l)" "frame g (put_line C path pl)" "frame g (link_file C old new)"
    "frame g (g_rename C old new)" "frame g (sync_file C)"
    "frame g (lsetxattr C path n v)" "frame g (chmod C path m)" "frame g (chown C path u gd)"
    "frame g (stat_file C path)"
  using assms unfolding open_file_w_def update_inode_def g_unlink_def append_line_def put_line_def
    link_file_def g_rename_def sync_file_def lsetxattr_def chmod_def chown_def stat_file_def file_indep_def
  by (intro frame_rules; simp)+

lemma frame_file_ops2:
  assumes "file_indep g"
  shows "frame g (copy_xattrs C to xs)" and "frame g (set_smack64_attr C path k)"
    and "frame g (copy_file_attributes C from to)"
    and "frame g (gum_file_open_db_files C src dup)"
    and "frame g (gum_file_close_db_files C src dup d)"
proof -
  have g: "g (w\<lparr>tick := n\<rparr>) = g w" "g (w\<lparr>gerror := e\<rparr>) = g w" for w n e
    using assms by (simp_all add: file_indep_def)
  show xs: "frame g (copy_xattrs C to xs)" for to xs
    by (induction xs rule: copy_xattrs.induct) (auto intro!: frame_rules frame_file_ops assms g)
  show sm: "frame g (set_smack64_attr C path k)" for path k
    unfolding set_smack64_attr_def by (intro frame_rules frame_file_ops assms)
  show cp: "frame g (copy_file_attributes C src to)" for src to
    unfolding copy_file_attributes_def by (intro frame_rules frame_file_ops assms xs g)
  show "frame g (gum_file_open_db_files C src dup)"
    unfolding gum_file_open_db_files_def prepare_dup_def case_prod_conv by (intro frame_rules frame_file_ops sm cp g assms)
  show "frame g (gum_file_close_db_files C src dup d)"
    unfolding gum_file_close_db_files_def unlink_opt_def by (intro frame_rules frame_file_ops assms g)
qed

lemmas file_frames = frame_file_ops frame_file_ops2

section \<open>Lemmas: the commit\<close>

text \<open>Owner, group and mode of two files agree.\<close>

definition same_attrs :: "inode \<Rightarrow> inode \<Rightarrow> bool" where
  "same_attrs i j \<longleftrightarrow> i_mode j = i_mode i \<and> i_uid j = i_uid i \<and> i_gid j = i_gid i"

definition attrs_lines :: "string \<Rightarrow> world \<Rightarrow> (32 word \<times> uid_t \<times> gid_t \<times> line list) option" where
  "attrs_lines path w = map_option (\<lambda>i. (i_mode i, i_uid i, i_gid i, i_lines i)) (files w path)"

lemma attrs_lines_simps [simp]:
  "attrs_lines path (w\<lparr>tick := n\<rparr>) = attrs_lines path w"
  "attrs_lines path (w\<lparr>gerror := e\<rparr>) = attrs_lines path w"
  by (simp_all add: attrs_lines_def)

lemma frame_copy_xattrs_attrs_lines [frame_rules]:
  "frame (attrs_lines path) (copy_xattrs C path xs)"
proof (induction xs rule: copy_xattrs.induct)
  case (2 C to name val rest)
  have "frame (attrs_lines to) (lsetxattr C to name val)"
    unfolding lsetxattr_def update_inode_def
    by (intro frame_rules) (simp_all add: attrs_lines_def option.map_comp comp_def)
  with 2 show ?case by (auto intro!: frame_rules)
qed (auto intro: frame_rules)

lemma copy_file_attributes_spec:
  assumes "files w src = Some i" and "src \<noteq> dup"
  shows "wp (copy_file_attributes C src dup)
    (\<lambda>ok w'. ok \<longrightarrow> (\<exists>j0. files w dup = Some j0 \<and> attrs_lines dup w' =
                      Some (i_mode i, i_uid i, i_gid i, i_lines j0))) w"
  unfolding copy_file_attributes_def stat_file_def chmod_def chown_def update_inode_def
  by (intro wp_rules)
    (auto intro!: wp_rules frame_wp [OF frame_copy_xattrs_attrs_lines]
          simp: assms attrs_lines_def split: option.splits if_splits)

lemma frame_set_smack64_attr_attrs_lines [frame_rules]:
  "frame (attrs_lines path) (set_smack64_attr C path k)"
  unfolding set_smack64_attr_def lsetxattr_def update_inode_def
  by (intro frame_rules) (simp_all add: attrs_lines_def option.map_comp comp_def)

lemma open_file_r_spec:
  "wp (open_file_r C (Some path)) (\<lambda>r w'. w' = w\<lparr>tick := tick w + 1\<rparr> \<and>
     r = (if fault C (tick w) SysFopenR then None
          else map_option (\<lambda>i. truncate_read (short_read C (tick w)) (i_lines i)) (files w path))) w"
  by (simp add: open_file_r_def wp_def sys_def)

lemma open_file_w_spec:
  "wp (open_file_w C (Some path)) (\<lambda>r w'. others path w' = others path w \<and>
     (r = None \<or> r = Some path \<and> (\<exists>j. files w' path = Some j \<and> i_lines j = []))) w"
  unfolding open_file_w_def option.case by (intro wp_rules) (auto simp: others_def split: option.splits)

text \<open>What opening the pair gives, relative to the state \<open>w\<close> it starts in.\<close>

definition opened_pair ::
    "ctx \<Rightarrow> string \<Rightarrow> string \<Rightarrow> world \<Rightarrow> (line list \<times> string) option \<Rightarrow> world \<Rightarrow> bool" where
  "opened_pair C src dup w r w' \<longleftrightarrow> others dup w' = others dup w \<and>
     (case r of None \<Rightarrow> gerror w' \<noteq> None
      | Some (ls, d) \<Rightarrow> d = dup \<and> (\<exists>i. files w src = Some i \<and>
          ls = truncate_read (short_read C (tick w)) (i_lines i) \<and>
          attrs_lines dup w' = Some (i_mode i, i_uid i, i_gid i, [])))"

lemma unlink_fail:
  "others dup w1 = others dup w \<Longrightarrow>
   wp (do { set_error e; g_unlink C dup; ret None }) (opened_pair C src dup w) w1"
  unfolding g_unlink_def by (intro wp_rules) (auto simp: opened_pair_def others_def)

lemma prepare_dup_spec:
  assumes "src \<noteq> dup" and o: "others dup w1 = others dup w"
    and j: "files w1 dup = Some j" "i_lines j = []" and i: "files w src = Some i"
    and ls: "ls = truncate_read (short_read C (tick w)) (i_lines i)"
  shows "wp (prepare_dup C src dup ls) (opened_pair C src dup w) w1"
  unfolding prepare_dup_def
proof (rule wp_step [OF wp_conj [OF frame_wp [OF frame_set_smack64_attr_others]
      frame_wp [OF frame_set_smack64_attr_attrs_lines]]], assumption, assumption, rule wp_if)
  fix ok w2 assume w2: "others dup w2 = others dup w1 \<and> attrs_lines dup w2 = attrs_lines dup w1"
  with o have o2: "others dup w2 = others dup w" by simp
  then show "wp (do { set_error GUM_ERROR_FILE_ATTRIBUTE; g_unlink C dup; ret None })
    (opened_pair C src dup w) w2" by (rule unlink_fail)
  have src: "files w2 src = Some i" using others_eqD [OF o2 assms(1)] i by simp
  show "wp (do { ok \<leftarrow> copy_file_attributes C src dup;
      if \<not> ok then do { set_error GUM_ERROR_FILE_ATTRIBUTE; g_unlink C dup; ret None }
      else ret (Some (ls, dup)) }) (opened_pair C src dup w) w2"
  proof (rule wp_step [OF wp_conj [OF frame_wp [OF frame_copy_file_attributes_others]
        copy_file_attributes_spec [OF src assms(1)]]], assumption, rule wp_if)
    fix ok w3
    assume w3: "others dup w3 = others dup w2 \<and> (ok \<longrightarrow> (\<exists>j0. files w2 dup = Some j0 \<and>
      attrs_lines dup w3 = Some (i_mode i, i_uid i, i_gid i, i_lines j0)))"
    with o2 show "wp (do { set_error GUM_ERROR_FILE_ATTRIBUTE; g_unlink C dup; ret None })
      (opened_pair C src dup w) w3" by (intro unlink_fail) simp
    assume "\<not> \<not> ok"
    with w3 obtain j0 where j0: "files w2 dup = Some j0"
      "attrs_lines dup w3 = Some (i_mode i, i_uid i, i_gid i, i_lines j0)" by auto
    with w2 j have "i_lines j0 = []" by (simp add: attrs_lines_def)
    with j0 show "wp (ret (Some (ls, dup))) (opened_pair C src dup w) w3"
      using o2 w3 i ls by (intro wp_return) (simp add: opened_pair_def)
  qed
qed

lemma open_db_files_spec:
  assumes "src \<noteq> dup"
  shows "wp (gum_file_open_db_files C (Some src) (Some dup)) (opened_pair C src dup w) w"
  unfolding gum_file_open_db_files_def option.case prod.case
proof (rule wp_step [OF open_file_r_spec], rule wp_case_option)
  fix r w1
  assume r: "w1 = w\<lparr>tick := tick w + 1\<rparr> \<and>
    r = (if fault C (tick w) SysFopenR then None
         else map_option (\<lambda>i. truncate_read (short_read C (tick w)) (i_lines i)) (files w src))"
  then have o: "others dup w1 = others dup w" by simp
  then show "wp (do { set_error GUM_ERROR_FILE_OPEN; ret None }) (opened_pair C src dup w) w1"
    by (intro wp_rules) (simp add: opened_pair_def)
  fix ls assume "r = Some ls"
  with r obtain i where i: "files w src = Some i"
    "ls = truncate_read (short_read C (tick w)) (i_lines i)"
    by (cases "files w src") (auto split: if_splits)
  show "wp (do {
      d \<leftarrow> open_file_w C (Some dup);
      case d of None \<Rightarrow> do { set_error GUM_ERROR_FILE_OPEN; ret None }
      | Some dp \<Rightarrow> prepare_dup C src dp ls }) (opened_pair C src dup w) w1"
    by (rule wp_step [OF open_file_w_spec], rule wp_case_option)
      (auto simp: o opened_pair_def intro!: wp_bind wp_set_error wp_return prepare_dup_spec assms i)
qed

text \<open>Committing the duplicate: what the three paths hold afterwards.\<close>

definition committed :: "string \<Rightarrow> string \<Rightarrow> world \<Rightarrow> bool \<Rightarrow> world \<Rightarrow> bool" where
  "committed src dup w ok w' \<longleftrightarrow>
     (\<forall>p. p \<notin> {src, dup, src @ ''.old''} \<longrightarrow> files w' p = files w p) \<and>
     (if ok then files w' src = files w dup \<and> files w' dup = None
      else files w' src = files w src \<and> gerror w' \<noteq> None)"

lemma g_unlink_spec:
  "wp (g_unlink C p) (\<lambda>_ w'. gerror w' = gerror w \<and> (\<forall>q. q \<noteq> p \<longrightarrow> files w' q = files w q) \<and>
     files w' p \<in> {files w p, None}) w"
  unfolding g_unlink_def by (intro wp_rules) auto

lemma link_file_spec:
  "wp (link_file C old new) (\<lambda>_ w'. gerror w' = gerror w \<and>
     (\<forall>q. q \<noteq> new \<longrightarrow> files w' q = files w q)) w"
  unfolding link_file_def by (intro wp_rules) auto

lemma g_rename_spec:
  "wp (g_rename C old new) (\<lambda>ok w'. gerror w' = gerror w \<and> 
     files w' = (if ok then (files w)(old := None, new := files w old) else files w)) w"
  unfolding g_rename_def by (intro wp_rules) auto

lemma frame_sync_file [frame_rules]:
  "(\<And>w n. g (w\<lparr>tick := n\<rparr>) = g w) \<Longrightarrow> frame g (sync_file C)"
  unfolding sync_file_def by (intro frame_rules)

lemma close_fail:
  "files w' = files w \<Longrightarrow>
   wp (do { set_error e; unlink_opt C (Some dup); ret False }) (committed src dup w) w'"
  if "src \<noteq> dup"
  unfolding unlink_opt_def option.case using that
  by (intro wp_bind wp_set_error wp_mono [OF g_unlink_spec] wp_return) (auto simp: committed_def)

lemma close_db_files_spec:
  assumes "src \<noteq> dup" and "dup \<noteq> src @ ''.old''"
  shows "wp (gum_file_close_db_files C (Some src) (Some dup) (Some d)) (committed src dup w) w"
  unfolding gum_file_close_db_files_def option.case Let_def
proof (rule wp_step)
  show "wp (sync_file C) (\<lambda>_ w1. files w1 = files w \<and> gerror w1 = gerror w) w"
    by (intro wp_conj frame_wp [OF frame_sync_file [where g = files]]
        frame_wp [OF frame_sync_file [where g = gerror]]) simp_all
next
  fix ok :: bool and w1 :: world
  assume w1: "files w1 = files w \<and> gerror w1 = gerror w"
  show "wp (if \<not> ok then do { set_error GUM_ERROR_FILE_WRITE; unlink_opt C (Some dup); ret False }
    else do {
      g_unlink C (src @ ''.old'');
      link_file C src (src @ ''.old'');
      moved \<leftarrow> g_rename C dup src;
      if moved then do { unlink_opt C (Some dup); ret True }
      else do { set_error GUM_ERROR_FILE_MOVE; g_unlink C (src @ ''.old'');
                unlink_opt C (Some dup); ret False } }) (committed src dup w) w1"
    using assms w1 unfolding unlink_opt_def option.case
    by (intro wp_if close_fail [unfolded unlink_opt_def option.case] wp_bind wp_mono [OF g_unlink_spec]
        wp_mono [OF link_file_spec] wp_mono [OF g_rename_spec] wp_return wp_set_error)
      (auto simp: committed_def)
qed

section \<open>Without failures\<close>

definition healthy :: "ctx \<Rightarrow> bool" where
  "healthy C \<longleftrightarrow> (\<forall>t c. \<not> fault C t c) \<and> (\<forall>t. short_read C t = None)"

lemma sys_healthy: "healthy C \<Longrightarrow> run_state (sys C c) w = (True, w\<lparr>tick := tick w + 1\<rparr>)"
  by (simp add: sys_def healthy_def)

lemma lsetxattr_healthy:
  "healthy C \<Longrightarrow> files w path \<noteq> None \<Longrightarrow>
   wp (lsetxattr C path n v) (\<lambda>ok w'. ok \<and> files w' path \<noteq> None \<and> others path w' = others path w) w"
  by (auto simp: lsetxattr_def update_inode_def wp_def sys_healthy others_def)

lemma copy_xattrs_healthy:
  "healthy C \<Longrightarrow> files w path \<noteq> None \<Longrightarrow>
   wp (copy_xattrs C path xs) (\<lambda>ok w'. ok) w"
proof (induction xs arbitrary: w)
  case (Cons x xs)
  obtain n v where x: "x = (n, v)" by (cases x)
  let ?w = "w\<lparr>tick := tick w + 1 + 1\<rparr>"
  have "wp (do { ok \<leftarrow> lsetxattr C path n v; if \<not> ok then ret False else copy_xattrs C path xs })
          (\<lambda>ok w'. ok) ?w"
    by (rule wp_step [OF lsetxattr_healthy]) (use Cons in auto)
  moreover have "wp (copy_xattrs C path xs) (\<lambda>ok w'. ok) (w\<lparr>tick := tick w + 1\<rparr>)"
    by (rule Cons.IH) (use Cons.prems in auto)
  ultimately show ?case using Cons.prems(1) by (simp add: x wp_def sys_healthy)
qed (simp add: wp_return)

lemma prepare_dup_healthy:
  assumes h: "healthy C" and "files w src \<noteq> None" "files w dup \<noteq> None" "src \<noteq> dup"
  shows "wp (prepare_dup C src dup ls) (\<lambda>r w'. r \<noteq> None) w"
proof -
  have copy: "wp (copy_file_attributes C src dup) (\<lambda>ok w'. ok) w1"
    if "files w1 src \<noteq> None" "files w1 dup \<noteq> None" for w1
    using that assms copy_xattrs_healthy [OF h]
    by (auto simp: copy_file_attributes_def stat_file_def chmod_def chown_def update_inode_def
        and_then_def wp_def sys_healthy)
  have smack: "wp (set_smack64_attr C dup k)
      (\<lambda>ok w'. ok \<and> files w' dup \<noteq> None \<and> others dup w' = others dup w) w" for k
    unfolding set_smack64_attr_def
    using assms by (intro wp_rules lsetxattr_healthy) auto
  show ?thesis
    unfolding prepare_dup_def
  proof (rule wp_step [OF smack])
    fix ok w1 assume w1: "ok \<and> files w1 dup \<noteq> None \<and> others dup w1 = others dup w"
    then have "files w1 src \<noteq> None" using assms others_eqD [OF _ assms(4), of w1 w] by simp
    with w1 show "wp (if \<not> ok then do { set_error GUM_ERROR_FILE_ATTRIBUTE; g_unlink C dup; ret None }
        else do {
          ok \<leftarrow> copy_file_attributes C src dup;
          if \<not> ok then do { set_error GUM_ERROR_FILE_ATTRIBUTE; g_unlink C dup; ret None }
          else ret (Some (ls, dup)) }) (\<lambda>r w'. r \<noteq> None) w1"
      by (auto intro!: wp_step [OF copy] wp_return)
  qed
qed

lemma open_db_files_healthy:
  assumes h: "healthy C" and i: "files w src = Some i" and "src \<noteq> dup"
  shows "wp (gum_file_open_db_files C (Some src) (Some dup)) (\<lambda>r w'. r \<noteq> None) w"
  using prepare_dup_healthy [OF h _ _ assms(3)] assms
  by (auto simp: gum_file_open_db_files_def open_file_r_def open_file_w_def wp_def sys_healthy)

lemma close_db_files_healthy:
  assumes h: "healthy C" and "files w dup \<noteq> None" "files w src \<noteq> None" "src \<noteq> dup"
    "dup \<noteq> src @ ''.old''"
  shows "wp (gum_file_close_db_files C (Some src) (Some dup) (Some d))
    (\<lambda>ok w'. ok \<and> files w' (src @ ''.old'') = files w src) w"
  using assms
  by (auto simp: gum_file_close_db_files_def sync_file_def and_then_def g_unlink_def link_file_def
      g_rename_def unlink_opt_def wp_def sys_healthy Let_def)

section \<open>The contract of an update callback\<close>

text \<open>
  A callback that, given an empty duplicate, changes nothing but it, and if it returns TRUE
  has written into it the lines that \<open>out\<close> makes of the lines read. It reports an error
  when it returns FALSE, and does not fail of itself: if no system call fails and \<open>out\<close> is
  defined it returns TRUE.
\<close>

locale update_callback =
  fixes C :: ctx and cb :: update_cb and out :: "line list \<Rightarrow> line list option"
  assumes cb_writes: "files w path = Some i \<Longrightarrow> i_lines i = [] \<Longrightarrow>
      wp (cb ls path) (\<lambda>ok w'. others path w' = others path w \<and>
        (if ok then \<exists>xs. out ls = Some xs \<and> files w' path = Some (i\<lparr>i_lines := xs\<rparr>)
         else gerror w' \<noteq> None)) w"
    and cb_returns: "healthy C \<Longrightarrow> out ls = Some xs \<Longrightarrow> files w path \<noteq> None \<Longrightarrow>
      wp (cb ls path) (\<lambda>ok _. ok) w"

text \<open>What an update did to the files between two states.\<close>

definition updated ::
    "ctx \<Rightarrow> string \<Rightarrow> (line list \<Rightarrow> line list option) \<Rightarrow> world \<Rightarrow> bool \<Rightarrow> world \<Rightarrow> bool" where
  "updated C src out w ok w' \<longleftrightarrow>
     (\<forall>p. p \<notin> {src, dup_path C src, src @ ''.old''} \<longrightarrow> files w' p = files w p) \<and>
     (if ok then \<exists>i j xs. files w src = Some i \<and>
                   out (truncate_read (short_read C (tick w)) (i_lines i)) = Some xs \<and>
                   files w' src = Some j \<and> i_lines j = xs \<and> same_attrs i j \<and>
                   files w' (dup_path C src) = None
      else files w' src = files w src \<and> gerror w' \<noteq> None)"

lemma dup_path_distinct [simp]:
  "dup_path C src \<noteq> src" "src \<noteq> dup_path C src" "dup_path C src \<noteq> src @ ''.old''"
  by (simp_all add: dup_path_def)

context update_callback
begin

lemma update_spec:
  "wp (gum_file_update C (Some cb) (Some src)) (updated C src out w) w"
  unfolding gum_file_update_def option.case Let_def
proof (rule wp_step [OF open_db_files_spec], simp, rule wp_case_option)
  let ?d = "dup_path C src"
  fix r w1 assume r: "opened_pair C src ?d w r w1"
  then have o1: "\<And>p. p \<noteq> ?d \<Longrightarrow> files w1 p = files w p"
    by (auto simp: opened_pair_def intro: others_eqD)
  show "wp (ret False) (updated C src out w) w1" if "r = None"
    using r that o1 by (intro wp_return) (auto simp: updated_def opened_pair_def)
  fix y assume y: "r = Some y"
  obtain ls d where [simp]: "y = (ls, d)" by (cases y)
  from r y obtain i j where d: "d = ?d" and i: "files w src = Some i"
      "ls = truncate_read (short_read C (tick w)) (i_lines i)"
    and j: "files w1 ?d = Some j" "i_lines j = []" "same_attrs i j"
    by (auto simp: opened_pair_def attrs_lines_def same_attrs_def)
  let ?cont = "\<lambda>ok. if \<not> ok then do { g_unlink C ?d; ret False }
    else gum_file_close_db_files C (Some src) (Some ?d) (Some ?d)"
  have "wp (State_Monad.bind (cb ls ?d) ?cont) (updated C src out w) w1"
  proof (rule wp_step [OF cb_writes [OF j(1,2), of ls]], rule wp_if)
    fix ok w2
    assume w2: "others ?d w2 = others ?d w1 \<and>
      (if ok then \<exists>xs. out ls = Some xs \<and> files w2 ?d = Some (j\<lparr>i_lines := xs\<rparr>) else gerror w2 \<noteq> None)"
    then have o2: "\<And>p. p \<noteq> ?d \<Longrightarrow> files w2 p = files w p" using o1 by (metis others_eqD)
    show "wp (do { g_unlink C ?d; ret False }) (updated C src out w) w2" if "\<not> ok"
      using w2 o2 that
      by (intro wp_bind wp_mono [OF g_unlink_spec] wp_return) (auto simp: updated_def)
    assume "\<not> \<not> ok"
    with w2 obtain xs where "out ls = Some xs" "files w2 ?d = Some (j\<lparr>i_lines := xs\<rparr>)" by auto
    then show "wp (gum_file_close_db_files C (Some src) (Some ?d) (Some ?d)) (updated C src out w) w2"
      using i j(3) o2
      by (intro wp_mono [OF close_db_files_spec]) (auto simp: updated_def committed_def same_attrs_def)
  qed
  then show "wp (case y of (source_file, dup_file) \<Rightarrow>
      do { ok \<leftarrow> cb source_file dup_file;
           if \<not> ok then do { g_unlink C ?d; ret False }
           else gum_file_close_db_files C (Some src) (Some ?d) (Some dup_file) }) (updated C src out w) w1" by (simp add: d)
qed

text \<open>Without failures the update succeeds and leaves a backup.\<close>

lemma update_healthy:
  assumes h: "healthy C" and i: "files w src = Some i" and xs: "out (i_lines i) = Some xs"
  shows "wp (gum_file_update C (Some cb) (Some src))
           (\<lambda>ok w'. ok \<and> files w' (src @ ''.old'') = Some i) w"
proof -
  let ?d = "dup_path C src"
  have opened: "wp (gum_file_open_db_files C (Some src) (Some ?d)) (\<lambda>r w'. r \<noteq> None) w"
    by (rule open_db_files_healthy [OF h i dup_path_distinct(2)])
  have close: "wp (gum_file_close_db_files C (Some src) (Some ?d) (Some ?d))
      (\<lambda>ok w'. ok \<and> files w' (src @ ''.old'') = files w2 src) w2"
    if "files w2 ?d \<noteq> None" "files w2 src \<noteq> None" for w2
    using that by (intro close_db_files_healthy [OF h]) simp_all
  show ?thesis
    unfolding gum_file_update_def option.case Let_def
  proof (rule wp_step [OF wp_conj [OF open_db_files_spec opened]], simp)
    fix r w1 assume r: "opened_pair C src ?d w r w1 \<and> r \<noteq> None"
    then have "others ?d w1 = others ?d w" by (simp add: opened_pair_def)
    from others_eqD [OF this dup_path_distinct(2)] i have src: "files w1 src = Some i" by simp
    from r i h obtain j where r_eq: "r = Some (i_lines i, ?d)" and
      j: "files w1 ?d = Some j" "i_lines j = []"
      by (auto simp: opened_pair_def attrs_lines_def healthy_def truncate_read_def split: prod.splits)
    have "wp (do { ok \<leftarrow> cb (i_lines i) ?d;
        if \<not> ok then do { g_unlink C ?d; ret False }
        else gum_file_close_db_files C (Some src) (Some ?d) (Some ?d) })
      (\<lambda>ok w'. ok \<and> files w' (src @ ''.old'') = Some i) w1"
    proof (rule wp_step [OF wp_conj [OF cb_writes [OF j] cb_returns [OF h xs]]])
      show "files w1 ?d \<noteq> None" using j by simp
      fix ok w2
      assume "(others ?d w2 = others ?d w1 \<and> (if ok then \<exists>ys. out (i_lines i) = Some ys \<and>
        files w2 ?d = Some (j\<lparr>i_lines := ys\<rparr>) else gerror w2 \<noteq> None)) \<and> ok"
      then have "ok" "files w2 ?d \<noteq> None" "files w2 src = Some i"
        using src others_eqD [OF _ dup_path_distinct(2), of C src w2 w1] by auto
      then show "wp (if \<not> ok then do { g_unlink C ?d; ret False }
          else gum_file_close_db_files C (Some src) (Some ?d) (Some ?d))
        (\<lambda>ok w'. ok \<and> files w' (src @ ''.old'') = Some i) w2"
        using close [of w2] by simp
    qed
    then show "wp (case r of None \<Rightarrow> ret False | Some (source_file, dup_file) \<Rightarrow>
      do { ok \<leftarrow> cb source_file dup_file;
           if \<not> ok then do { g_unlink C ?d; ret False }
           else gum_file_close_db_files C (Some src) (Some ?d) (Some dup_file) })
      (\<lambda>ok w'. ok \<and> files w' (src @ ''.old'') = Some i) w1" by (simp add: r_eq)
  qed
qed

end

section \<open>Lemmas: lookups\<close>

text \<open>Streams can be opened and read to the end.\<close>

definition reads_ok :: "ctx \<Rightarrow> bool" where
  "reads_ok C \<longleftrightarrow> (\<forall>t. \<not> fault C t SysFopenR \<and> short_read C t = None)"

text \<open>The entries of a database file, none if the file is not there.\<close>

definition db_entries :: "(line list \<Rightarrow> 'e list) \<Rightarrow> string \<Rightarrow> world \<Rightarrow> 'e list" where
  "db_entries ents path w = (case files w path of None \<Rightarrow> [] | Some i \<Rightarrow> ents (i_lines i))"

lemma entries_take:
  "set (pw_entries (take n ls)) \<subseteq> set (pw_entries ls)"
  "set (sp_entries (take n ls)) \<subseteq> set (sp_entries ls)"
  "set (gr_entries (take n ls)) \<subseteq> set (gr_entries ls)"
  "set (sg_entries (take n ls)) \<subseteq> set (sg_entries ls)"
proof (induction ls arbitrary: n)
  case (Cons l ls)
  { case 1 show ?case using Cons(1)[of "n - 1"] by (cases n; cases l) auto }
  { case 2 show ?case using Cons(2)[of "n - 1"] by (cases n; cases l) auto }
  { case 3 show ?case using Cons(3)[of "n - 1"] by (cases n; cases l) auto }
  { case 4 show ?case using Cons(4)[of "n - 1"] by (cases n; cases l) auto }
qed simp_all

text \<open>A lookup returns an entry of the file, and the first match if reads succeed.\<close>

definition looked_up ::
    "ctx \<Rightarrow> (line list \<Rightarrow> 'e list) \<Rightarrow> ('e \<Rightarrow> bool) \<Rightarrow> string \<Rightarrow> world \<Rightarrow> 'e option \<Rightarrow> world \<Rightarrow> bool" where
  "looked_up C ents P path w r w' \<longleftrightarrow>
     (\<exists>t. w' = w\<lparr>tick := t\<rparr>) \<and>
     (\<forall>e. r = Some e \<longrightarrow> e \<in> set (db_entries ents path w) \<and> P e) \<and>
     (reads_ok C \<longrightarrow> r = List.find P (db_entries ents path w))"

lemma lookup_spec:
  assumes "\<And>n ls. set (ents (take n ls)) \<subseteq> set (ents ls)"
  shows "wp (do { fp \<leftarrow> open_file_r C (Some path);
                  case fp of None \<Rightarrow> ret None | Some ls \<Rightarrow> ret (List.find P (ents ls)) })
            (looked_up C ents P path w) w"
proof (rule wp_step [OF open_file_r_spec])
  fix r w'
  assume r: "w' = w\<lparr>tick := tick w + 1\<rparr> \<and>
    r = (if fault C (tick w) SysFopenR then None
         else map_option (\<lambda>i. truncate_read (short_read C (tick w)) (i_lines i)) (files w path))"
  note sub = subsetD [OF assms]
  from r show "wp (case r of None \<Rightarrow> ret None | Some ls \<Rightarrow> ret (List.find P (ents ls)))
      (looked_up C ents P path w) w'"
    by (intro wp_case_option wp_return)
      (auto simp: looked_up_def db_entries_def reads_ok_def truncate_read_def
            dest!: find_SomeD dest: sub split: if_splits option.splits)
qed

lemma lookups:
  "wp (gum_file_getpwnam C (Some n) (Some path))
      (looked_up C pw_entries (\<lambda>p. pw_name p = Some n) path w) w"
  "wp (gum_file_getpwuid C u (Some path)) (looked_up C pw_entries (\<lambda>p. pw_uid p = u) path w) w"
  "wp (gum_file_getspnam C (Some n) (Some path))
      (looked_up C sp_entries (\<lambda>p. sp_namp p = Some n) path w) w"
  "wp (gum_file_getgrnam C (Some n) (Some path))
      (looked_up C gr_entries (\<lambda>p. gr_name p = Some n) path w) w"
  "wp (gum_file_getgrgid C g (Some path)) (looked_up C gr_entries (\<lambda>p. gr_gid p = g) path w) w"
  "g \<noteq> GUM_GROUP_INVALID_GID \<Longrightarrow> wp (gum_file_find_user_by_gid C g (Some path))
      (looked_up C pw_entries (\<lambda>p. pw_gid p = g) path w) w"
  by (simp_all add: gum_file_getpwnam_def gum_file_getpwuid_def gum_file_getspnam_def
      gum_file_getgrnam_def gum_file_getgrgid_def gum_file_find_user_by_gid_def
      lookup_spec entries_take)

lemma lookup_getsgnam:
  "wp (gum_file_getsgnam C (Some n) (Some path))
      (looked_up C sg_entries (\<lambda>p. sg_namp p = Some n) path w) w"
proof -
  have "wp (ret None) (looked_up C sg_entries P path w) w" if "files w path = None" for P
    using that by (intro wp_return) (auto simp: looked_up_def db_entries_def intro: exI [of _ "tick w"])
  then show ?thesis
    unfolding gum_file_getsgnam_def file_test_exists_def
    by (auto intro!: wp_bind wp_gets lookup_spec [OF entries_take(4)])
qed

section \<open>Properties\<close>

text \<open>
  C8. An update of a database file is atomic under every pattern of failing system calls.
  If it returns TRUE, the file holds exactly the lines the callback made of the lines read,
  with the owner, group and mode of the old file, and the duplicate is gone; if it returns
  FALSE, the file is the one it was and an error is reported. No file but the database,
  its duplicate and its backup is touched.
\<close>

theorem gum_file_update_atomic:
  assumes "update_callback C cb out"
  shows "wp (gum_file_update C (Some cb) (Some src)) (\<lambda>ok w'.
     (\<forall>p. p \<notin> {src, dup_path C src, src @ ''.old''} \<longrightarrow> files w' p = files w p) \<and>
     (if ok then \<exists>i j. files w src = Some i \<and> files w' src = Some j \<and> same_attrs i j \<and>
          out (truncate_read (short_read C (tick w)) (i_lines i)) = Some (i_lines j) \<and>
          files w' (dup_path C src) = None
      else files w' src = files w src \<and> gerror w' \<noteq> None)) w"
  by (rule wp_mono [OF update_callback.update_spec [OF assms]])
    (auto simp: updated_def split: if_splits)

definition empty_cb :: update_cb where
  "empty_cb ls path = ret True"

lemma empty_cb_contract: "update_callback C empty_cb (\<lambda>ls. Some [])"
  by unfold_locales (auto simp: empty_cb_def intro!: wp_return)

theorem gum_file_update_atomic_witness:
  "files (snd (run_state (gum_file_update ref_ctx (Some empty_cb) (Some ''g'')) ref_world)) ''p'' =
   files ref_world ''p''"
proof -
  have p: "''p'' \<notin> {''g'', dup_path ref_ctx ''g'', ''g'' @ ''.old''}" by (simp add: dup_path_def)
  have "\<forall>p. p \<notin> {''g'', dup_path ref_ctx ''g'', ''g'' @ ''.old''} \<longrightarrow>
      files (snd (run_state (gum_file_update ref_ctx (Some empty_cb) (Some ''g'')) ref_world)) p =
      files ref_world p"
    using gum_file_update_atomic [OF empty_cb_contract, of ref_ctx "''g''" ref_world]
    unfolding wp_def by (rule conjunct1)
  from mp [OF spec [OF this] p] show ?thesis .
qed

text \<open>
  When no call fails and the callback has something to write, the update does return
  TRUE, and the file as it was is kept as the backup.
\<close>

theorem gum_file_update_succeeds:
  assumes "update_callback C cb out" and "healthy C" and "files w src = Some i"
    and "out (i_lines i) = Some xs"
  shows "wp (gum_file_update C (Some cb) (Some src))
           (\<lambda>ok w'. ok \<and> files w' (src @ ''.old'') = Some i) w"
  using assms by (rule update_callback.update_healthy)

theorem gum_file_update_succeeds_witness:
  "fst (run_state (gum_file_update ref_ctx (Some empty_cb) (Some ''g'')) ref_world)"
proof -
  have "healthy ref_ctx" by (simp add: healthy_def ref_ctx_def)
  moreover have "\<exists>i. files ref_world ''g'' = Some i" by (simp add: ref_world_def)
  ultimately show ?thesis
    using gum_file_update_succeeds [OF empty_cb_contract [of ref_ctx], of ref_world "''g''"]
    by (auto simp: wp_def)
qed

end
