(* ===== verification/Gum_Crypt.thy ===== *)
theory Gum_Crypt
  imports Gum_World
begin

text \<open>
  \<^verbatim>\<open>src/common/gum-crypt.c\<close>: salts from \<^verbatim>\<open>/dev/urandom\<close>, encryption of a
  secret and the comparison of a plain secret with an encrypted one. \<open>crypt(3)\<close> is a
  parameter; the locale \<open>crypt_env\<close> states what its manual says of the form of a hash.
\<close>

section \<open>Comparing strings\<close>

text \<open>\<open>strcmp\<close> on unsigned characters, and \<open>g_strcmp0\<close>, which orders NULL first: the sign.\<close>

fun strcmp :: "string \<Rightarrow> string \<Rightarrow> int" where
  "strcmp [] [] = 0"
| "strcmp [] (y # ys) = -1"
| "strcmp (x # xs) [] = 1"
| "strcmp (x # xs) (y # ys) =
     (if (of_char x :: nat) < of_char y then -1
      else if (of_char y :: nat) < of_char x then 1 else strcmp xs ys)"

definition g_strcmp0 :: "pstr \<Rightarrow> pstr \<Rightarrow> int" where
  "g_strcmp0 a b =
     (case (a, b) of
        (None, None) \<Rightarrow> 0 | (None, Some _) \<Rightarrow> -1 | (Some _, None) \<Rightarrow> 1
      | (Some x, Some y) \<Rightarrow> strcmp x y)"

lemma strcmp_eq_0_iff [simp]: "strcmp x y = 0 \<longleftrightarrow> x = y"
  by (induction x y rule: strcmp.induct) (auto simp: of_char_inject)

lemma strcmp_refl [simp]: "strcmp x x = 0"
  by simp

lemma g_strcmp0_eq_0_iff [simp]: "g_strcmp0 a b = 0 \<longleftrightarrow> a = b"
  by (auto simp: g_strcmp0_def split: option.splits)

lemma strcmp_antisym: "strcmp y x = - strcmp x y"
  by (induction x y rule: strcmp.induct) auto

lemma strcmp_Cons_le:
  "strcmp (x # xs) (y # ys) \<le> 0 \<longleftrightarrow>
   (of_char x :: nat) < of_char y \<or> (of_char x :: nat) = of_char y \<and> strcmp xs ys \<le> 0"
  by auto

lemma strcmp_trans: "strcmp x y \<le> 0 \<Longrightarrow> strcmp y z \<le> 0 \<Longrightarrow> strcmp x z \<le> 0"
proof (induction x y arbitrary: z rule: strcmp.induct)
  case (2 y ys)
  then show ?case by (cases z) auto
next
  case (4 x xs y ys)
  show ?case
  proof (cases z)
    case (Cons c cs)
    have "(of_char x :: nat) = of_char y \<Longrightarrow> strcmp xs ys \<le> 0 \<Longrightarrow> strcmp ys cs \<le> 0 \<Longrightarrow>
        strcmp xs cs \<le> 0" using "4.IH" by simp
    with 4(2,3) show ?thesis unfolding Cons strcmp_Cons_le by linarith
  qed (use 4 in simp)
qed simp_all

section \<open>Salts\<close>

definition salt_chars :: string where
  "salt_chars = ''./0123456789ABCDEFGHIJKLMNOPQRSTUVWXYZabcdefghijklmnopqrstuvwxyz''"

definition SALT_LEN :: nat where "SALT_LEN = 16"
definition METHODID_LEN :: nat where "METHODID_LEN = 3"

definition method_id :: "pstr \<Rightarrow> string" where
  "method_id encryp_algo =
     (if encryp_algo = Some ''MD5'' then ''$1$''
      else if encryp_algo = Some ''SHA256'' then ''$5$''
      else if encryp_algo = Some ''SHA512'' then ''$6$''
      else [])"

definition salt_char :: "8 word \<Rightarrow> char" where
  "salt_char b = salt_chars ! unat (b AND 0x3F)"

definition generate_salt :: "ctx \<Rightarrow> pstr \<Rightarrow> pstr wm" where
  "generate_salt C encryp_algo = do {
     t \<leftarrow> gets tick;
     opened \<leftarrow> sys C SysUrandom;
     if \<not> opened then ret None
     else do {
       let bytes = take SALT_LEN (urandom C t);
       ret (if length bytes \<noteq> SALT_LEN then None
            else Some (method_id encryp_algo @ map salt_char bytes)) } }"

definition gum_crypt_encrypt_secret :: "ctx \<Rightarrow> string \<Rightarrow> pstr \<Rightarrow> pstr wm" where
  "gum_crypt_encrypt_secret C secret encryp_algo = do {
     salt \<leftarrow> generate_salt C encryp_algo;
     ret (case salt of None \<Rightarrow> None | Some s \<Rightarrow> libc_crypt (c_env C) secret s) }"

text \<open>The character at a position of a C string; the terminator is NUL.\<close>

definition c_at :: "string \<Rightarrow> nat \<Rightarrow> char" where
  "c_at s i = (if i < length s then s ! i else CHR 0x00)"

function extract_salt_loop :: "string \<Rightarrow> nat \<Rightarrow> pstr" where
  "extract_salt_loop s i =
     (if i < length s
      then if s ! i = CHR ''$'' then Some (take i s) else extract_salt_loop s (i + 1)
      else None)"
  by pat_completeness auto
termination by (relation "measure (\<lambda>(s, i). length s - i)") auto

declare extract_salt_loop.simps [simp del]

definition extract_salt :: "pstr \<Rightarrow> pstr" where
  "extract_salt enc_secret =
     (case enc_secret of None \<Rightarrow> None
      | Some s \<Rightarrow>
          extract_salt_loop s
            (if c_at s 0 = CHR ''$'' \<and> is_digit (c_at s 1) \<and> c_at s 2 = CHR ''$''
             then METHODID_LEN else 0))"

definition gum_crypt_cmp_secret :: "env \<Rightarrow> pstr \<Rightarrow> pstr \<Rightarrow> int" where
  "gum_crypt_cmp_secret E plain_str1 enc_str2 =
     (case (plain_str1, enc_str2) of
        (Some plain, Some enc) \<Rightarrow>
          (case extract_salt (Some enc) of None \<Rightarrow> -1
           | Some salt \<Rightarrow> g_strcmp0 (libc_crypt E plain salt) (Some enc))
      | _ \<Rightarrow> -1)"

section \<open>What crypt promises\<close>

text \<open>
  For the methods 1, 5 and 6 the hash is the method id, the salt cut to the length the
  method uses (8 for MD5, 16 for the SHA methods), a dollar sign and the rest; the part of
  the salt beyond that length has no influence.
\<close>

definition salt_used :: "string \<Rightarrow> nat" where
  "salt_used ident = (if ident = ''$1$'' then 8 else 16)"

locale crypt_env =
  fixes E :: env
  assumes crypt_form: "ident \<in> {''$1$'', ''$5$'', ''$6$''} \<Longrightarrow> length s = SALT_LEN \<Longrightarrow>
      set s \<subseteq> set salt_chars \<Longrightarrow> libc_crypt E p (ident @ s) = Some h \<Longrightarrow>
      \<exists>hash. h = ident @ take (salt_used ident) s @ ''$'' @ hash"
    and crypt_truncates: "ident \<in> {''$1$'', ''$5$'', ''$6$''} \<Longrightarrow>
      libc_crypt E p (ident @ take (salt_used ident) s) = libc_crypt E p (ident @ s)"
begin

lemma extract_salt_loop_first:
  "\<forall>c\<in>set (drop i (take k s)). c \<noteq> CHR ''$'' \<Longrightarrow> i \<le> k \<Longrightarrow> k < length s \<Longrightarrow> s ! k = CHR ''$'' \<Longrightarrow>
   extract_salt_loop s i = Some (take k s)"
proof (induction s i rule: extract_salt_loop.induct)
  case (1 s i)
  show ?case
  proof (cases "i = k")
    case True
    with 1 show ?thesis by (simp add: extract_salt_loop.simps [of s k])
  next
    case False
    with 1 have "i < k" by simp
    with 1(4) have d: "drop i (take k s) = s ! i # drop (i + 1) (take k s)"
      by (metis (no_types, lifting) Cons_nth_drop_Suc Suc_eq_plus1 length_take min.absorb4 nth_take)
    with 1(2) have ne: "s ! i \<noteq> CHR ''$''" by simp
    have "extract_salt_loop s (i + 1) = Some (take k s)"
    proof (rule "1.IH")
      show "\<forall>c\<in>set (drop (i + 1) (take k s)). c \<noteq> CHR ''$''" using 1(2) unfolding d by simp
    qed (use \<open>i < k\<close> 1 ne in auto)
    with \<open>i < k\<close> 1(4) ne show ?thesis by (simp add: extract_salt_loop.simps [of s i])
  qed
qed

lemma extract_salt_form:
  assumes "ident \<in> {''$1$'', ''$5$'', ''$6$''}" and "set s \<subseteq> set salt_chars"
  shows "extract_salt (Some (ident @ s @ ''$'' @ hash)) = Some (ident @ s)"
proof -
  have s: "CHR ''$'' \<notin> set s" using assms(2) by (auto simp: salt_chars_def)
  have "is_digit CHR ''1''" "is_digit CHR ''5''" "is_digit CHR ''6''"
    by (simp_all add: is_digit_def char_in_def)
  then obtain d where d: "ident = [CHR ''$'', d, CHR ''$'']" "is_digit d"
    using assms(1) by blast
  have "extract_salt_loop (ident @ s @ ''$'' @ hash) 3 =
      Some (take (3 + length s) (ident @ s @ ''$'' @ hash))"
  proof (rule extract_salt_loop_first)
    have "drop 3 (take (3 + length s) (ident @ s @ ''$'' @ hash)) = s" by (simp add: d(1) numeral_3_eq_3)
    then show "\<forall>c\<in>set (drop 3 (take (3 + length s) (ident @ s @ ''$'' @ hash))). c \<noteq> CHR ''$''"
      using s by metis
  qed (simp_all add: d(1) nth_append numeral_3_eq_3)
  also have "take (3 + length s) (ident @ s @ ''$'' @ hash) = ident @ s" by (simp add: d(1) numeral_3_eq_3)
  finally have loop: "extract_salt_loop (ident @ s @ ''$'' @ hash) 3 = Some (ident @ s)" .
  have c: "c_at (ident @ s @ ''$'' @ hash) 0 = CHR ''$''" "c_at (ident @ s @ ''$'' @ hash) 1 = d"
    "c_at (ident @ s @ ''$'' @ hash) 2 = CHR ''$''" by (simp_all add: c_at_def d(1))
  show ?thesis
    unfolding extract_salt_def option.case c METHODID_LEN_def using loop d(2) by simp
qed

lemma salt_char_in: "salt_char b \<in> set salt_chars"
proof -
  have "b AND 0x3F \<le> 0x3F" by (rule word_and_le1)
  then have "unat (b AND 0x3F) \<le> 63" by (simp add: word_le_nat_alt)
  then show ?thesis unfolding salt_char_def by (intro nth_mem) (simp add: salt_chars_def)
qed

lemma cmp_encrypt:
  assumes algo: "encryp_algo \<in> {Some ''MD5'', Some ''SHA256'', Some ''SHA512''}"
    and h: "libc_crypt E p (method_id encryp_algo @ map salt_char bytes) = Some h"
    and len: "length bytes = SALT_LEN"
  shows "gum_crypt_cmp_secret E (Some p) (Some h) = 0"
proof -
  define ident where "ident = method_id encryp_algo"
  define s where "s = map salt_char bytes"
  have ident: "ident \<in> {''$1$'', ''$5$'', ''$6$''}" using algo by (auto simp: ident_def method_id_def)
  have s: "set s \<subseteq> set salt_chars" "length s = SALT_LEN"
    using len by (auto simp: s_def salt_char_in)
  obtain hash where hash: "h = ident @ take (salt_used ident) s @ ''$'' @ hash"
    using crypt_form [OF ident s(2,1)] h by (auto simp: ident_def s_def)
  have "set (take (salt_used ident) s) \<subseteq> set salt_chars"
    using s(1) set_take_subset [of "salt_used ident" s] by blast
  then have "extract_salt (Some h) = Some (ident @ take (salt_used ident) s)"
    unfolding hash using extract_salt_form [OF ident] by blast
  moreover have "libc_crypt E p (ident @ take (salt_used ident) s) = Some h"
    unfolding crypt_truncates [OF ident] using h by (simp add: ident_def s_def)
  ultimately show ?thesis by (simp add: gum_crypt_cmp_secret_def)
qed

end

interpretation ref_crypt: crypt_env ref_env
  by unfold_locales (elim insertE emptyE; clarsimp simp: ref_env_def SALT_LEN_def salt_used_def)+

lemma frame_encrypt [frame_rules]:
  "(\<And>w n. g (w\<lparr>tick := n\<rparr>) = g w) \<Longrightarrow> frame g (gum_crypt_encrypt_secret C p a)"
  unfolding gum_crypt_encrypt_secret_def generate_salt_def by (intro frame_rules)

text \<open>What encryption returns: a hash of the secret under some salt of the method.\<close>

definition hashed :: "ctx \<Rightarrow> pstr \<Rightarrow> string \<Rightarrow> string \<Rightarrow> bool" where
  "hashed C a p h \<longleftrightarrow> (\<exists>bytes. length bytes = SALT_LEN \<and>
     libc_crypt (c_env C) p (method_id a @ map salt_char bytes) = Some h)"

lemma encrypt_hashed:
  "wp (gum_crypt_encrypt_secret C p a) (\<lambda>r w'. (\<exists>n. w' = w\<lparr>tick := n\<rparr>) \<and> (\<forall>h. r = Some h \<longrightarrow> hashed C a p h)) w"
proof -
  have "hashed C a p h" if "length (take SALT_LEN (urandom C t)) = SALT_LEN"
      "libc_crypt (c_env C) p (method_id a @ map salt_char (take SALT_LEN (urandom C t))) = Some h" for h t
    unfolding hashed_def using that by blast
  then show ?thesis
    unfolding gum_crypt_encrypt_secret_def generate_salt_def Let_def
    by (intro wp_rules) (auto split: option.splits if_splits simp del: length_take intro: exI [of _ "tick w + 1"])
qed

lemma hashed_cmp:
  assumes "crypt_env (c_env C)" "a \<in> {Some ''MD5'', Some ''SHA256'', Some ''SHA512''}" "hashed C a p h"
  shows "gum_crypt_cmp_secret (c_env C) (Some p) (Some h) = 0"
  using assms(3) crypt_env.cmp_encrypt [OF assms(1,2)] by (auto simp: hashed_def)

section \<open>Properties\<close>



end
