(* ===== verification/Gum_Utils.thy ===== *)
theory Gum_Utils
  imports Gum_File Gum_Crypt "HOL-Library.Multiset" "HOL-Library.Sublist"
begin

text \<open>
  The script runner of \<^verbatim>\<open>src/common/gum-utils.c\<close>: every file of a directory, in
  the order of \<open>g_strcmp0\<close> of the paths, is run with the arguments of the event. A run is
  an event of the log; what a script does is outside the model. The nonce generator of the
  same file is a keyed hash over random bytes and the clock; a nonce is an argument of the
  D-Bus calls. The privilege functions are in \<open>Gum_World\<close>.
\<close>

section \<open>Running scripts\<close>

definition script_sort :: "string \<Rightarrow> string \<Rightarrow> int" where
  "script_sort a b = g_strcmp0 (Some a) (Some b)"

text \<open>\<open>g_file_test (script, G_FILE_TEST_EXISTS)\<close> follows links: the oracle decides.\<close>

definition run_script :: "ctx \<Rightarrow> string list \<Rightarrow> unit wm" where
  "run_script C args =
     (case args of [] \<Rightarrow> ret ()
      | script # _ \<Rightarrow> do {
          ex \<leftarrow> sys C SysStat;
          if \<not> ex then ret ()
          else do {
            ok \<leftarrow> sys C SysSpawn;
            if ok then log_event (EvScript args) else ret () } })"

definition is_hdir :: "htree option \<Rightarrow> bool" where
  "is_hdir t = (case t of Some (HDir _ _) \<Rightarrow> True | _ \<Rightarrow> False)"

fun hdir_entries :: "htree option \<Rightarrow> (string \<times> htree) list" where
  "hdir_entries (Some (HDir a es)) = es"
| "hdir_entries _ = []"

text \<open>The loop over the directory: the sorted paths of its files, unless an \<open>lstat\<close> fails.\<close>

fun collect_scripts ::
    "ctx \<Rightarrow> string \<Rightarrow> (string \<times> htree) list \<Rightarrow> string list \<Rightarrow> string list option wm" where
  "collect_scripts C dir [] scripts = ret (Some scripts)"
| "collect_scripts C dir ((name, node) # rest) scripts =
     (if name = ''.'' \<or> name = ''..'' then collect_scripts C dir rest scripts
      else do {
        ok \<leftarrow> sys C SysLstat;
        if \<not> ok then ret None
        else if \<not> is_hdir (Some node)
        then collect_scripts C dir rest
               (insert_before (\<lambda>x. script_sort (g_build_filename (c_env C) [dir, name]) x < 0)
                  (g_build_filename (c_env C) [dir, name]) scripts)
        else collect_scripts C dir rest scripts })"

fun run_all :: "ctx \<Rightarrow> string list \<Rightarrow> string list \<Rightarrow> unit wm" where
  "run_all C [] args = ret ()"
| "run_all C (s # ss) args = do { run_script C (s # args); run_all C ss args }"

text \<open>\<open>args\<close> are the arguments after the script path.\<close>

definition run_scripts :: "ctx \<Rightarrow> string \<Rightarrow> string list \<Rightarrow> bool wm" where
  "run_scripts C sdir args =
     (case gum_config_prepend_sysroot (c_env C) (glob_config C) (Some sdir) of
        None \<Rightarrow> ret False
      | Some script_dir \<Rightarrow> do {
          t \<leftarrow> gets (\<lambda>w. trees w script_dir);
          if \<not> is_hdir t then ret False
          else do {
            opened \<leftarrow> sys C SysOpendir;
            if \<not> opened then ret False
            else do {
              scripts \<leftarrow> collect_scripts C script_dir (hdir_entries t) [];
              case scripts of None \<Rightarrow> ret False
              | Some ss \<Rightarrow> do { run_all C ss args; ret True } } } })"

definition gum_utils_run_user_scripts ::
    "ctx \<Rightarrow> string \<Rightarrow> pstr \<Rightarrow> uid_t \<Rightarrow> gid_t \<Rightarrow> pstr \<Rightarrow> pstr \<Rightarrow> bool wm" where
  "gum_utils_run_user_scripts C script_dir username uid gid homedir usertype =
     (case (username, homedir) of
        (Some n, Some h) \<Rightarrow>
          run_scripts C script_dir
            ([n, decimal_digits (unat uid), decimal_digits (unat gid), h] @
             (case usertype of None \<Rightarrow> [] | Some t \<Rightarrow> [t]))
      | _ \<Rightarrow> ret False)"

definition gum_utils_run_group_scripts ::
    "ctx \<Rightarrow> string \<Rightarrow> pstr \<Rightarrow> gid_t \<Rightarrow> uid_t \<Rightarrow> bool wm" where
  "gum_utils_run_group_scripts C script_dir groupname gid uid =
     (case groupname of None \<Rightarrow> ret False
      | Some n \<Rightarrow> run_scripts C script_dir
                    [n, decimal_digits (unat gid), decimal_digits (unat uid)])"

section \<open>Lemmas\<close>

definition script_indep :: "(world \<Rightarrow> 'a) \<Rightarrow> bool" where
  "script_indep g \<longleftrightarrow> (\<forall>w n. g (w\<lparr>tick := n\<rparr>) = g w) \<and> (\<forall>w e. g (w\<lparr>events := e\<rparr>) = g w)"

lemma frame_run_script:
  "script_indep g \<Longrightarrow> frame g (run_script C args)"
  unfolding run_script_def by (cases args) (auto intro!: frame_rules simp: script_indep_def)

lemma frame_collect_scripts [frame_rules]:
  "(\<And>w n. g (w\<lparr>tick := n\<rparr>) = g w) \<Longrightarrow> frame g (collect_scripts C dir es ss)"
  by (induction C dir es ss rule: collect_scripts.induct) (auto intro!: frame_rules)

lemma frame_run_all:
  "script_indep g \<Longrightarrow> frame g (run_all C ss args)"
  by (induction ss) (auto intro!: frame_rules frame_run_script)

lemma frame_run_scripts:
  "script_indep g \<Longrightarrow> frame g (run_scripts C sdir args)"
  unfolding run_scripts_def by (intro frame_rules frame_run_all) (auto simp: script_indep_def)

lemma frame_scripts:
  assumes "script_indep g"
  shows "frame g (gum_utils_run_user_scripts C d n u gd h t)"
    and "frame g (gum_utils_run_group_scripts C d n gd u)"
  using assms unfolding gum_utils_run_user_scripts_def gum_utils_run_group_scripts_def
  by (auto intro!: frame_rules frame_run_scripts split: option.splits)

text \<open>Paths in the order of \<open>g_strcmp0\<close>.\<close>

definition scripts_sorted :: "string list \<Rightarrow> bool" where
  "scripts_sorted ss = sorted_wrt (\<lambda>x y. strcmp x y \<le> 0) ss"

lemma scripts_sorted_insert:
  "scripts_sorted ss \<Longrightarrow> scripts_sorted (insert_before (\<lambda>x. script_sort y x < 0) y ss)"
proof (induction ss)
  case Nil
  then show ?case by (simp add: scripts_sorted_def)
next
  case (Cons a ss)
  show ?case
  proof (cases "script_sort y a < 0")
    case True
    then have y: "strcmp y a \<le> 0" by (simp add: script_sort_def g_strcmp0_def)
    with Cons.prems show ?thesis
      using True by (auto simp: scripts_sorted_def intro: strcmp_trans [OF y])
  next
    case False
    then have "strcmp a y \<le> 0"
      using strcmp_antisym [of a y] by (simp add: script_sort_def g_strcmp0_def)
    with Cons False show ?thesis by (auto simp: scripts_sorted_def)
  qed
qed

text \<open>The files of a directory, as paths.\<close>

definition script_paths :: "ctx \<Rightarrow> string \<Rightarrow> (string \<times> htree) list \<Rightarrow> string list" where
  "script_paths C dir es =
     map (\<lambda>(n, _). g_build_filename (c_env C) [dir, n])
       (filter (\<lambda>(n, t). n \<noteq> ''.'' \<and> n \<noteq> ''..'' \<and> \<not> is_hdir (Some t)) es)"

lemma mset_insert_before: "mset (insert_before P y xs) = add_mset y (mset xs)"
  by (induction xs) auto

lemma script_paths_Cons:
  "script_paths C dir ((n, t) # rest) =
     (if n = ''.'' \<or> n = ''..'' \<or> is_hdir (Some t) then [] else [g_build_filename (c_env C) [dir, n]]) @
     script_paths C dir rest"
  by (simp add: script_paths_def)

definition collected ::
    "world \<Rightarrow> string multiset \<Rightarrow> string list option \<Rightarrow> world \<Rightarrow> bool" where
  "collected w ps r w' \<longleftrightarrow> events w' = events w \<and>
     (case r of None \<Rightarrow> True | Some out \<Rightarrow> scripts_sorted out \<and> mset out = ps)"

lemma collected_tick: "collected (w\<lparr>tick := n\<rparr>) ps r w' \<Longrightarrow> collected w ps r w'"
  by (simp add: collected_def)

lemma collect_scripts_spec:
  "scripts_sorted ss \<Longrightarrow>
   wp (collect_scripts C dir es ss) (collected w (mset ss + mset (script_paths C dir es))) w"
proof (induction es arbitrary: ss w)
  case Nil
  then show ?case by (auto intro!: wp_return simp: script_paths_def collected_def)
next
  case (Cons e es)
  obtain n t where e: "e = (n, t)" by (cases e)
  note step = wp_mono [OF Cons.IH collected_tick]
  show ?case
  proof (cases "n = ''.'' \<or> n = ''..''")
    case True
    with Cons.IH [OF Cons.prems] show ?thesis by (auto simp: e script_paths_Cons)
  next
    case False
    then have cond: "(n = ''.'' \<or> n = ''..'') = False" by blast
    show ?thesis
      unfolding e collect_scripts.simps script_paths_Cons cond if_False
      by (intro wp_bind wp_sys wp_if wp_return)
        (use False in \<open>auto simp: collected_def [where r = None] mset_insert_before
          intro!: step [THEN wp_mono] scripts_sorted_insert Cons.prems\<close>)
  qed
qed

lemma run_all_spec:
  "wp (run_all C ss args) (\<lambda>_ w'. \<exists>ran. subseq ran ss \<and> (healthy C \<longrightarrow> ran = ss) \<and>
     events w' = events w @ map (\<lambda>s. EvScript (s # args)) ran) w"
proof (induction ss arbitrary: w)
  case Nil
  then show ?case by (auto intro: wp_return)
next
  case (Cons s ss)
  have one: "wp (run_script C (s # args)) (\<lambda>_ w'. events w' = events w \<and> \<not> healthy C \<or>
      events w' = events w @ [EvScript (s # args)]) w"
    by (auto simp: run_script_def sys_def log_event_def healthy_def wp_def)
  show ?case
    unfolding run_all.simps
  proof (rule wp_step [OF one])
    fix u :: unit and w1 :: world
    assume "events w1 = events w \<and> \<not> healthy C \<or> events w1 = events w @ [EvScript (s # args)]"
    then show "wp (run_all C ss args) (\<lambda>_ w'. \<exists>ran. subseq ran (s # ss) \<and>
        (healthy C \<longrightarrow> ran = s # ss) \<and>
        events w' = events w @ map (\<lambda>s. EvScript (s # args)) ran) w1"
    proof
      assume "events w1 = events w \<and> \<not> healthy C"
      then show ?thesis by (intro wp_mono [OF Cons.IH]) auto
    next
      assume e: "events w1 = events w @ [EvScript (s # args)]"
      show ?thesis
      proof (rule wp_mono [OF Cons.IH], elim exE conjE)
        fix a s' ran
        assume "subseq ran ss" "healthy C \<longrightarrow> ran = ss"
          "events s' = events w1 @ map (\<lambda>s. EvScript (s # args)) ran"
        then show "\<exists>ran. subseq ran (s # ss) \<and> (healthy C \<longrightarrow> ran = s # ss) \<and>
            events s' = events w @ map (\<lambda>s. EvScript (s # args)) ran"
          by (intro exI [of _ "s # ran"]) (simp add: e)
      qed
    qed
  qed
qed

definition script_dir_path :: "ctx \<Rightarrow> string \<Rightarrow> string" where
  "script_dir_path C sdir = the (gum_config_prepend_sysroot (c_env C) (glob_config C) (Some sdir))"

section \<open>Properties\<close>

text \<open>
  The scripts of a directory are its entries that are no directories, each once, in
  the order of their paths. If the runner returns TRUE it has run a subsequence of them in
  that order (all of them if no call fails), each with the arguments given; if it returns
  FALSE it has run none.
\<close>

theorem run_scripts_sorted:
  "wp (run_scripts C sdir args) (\<lambda>ok w'.
     if ok then \<exists>out ran. scripts_sorted out \<and>
        mset out = mset (script_paths C (script_dir_path C sdir)
                          (hdir_entries (trees w (script_dir_path C sdir)))) \<and>
        subseq ran out \<and> (healthy C \<longrightarrow> ran = out) \<and>
        events w' = events w @ map (\<lambda>s. EvScript (s # args)) ran
     else events w' = events w) w"
proof -
  have d: "gum_config_prepend_sysroot (c_env C) (glob_config C) (Some sdir) =
      Some (script_dir_path C sdir)"
    by (simp add: gum_config_prepend_sysroot_def script_dir_path_def)
  have sorted: "scripts_sorted []" by (simp add: scripts_sorted_def)
  show ?thesis
    unfolding run_scripts_def d option.case
    by (intro wp_bind wp_gets wp_if wp_sys wp_return wp_mono [OF collect_scripts_spec [OF sorted]]
        wp_case_option wp_mono [OF run_all_spec]) (auto simp: collected_def)
qed

definition ref_scripts :: world where
  "ref_scripts = ref_world\<lparr>trees := [''d'' \<mapsto> HDir ref_attrs [(''b'', HFile ref_attrs []),
     (''a'', HFile ref_attrs []), (''c'', HDir ref_attrs [])]]\<rparr>"

theorem run_scripts_sorted_witness:
  "length (events (snd (run_state (run_scripts ref_ctx ''d'' [''x'']) ref_scripts))) = 2"
proof -
  have ok: "fst (run_state (run_scripts ref_ctx ''d'' [''x'']) ref_scripts)" by code_simp
  have paths: "script_dir_path ref_ctx ''d'' = ''d''" 
    "script_paths ref_ctx ''d'' (hdir_entries (trees ref_scripts ''d'')) = [''d/b'', ''d/a'']"
    "events ref_scripts = []"
    by code_simp+
  have h: "healthy ref_ctx" by (simp add: healthy_def ref_ctx_def)
  from run_scripts_sorted [of ref_ctx "''d''" "[''x'']" ref_scripts]
  obtain out where "mset out = mset [''d/b'', ''d/a'']"
    "events (snd (run_state (run_scripts ref_ctx ''d'' [''x'']) ref_scripts)) =
       map (\<lambda>s. EvScript (s # [''x''])) out"
    unfolding wp_def paths using ok h by auto
  then show ?thesis by (metis length_map size_mset length_Cons list.size(3) numeral_2_eq_2)
qed

end
