(* ===== verification/Gumd_Entries.thy ===== *)
theory Gumd_Entries
  imports Gum_Utils
begin

text \<open>
  The pass over a database file that the four update callbacks of
  \<^verbatim>\<open>gumd-daemon-user.c\<close> and \<^verbatim>\<open>gumd-daemon-group.c\<close> share: a loop over the
  entries with a \<open>done\<close> flag, in which the \<open>switch (op)\<close> of the callback decides for each
  entry what is written for it. Each callback is this pass with its own switch; that the
  pass is an update callback in the sense of \<open>Gum_File\<close> is proved here once.
\<close>

section \<open>The pass\<close>

datatype GumOpType = GUM_OPTYPE_ADD | GUM_OPTYPE_DELETE | GUM_OPTYPE_MODIFY

text \<open>
  What the body of the loop does with an entry: return with an error, or write some entries
  (none for \<open>continue\<close>) and go on with a value of \<open>done\<close>.
\<close>

datatype 'e action = Fail GumError | Write "'e list" bool

fun entry_loop :: "('e \<Rightarrow> bool wm) \<Rightarrow> ('e \<Rightarrow> bool \<Rightarrow> 'e action) \<Rightarrow> 'e list \<Rightarrow> bool \<Rightarrow> bool option wm" where
  "entry_loop put body [] dn = ret (Some dn)"
| "entry_loop put body (e # es) dn =
     (case body e dn of
        Fail err \<Rightarrow> do { set_error err; ret None }
      | Write xs dn' \<Rightarrow> do {
          ok \<leftarrow> all_ok put xs;
          if \<not> ok then do { set_error GUM_ERROR_FILE_WRITE; ret None }
          else entry_loop put body es dn' })"

text \<open>The whole callback; \<open>new\<close> is the entry of the object.\<close>

definition update_entries ::
    "('e \<Rightarrow> bool wm) \<Rightarrow> ('e \<Rightarrow> bool \<Rightarrow> 'e action) \<Rightarrow> GumOpType \<Rightarrow> 'e \<Rightarrow> 'e list \<Rightarrow> bool wm" where
  "update_entries put body op new es = do {
     r \<leftarrow> entry_loop put body es False;
     case r of None \<Rightarrow> ret False
     | Some dn \<Rightarrow>
         if \<not> dn \<and> op = GUM_OPTYPE_ADD then do {
           ok \<leftarrow> put new;
           if \<not> ok then fail_with GUM_ERROR_FILE_WRITE else ret True }
         else if \<not> dn then fail_with GUM_ERROR_FILE_WRITE
         else ret True }"

section \<open>The pass as a function on entries\<close>

fun entries_out :: "('e \<Rightarrow> bool \<Rightarrow> 'e action) \<Rightarrow> 'e list \<Rightarrow> bool \<Rightarrow> ('e list \<times> bool) option" where
  "entries_out body [] dn = Some ([], dn)"
| "entries_out body (e # es) dn =
     (case body e dn of
        Fail err \<Rightarrow> None
      | Write xs dn' \<Rightarrow>
          (case entries_out body es dn' of None \<Rightarrow> None | Some (ys, d) \<Rightarrow> Some (xs @ ys, d)))"

definition update_out ::
    "('e \<Rightarrow> bool \<Rightarrow> 'e action) \<Rightarrow> GumOpType \<Rightarrow> 'e \<Rightarrow> 'e list \<Rightarrow> 'e list option" where
  "update_out body op new es =
     (case entries_out body es False of
        None \<Rightarrow> None
      | Some (xs, dn) \<Rightarrow>
          if dn then Some xs else if op = GUM_OPTYPE_ADD then Some (xs @ [new]) else None)"

text \<open>The lines of the entries, if each can be written.\<close>

definition lines_out :: "('e \<Rightarrow> line option) \<Rightarrow> 'e list \<Rightarrow> line list option" where
  "lines_out enc es = those (map enc es)"

definition pass_out ::
    "(line list \<Rightarrow> 'e list) \<Rightarrow> ('e \<Rightarrow> line option) \<Rightarrow> ('e \<Rightarrow> bool \<Rightarrow> 'e action) \<Rightarrow> GumOpType \<Rightarrow> 'e \<Rightarrow>
     line list \<Rightarrow> line list option" where
  "pass_out ents enc body op new ls =
     (case update_out body op new (ents ls) of None \<Rightarrow> None | Some es \<Rightarrow> lines_out enc es)"

lemma lines_out_simps [simp]:
  "lines_out enc [] = Some []"
  "lines_out enc (e # es) =
     (case enc e of None \<Rightarrow> None
      | Some l \<Rightarrow> (case lines_out enc es of None \<Rightarrow> None | Some ls \<Rightarrow> Some (l # ls)))"
  by (simp_all add: lines_out_def split: option.splits)

lemma lines_out_append:
  "lines_out enc (xs @ ys) =
     (case lines_out enc xs of None \<Rightarrow> None
      | Some a \<Rightarrow> (case lines_out enc ys of None \<Rightarrow> None | Some b \<Rightarrow> Some (a @ b)))"
  by (induction xs) (auto split: option.splits)

lemma lines_out_map: "\<forall>e\<in>set es. enc e = Some (f e) \<Longrightarrow> lines_out enc es = Some (map f es)"
  by (induction es) auto

section \<open>The pass is an update callback\<close>

text \<open>What has been appended to the duplicate since the state \<open>w\<close>.\<close>

definition appended :: "string \<Rightarrow> world \<Rightarrow> line list \<Rightarrow> world \<Rightarrow> bool" where
  "appended path w xs w' \<longleftrightarrow> others path w' = others path w \<and>
     files w' path = map_option (\<lambda>i. i\<lparr>i_lines := i_lines i @ xs\<rparr>) (files w path)"

lemma appended_Nil: "others path w' = others path w \<Longrightarrow> files w' path = files w path \<Longrightarrow> appended path w [] w'"
  by (cases "files w path") (auto simp: appended_def)

lemma appended_trans:
  "appended path w xs w1 \<Longrightarrow> appended path w1 ys w2 \<Longrightarrow> appended path w (xs @ ys) w2"
  by (cases "files w path") (auto simp: appended_def)

lemma appended_others: "appended path w xs w' \<Longrightarrow> others path w' = others path w"
  by (simp add: appended_def)

text \<open>Writing an entry, a list of entries.\<close>

definition wrote ::
    "string \<Rightarrow> world \<Rightarrow> line list option \<Rightarrow> bool \<Rightarrow> world \<Rightarrow> bool" where
  "wrote path w ls ok w' \<longleftrightarrow> others path w' = others path w \<and>
     (ok \<longrightarrow> (\<exists>xs. ls = Some xs \<and> appended path w xs w'))"

lemma put_line_wrote:
  "wp (put_line C path l) (wrote path w (map_option (\<lambda>x. [x]) l)) w"
  unfolding put_line_def append_line_def
  by (intro wp_rules) (auto simp: wrote_def appended_def others_def)

lemma put_line_healthy: "healthy C \<Longrightarrow> l \<noteq> None \<Longrightarrow> wp (put_line C path l) (\<lambda>ok _. ok) w"
  by (auto simp: put_line_def wp_def sys_healthy case_prod_beta)

lemma all_ok_wrote:
  "wp (all_ok (\<lambda>e. put_line C path (enc e)) xs) (wrote path w (lines_out enc xs)) w"
proof (induction xs arbitrary: w)
  case Nil
  then show ?case by (auto intro!: wp_return appended_Nil simp: wrote_def)
next
  case (Cons x xs)
  show ?case
    unfolding all_ok.simps and_then_def
  proof (rule wp_step [OF put_line_wrote], rule wp_if)
    fix ok w1
    assume w1: "wrote path w (map_option (\<lambda>x. [x]) (enc x)) ok w1"
    then show "wp (ret False) (wrote path w (lines_out enc (x # xs))) w1"
      by (intro wp_return) (simp add: wrote_def)
    assume ok
    with w1 obtain l where l: "enc x = Some l" "appended path w [l] w1" by (auto simp: wrote_def)
    show "wp (all_ok (\<lambda>e. put_line C path (enc e)) xs) (wrote path w (lines_out enc (x # xs))) w1"
      using l by (intro wp_mono [OF Cons.IH])
        (auto simp: wrote_def appended_others dest: appended_trans [OF l(2)])
  qed
qed

lemma all_ok_healthy:
  "healthy C \<Longrightarrow> lines_out enc xs \<noteq> None \<Longrightarrow>
   wp (all_ok (\<lambda>e. put_line C path (enc e)) xs) (\<lambda>ok _. ok) w"
proof (induction xs arbitrary: w)
  case (Cons x xs)
  then show ?case unfolding all_ok.simps and_then_def
    by (intro wp_step [OF put_line_healthy]) (auto split: option.splits)
qed (simp add: wp_return)

text \<open>The loop: what \<open>entries_out\<close> says, written as lines, or an error.\<close>

definition looped ::
    "string \<Rightarrow> ('e \<Rightarrow> line option) \<Rightarrow> world \<Rightarrow> ('e list \<times> bool) option \<Rightarrow> bool option \<Rightarrow> world \<Rightarrow> bool" where
  "looped path enc w spec r w' \<longleftrightarrow> others path w' = others path w \<and>
     (case r of None \<Rightarrow> gerror w' \<noteq> None
      | Some dn \<Rightarrow> (\<exists>es ls. spec = Some (es, dn) \<and> lines_out enc es = Some ls \<and> appended path w ls w'))"

lemma entry_loop_spec:
  "wp (entry_loop (\<lambda>e. put_line C path (enc e)) body es dn)
      (looped path enc w (entries_out body es dn)) w"
proof (induction es arbitrary: dn w)
  case Nil
  then show ?case by (auto intro!: wp_return appended_Nil simp: looped_def)
next
  case (Cons e es)
  show ?case
  proof (cases "body e dn")
    case (Fail err)
    then show ?thesis by (auto intro!: wp_rules simp: looped_def)
  next
    case (Write xs d)
    show ?thesis
      unfolding entry_loop.simps entries_out.simps Write action.case
    proof (rule wp_step [OF all_ok_wrote], rule wp_if)
      fix ok w1
      assume w1: "wrote path w (lines_out enc xs) ok w1"
      then show "wp (do { set_error GUM_ERROR_FILE_WRITE; ret None })
          (looped path enc w (case entries_out body es d of None \<Rightarrow> None
             | Some (ys, d') \<Rightarrow> Some (xs @ ys, d'))) w1"
        by (intro wp_rules) (auto simp: looped_def wrote_def)
      assume "\<not> \<not> ok"
      with w1 obtain ls where ls: "lines_out enc xs = Some ls" "appended path w ls w1"
        by (auto simp: wrote_def)
      show "wp (entry_loop (\<lambda>e. put_line C path (enc e)) body es d)
          (looped path enc w (case entries_out body es d of None \<Rightarrow> None
             | Some (ys, d') \<Rightarrow> Some (xs @ ys, d'))) w1"
        using ls by (intro wp_mono [OF Cons.IH])
          (auto simp: looped_def appended_others lines_out_append split: option.splits
            dest: appended_trans [OF ls(2)])
    qed
  qed
qed

lemma entry_loop_healthy:
  "healthy C \<Longrightarrow> entries_out body es dn = Some (xs, d) \<Longrightarrow> lines_out enc xs \<noteq> None \<Longrightarrow>
   wp (entry_loop (\<lambda>e. put_line C path (enc e)) body es dn) (\<lambda>r _. r = Some d) w"
proof (induction es arbitrary: dn xs w)
  case Nil
  then show ?case by (auto intro!: wp_return)
next
  case (Cons e es)
  from Cons.prems(2) obtain ys d' zs where b: "body e dn = Write ys d'"
    "entries_out body es d' = Some (zs, d)" "xs = ys @ zs"
    by (auto split: action.splits option.splits)
  with Cons.prems(3) have "lines_out enc ys \<noteq> None" "lines_out enc zs \<noteq> None"
    by (auto simp: lines_out_append split: option.splits)
  then show ?case unfolding entry_loop.simps b(1) action.case
    by (intro wp_step [OF all_ok_healthy [OF Cons.prems(1)]]) (simp_all add: Cons b(2))
qed

lemma update_entries_spec:
  "wp (update_entries (\<lambda>e. put_line C path (enc e)) body op new es)
      (\<lambda>ok w'. others path w' = others path w \<and>
         (if ok then \<exists>xs ls. update_out body op new es = Some xs \<and> lines_out enc xs = Some ls \<and>
                             appended path w ls w'
          else gerror w' \<noteq> None)) w"
  unfolding update_entries_def
proof (rule wp_step [OF entry_loop_spec], rule wp_case_option)
  fix r w1
  assume r: "looped path enc w (entries_out body es False) r w1"
  show "wp (ret False) (\<lambda>ok w'. others path w' = others path w \<and>
         (if ok then \<exists>xs ls. update_out body op new es = Some xs \<and> lines_out enc xs = Some ls \<and>
                             appended path w ls w'
          else gerror w' \<noteq> None)) w1" if "r = None"
    using r that by (intro wp_return) (simp add: looped_def)
  fix dn assume "r = Some dn"
  with r obtain xs ls where xs: "entries_out body es False = Some (xs, dn)"
    "lines_out enc xs = Some ls" "appended path w ls w1" by (auto simp: looped_def)
  have put: "wp (put_line C path (enc new)) (\<lambda>ok w'. others path w' = others path w \<and>
      (ok \<longrightarrow> (\<exists>l. enc new = Some l \<and> appended path w (ls @ [l]) w'))) w1"
    by (rule wp_mono [OF put_line_wrote])
      (use xs(3) in \<open>auto simp: wrote_def appended_others dest: appended_trans\<close>)
  show "wp (if \<not> dn \<and> op = GUM_OPTYPE_ADD then do {
          ok \<leftarrow> put_line C path (enc new);
          if \<not> ok then fail_with GUM_ERROR_FILE_WRITE else ret True }
        else if \<not> dn then fail_with GUM_ERROR_FILE_WRITE else ret True)
      (\<lambda>ok w'. others path w' = others path w \<and>
         (if ok then \<exists>xs ls. update_out body op new es = Some xs \<and> lines_out enc xs = Some ls \<and>
                             appended path w ls w'
          else gerror w' \<noteq> None)) w1"
    apply (intro wp_if wp_fail_with wp_return wp_step [OF put])
         apply (use appended_others [OF xs(3)] in \<open>simp_all add: update_out_def xs(1,2) lines_out_append split: if_split\<close>)
     using xs(3) by auto
qed

lemma update_entries_healthy:
  assumes h: "healthy C" and o: "update_out body op new es = Some xs" "lines_out enc xs \<noteq> None"
  shows "wp (update_entries (\<lambda>e. put_line C path (enc e)) body op new es) (\<lambda>ok _. ok) w"
proof -
  from o(1) obtain ys dn where ys: "entries_out body es False = Some (ys, dn)"
    "if dn then xs = ys else op = GUM_OPTYPE_ADD \<and> xs = ys @ [new]"
    by (auto simp: update_out_def split: option.splits if_splits)
  with o(2) have l: "lines_out enc ys \<noteq> None" "\<not> dn \<longrightarrow> enc new \<noteq> None"
    by (auto simp: lines_out_append split: option.splits if_splits)
  show ?thesis
    unfolding update_entries_def
    by (rule wp_step [OF entry_loop_healthy [OF h ys(1) l(1)]])
      (use ys(2) l(2) in \<open>auto intro!: wp_return wp_step [OF put_line_healthy [OF h]] split: if_splits\<close>)
qed

theorem update_entries_callback:
  "update_callback C
     (\<lambda>ls path. update_entries (\<lambda>e. put_line C path (enc e)) body op new (ents ls))
     (pass_out ents enc body op new)"
proof
  fix w :: world and path i ls
  assume "files w path = Some i" "i_lines i = []"
  then show "wp (update_entries (\<lambda>e. put_line C path (enc e)) body op new (ents ls))
     (\<lambda>ok w'. others path w' = others path w \<and>
       (if ok then \<exists>xs. pass_out ents enc body op new ls = Some xs \<and>
                        files w' path = Some (i\<lparr>i_lines := xs\<rparr>)
        else gerror w' \<noteq> None)) w"
    by (intro wp_mono [OF update_entries_spec]) (auto simp: pass_out_def appended_def)
next
  fix w :: world and path ls xs
  assume h: "healthy C" and "pass_out ents enc body op new ls = Some xs"
  then obtain es where "update_out body op new (ents ls) = Some es" "lines_out enc es \<noteq> None"
    by (auto simp: pass_out_def split: option.splits)
  then show "wp (update_entries (\<lambda>e. put_line C path (enc e)) body op new (ents ls)) (\<lambda>ok _. ok) w"
    by (rule update_entries_healthy [OF h])
qed

section \<open>What the switches amount to\<close>

text \<open>
  The common shapes: a delete or modify acts on the first entry that matches, an insert
  puts the new entry before the first entry that is greater.
\<close>

lemma update_out_subst:
  assumes "\<And>e. body e True = Write [e] True"
    and "\<And>e. body e False = (if P e then Write ys True else Write [e] False)"
    and "op \<noteq> GUM_OPTYPE_ADD"
  shows "update_out body op new es = (if \<exists>e\<in>set es. P e then Some (subst_first P ys es) else None)"
proof -
  have t: "entries_out body es True = Some (es, True)" for es
    by (induction es) (auto simp: assms)
  have "entries_out body es False = Some (subst_first P ys es, \<exists>e\<in>set es. P e)"
    by (induction es) (auto simp: assms t)
  then show ?thesis using assms(3) by (simp add: update_out_def)
qed

lemma update_out_insert:
  assumes "\<And>e. body e True = Write [e] True"
    and "\<And>e. body e False = (if P e then Write [new, e] True else Write [e] False)"
  shows "update_out body GUM_OPTYPE_ADD new es = Some (insert_before P new es)"
proof -
  have t: "entries_out body es True = Some (es, True)" for es
    by (induction es) (auto simp: assms)
  have "entries_out body es False =
      Some (if \<exists>e\<in>set es. P e then insert_before P new es else es, \<exists>e\<in>set es. P e)"
    by (induction es) (auto simp: assms t)
  moreover have "\<not> (\<exists>e\<in>set es. P e) \<Longrightarrow> insert_before P new es = es @ [new]"
    by (induction es) auto
  ultimately show ?thesis by (simp add: update_out_def)
qed

lemma update_out_append:
  assumes "\<And>e. body e False = (if P e then Fail err else Write [e] False)"
  shows "update_out body GUM_OPTYPE_ADD new es =
           (if \<exists>e\<in>set es. P e then None else Some (es @ [new]))"
proof -
  have "entries_out body es False = (if \<exists>e\<in>set es. P e then None else Some (es, False))"
    by (induction es) (auto simp: assms)
  then show ?thesis by (simp add: update_out_def)
qed

end
