(* ===== verification/Gumd_Db.thy ===== *)
theory Gumd_Db
  imports Gumd_Entries
begin

text \<open>
  What the user and the group object of the daemon share: the paths of the four databases
  and what an update of one of them means for all four, the contract of an entry file with
  its instances for the four databases, the steps every handler is made of and their
  balance of locks, the search for a free id, and what leaves the databases alone.
\<close>

section \<open>The paths of the databases\<close>

text \<open>A configured path or text.\<close>

abbreviation cfg :: "ctx \<Rightarrow> string \<Rightarrow> pstr" where
  "cfg C key \<equiv> gum_config_get_string (glob_config C) key"

definition group_path :: "ctx \<Rightarrow> string" where
  "group_path C = the (cfg C GUM_CONFIG_GENERAL_GROUP_FILE)"

definition gshadow_path :: "ctx \<Rightarrow> string" where
  "gshadow_path C = the (cfg C GUM_CONFIG_GENERAL_GSHADOW_FILE)"

definition passwd_path :: "ctx \<Rightarrow> string" where
  "passwd_path C = the (cfg C GUM_CONFIG_GENERAL_PASSWD_FILE)"

definition shadow_path :: "ctx \<Rightarrow> string" where
  "shadow_path C = the (cfg C GUM_CONFIG_GENERAL_SHADOW_FILE)"

definition db_paths :: "ctx \<Rightarrow> string set" where
  "db_paths C = {passwd_path C, shadow_path C, group_path C, gshadow_path C}"

text \<open>The paths of the databases do not collide with each other or their by-products.\<close>

lemmas path_defs = passwd_path_def shadow_path_def group_path_def gshadow_path_def

definition paths_ok :: "ctx \<Rightarrow> bool" where
  "paths_ok C \<longleftrightarrow>
     cfg C GUM_CONFIG_GENERAL_PASSWD_FILE \<noteq> None \<and> cfg C GUM_CONFIG_GENERAL_SHADOW_FILE \<noteq> None \<and>
     cfg C GUM_CONFIG_GENERAL_GROUP_FILE \<noteq> None \<and> cfg C GUM_CONFIG_GENERAL_GSHADOW_FILE \<noteq> None \<and>
     distinct [passwd_path C, shadow_path C, group_path C, gshadow_path C] \<and>
     (\<forall>p\<in>db_paths C. \<forall>q\<in>db_paths C. p \<noteq> q @ ''.old'' \<and> p \<noteq> dup_path C q)"

lemma paths_okD:
  assumes "paths_ok C"
  shows "cfg C GUM_CONFIG_GENERAL_PASSWD_FILE = Some (passwd_path C)"
    and "cfg C GUM_CONFIG_GENERAL_SHADOW_FILE = Some (shadow_path C)"
    and "cfg C GUM_CONFIG_GENERAL_GROUP_FILE = Some (group_path C)"
    and "cfg C GUM_CONFIG_GENERAL_GSHADOW_FILE = Some (gshadow_path C)"
    and "distinct [passwd_path C, shadow_path C, group_path C, gshadow_path C]"
    and "p \<in> db_paths C \<Longrightarrow> q \<in> db_paths C \<Longrightarrow> p \<noteq> q @ ''.old'' \<and> p \<noteq> dup_path C q"
  using assms unfolding paths_ok_def
  by (simp_all add: group_path_def gshadow_path_def passwd_path_def shadow_path_def)

text \<open>
  An update of one database, seen from all four: the updated one has the new entries or is
  as it was, the others are as they were.
\<close>

lemma updated_db_paths:
  assumes "paths_ok C" and "p \<in> db_paths C" and "updated C p out w ok w'"
  shows "\<forall>q\<in>db_paths C. q \<noteq> p \<longrightarrow> files w' q = files w q"
    and "\<not> ok \<Longrightarrow> files w' p = files w p"
    and "ok \<Longrightarrow> reads_ok C \<Longrightarrow> \<exists>i j. files w p = Some i \<and> files w' p = Some j \<and>
           out (i_lines i) = Some (i_lines j)"
proof -
  show "\<forall>q\<in>db_paths C. q \<noteq> p \<longrightarrow> files w' q = files w q"
    using assms(3) paths_okD(6) [OF assms(1) _ assms(2)] by (auto simp: updated_def)
  show "\<not> ok \<Longrightarrow> files w' p = files w p"
    using assms(3) by (simp add: updated_def)
  show "ok \<Longrightarrow> reads_ok C \<Longrightarrow> \<exists>i j. files w p = Some i \<and> files w' p = Some j \<and>
      out (i_lines i) = Some (i_lines j)"
    using assms(3) by (auto simp: updated_def reads_ok_def truncate_read_def)
qed

definition others_kept :: "ctx \<Rightarrow> string \<Rightarrow> world \<Rightarrow> world \<Rightarrow> bool" where
  "others_kept C p w w' \<longleftrightarrow> (\<forall>q\<in>db_paths C. q \<noteq> p \<longrightarrow> files w' q = files w q)"

lemma others_kept_trans:
  "others_kept C p w w1 \<Longrightarrow> others_kept C p w1 w2 \<Longrightarrow> others_kept C p w w2"
  by (simp add: others_kept_def)

lemma others_kept_refl: "others_kept C p w w"
  by (simp add: others_kept_def)

section \<open>Entry files\<close>

text \<open>
  What a callback does to the entries of its file, in terms of the operation, the entry of
  the object, the entries it goes before, those it may not meet and those it acts on.
\<close>

definition switch_out ::
    "GumOpType \<Rightarrow> 'e \<Rightarrow> ('e \<Rightarrow> bool) \<Rightarrow> ('e \<Rightarrow> bool) \<Rightarrow> ('e \<Rightarrow> bool) \<Rightarrow> 'e list \<Rightarrow> 'e list option" where
  "switch_out op new before conflict acts es =
     (case op of
        GUM_OPTYPE_ADD \<Rightarrow>
          if \<exists>e\<in>set es. conflict e then None else Some (insert_before before new es)
      | GUM_OPTYPE_DELETE \<Rightarrow> if \<exists>e\<in>set es. acts e then Some (subst_first acts [] es) else None
      | GUM_OPTYPE_MODIFY \<Rightarrow> if \<exists>e\<in>set es. acts e then Some (subst_first acts [new] es) else None)"

text \<open>The same, with the entry as it is written, between the entries of two files.\<close>

definition entry_change ::
    "('e \<Rightarrow> 'e option) \<Rightarrow> GumOpType \<Rightarrow> 'e \<Rightarrow> ('e \<Rightarrow> bool) \<Rightarrow> ('e \<Rightarrow> bool) \<Rightarrow> ('e \<Rightarrow> bool) \<Rightarrow>
     'e list \<Rightarrow> 'e list \<Rightarrow> bool" where
  "entry_change line_of op new before conflict acts es es' \<longleftrightarrow>
     (case op of
        GUM_OPTYPE_ADD \<Rightarrow> (\<forall>e\<in>set es. \<not> conflict e) \<and>
          (\<exists>e'. line_of new = Some e' \<and> es' = insert_before before e' es)
      | GUM_OPTYPE_DELETE \<Rightarrow> (\<exists>e\<in>set es. acts e) \<and> es' = subst_first acts [] es
      | GUM_OPTYPE_MODIFY \<Rightarrow> (\<exists>e\<in>set es. acts e) \<and>
          (\<exists>e'. line_of new = Some e' \<and> es' = subst_first acts [e'] es))"

text \<open>Entries that are written as they are, as every entry read from a file is.\<close>

definition wf_entries :: "('e \<Rightarrow> 'e option) \<Rightarrow> 'e list \<Rightarrow> bool" where
  "wf_entries line_of es \<longleftrightarrow> (\<forall>e\<in>set es. line_of e = Some e)"

lemma lines_out_wf:
  assumes "lines_out (\<lambda>e. map_option mk (line_of e)) es = Some ls"
  shows "ls = map (\<lambda>e. mk (the (line_of e))) es \<and> (\<forall>e\<in>set es. line_of e \<noteq> None)"
  using assms by (induction es arbitrary: ls) (auto split: option.splits)

lemma map_insert_before:
  "(\<forall>e\<in>set es. f e = e) \<Longrightarrow> map f (insert_before P y es) = insert_before P (f y) es"
  by (induction es) (auto intro: map_idI)

lemma map_subst_first_wf:
  "(\<forall>e\<in>set es. f e = e) \<Longrightarrow> map f (subst_first P ys es) = subst_first P (map f ys) es"
  by (induction es) (auto intro: map_idI)

lemma insert_before_False: "insert_before (\<lambda>_. False) y xs = xs @ [y]"
  by (induction xs) auto

text \<open>
  A file of entries: reading back what is written gives it as it was normalised, and an
  entry that has been normalised is written as it is.
\<close>

locale entry_file =
  fixes ents :: "line list \<Rightarrow> 'e list" and mk :: "'e \<Rightarrow> line" and line_of :: "'e \<Rightarrow> 'e option"
  assumes ents_map: "ents (map mk es) = es"
    and line_idem: "line_of e = Some e' \<Longrightarrow> line_of e' = Some e'"
begin

lemma change:
  assumes wf: "wf_entries line_of es"
    and out: "switch_out op new before conflict acts es = Some xs"
    and lines: "lines_out (\<lambda>e. map_option mk (line_of e)) xs = Some ls"
  shows "entry_change line_of op new before conflict acts es (ents ls)"
proof -
  have id: "\<forall>e\<in>set es. the (line_of e) = e" using wf by (simp add: wf_entries_def)
  have ls: "ents ls = map (\<lambda>e. the (line_of e)) xs" "\<forall>e\<in>set xs. line_of e \<noteq> None"
    using lines_out_wf [OF lines] ents_map [of "map (\<lambda>e. the (line_of e)) xs"]
    by (simp_all add: comp_def)
  show ?thesis
  proof (cases op)
    case GUM_OPTYPE_ADD
    with out have "xs = insert_before before new es" "\<forall>e\<in>set es. \<not> conflict e"
      by (auto simp: switch_out_def split: if_splits)
    with ls GUM_OPTYPE_ADD show ?thesis by (auto simp: entry_change_def map_insert_before id)
  next
    case GUM_OPTYPE_DELETE
    with out ls show ?thesis
      by (auto simp: switch_out_def entry_change_def map_subst_first_wf id split: if_splits)
  next
    case GUM_OPTYPE_MODIFY
    from GUM_OPTYPE_MODIFY out have m: "\<exists>e\<in>set es. acts e" "xs = subst_first acts [new] es"
      by (auto simp: switch_out_def split: if_splits)
    then have "new \<in> set xs" using subst_first_split [OF m(1), of "[new]"] by auto
    with ls obtain e' where "line_of new = Some e'" by blast
    with m ls show ?thesis
      unfolding entry_change_def GUM_OPTYPE_MODIFY GumOpType.case
      by (simp add: map_subst_first_wf id)
  qed
qed

lemma wf_change:
  assumes "wf_entries line_of es" and "entry_change line_of op new before conflict acts es es'"
  shows "wf_entries line_of es'"
proof -
  have "set es' \<subseteq> set es \<union> {e'. line_of new = Some e'}"
    using assms(2) set_subst_first_subset [of acts "[]" es] set_subst_first_subset [of acts _ es]
    by (fastforce simp: entry_change_def split: GumOpType.splits)
  with assms(1) line_idem show ?thesis by (fastforce simp: wf_entries_def)
qed

text \<open>An update of the file by a callback that is such a pass.\<close>

lemma update_step:
  assumes "paths_ok C" and "reads_ok C" and p: "p \<in> db_paths C"
    and wf: "wf_entries line_of (db_entries ents p w)"
    and switch: "\<And>es. update_out body op new es = switch_out op new before conflict acts es"
  shows "wp (gum_file_update C (Some (\<lambda>ls path.
            update_entries (\<lambda>e. put_line C path (map_option mk (line_of e))) body op new (ents ls)))
          (Some p))
    (\<lambda>ok w'. others_kept C p w w' \<and>
       (if ok then entry_change line_of op new before conflict acts (db_entries ents p w) (db_entries ents p w')
        else files w' p = files w p \<and> gerror w' \<noteq> None)) w"
proof (rule wp_mono [OF update_callback.update_spec [OF update_entries_callback]])
  fix ok w'
  assume u: "updated C p (pass_out ents (\<lambda>e. map_option mk (line_of e)) body op new) w ok w'"
  note facts = updated_db_paths [OF assms(1) p u]
  have "entry_change line_of op new before conflict acts (db_entries ents p w) (db_entries ents p w')" if ok
  proof -
    from facts(3) [OF that assms(2)] obtain i j xs where
      ij: "files w p = Some i" "files w' p = Some j" and
      xs: "switch_out op new before conflict acts (ents (i_lines i)) = Some xs"
        "lines_out (\<lambda>e. map_option mk (line_of e)) xs = Some (i_lines j)"
      by (auto simp: pass_out_def switch split: option.splits)
    from change [OF _ xs] wf ij show ?thesis by (simp add: db_entries_def)
  qed
  moreover have "gerror w' \<noteq> None" if "\<not> ok" using u that by (simp add: updated_def)
  ultimately show "others_kept C p w w' \<and>
      (if ok then entry_change line_of op new before conflict acts (db_entries ents p w) (db_entries ents p w')
       else files w' p = files w p \<and> gerror w' \<noteq> None)"
    using facts by (auto simp: others_kept_def)
qed

end

lemma nn_simps [simp]:
  "nn (nn f) = nn f" "valid_field (nn f) = valid_field f"
  "nnl (nnl l) = nnl l" "valid_list_field (nnl l) = valid_list_field l"
  by (auto simp: nn_def nnl_def valid_field_def valid_list_field_def split: option.split)


lemma nn_Some [simp]: "nn (Some x) = Some x" "nnl (Some l) = Some l"
  by (simp_all add: nn_def nnl_def)

lemma rewrite_field_idem [simp]: "rewrite_field (rewrite_field f) = rewrite_field f"
  by (simp add: rewrite_field_def comp_def split: option.split)

lemma line_simps:
  "passwd_line p = Some p' \<Longrightarrow>
   p' = p\<lparr>pw_passwd := nn (pw_passwd p), pw_gecos := rewrite_field (pw_gecos p),
          pw_dir := nn (pw_dir p), pw_shell := nn (pw_shell p)\<rparr>"
  "spwd_line s = Some s' \<Longrightarrow> s' = s\<lparr>sp_pwdp := nn (sp_pwdp s)\<rparr>"
  "group_line g = Some g' \<Longrightarrow> g' = g\<lparr>gr_passwd := nn (gr_passwd g), gr_mem := nnl (gr_mem g)\<rparr>"
  "sgrp_line t = Some t' \<Longrightarrow>
   t' = t\<lparr>sg_passwd := nn (sg_passwd t), sg_adm := nnl (sg_adm t), sg_mem := nnl (sg_mem t)\<rparr>"
  by (simp_all add: passwd_line_def spwd_line_def group_line_def sgrp_line_def split: if_splits)

lemma passwd_line_idem:
  assumes "passwd_line p = Some p'"
  shows "passwd_line p' = Some p'"
  using assms unfolding line_simps(1) [OF assms] by (simp add: passwd_line_def split: if_splits)

lemma spwd_line_idem:
  assumes "spwd_line p = Some p'"
  shows "spwd_line p' = Some p'"
  using assms unfolding line_simps(2) [OF assms] by (simp add: spwd_line_def split: if_splits)

lemma group_line_idem:
  assumes "group_line g = Some g'"
  shows "group_line g' = Some g'"
  using assms unfolding line_simps(3) [OF assms] by (simp add: group_line_def split: if_splits)

lemma sgrp_line_idem:
  assumes "sgrp_line g = Some g'"
  shows "sgrp_line g' = Some g'"
  using assms unfolding line_simps(4) [OF assms] by (simp add: sgrp_line_def split: if_splits)

lemma line_keys:
  "passwd_line p = Some p' \<Longrightarrow> pw_uid p' = pw_uid p \<and> pw_name p' = pw_name p \<and> pw_gid p' = pw_gid p"
  "spwd_line s = Some s' \<Longrightarrow> sp_namp s' = sp_namp s"
  "group_line g = Some g' \<Longrightarrow> gr_gid g' = gr_gid g \<and> gr_name g' = gr_name g"
  "sgrp_line t = Some t' \<Longrightarrow> sg_namp t' = sg_namp t"
  by (auto dest: line_simps)

lemma entries_map_lines:
  "pw_entries (map PwLine l1) = l1" "sp_entries (map SpLine l2) = l2"
  "gr_entries (map GrLine l3) = l3" "sg_entries (map SgLine l4) = l4"
  by (induction l1, simp_all) (induction l2, simp_all, induction l3, simp_all, induction l4, simp_all)

text \<open>The four databases are such files.\<close>

interpretation pw_file: entry_file pw_entries PwLine passwd_line
  by unfold_locales (simp_all add: entries_map_lines passwd_line_idem)

interpretation sp_file: entry_file sp_entries SpLine spwd_line
  by unfold_locales (simp_all add: entries_map_lines spwd_line_idem)

interpretation gr_file: entry_file gr_entries GrLine group_line
  by unfold_locales (simp_all add: entries_map_lines group_line_idem)

interpretation sg_file: entry_file sg_entries SgLine sgrp_line
  by unfold_locales (simp_all add: entries_map_lines sgrp_line_idem)

definition passwd_db :: "ctx \<Rightarrow> world \<Rightarrow> passwd list" where
  "passwd_db C w = db_entries pw_entries (passwd_path C) w"

definition shadow_db :: "ctx \<Rightarrow> world \<Rightarrow> spwd list" where
  "shadow_db C w = db_entries sp_entries (shadow_path C) w"

definition group_db :: "ctx \<Rightarrow> world \<Rightarrow> group_t list" where
  "group_db C w = db_entries gr_entries (group_path C) w"

definition gshadow_db :: "ctx \<Rightarrow> world \<Rightarrow> sgrp list" where
  "gshadow_db C w = db_entries sg_entries (gshadow_path C) w"

lemma db_cong:
  "files w' (passwd_path C) = files w (passwd_path C) \<Longrightarrow> passwd_db C w' = passwd_db C w"
  "files w' (shadow_path C) = files w (shadow_path C) \<Longrightarrow> shadow_db C w' = shadow_db C w"
  "files w' (group_path C) = files w (group_path C) \<Longrightarrow> group_db C w' = group_db C w"
  "files w' (gshadow_path C) = files w (gshadow_path C) \<Longrightarrow> gshadow_db C w' = gshadow_db C w"
  by (simp_all add: passwd_db_def shadow_db_def group_db_def gshadow_db_def db_entries_def)

section \<open>Steps of the handlers\<close>

text \<open>The check of a name with the error it sets.\<close>

definition check_valid :: "GumError + unit \<Rightarrow> bool wm" where
  "check_valid r = (case r of Inl e \<Rightarrow> fail_with e | Inr _ \<Rightarrow> ret True)"

text \<open>The two ways out of a handler that holds the lock.\<close>

definition unlock_ret :: "ctx \<Rightarrow> 'a \<Rightarrow> 'a wm" where
  "unlock_ret C x = do { gum_lock_pwdf_unlock C; ret x }"

definition unlock_fail :: "ctx \<Rightarrow> GumError \<Rightarrow> 'a \<Rightarrow> (bool \<times> 'a) wm" where
  "unlock_fail C e self = do { gum_lock_pwdf_unlock C; set_error e; ret (False, self) }"

text \<open>\<open>g_file_test (file, EXISTS) && !gum_file_update (...)\<close>, negated.\<close>

definition update_if_exists :: "ctx \<Rightarrow> update_cb \<Rightarrow> pstr \<Rightarrow> bool wm" where
  "update_if_exists C cb shadow_file = do {
     ex \<leftarrow> file_test_exists shadow_file;
     if ex then gum_file_update C (Some cb) shadow_file else ret True }"

section \<open>The steps give back the lock\<close>

abbreviation keeps_lock :: "'a wm \<Rightarrow> bool" where
  "keeps_lock m \<equiv> balanced lock_ok lock_count m"

abbreviation gives_lock :: "'a wm \<Rightarrow> bool" where
  "gives_lock m \<equiv> releases lock_ok lock_count m"

definition lock_of :: "world \<Rightarrow> int \<times> bool" where
  "lock_of w = (lock_count w, pwdf_held w)"

lemma lock_of_indep: "file_indep lock_of" "script_indep lock_of"
  by (simp_all add: file_indep_def script_indep_def lock_of_def)

lemma lock_of_simps [simp]:
  "lock_of (w\<lparr>tick := n\<rparr>) = lock_of w" "lock_of (w\<lparr>gerror := e\<rparr>) = lock_of w"
  by (simp_all add: lock_of_def)

lemma keeps_lock_frame: "frame lock_of m \<Longrightarrow> keeps_lock m"
  unfolding lock_of_def by (rule frame_lock_ok)

lemma keeps_lock_basic [lock_rules]:
  "keeps_lock (gets f)" "keeps_lock (sys C c)" "keeps_lock (set_error e)" "keeps_lock (fail_with e)"
  "keeps_lock (open_file_r C fn)" "keeps_lock (gum_crypt_encrypt_secret C p a)"
  "keeps_lock (file_test_exists fn)" "keeps_lock (put_line C path l)"
  "keeps_lock (gum_file_open_db_files C src dup)" "keeps_lock (gum_file_close_db_files C src dup d)"
  "keeps_lock (g_unlink C path)"
  "keeps_lock (gum_utils_run_group_scripts C sd n gd u)"
  "keeps_lock (gum_utils_run_user_scripts C sd n u gd h t)"
  unfolding file_test_exists_def
  by (intro keeps_lock_frame frame_rules file_frames frame_scripts lock_of_indep lock_of_simps)+

lemma keeps_lock_no_error [lock_rules]: "keeps_lock m \<Longrightarrow> keeps_lock (no_error m)"
  by (auto simp: balanced_def wp_def no_error_def case_prod_beta lock_ok_def)

lemma keeps_lock_all_ok [lock_rules]: "(\<And>x. keeps_lock (f x)) \<Longrightarrow> keeps_lock (all_ok f xs)"
  by (induction xs) (auto simp: and_then_def intro!: lock_rules)

lemma keeps_lock_lookups [lock_rules]:
  "keeps_lock (gum_file_getpwnam C n f)" "keeps_lock (gum_file_getpwuid C u f)"
  "keeps_lock (gum_file_find_user_by_gid C g f)" "keeps_lock (gum_file_getspnam C n f)"
  "keeps_lock (gum_file_getgrnam C n f)" "keeps_lock (gum_file_getgrgid C g f)"
  "keeps_lock (gum_file_getsgnam C n f)"
  unfolding gum_file_getpwnam_def gum_file_getpwuid_def gum_file_find_user_by_gid_def
    gum_file_getspnam_def gum_file_getgrnam_def gum_file_getgrgid_def gum_file_getsgnam_def
  by (intro lock_rules)+

lemma keeps_lock_file_update [lock_rules]:
  "(\<And>ls path. keeps_lock (cb ls path)) \<Longrightarrow> keeps_lock (gum_file_update C (Some cb) src)"
  unfolding gum_file_update_def option.case by (intro lock_rules)

lemma keeps_lock_entries [lock_rules]:
  "(\<And>e. keeps_lock (put e)) \<Longrightarrow> keeps_lock (update_entries put body op new es)"
proof -
  assume p: "\<And>e. keeps_lock (put e)"
  have "keeps_lock (entry_loop put body es dn)" for dn
    by (induction es arbitrary: dn) (auto intro!: lock_rules p split: action.split)
  then show ?thesis unfolding update_entries_def by (intro lock_rules p)
qed

lemma keeps_lock_steps [lock_rules]:
  "keeps_lock (check_valid r)"
  "(\<And>ls path. keeps_lock (cb ls path)) \<Longrightarrow> keeps_lock (update_if_exists C cb f)"
proof -
  show "keeps_lock (check_valid r)"
    unfolding check_valid_def by (cases r) (auto intro!: lock_rules)
  show "(\<And>ls path. keeps_lock (cb ls path)) \<Longrightarrow> keeps_lock (update_if_exists C cb f)"
    unfolding update_if_exists_def by (intro lock_rules)
qed

lemma gives_lock_exits [lock_rules]:
  "gives_lock (unlock_ret C x)" "gives_lock (unlock_fail C e self)"
  unfolding unlock_ret_def unlock_fail_def by (intro lock_rules)+

section \<open>The search for a free id\<close>

definition all_ids :: nat where "all_ids = 2 ^ 32"

text \<open>
  A lookup of an id and the loop over a range with it: what the loop finds, for ranges that
  do not reach the last id. The user object searches the same way.
\<close>

locale id_search =
  fixes C :: ctx and lookup :: "32 word \<Rightarrow> 'e option wm"
    and loop :: "nat \<Rightarrow> 32 word \<Rightarrow> 32 word \<Rightarrow> 32 word option wm"
    and used :: "world \<Rightarrow> 32 word set"
  assumes loop_eq: "loop fuel t m = (if fuel = 0 \<or> \<not> t \<le> m then ret None
      else do { g \<leftarrow> lookup t; if g = None then ret (Some t) else loop (fuel - 1) (t + 1) m })"
    and lookup: "reads_ok C \<Longrightarrow>
      wp (lookup t) (\<lambda>r w'. (\<exists>n. w' = w\<lparr>tick := n\<rparr>) \<and> (r = None \<longleftrightarrow> t \<notin> used w)) w"
    and used_tick: "used (w\<lparr>tick := n\<rparr>) = used w"
begin

definition found :: "32 word \<Rightarrow> 32 word \<Rightarrow> world \<Rightarrow> 32 word option \<Rightarrow> world \<Rightarrow> bool" where
  "found t m w r w' \<longleftrightarrow> (\<exists>n. w' = w\<lparr>tick := n\<rparr>) \<and>
     (case r of None \<Rightarrow> \<forall>i. t \<le> i \<and> i \<le> m \<longrightarrow> i \<in> used w
      | Some g \<Rightarrow> t \<le> g \<and> g \<le> m \<and> g \<notin> used w \<and> (\<forall>i. t \<le> i \<and> i < g \<longrightarrow> i \<in> used w))"

lemma loop_finds:
  assumes "reads_ok C" and "m < 0xFFFFFFFF"
  shows "unat m + 1 \<le> unat t + fuel \<Longrightarrow> wp (loop fuel t m) (found t m w) w"
proof (induction fuel arbitrary: t w)
  case 0
  then have "\<not> t \<le> m" by (simp add: word_le_nat_alt)
  then have "\<not> (t \<le> i \<and> i \<le> m)" for i using order_trans by blast
  then show ?case unfolding loop_eq [of 0]
    by (auto intro!: wp_return simp: found_def intro: exI [of _ "tick w"])
next
  case (Suc fuel)
  show ?case
  proof (cases "t \<le> m")
    case False
    then have "\<not> (t \<le> i \<and> i \<le> m)" for i using order_trans by blast
    with False show ?thesis unfolding loop_eq [of "Suc fuel"]
      by (auto intro!: wp_return simp: found_def intro: exI [of _ "tick w"])
  next
    case True
    have "t < 0xFFFFFFFF" using True assms(2) by (rule order_le_less_trans)
    then have t1: "unat (t + 1) = unat t + 1"
      by (simp add: word_less_nat_alt unat_word_ariths(1))
    have nxt: "t + 1 \<le> i \<longleftrightarrow> t \<le> i \<and> i \<noteq> t" for i
      unfolding word_le_nat_alt t1 word_unat_eq_iff by auto
    have eq: "loop (Suc fuel) t m =
        do { g \<leftarrow> lookup t; if g = None then ret (Some t) else loop fuel (t + 1) m }"
      unfolding loop_eq [of "Suc fuel"] diff_Suc_1 using True by simp
    show ?thesis
      unfolding eq
    proof (rule wp_step [OF lookup [OF assms(1)]], rule wp_if)
      fix r :: "'e option" and w1
      assume w1: "(\<exists>n. w1 = w\<lparr>tick := n\<rparr>) \<and> (r = None \<longleftrightarrow> t \<notin> used w)"
      show "wp (ret (Some t)) (found t m w) w1" if "r = None"
        using w1 that True by (auto intro!: wp_return simp: found_def)
      show "wp (loop fuel (t + 1) m) (found t m w) w1" if "r \<noteq> None"
      proof (rule wp_mono [OF Suc.IH])
        show "unat m + 1 \<le> unat (t + 1) + fuel" using Suc.prems t1 by simp
        fix r' w2 assume "found (t + 1) m w1 r' w2"
        then show "found t m w r' w2"
          using w1 that by (auto simp: found_def nxt used_tick split: option.splits)
      qed
    qed
  qed
qed

end

text \<open>The ids of the entries of a file named in the configuration.\<close>

definition used_ids :: "(line list \<Rightarrow> 'e list) \<Rightarrow> ('e \<Rightarrow> 32 word) \<Rightarrow> pstr \<Rightarrow> world \<Rightarrow> 32 word set" where
  "used_ids ents key path w =
     (case path of None \<Rightarrow> {} | Some p \<Rightarrow> key ` set (db_entries ents p w))"

lemma used_ids_tick [simp]: "used_ids ents key path (w\<lparr>tick := n\<rparr>) = used_ids ents key path w"
  by (simp add: used_ids_def db_entries_def split: option.split)

lemma find_None_used:
  "List.find (\<lambda>e. key e = t) es = None \<longleftrightarrow> t \<notin> key ` set es"
  by (auto simp: find_None_iff_all)

lemma getgrgid_used:
  "reads_ok C \<Longrightarrow> wp (gum_file_getgrgid C t path)
     (\<lambda>r w'. (\<exists>n. w' = w\<lparr>tick := n\<rparr>) \<and> (r = None \<longleftrightarrow> t \<notin> used_ids gr_entries gr_gid path w)) w"
proof (cases path)
  case None
  then show ?thesis by (auto intro!: wp_return exI [of _ "tick w"]
      simp: gum_file_getgrgid_def used_ids_def)
next
  case (Some p)
  assume "reads_ok C"
  with Some show ?thesis
    by (auto intro!: wp_mono [OF lookups(5)] simp: looked_up_def used_ids_def simp flip: find_None_used)
qed

lemma getpwuid_used:
  "reads_ok C \<Longrightarrow> wp (gum_file_getpwuid C t path)
     (\<lambda>r w'. (\<exists>n. w' = w\<lparr>tick := n\<rparr>) \<and> (r = None \<longleftrightarrow> t \<notin> used_ids pw_entries pw_uid path w)) w"
proof (cases path)
  case None
  then show ?thesis by (auto intro!: wp_return exI [of _ "tick w"]
      simp: gum_file_getpwuid_def used_ids_def)
next
  case (Some p)
  assume "reads_ok C"
  with Some show ?thesis
    by (auto intro!: wp_mono [OF lookups(2)] simp: looked_up_def used_ids_def simp flip: find_None_used)
qed

section \<open>What leaves the databases alone\<close>

definition db_indep :: "(world \<Rightarrow> 'a) \<Rightarrow> bool" where
  "db_indep g \<longleftrightarrow>
     (\<forall>w x. g (w\<lparr>tick := x\<rparr>) = g w) \<and> (\<forall>w x. g (w\<lparr>gerror := x\<rparr>) = g w) \<and>
     (\<forall>w x. g (w\<lparr>euid := x\<rparr>) = g w) \<and> (\<forall>w x. g (w\<lparr>lock_count := x\<rparr>) = g w) \<and>
     (\<forall>w x. g (w\<lparr>pwdf_held := x\<rparr>) = g w) \<and> (\<forall>w x. g (w\<lparr>events := x\<rparr>) = g w)"

lemma db_indepD:
  assumes "db_indep g"
  shows "g (w\<lparr>tick := x\<rparr>) = g w" "g (w\<lparr>gerror := e\<rparr>) = g w" "g (w\<lparr>euid := u\<rparr>) = g w"
    "g (w\<lparr>lock_count := n\<rparr>) = g w" "g (w\<lparr>pwdf_held := b\<rparr>) = g w" "g (w\<lparr>events := ev\<rparr>) = g w"
  using assms by (simp_all add: db_indep_def)

lemma frame_db:
  assumes "db_indep g"
  shows "frame g (gum_lock_pwdf_lock C)" "frame g (gum_lock_pwdf_unlock C)"
    "frame g (unlock_ret C x)" "frame g (unlock_fail C e self)" "frame g (set_error e)"
    "frame g (fail_with e)" "frame g (check_valid r)"
    "frame g (gum_utils_run_group_scripts C sd n gd u)"
    "frame g (gum_utils_run_user_scripts C sd n u gd h t)"
    "frame g (gum_crypt_encrypt_secret C sec alg)"
    "frame g (gum_file_getpwuid C u fn)" "frame g (gum_file_getpwnam C nm fn)"
    "frame g (gum_file_getspnam C nm fn)" "frame g (gum_file_getgrnam C nm fn)"
    "frame g (gum_file_getsgnam C nm fn)" "frame g (gum_file_getgrgid C gd fn)"
    "frame g (gum_file_find_user_by_gid C gd fn)"
proof -
  note g = db_indepD [OF assms]
  have s: "script_indep g" by (simp add: script_indep_def g)
  show lock: "frame g (gum_lock_pwdf_lock C)" and unlock: "frame g (gum_lock_pwdf_unlock C)"
    unfolding gum_lock_pwdf_lock_def gum_lock_pwdf_unlock_def lckpwdf_def ulckpwdf_def
      gum_utils_gain_privileges_def gum_utils_drop_privileges_def seteuid_def
    by (intro frame_rules g)+
  show "frame g (unlock_ret C x)" "frame g (unlock_fail C e self)"
    unfolding unlock_ret_def unlock_fail_def by (intro frame_rules unlock g)+
  show "frame g (set_error e)" "frame g (fail_with e)" by (intro frame_rules g)+
  show "frame g (check_valid r)"
    unfolding check_valid_def by (cases r) (auto intro!: frame_rules g)
  show "frame g (gum_utils_run_group_scripts C sd n gd u)"
    "frame g (gum_utils_run_user_scripts C sd n u gd h t)"
    by (rule frame_scripts [OF s])+
  show "frame g (gum_crypt_encrypt_secret C sec alg)" by (intro frame_rules g)
  show "frame g (gum_file_getpwuid C u fn)" "frame g (gum_file_getpwnam C nm fn)"
    "frame g (gum_file_getspnam C nm fn)" "frame g (gum_file_getgrnam C nm fn)"
    "frame g (gum_file_getsgnam C nm fn)" "frame g (gum_file_getgrgid C gd fn)"
    "frame g (gum_file_find_user_by_gid C gd fn)"
    unfolding gum_file_getpwuid_def gum_file_getpwnam_def gum_file_getspnam_def gum_file_getgrnam_def
      gum_file_getsgnam_def gum_file_getgrgid_def gum_file_find_user_by_gid_def file_test_exists_def
    by (intro frame_rules g)+
qed

lemma db_indep_files [simp]: "db_indep files"
  by (simp add: db_indep_def)

lemmas files_kept = frame_db [OF db_indep_files, THEN frame_wp]

lemma wp_unlock_ret:
  "(\<And>w'. files w' = files w \<Longrightarrow> Q x w') \<Longrightarrow> wp (unlock_ret C x) Q w"
  unfolding unlock_ret_def by (intro wp_bind files_kept wp_return) simp

lemma wp_unlock_fail:
  "(\<And>w'. files w' = files w \<Longrightarrow> Q (False, self) w') \<Longrightarrow> wp (unlock_fail C e self) Q w"
  unfolding unlock_fail_def by (intro wp_bind files_kept wp_return wp_set_error) simp

lemmas files_rules = wp_unlock_ret wp_unlock_fail files_kept

text \<open>The id a new object gets: the preferred one if it is free, else the first free of the range.\<close>

definition chosen_id :: "32 word \<times> 32 word \<Rightarrow> 32 word \<Rightarrow> 32 word set \<Rightarrow> 32 word \<Rightarrow> bool" where
  "chosen_id rg pref used i \<longleftrightarrow>
     i \<notin> used \<and>
     (if pref \<noteq> 0xFFFFFFFF \<and> pref \<notin> used then i = pref
      else fst rg \<le> i \<and> i \<le> snd rg \<and> (\<forall>k. fst rg \<le> k \<and> k < i \<longrightarrow> k \<in> used))"

text \<open>Which databases a handler has changed.\<close>

definition files_eq_on :: "string set \<Rightarrow> world \<Rightarrow> world \<Rightarrow> bool" where
  "files_eq_on ps w w' \<longleftrightarrow> (\<forall>p\<in>ps. files w' p = files w p)"

section \<open>Errors\<close>

text \<open>An error once reported stays reported.\<close>

definition has_error :: "world \<Rightarrow> bool" where
  "has_error w \<longleftrightarrow> gerror w \<noteq> None"

abbreviation keeps_error :: "'a wm \<Rightarrow> bool" where
  "keeps_error m \<equiv> balanced has_error (\<lambda>_. 0) m"

lemma keeps_error_basic [lock_rules]:
  "keeps_error (gets f)" "keeps_error (sys C c)" "keeps_error (set_error e)" "keeps_error (fail_with e)"
  by (auto simp: balanced_def has_error_def sys_def wp_def set_error_def fail_with_def)

lemma keeps_error_modify:
  "(\<And>w. gerror (f w) = gerror w) \<Longrightarrow> keeps_error (modify f)"
  by (auto simp: balanced_def has_error_def wp_def)

lemma keeps_error_steps [lock_rules]:
  "keeps_error (put_line C path l)" "keeps_error (open_file_r C fn)" "keeps_error (open_file_w C fn)"
  "keeps_error (lsetxattr C path n v)" "keeps_error (copy_xattrs C path xs)"
  "keeps_error (chmod C path m)" "keeps_error (chown C path u g)" "keeps_error (stat_file C path)"
  "keeps_error (g_unlink C path)" "keeps_error (link_file C old new)" "keeps_error (g_rename C old new)"
proof -
  show lset: "keeps_error (lsetxattr C path n v)" for path n v
    unfolding lsetxattr_def update_inode_def by (intro lock_rules keeps_error_modify) simp
  show "keeps_error (copy_xattrs C path xs)"
    by (induction xs) (auto intro!: lock_rules lset)
qed (unfold put_line_def append_line_def open_file_r_def open_file_w_def chmod_def chown_def
    stat_file_def g_unlink_def link_file_def g_rename_def update_inode_def,
    (intro lock_rules keeps_error_modify; simp)+)

lemma keeps_error_files [lock_rules]:
  "keeps_error (gum_file_open_db_files C src dup)" "keeps_error (gum_file_close_db_files C src dup d)"
  unfolding gum_file_open_db_files_def gum_file_close_db_files_def prepare_dup_def unlink_opt_def
    copy_file_attributes_def set_smack64_attr_def sync_file_def and_then_def
  by (auto intro!: lock_rules split: option.split)

lemma keeps_error_all_ok [lock_rules]: "(\<And>x. keeps_error (f x)) \<Longrightarrow> keeps_error (all_ok f xs)"
  by (induction xs) (auto simp: and_then_def intro!: lock_rules)

lemma wp_unlock_err:
  "(\<And>w'. files w' = files w \<Longrightarrow> gerror w' = gerror w \<Longrightarrow> Q x w') \<Longrightarrow> wp (unlock_ret C x) Q w"
  unfolding unlock_ret_def gum_lock_pwdf_unlock_def ulckpwdf_def gum_utils_drop_privileges_def seteuid_def
  by (intro wp_rules) auto

end
