(* ===== verification/Gumd_Group.thy ===== *)
theory Gumd_Group
  imports Gumd_Db
begin

text \<open>
  \<^verbatim>\<open>src/daemon/core/gumd-daemon-group.c\<close>: the group object of the daemon, its
  two update callbacks, the choice of a group id, and the operations that add, delete and
  change groups and their members. An object is a value threaded through the operations;
  a handler returns whether it succeeded and the object as it leaves it. The configuration
  of an object is the singleton of the context.
\<close>

section \<open>The object\<close>

record daemon_group =
  gd_type :: GumGroupType
  gd_group :: group_t
  gd_gshadow :: sgrp

definition gumd_daemon_group_init :: daemon_group where
  "gumd_daemon_group_init =
     \<lparr>gd_type = GUM_GROUPTYPE_NONE,
      gd_group = \<lparr>gr_name = None, gr_passwd = None, gr_gid = 0xFFFFFFFF, gr_mem = None\<rparr>,
      gd_gshadow = \<lparr>sg_namp = None, sg_passwd = None, sg_adm = None, sg_mem = None\<rparr>\<rparr>"

abbreviation map_group :: "(group_t \<Rightarrow> group_t) \<Rightarrow> daemon_group \<Rightarrow> daemon_group" where
  "map_group f self \<equiv> self\<lparr>gd_group := f (gd_group self)\<rparr>"

abbreviation map_gshadow :: "(sgrp \<Rightarrow> sgrp) \<Rightarrow> daemon_group \<Rightarrow> daemon_group" where
  "map_gshadow f self \<equiv> self\<lparr>gd_gshadow := f (gd_gshadow self)\<rparr>"

definition set_gid_property :: "daemon_group \<Rightarrow> gid_t \<Rightarrow> daemon_group" where
  "set_gid_property self val =
     (if gr_gid (gd_group self) \<noteq> val then map_group (\<lambda>g. g\<lparr>gr_gid := val\<rparr>) self else self)"

definition set_grouptype_property :: "daemon_group \<Rightarrow> GumGroupType \<Rightarrow> daemon_group" where
  "set_grouptype_property self val =
     (if gd_type self \<noteq> val then self\<lparr>gd_type := val\<rparr> else self)"

definition set_groupname_property :: "daemon_group \<Rightarrow> pstr \<Rightarrow> daemon_group" where
  "set_groupname_property self val =
     (if val \<noteq> gr_name (gd_group self) \<and> valid (gum_validate_name val)
      then map_group (\<lambda>g. g\<lparr>gr_name := val\<rparr>) self else self)"

definition set_secret_property :: "daemon_group \<Rightarrow> pstr \<Rightarrow> daemon_group" where
  "set_secret_property self val =
     (if val \<noteq> gr_passwd (gd_group self) \<and> valid (gum_validate_db_secret_entry val)
      then map_group (\<lambda>g. g\<lparr>gr_passwd := val\<rparr>) self else self)"

text \<open>The properties that can be read, and writing one by its id.\<close>

datatype group_prop =
    PROP_GROUPTYPE GumGroupType
  | PROP_GID gid_t
  | PROP_GROUPNAME pstr
  | PROP_SECRET pstr

definition group_set_property :: "daemon_group \<Rightarrow> group_prop \<Rightarrow> daemon_group" where
  "group_set_property self p =
     (case p of
        PROP_GID v \<Rightarrow> set_gid_property self v
      | PROP_GROUPTYPE v \<Rightarrow> set_grouptype_property self v
      | PROP_GROUPNAME v \<Rightarrow> set_groupname_property self v
      | PROP_SECRET v \<Rightarrow> set_secret_property self v)"

definition group_get_members :: "env \<Rightarrow> daemon_group \<Rightarrow> pstr" where
  "group_get_members E self =
     (case gr_mem (gd_group self) of None \<Rightarrow> None | Some ms \<Rightarrow> Some (g_strjoinv E '','' ms))"

section \<open>Choosing a group id\<close>

definition get_default_gid_range :: "ctx \<Rightarrow> daemon_group \<Rightarrow> gid_t \<times> gid_t" where
  "get_default_gid_range C self =
     ((if gd_type self = GUM_GROUPTYPE_SYSTEM
       then gum_config_get_uint (glob_config C) GUM_CONFIG_GENERAL_SYS_GID_MIN 0xFFFFFFFF
       else gum_config_get_uint (glob_config C) GUM_CONFIG_GENERAL_GID_MIN 0xFFFFFFFF),
      (if gd_type self = GUM_GROUPTYPE_SYSTEM
       then gum_config_get_uint (glob_config C) GUM_CONFIG_GENERAL_SYS_GID_MAX 0xFFFFFFFF
       else gum_config_get_uint (glob_config C) GUM_CONFIG_GENERAL_GID_MAX 0xFFFFFFFF))"

text \<open>
  The loop over the range. The increment wraps, so the loop need not end when the range
  reaches the last id; it is given one step per id there is.
\<close>

function find_gid_loop :: "ctx \<Rightarrow> nat \<Rightarrow> gid_t \<Rightarrow> gid_t \<Rightarrow> gid_t option wm" where
  "find_gid_loop C fuel tmp_gid gid_max =
     (if fuel = 0 \<or> \<not> tmp_gid \<le> gid_max then ret None
      else do {
        g \<leftarrow> gum_file_getgrgid C tmp_gid (cfg C GUM_CONFIG_GENERAL_GROUP_FILE);
        if g = None then ret (Some tmp_gid)
        else find_gid_loop C (fuel - 1) (tmp_gid + 1) gid_max })"
  by pat_completeness auto
termination by (relation "measure (\<lambda>(C, fuel, t, m). fuel)") auto

declare find_gid_loop.simps [simp del]

definition find_free_gid :: "ctx \<Rightarrow> daemon_group \<Rightarrow> gid_t \<Rightarrow> gid_t option wm" where
  "find_free_gid C self preferred_gid = do {
     free \<leftarrow> (if preferred_gid \<noteq> GUM_GROUP_INVALID_GID
               then do { g \<leftarrow> gum_file_getgrgid C preferred_gid (cfg C GUM_CONFIG_GENERAL_GROUP_FILE);
                         ret (g = None) }
               else ret False);
     if free then ret (Some preferred_gid)
     else do {
       let (gid_min, gid_max) = get_default_gid_range C self;
       if \<not> gid_min < gid_max then ret None
       else find_gid_loop C all_ids gid_min gid_max } }"

definition set_gid :: "ctx \<Rightarrow> daemon_group \<Rightarrow> gid_t \<Rightarrow> (bool \<times> daemon_group) wm" where
  "set_gid C self preferred_gid = do {
     ok \<leftarrow> check_valid (gum_validate_name (gr_name (gd_group self)));
     if \<not> ok then ret (False, self)
     else do {
       g \<leftarrow> gum_file_getgrnam C (gr_name (gd_group self)) (cfg C GUM_CONFIG_GENERAL_GROUP_FILE);
       if g \<noteq> None then do { set_error GUM_ERROR_GROUP_ALREADY_EXISTS; ret (False, self) }
       else do {
         r \<leftarrow> find_free_gid C self preferred_gid;
         case r of
           None \<Rightarrow> do { set_error GUM_ERROR_GROUP_GID_NOT_AVAILABLE; ret (False, self) }
         | Some gid \<Rightarrow> ret (True, set_gid_property self gid) } } }"

section \<open>The update callbacks\<close>

text \<open>The \<open>switch (op)\<close> of \<open>_update_daemon_group_entry\<close> for one entry.\<close>

definition group_switch ::
    "GumOpType \<Rightarrow> group_t \<Rightarrow> pstr \<Rightarrow> group_t \<Rightarrow> bool \<Rightarrow> group_t action" where
  "group_switch op g user_data entry dn =
     (if \<not> dn then
        (case op of
           GUM_OPTYPE_ADD \<Rightarrow>
             if gr_gid g < gr_gid entry then Write [g, entry] True else Write [entry] dn
         | GUM_OPTYPE_DELETE \<Rightarrow>
             if gr_gid g = gr_gid entry \<and> gr_name g = gr_name entry then Write [] True
             else Write [entry] dn
         | GUM_OPTYPE_MODIFY \<Rightarrow>
             (let old_name = (if user_data \<noteq> None then user_data else gr_name g)
              in if gr_gid g = gr_gid entry \<and> old_name = gr_name entry then Write [g] True
                 else Write [entry] dn))
      else Write [entry] dn)"

definition update_daemon_group_entry :: "ctx \<Rightarrow> daemon_group \<Rightarrow> GumOpType \<Rightarrow> pstr \<Rightarrow> update_cb" where
  "update_daemon_group_entry C self op user_data source_file dup_file =
     update_entries (\<lambda>e. putgrent C e dup_file) (group_switch op (gd_group self) user_data) op
       (gd_group self) (gr_entries source_file)"

definition gshadow_switch ::
    "GumOpType \<Rightarrow> sgrp \<Rightarrow> pstr \<Rightarrow> sgrp \<Rightarrow> bool \<Rightarrow> sgrp action" where
  "gshadow_switch op g user_data entry dn =
     (if \<not> dn then
        (case op of
           GUM_OPTYPE_ADD \<Rightarrow>
             if sg_namp g = sg_namp entry then Fail GUM_ERROR_GROUP_ALREADY_EXISTS
             else Write [entry] dn
         | GUM_OPTYPE_DELETE \<Rightarrow>
             if sg_namp g = sg_namp entry then Write [] True else Write [entry] dn
         | GUM_OPTYPE_MODIFY \<Rightarrow>
             (let old_name = (if user_data \<noteq> None then user_data else sg_namp g)
              in if old_name = sg_namp entry then Write [g] True else Write [entry] dn))
      else Write [entry] dn)"

definition update_gshadow_entry :: "ctx \<Rightarrow> daemon_group \<Rightarrow> GumOpType \<Rightarrow> pstr \<Rightarrow> update_cb" where
  "update_gshadow_entry C self op user_data source_file dup_file =
     update_entries (\<lambda>e. putsgent C e dup_file) (gshadow_switch op (gd_gshadow self) user_data) op
       (gd_gshadow self) (sg_entries source_file)"

section \<open>Secrets and copies\<close>

definition group_set_secret :: "ctx \<Rightarrow> daemon_group \<Rightarrow> (bool \<times> daemon_group) wm" where
  "group_set_secret C self0 =
     (let self = map_gshadow (\<lambda>s. s\<lparr>sg_passwd := None\<rparr>) self0
      in case gr_passwd (gd_group self) of
           None \<Rightarrow>
             ret (True,
               map_group (\<lambda>g. g\<lparr>gr_passwd := Some ''x''\<rparr>)
                 (map_gshadow (\<lambda>s. s\<lparr>sg_passwd :=
                    (if gd_type self = GUM_GROUPTYPE_SYSTEM then Some ''*'' else Some ''!'')\<rparr>) self))
         | Some pw \<Rightarrow> do {
             enc \<leftarrow> gum_crypt_encrypt_secret C pw (cfg C GUM_CONFIG_GENERAL_ENCRYPT_METHOD);
             case enc of
               None \<Rightarrow> do { set_error GUM_ERROR_GROUP_SECRET_ENCRYPT_FAILURE; ret (False, self) }
             | Some h \<Rightarrow>
                 ret (True,
                   set_secret_property
                     (map_group (\<lambda>g. g\<lparr>gr_passwd := Some []\<rparr>)
                       (map_gshadow (\<lambda>s. s\<lparr>sg_passwd := Some h\<rparr>) self)) (Some ''x'')) })"

definition set_gshadow_data :: "ctx \<Rightarrow> daemon_group \<Rightarrow> (bool \<times> daemon_group) wm" where
  "set_gshadow_data C self0 = do {
     let self = map_gshadow (\<lambda>s. s\<lparr>sg_namp := gr_name (gd_group self0)\<rparr>) self0;
     (ok, self) \<leftarrow> group_set_secret C self;
     if \<not> ok then ret (False, self)
     else ret (True, map_gshadow (\<lambda>s. s\<lparr>sg_mem := gr_mem (gd_group self)\<rparr>) self) }"

definition check_group_type :: "daemon_group \<Rightarrow> bool wm" where
  "check_group_type self =
     (if gd_type self = GUM_GROUPTYPE_SYSTEM \<or> gd_type self = GUM_GROUPTYPE_USER then ret True
      else fail_with GUM_ERROR_GROUP_INVALID_GROUP_TYPE)"

definition get_group :: "ctx \<Rightarrow> daemon_group \<Rightarrow> group_t option wm" where
  "get_group C self = do {
     let s_gid = gr_gid (gd_group self);
     let s_name = gr_name (gd_group self);
     g1 \<leftarrow> (if s_gid \<noteq> 0xFFFFFFFF
             then gum_file_getgrgid C s_gid (cfg C GUM_CONFIG_GENERAL_GROUP_FILE) else ret None);
     grp \<leftarrow> (if s_name \<noteq> None \<and> g1 = None
              then gum_file_getgrnam C s_name (cfg C GUM_CONFIG_GENERAL_GROUP_FILE) else ret g1);
     case grp of
       None \<Rightarrow> do { set_error GUM_ERROR_GROUP_NOT_FOUND; ret None }
     | Some g \<Rightarrow>
         if (s_gid \<noteq> 0xFFFFFFFF \<and> s_gid \<noteq> gr_gid g) \<or> (s_name \<noteq> None \<and> s_name \<noteq> gr_name g)
         then do { set_error GUM_ERROR_GROUP_NOT_FOUND; ret None }
         else ret (Some g) }"

definition copy_group_prop :: "group_t \<Rightarrow> daemon_group \<Rightarrow> daemon_group" where
  "copy_group_prop src dest0 =
     (let dest = set_groupname_property dest0 (gr_name src);
          dest = set_gid_property dest (gr_gid src);
          dest = set_secret_property dest (gr_passwd src)
      in map_group (\<lambda>g. g\<lparr>gr_mem := gr_mem src\<rparr>) dest)"

definition copy_group_struct :: "group_t \<Rightarrow> group_t \<Rightarrow> group_t" where
  "copy_group_struct src dest =
     dest\<lparr>gr_name := gr_name src, gr_gid := gr_gid src, gr_passwd := gr_passwd src,
          gr_mem := gr_mem src\<rparr>"

definition copy_gshadow_struct :: "sgrp option \<Rightarrow> sgrp \<Rightarrow> bool \<Rightarrow> sgrp" where
  "copy_gshadow_struct src dest copy_only_if_invalid =
     (case src of None \<Rightarrow> dest
      | Some s \<Rightarrow>
          \<lparr>sg_namp = (if \<not> copy_only_if_invalid \<or> sg_namp dest = None then sg_namp s else sg_namp dest),
           sg_passwd = (if \<not> copy_only_if_invalid \<or> sg_passwd dest = None then sg_passwd s
                        else sg_passwd dest),
           sg_adm = (if \<not> copy_only_if_invalid \<or> sg_adm dest = None then sg_adm s else sg_adm dest),
           sg_mem = (if \<not> copy_only_if_invalid \<or> sg_mem dest = None then sg_mem s else sg_mem dest)\<rparr>)"

definition copy_group_data ::
    "ctx \<Rightarrow> daemon_group \<Rightarrow> group_t option \<Rightarrow> sgrp option \<Rightarrow> (bool \<times> daemon_group) wm" where
  "copy_group_data C self gent0 sgent0 = do {
     gent \<leftarrow> (case gent0 of None \<Rightarrow> get_group C self | Some g \<Rightarrow> ret (Some g));
     case gent of None \<Rightarrow> ret (False, self)
     | Some g \<Rightarrow> do {
         sgent \<leftarrow> (case sgent0 of
             None \<Rightarrow> gum_file_getsgnam C (gr_name g) (cfg C GUM_CONFIG_GENERAL_GSHADOW_FILE)
           | Some s \<Rightarrow> ret (Some s));
         ret (True, map_gshadow (\<lambda>d. copy_gshadow_struct sgent d False) (copy_group_prop g self)) } }"

section \<open>Constructors\<close>

definition gumd_daemon_group_new :: "daemon_group" where
  "gumd_daemon_group_new = gumd_daemon_group_init"

definition gumd_daemon_group_new_by_gid :: "ctx \<Rightarrow> gid_t \<Rightarrow> daemon_group option wm" where
  "gumd_daemon_group_new_by_gid C gid = do {
     locked \<leftarrow> gum_lock_pwdf_lock C;
     if \<not> locked then ret None
     else do {
       let grp = set_gid_property gumd_daemon_group_init gid;
       (ok, grp) \<leftarrow> no_error (copy_group_data C grp None None);
       gum_lock_pwdf_unlock C;
       ret (if ok then Some grp else None) } }"

definition gumd_daemon_group_new_by_name :: "ctx \<Rightarrow> pstr \<Rightarrow> daemon_group option wm" where
  "gumd_daemon_group_new_by_name C groupname =
     (if groupname = None then ret None
      else do {
        locked \<leftarrow> gum_lock_pwdf_lock C;
        if \<not> locked then ret None
        else do {
          let grp = set_groupname_property gumd_daemon_group_init groupname;
          (ok, grp) \<leftarrow> no_error (copy_group_data C grp None None);
          gum_lock_pwdf_unlock C;
          ret (if ok then Some grp else None) } })"

section \<open>The operations\<close>

definition GROUPADD_SCRIPT_DIR :: "ctx \<Rightarrow> string" where
  "GROUPADD_SCRIPT_DIR C = sysconfdir C @ ''/gumd/groupadd.d''"

definition GROUPDEL_SCRIPT_DIR :: "ctx \<Rightarrow> string" where
  "GROUPDEL_SCRIPT_DIR C = sysconfdir C @ ''/gumd/groupdel.d''"

text \<open>On success \<open>*gid\<close> is the group id of the object returned.\<close>

definition gumd_daemon_group_add :: "ctx \<Rightarrow> daemon_group \<Rightarrow> gid_t \<Rightarrow> (bool \<times> daemon_group) wm" where
  "gumd_daemon_group_add C self preferred_gid = do {
     ok \<leftarrow> check_group_type self;
     if \<not> ok then ret (False, self)
     else do {
       locked \<leftarrow> gum_lock_pwdf_lock C;
       if \<not> locked then do { set_error GUM_ERROR_DB_ALREADY_LOCKED; ret (False, self) }
       else do {
         (ok, self) \<leftarrow> set_gid C self preferred_gid;
         if \<not> ok then unlock_ret C (False, self)
         else do {
           (ok, self) \<leftarrow> set_gshadow_data C self;
           if \<not> ok then unlock_ret C (False, self)
           else do {
             ok \<leftarrow> gum_file_update C (Some (update_daemon_group_entry C self GUM_OPTYPE_ADD None))
                    (cfg C GUM_CONFIG_GENERAL_GROUP_FILE);
             if \<not> ok then unlock_ret C (False, self)
             else do {
               ok \<leftarrow> update_if_exists C (update_gshadow_entry C self GUM_OPTYPE_ADD None)
                      (cfg C GUM_CONFIG_GENERAL_GSHADOW_FILE);
               if \<not> ok then unlock_ret C (False, self)
               else do {
                 uid \<leftarrow> gets ruid;
                 gum_utils_run_group_scripts C (GROUPADD_SCRIPT_DIR C) (gr_name (gd_group self))
                   (gr_gid (gd_group self)) uid;
                 unlock_ret C (True, self) } } } } } } }"

definition gumd_daemon_group_delete :: "ctx \<Rightarrow> daemon_group \<Rightarrow> (bool \<times> daemon_group) wm" where
  "gumd_daemon_group_delete C self = do {
     locked \<leftarrow> gum_lock_pwdf_lock C;
     if \<not> locked then do { set_error GUM_ERROR_DB_ALREADY_LOCKED; ret (False, self) }
     else if gr_gid (gd_group self) = GUM_GROUP_INVALID_GID
     then unlock_fail C GUM_ERROR_GROUP_NOT_FOUND self
     else do {
       (ok, self) \<leftarrow> copy_group_data C self None None;
       if \<not> ok then unlock_ret C (False, self)
       else if gr_gid (gd_group self) = getegid C
       then unlock_fail C GUM_ERROR_GROUP_SELF_DESTRUCTION self
       else do {
         p \<leftarrow> gum_file_find_user_by_gid C (gr_gid (gd_group self))
                (cfg C GUM_CONFIG_GENERAL_PASSWD_FILE);
         if p \<noteq> None then unlock_ret C (True, self)
         else do {
           uid \<leftarrow> gets ruid;
           gum_utils_run_group_scripts C (GROUPDEL_SCRIPT_DIR C) (gr_name (gd_group self))
             (gr_gid (gd_group self)) uid;
           ok \<leftarrow> gum_file_update C (Some (update_daemon_group_entry C self GUM_OPTYPE_DELETE None))
                  (cfg C GUM_CONFIG_GENERAL_GROUP_FILE);
           if \<not> ok then unlock_ret C (False, self)
           else do {
             ok \<leftarrow> update_if_exists C (update_gshadow_entry C self GUM_OPTYPE_DELETE None)
                    (cfg C GUM_CONFIG_GENERAL_GSHADOW_FILE);
             unlock_ret C (ok, self) } } } } }"

text \<open>The secret comparison of \<open>gumd_daemon_group_update\<close>: there is nothing to change.\<close>

definition group_no_changes :: "ctx \<Rightarrow> daemon_group \<Rightarrow> sgrp option \<Rightarrow> bool" where
  "group_no_changes C self gshadow \<longleftrightarrow>
     gr_passwd (gd_group self) = None \<or> gr_passwd (gd_group self) = Some ''x'' \<or>
     (case gshadow of None \<Rightarrow> False
      | Some s \<Rightarrow> gum_crypt_cmp_secret (c_env C) (gr_passwd (gd_group self)) (sg_passwd s) = 0)"

definition group_merge_for_update :: "daemon_group \<Rightarrow> group_t \<Rightarrow> sgrp option \<Rightarrow> daemon_group" where
  "group_merge_for_update self0 grp gshadow =
     (let self = map_gshadow (\<lambda>d. copy_gshadow_struct gshadow d True) self0;
          self = (if gr_name (gd_group self) = None then set_groupname_property self (gr_name grp)
                  else self)
      in if gr_mem (gd_group self) = None then map_group (\<lambda>g. g\<lparr>gr_mem := gr_mem grp\<rparr>) self
         else self)"

definition gumd_daemon_group_update :: "ctx \<Rightarrow> daemon_group \<Rightarrow> (bool \<times> daemon_group) wm" where
  "gumd_daemon_group_update C self = do {
     locked \<leftarrow> gum_lock_pwdf_lock C;
     if \<not> locked then do { set_error GUM_ERROR_DB_ALREADY_LOCKED; ret (False, self) }
     else if gr_gid (gd_group self) = GUM_GROUP_INVALID_GID
     then unlock_fail C GUM_ERROR_GROUP_NOT_FOUND self
     else do {
       g \<leftarrow> get_group C self;
       case g of None \<Rightarrow> unlock_ret C (False, self)
       | Some grp \<Rightarrow> do {
           gshadow \<leftarrow> gum_file_getsgnam C (gr_name grp) (cfg C GUM_CONFIG_GENERAL_GSHADOW_FILE);
           if group_no_changes C self gshadow then unlock_fail C GUM_ERROR_GROUP_NO_CHANGES self
           else do {
             (ok, self) \<leftarrow> group_set_secret C (group_merge_for_update self grp gshadow);
             if \<not> ok then unlock_ret C (False, self)
             else do {
               let old_name = gr_name grp;
               ok \<leftarrow> gum_file_update C
                      (Some (update_daemon_group_entry C self GUM_OPTYPE_MODIFY old_name))
                      (cfg C GUM_CONFIG_GENERAL_GROUP_FILE);
               if \<not> ok then unlock_ret C (False, self)
               else do {
                 ok \<leftarrow> update_if_exists C (update_gshadow_entry C self GUM_OPTYPE_MODIFY old_name)
                        (cfg C GUM_CONFIG_GENERAL_GSHADOW_FILE);
                 unlock_ret C (ok, self) } } } } } }"

definition with_member ::
    "daemon_group \<Rightarrow> string list option \<Rightarrow> daemon_group" where
  "with_member self ms =
     map_gshadow (\<lambda>s. s\<lparr>sg_mem := ms\<rparr>) (map_group (\<lambda>g. g\<lparr>gr_mem := ms\<rparr>) self)"

definition gumd_daemon_group_add_member ::
    "ctx \<Rightarrow> daemon_group \<Rightarrow> uid_t \<Rightarrow> bool \<Rightarrow> (bool \<times> daemon_group) wm" where
  "gumd_daemon_group_add_member C self uid add_as_admin = do {
     locked \<leftarrow> gum_lock_pwdf_lock C;
     if \<not> locked then do { set_error GUM_ERROR_DB_ALREADY_LOCKED; ret (False, self) }
     else do {
       p \<leftarrow> gum_file_getpwuid C uid (cfg C GUM_CONFIG_GENERAL_PASSWD_FILE);
       case p of None \<Rightarrow> unlock_fail C GUM_ERROR_USER_NOT_FOUND self
       | Some pent \<Rightarrow> do {
           g \<leftarrow> get_group C self;
           case g of None \<Rightarrow> unlock_ret C (False, self)
           | Some grp \<Rightarrow>
               if gum_string_utils_search_stringv (gr_mem grp) (pw_name pent)
               then unlock_fail C GUM_ERROR_GROUP_USER_ALREADY_A_MEMBER self
               else do {
                 let shadow_file = cfg C GUM_CONFIG_GENERAL_GSHADOW_FILE;
                 gshadow \<leftarrow> gum_file_getsgnam C (gr_name grp) shadow_file;
                 (ok, self) \<leftarrow> copy_group_data C self (Some grp) gshadow;
                 if \<not> ok then unlock_ret C (False, self)
                 else do {
                   let self = with_member self
                         (gum_string_utils_append_string (gr_mem grp) (pw_name pent));
                   let self = (case gshadow of None \<Rightarrow> self
                     | Some s \<Rightarrow>
                         if add_as_admin \<and> \<not> gum_string_utils_search_stringv (sg_adm s) (pw_name pent)
                         then map_gshadow (\<lambda>d. d\<lparr>sg_adm :=
                                gum_string_utils_append_string (sg_adm s) (pw_name pent)\<rparr>) self
                         else self);
                   ok \<leftarrow> gum_file_update C
                          (Some (update_daemon_group_entry C self GUM_OPTYPE_MODIFY None))
                          (cfg C GUM_CONFIG_GENERAL_GROUP_FILE);
                   if \<not> ok then unlock_ret C (False, self)
                   else do {
                     ok \<leftarrow> (if gshadow \<noteq> None
                            then gum_file_update C
                                   (Some (update_gshadow_entry C self GUM_OPTYPE_MODIFY None)) shadow_file
                            else ret True);
                     unlock_ret C (ok, self) } } } } } }"

definition gumd_daemon_group_delete_member ::
    "ctx \<Rightarrow> daemon_group \<Rightarrow> uid_t \<Rightarrow> (bool \<times> daemon_group) wm" where
  "gumd_daemon_group_delete_member C self uid = do {
     locked \<leftarrow> gum_lock_pwdf_lock C;
     if \<not> locked then do { set_error GUM_ERROR_DB_ALREADY_LOCKED; ret (False, self) }
     else do {
       p \<leftarrow> gum_file_getpwuid C uid (cfg C GUM_CONFIG_GENERAL_PASSWD_FILE);
       case p of None \<Rightarrow> unlock_fail C GUM_ERROR_USER_NOT_FOUND self
       | Some pent \<Rightarrow> do {
           g \<leftarrow> get_group C self;
           case g of None \<Rightarrow> unlock_ret C (False, self)
           | Some grp \<Rightarrow>
               if \<not> gum_string_utils_search_stringv (gr_mem grp) (pw_name pent)
               then unlock_fail C GUM_ERROR_USER_NOT_FOUND self
               else do {
                 gshadow \<leftarrow> gum_file_getsgnam C (gr_name grp) (cfg C GUM_CONFIG_GENERAL_GSHADOW_FILE);
                 (ok, self) \<leftarrow> copy_group_data C self (Some grp) gshadow;
                 if \<not> ok then unlock_ret C (False, self)
                 else do {
                   let self = with_member self
                         (gum_string_utils_delete_string (gr_mem grp) (pw_name pent));
                   let self = (case gshadow of None \<Rightarrow> self
                     | Some s \<Rightarrow>
                         if gum_string_utils_search_stringv (sg_adm s) (pw_name pent)
                         then map_gshadow (\<lambda>d. d\<lparr>sg_adm :=
                                gum_string_utils_delete_string (sg_adm s) (pw_name pent)\<rparr>) self
                         else self);
                   ok \<leftarrow> gum_file_update C
                          (Some (update_daemon_group_entry C self GUM_OPTYPE_MODIFY None))
                          (cfg C GUM_CONFIG_GENERAL_GROUP_FILE);
                   if \<not> ok then unlock_ret C (False, self)
                   else do {
                     ok \<leftarrow> update_if_exists C (update_gshadow_entry C self GUM_OPTYPE_MODIFY None)
                            (cfg C GUM_CONFIG_GENERAL_GSHADOW_FILE);
                     unlock_ret C (ok, self) } } } } } }"

text \<open>
  Removing a user from every group: the two passes over the files, written out in the code
  without the callback. An entry that does not name the user is copied.
\<close>

definition group_without :: "string \<Rightarrow> group_t \<Rightarrow> group_t" where
  "group_without user_name gent =
     (if gum_string_utils_search_stringv (gr_mem gent) (Some user_name)
      then (copy_group_struct gent \<lparr>gr_name = None, gr_passwd = None, gr_gid = 0, gr_mem = None\<rparr>)
             \<lparr>gr_mem := gum_string_utils_delete_string (gr_mem gent) (Some user_name)\<rparr>
      else gent)"

definition gshadow_without :: "string \<Rightarrow> sgrp \<Rightarrow> sgrp" where
  "gshadow_without user_name gsent =
     (let is_mem = gum_string_utils_search_stringv (sg_mem gsent) (Some user_name);
          is_adm = gum_string_utils_search_stringv (sg_adm gsent) (Some user_name)
      in if is_mem \<or> is_adm then
           (let gsdest = copy_gshadow_struct (Some gsent)
                  \<lparr>sg_namp = None, sg_passwd = None, sg_adm = None, sg_mem = None\<rparr> False;
                gsdest = (if is_mem then gsdest\<lparr>sg_mem :=
                    gum_string_utils_delete_string (sg_mem gsent) (Some user_name)\<rparr> else gsdest)
            in if is_adm then gsdest\<lparr>sg_adm :=
                    gum_string_utils_delete_string (sg_adm gsent) (Some user_name)\<rparr> else gsdest)
         else gsent)"

text \<open>One pass: \<open>None\<close> if the pair of files cannot be opened (\<open>goto _finished\<close>).\<close>

definition membership_pass ::
    "ctx \<Rightarrow> (line list \<Rightarrow> string \<Rightarrow> bool wm) \<Rightarrow> pstr \<Rightarrow> bool option wm" where
  "membership_pass C write source_file_path = do {
     let dup_file_path = dup_path C (case source_file_path of None \<Rightarrow> ''(null)'' | Some p \<Rightarrow> p);
     opened \<leftarrow> gum_file_open_db_files C source_file_path (Some dup_file_path);
     case opened of None \<Rightarrow> ret None
     | Some (source_file, dup_file) \<Rightarrow> do {
         ok \<leftarrow> write source_file dup_file;
         if \<not> ok then do {
           set_error GUM_ERROR_FILE_WRITE;
           g_unlink C dup_file_path;
           ret (Some False) }
         else do {
           r \<leftarrow> gum_file_close_db_files C source_file_path (Some dup_file_path) (Some dup_file);
           ret (Some r) } } }"

definition gumd_daemon_group_delete_user_membership :: "ctx \<Rightarrow> pstr \<Rightarrow> bool wm" where
  "gumd_daemon_group_delete_user_membership C user_name =
     (case user_name of
        None \<Rightarrow> fail_with GUM_ERROR_GROUP_INVALID_DATA
      | Some u \<Rightarrow> do {
          ok \<leftarrow> check_valid (gum_validate_name (Some u));
          if \<not> ok then ret False
          else do {
            locked \<leftarrow> gum_lock_pwdf_lock C;
            if \<not> locked then fail_with GUM_ERROR_DB_ALREADY_LOCKED
            else do {
              r1 \<leftarrow> membership_pass C
                (\<lambda>ls dup. all_ok (\<lambda>e. putgrent C (group_without u e) dup) (gr_entries ls))
                (cfg C GUM_CONFIG_GENERAL_GROUP_FILE);
              case r1 of None \<Rightarrow> unlock_ret C False
              | Some retval \<Rightarrow> do {
                  ex \<leftarrow> file_test_exists (cfg C GUM_CONFIG_GENERAL_GSHADOW_FILE);
                  if \<not> ex then unlock_ret C retval
                  else do {
                    r2 \<leftarrow> membership_pass C
                      (\<lambda>ls dup. all_ok (\<lambda>e. putsgent C (gshadow_without u e) dup) (sg_entries ls))
                      (cfg C GUM_CONFIG_GENERAL_GSHADOW_FILE);
                    case r2 of None \<Rightarrow> unlock_ret C False
                    | Some retval \<Rightarrow> unlock_ret C retval } } } } })"

definition gumd_daemon_group_get_gid_by_name :: "ctx \<Rightarrow> pstr \<Rightarrow> gid_t wm" where
  "gumd_daemon_group_get_gid_by_name C groupname =
     (if groupname = None then ret GUM_GROUP_INVALID_GID
      else do {
        locked \<leftarrow> gum_lock_pwdf_lock C;
        if \<not> locked then ret GUM_GROUP_INVALID_GID
        else do {
          grp \<leftarrow> gum_file_getgrnam C groupname (cfg C GUM_CONFIG_GENERAL_GROUP_FILE);
          gum_lock_pwdf_unlock C;
          ret (case grp of None \<Rightarrow> GUM_GROUP_INVALID_GID | Some g \<Rightarrow> gr_gid g) } })"

section \<open>Every operation gives back the lock\<close>

lemma keeps_lock_group_callbacks [lock_rules]:
  "keeps_lock (update_daemon_group_entry C self op ud ls path)"
  "keeps_lock (update_gshadow_entry C self op ud ls path)"
  unfolding update_daemon_group_entry_def update_gshadow_entry_def putgrent_def putsgent_def
  by (intro lock_rules)+

lemma keeps_lock_group_steps [lock_rules]:
  "keeps_lock (find_gid_loop C n t m)" "keeps_lock (find_free_gid C self g)"
  "keeps_lock (get_group C self)" "keeps_lock (group_set_secret C self)"
  "keeps_lock (set_gshadow_data C self)" "keeps_lock (set_gid C self g)"
  "keeps_lock (check_group_type self)" "keeps_lock (copy_group_data C self gent sgent)"
  "(\<And>ls path. keeps_lock (wr ls path)) \<Longrightarrow> keeps_lock (membership_pass C wr f)"
proof -
  show b: "keeps_lock (find_gid_loop C n t m)" for n t m
    by (induction C n t m rule: find_gid_loop.induct)
      (subst find_gid_loop.simps, intro lock_rules, blast+)
  show c: "keeps_lock (find_free_gid C self g)" for self g
    unfolding find_free_gid_def by (intro lock_rules b)
  show d: "keeps_lock (get_group C self)" for self
    unfolding get_group_def by (intro lock_rules)
  show e: "keeps_lock (group_set_secret C self)" for self
    unfolding group_set_secret_def by (intro lock_rules)
  show "keeps_lock (set_gshadow_data C self)"
    unfolding set_gshadow_data_def by (intro lock_rules e)
  show "keeps_lock (set_gid C self g)"
    unfolding set_gid_def by (intro lock_rules c)
  show "keeps_lock (check_group_type self)"
    unfolding check_group_type_def by (intro lock_rules)
  show "keeps_lock (copy_group_data C self gent sgent)"
    unfolding copy_group_data_def by (intro lock_rules d)
  show "(\<And>ls path. keeps_lock (wr ls path)) \<Longrightarrow> keeps_lock (membership_pass C wr f)"
    unfolding membership_pass_def by (intro lock_rules)
qed

lemma keeps_lock_group_ops [lock_rules]:
  "keeps_lock (gumd_daemon_group_new_by_gid C gid)"
  "keeps_lock (gumd_daemon_group_new_by_name C n)"
  "keeps_lock (gumd_daemon_group_add C self gid)"
  "keeps_lock (gumd_daemon_group_delete C self)"
  "keeps_lock (gumd_daemon_group_update C self)"
  "keeps_lock (gumd_daemon_group_add_member C self u a)"
  "keeps_lock (gumd_daemon_group_delete_member C self u)"
  "keeps_lock (gumd_daemon_group_delete_user_membership C n)"
  "keeps_lock (gumd_daemon_group_get_gid_by_name C n)"
  unfolding gumd_daemon_group_new_by_gid_def gumd_daemon_group_new_by_name_def
    gumd_daemon_group_add_def gumd_daemon_group_delete_def gumd_daemon_group_update_def
    gumd_daemon_group_add_member_def gumd_daemon_group_delete_member_def
    gumd_daemon_group_delete_user_membership_def gumd_daemon_group_get_gid_by_name_def
    putgrent_def putsgent_def
  by (intro lock_rules; simp)+

end
