(* ===== verification/Gum_Home.thy ===== *)
theory Gum_Home
  imports Gum_File "HOL-Library.AList"
begin

text \<open>
  The home directories of \<^verbatim>\<open>src/common/gum-file.c\<close>: \<open>gum_file_create_home_dir\<close>
  with its recursive copy of the skeleton, and \<open>gum_file_delete_home_dir\<close>. A directory is a
  tree of the world, under its path; the recursive functions are handed the node that a path
  stands for and return it as they leave it. A node that is \<open>None\<close> does not exist. What lies
  beyond a symbolic link is outside the trees: a call that follows one is an event.
\<close>

section \<open>Calls on a node\<close>

type_synonym node = "htree option"

text \<open>A step on the node at a path: whether it succeeded, and the node.\<close>

type_synonym node_wm = "(bool \<times> node) wm"

fun node_attrs :: "htree \<Rightarrow> attrs" where
  "node_attrs (HFile a c) = a"
| "node_attrs (HLink a t) = a"
| "node_attrs (HDir a es) = a"

fun with_attrs :: "(attrs \<Rightarrow> attrs) \<Rightarrow> htree \<Rightarrow> htree" where
  "with_attrs f (HFile a c) = HFile (f a) c"
| "with_attrs f (HLink a t) = HLink (f a) t"
| "with_attrs f (HDir a es) = HDir (f a) es"

fun is_hlink :: "node \<Rightarrow> bool" where
  "is_hlink (Some (HLink a t)) = True"
| "is_hlink _ = False"

text \<open>An entry of a directory, and a directory with an entry set; beyond a link, the link.\<close>

fun child :: "string \<Rightarrow> node \<Rightarrow> node" where
  "child n (Some (HDir a es)) = map_of es n"
| "child n (Some (HLink a t)) = Some (HLink a t)"
| "child n _ = None"

definition new_dir :: "ctx \<Rightarrow> 32 word \<Rightarrow> world \<Rightarrow> htree" where
  "new_dir C mode w = HDir \<lparr>i_mode = mode AND NOT (proc_umask C), i_uid = euid w, i_gid = getegid C, i_xattr = []\<rparr> []"

fun set_child :: "htree \<Rightarrow> string \<Rightarrow> node \<Rightarrow> node \<Rightarrow> node" where
  "set_child fresh n (Some c) (Some (HDir a es)) = Some (HDir a (AList.update n c es))"
| "set_child (HDir a es) n (Some c) None = Some (HDir a (AList.update n c es))"
| "set_child fresh n c d = d"

definition lsetxattr_node :: "ctx \<Rightarrow> string \<Rightarrow> string \<Rightarrow> node \<Rightarrow> node_wm" where
  "lsetxattr_node C name val d = do {
     ok \<leftarrow> sys C SysSetxattr;
     ret (case d of
            Some t \<Rightarrow> if ok then (True, Some (with_attrs (\<lambda>a. a\<lparr>i_xattr := AList.update name val (i_xattr a)\<rparr>) t))
                      else (False, d)
          | None \<Rightarrow> (False, None)) }"

definition set_smack64_node :: "ctx \<Rightarrow> string \<Rightarrow> node \<Rightarrow> node_wm" where
  "set_smack64_node C key d =
     (case gum_config_get_string (glob_config C) key of
        None \<Rightarrow> ret (True, d)
      | Some smack_label \<Rightarrow>
          if length smack_label > 0 then lsetxattr_node C XATTR_NAME_SMACK smack_label d
          else ret (True, d))"

text \<open>\<open>stat\<close>, \<open>chmod\<close> and \<open>chown\<close> follow links.\<close>

definition stat_node :: "ctx \<Rightarrow> string \<Rightarrow> node \<Rightarrow> attrs option wm" where
  "stat_node C path d = do {
     ok \<leftarrow> sys C SysStat;
     ret (if \<not> ok then None
          else case d of None \<Rightarrow> None
               | Some t \<Rightarrow> if is_hlink d then stat_target C path else Some (node_attrs t)) }"

definition chmod_node :: "ctx \<Rightarrow> string \<Rightarrow> 32 word \<Rightarrow> node \<Rightarrow> node_wm" where
  "chmod_node C path m d = do {
     ok \<leftarrow> sys C SysChmod;
     case d of
       Some t \<Rightarrow>
         if \<not> ok then ret (False, d)
         else if is_hlink d then do { log_event (EvChmodTarget path m); ret (True, d) }
         else ret (True, Some (with_attrs (\<lambda>a. a\<lparr>i_mode := m\<rparr>) t))
     | None \<Rightarrow> ret (False, None) }"

definition chown_node :: "ctx \<Rightarrow> string \<Rightarrow> uid_t \<Rightarrow> gid_t \<Rightarrow> node \<Rightarrow> node_wm" where
  "chown_node C path u g d = do {
     ok \<leftarrow> sys C SysChown;
     case d of
       Some t \<Rightarrow>
         if \<not> ok then ret (False, d)
         else if is_hlink d then do { log_event (EvChownTarget path u g); ret (True, d) }
         else ret (True, Some (with_attrs (\<lambda>a. a\<lparr>i_uid := u, i_gid := g\<rparr>) t))
     | None \<Rightarrow> ret (False, None) }"

fun copy_xattrs_node :: "ctx \<Rightarrow> (string \<times> string) list \<Rightarrow> node \<Rightarrow> node_wm" where
  "copy_xattrs_node C [] d = ret (True, d)"
| "copy_xattrs_node C ((name, val) # rest) d = do {
     ok1 \<leftarrow> sys C SysGetxattr;
     ok2 \<leftarrow> (if ok1 \<and> val \<noteq> [] then sys C SysGetxattr else ret False);
     if ok2 then do {
       (ok, d) \<leftarrow> lsetxattr_node C name val d;
       if \<not> ok then ret (False, d) else copy_xattrs_node C rest d }
     else copy_xattrs_node C rest d }"

text \<open>\<open>_copy_file_attributes\<close> with the nodes of both paths.\<close>

definition copy_attributes_node :: "ctx \<Rightarrow> string \<Rightarrow> htree \<Rightarrow> string \<Rightarrow> node \<Rightarrow> node_wm" where
  "copy_attributes_node C from src to d = do {
     st \<leftarrow> stat_node C from (Some src);
     case st of None \<Rightarrow> ret (False, d)
     | Some from_stat \<Rightarrow> do {
         (ok, d) \<leftarrow> chmod_node C to (i_mode from_stat) d;
         if \<not> ok then ret (False, d)
         else do {
           (ok, d) \<leftarrow> chown_node C to (i_uid from_stat) (i_gid from_stat) d;
           if \<not> ok then ret (False, d)
           else do {
             size_ok \<leftarrow> sys C SysListxattr;
             if size_ok \<and> i_xattr (node_attrs src) \<noteq> [] then do {
               names_ok \<leftarrow> sys C SysListxattr;
               if names_ok then copy_xattrs_node C (i_xattr (node_attrs src)) d else ret (True, d) }
             else ret (True, d) } } } }"

section \<open>Copying a directory\<close>

definition GUM_PERM :: "32 word" where
  "GUM_PERM = 0x1FF"

text \<open>
  \<open>g_mkdir_with_parents\<close> for an entry of the directory \<open>d\<close>: its failure is not looked at by
  the code. Missing parents are created.
\<close>

definition mkdir_child :: "ctx \<Rightarrow> 32 word \<Rightarrow> string \<Rightarrow> node \<Rightarrow> node wm" where
  "mkdir_child C mode name d = do {
     ok \<leftarrow> sys C SysMkdir;
     fresh \<leftarrow> gets (new_dir C mode);
     ret (if ok \<and> child name d = None then set_child fresh name (Some fresh) d else d) }"

text \<open>
  \<open>g_file_copy\<close> with \<open>OVERWRITE\<close> and \<open>NOFOLLOW_SYMLINKS\<close>: a directory is not overwritten,
  and an entry can be made in a directory only.
\<close>

definition file_copy :: "ctx \<Rightarrow> htree \<Rightarrow> string \<Rightarrow> string \<Rightarrow> node \<Rightarrow> node_wm" where
  "file_copy C src to name d = do {
     ok \<leftarrow> sys C SysCopy;
     case d of
       Some (HDir a es) \<Rightarrow>
         (case child name d of
            Some (HDir _ _) \<Rightarrow> ret (False, d)
          | _ \<Rightarrow> if ok then ret (True, set_child (HDir a []) name (Some (with_attrs (copy_attrs C) src)) d)
                 else ret (False, d))
     | Some (HLink a t) \<Rightarrow>
         if ok then do { log_event (EvBeyondLink to); ret (True, d) } else ret (False, d)
     | _ \<Rightarrow> ret (False, d) }"

text \<open>A step on the entry of a directory.\<close>

definition on_child :: "ctx \<Rightarrow> 32 word \<Rightarrow> string \<Rightarrow> (node \<Rightarrow> node_wm) \<Rightarrow> node \<Rightarrow> node_wm" where
  "on_child C mode name f d = do {
     (ok, c) \<leftarrow> f (child name d);
     fresh \<leftarrow> gets (new_dir C mode);
     ret (ok, set_child fresh name c d) }"

definition then_node :: "node_wm \<Rightarrow> (node \<Rightarrow> node_wm) \<Rightarrow> node_wm" where
  "then_node m f = do { (ok, d) \<leftarrow> m; if ok then f d else ret (False, d) }"

text \<open>
  The loop of \<open>_copy_dir_recursively\<close> over the entries of the directory \<open>src\<close>, \<open>d\<close> the node of
  \<open>dest\<close>; a subdirectory is copied by a call that reports no error.
\<close>

definition copy_opened :: "ctx \<Rightarrow> node_wm \<Rightarrow> node \<Rightarrow> node_wm" where
  "copy_opened C body d = do {
     opened \<leftarrow> sys C SysOpendir;
     if \<not> opened then do { set_error GUM_ERROR_HOME_DIR_COPY_FAILURE; ret (False, d) }
     else body }"

function copy_entries ::
    "ctx \<Rightarrow> uid_t \<Rightarrow> gid_t \<Rightarrow> 32 word \<Rightarrow> string \<Rightarrow> string \<Rightarrow> (string \<times> htree) list \<Rightarrow> node \<Rightarrow> node_wm" where
  "copy_entries C uid gid umask src dest [] d = ret (True, d)"
| "copy_entries C uid gid umask src dest ((name, entry) # rest) d =
     (let src_path = g_build_filename (c_env C) [src, name];
          dest_path = g_build_filename (c_env C) [dest, name];
          mode = GUM_PERM AND NOT umask
      in do {
        found \<leftarrow> sys C SysLstat;
        (ok, d) \<leftarrow>
          (if \<not> found then ret (False, d)
           else then_node (then_node
             (case entry of
                HDir a es \<Rightarrow> do {
                  d \<leftarrow> mkdir_child C mode name d;
                  then_node (on_child C mode name (set_smack64_node C GUM_CONFIG_GENERAL_SMACK64_USER_FILES) d)
                    (on_child C mode name (\<lambda>c. no_error (copy_opened C
                       (copy_entries C uid gid umask src_path dest_path es c) c))) }
              | _ \<Rightarrow> then_node (file_copy C entry dest_path name d)
                       (on_child C mode name (set_smack64_node C GUM_CONFIG_GENERAL_SMACK64_USER_FILES)))
             (on_child C mode name (copy_attributes_node C src_path entry dest_path)))
             (on_child C mode name (chown_node C dest_path uid gid)));
        if \<not> ok then do { set_error GUM_ERROR_HOME_DIR_COPY_FAILURE; ret (False, d) }
        else copy_entries C uid gid umask src dest rest d })"
  by pat_completeness auto
termination
  by (relation "measure (\<lambda>(C, uid, gid, umask, src, dest, es, d). size_list (size_prod (\<lambda>_. 0) size) es)") 
    auto


definition copy_dir_recursively ::
    "ctx \<Rightarrow> pstr \<Rightarrow> pstr \<Rightarrow> uid_t \<Rightarrow> gid_t \<Rightarrow> 32 word \<Rightarrow> node \<Rightarrow> node \<Rightarrow> node_wm" where
  "copy_dir_recursively C src dest uid gid umask s d =
     (case (src, dest) of
        (Some sp, Some dp) \<Rightarrow>
          (case s of
             Some (HDir a es) \<Rightarrow> copy_opened C (copy_entries C uid gid umask sp dp es d) d
           | _ \<Rightarrow> do { set_error GUM_ERROR_HOME_DIR_COPY_FAILURE; ret (False, d) })
      | _ \<Rightarrow> do { set_error GUM_ERROR_HOME_DIR_COPY_FAILURE; ret (False, d) })"

section \<open>Creating a home directory\<close>

text \<open>\<open>S_ISDIR\<close> of a mode, and \<open>g_file_test\<close> on the path of a tree.\<close>

definition S_ISDIR :: "32 word \<Rightarrow> bool" where
  "S_ISDIR m \<longleftrightarrow> m AND 0xF000 = 0x4000"

definition node_is_dir :: "ctx \<Rightarrow> string \<Rightarrow> node \<Rightarrow> bool" where
  "node_is_dir C path d =
     (case d of Some (HDir a es) \<Rightarrow> True
      | Some (HLink a t) \<Rightarrow> (case stat_target C path of None \<Rightarrow> False | Some a \<Rightarrow> S_ISDIR (i_mode a))
      | _ \<Rightarrow> False)"

definition node_exists :: "ctx \<Rightarrow> string \<Rightarrow> node \<Rightarrow> bool" where
  "node_exists C path d \<longleftrightarrow> d \<noteq> None \<and> (is_hlink d \<longrightarrow> stat_target C path \<noteq> None)"

definition on_tree :: "string \<Rightarrow> (node \<Rightarrow> node_wm) \<Rightarrow> bool wm" where
  "on_tree path f = do {
     d \<leftarrow> gets (\<lambda>w. trees w path);
     (ok, d) \<leftarrow> f d;
     modify (\<lambda>w. w\<lparr>trees := (trees w)(path := d)\<rparr>);
     ret ok }"

text \<open>\<open>g_mkdir_with_parents\<close> of the home directory; its parents are not in the tree.\<close>

definition make_home :: "ctx \<Rightarrow> string \<Rightarrow> 32 word \<Rightarrow> unit wm" where
  "make_home C path mode = do {
     ok \<leftarrow> sys C SysMkdir;
     modify (\<lambda>w. if ok \<and> trees w path = None
                  then w\<lparr>trees := (trees w)(path \<mapsto> new_dir C mode w)\<rparr> else w) }"

definition gum_file_create_home_dir ::
    "ctx \<Rightarrow> pstr \<Rightarrow> uid_t \<Rightarrow> gid_t \<Rightarrow> 32 word \<Rightarrow> bool wm" where
  "gum_file_create_home_dir C home_dir uid gid umask =
     (let mode = GUM_PERM AND NOT umask;
          skel_dir = gum_config_get_string (glob_config C) GUM_CONFIG_GENERAL_SKEL_DIR
      in case home_dir of
        None \<Rightarrow> fail_with GUM_ERROR_HOME_DIR_CREATE_FAILURE
      | Some home \<Rightarrow> do {
          ok \<leftarrow> sys C SysAccess;
          there \<leftarrow> gets (\<lambda>w. node_exists C home (trees w home));
          if ok \<and> there then ret True
          else do {
            ok \<leftarrow> sys C SysAccess;
            (if \<not> (ok \<and> there) then make_home C home mode else ret ());
            ok \<leftarrow> sys C SysStat;
            is_dir \<leftarrow> gets (\<lambda>w. node_is_dir C home (trees w home));
            if \<not> (ok \<and> is_dir) then fail_with GUM_ERROR_HOME_DIR_CREATE_FAILURE
            else do {
              ok \<leftarrow> on_tree home (set_smack64_node C GUM_CONFIG_GENERAL_SMACK64_USER_FILES);
              if \<not> ok then fail_with GUM_ERROR_FILE_ATTRIBUTE
              else do {
                skel \<leftarrow> gets (\<lambda>w. case skel_dir of None \<Rightarrow> None | Some p \<Rightarrow> trees w p);
                ok \<leftarrow> (case (skel_dir, skel) of
                    (Some sp, Some src) \<Rightarrow> on_tree home (copy_attributes_node C sp src home)
                  | _ \<Rightarrow> ret False);
                if \<not> ok then fail_with GUM_ERROR_FILE_ATTRIBUTE
                else do {
                  ok \<leftarrow> on_tree home (chown_node C home uid gid);
                  if \<not> ok then fail_with GUM_ERROR_HOME_DIR_CREATE_FAILURE
                  else on_tree home (copy_dir_recursively C skel_dir (Some home) uid gid umask skel) } } } } })"

section \<open>Deleting a home directory\<close>

text \<open>
  The loop over the entries of the directory \<open>dir\<close>, which returns those that are left. A
  subdirectory that cannot be emptied stays with what is left of it.
\<close>

definition remove_dir :: "ctx \<Rightarrow> attrs \<Rightarrow> (bool \<times> (string \<times> htree) list) wm \<Rightarrow> (string \<times> htree) list \<Rightarrow> node_wm" where
  "remove_dir C a clear es = do {
     opened \<leftarrow> sys C SysOpendir;
     if \<not> opened then do { set_error GUM_ERROR_HOME_DIR_DELETE_FAILURE; ret (False, Some (HDir a es)) }
     else do {
       (ok, es) \<leftarrow> clear;
       if \<not> ok then do { set_error GUM_ERROR_HOME_DIR_DELETE_FAILURE; ret (False, Some (HDir a es)) }
       else do {
         ok \<leftarrow> sys C SysRemove;
         if ok \<and> es = [] then ret (True, None)
         else do { set_error GUM_ERROR_HOME_DIR_DELETE_FAILURE; ret (False, Some (HDir a es)) } } } }"

function delete_entries :: "ctx \<Rightarrow> (string \<times> htree) list \<Rightarrow> (bool \<times> (string \<times> htree) list) wm" where
  "delete_entries C [] = ret (True, [])"
| "delete_entries C ((name, entry) # rest) =
     (if name = ''.'' \<or> name = ''..'' then do {
        (ok, es) \<leftarrow> delete_entries C rest; ret (ok, (name, entry) # es) }
      else do {
        found \<leftarrow> sys C SysLstat;
        (ok, left) \<leftarrow>
          (if \<not> found then ret (False, Some entry)
           else case entry of
             HDir a es \<Rightarrow> remove_dir C a (delete_entries C es) es
           | _ \<Rightarrow> do { ok \<leftarrow> sys C SysRemove; ret (ok, if ok then None else Some entry) });
        if \<not> ok then ret (False, (case left of None \<Rightarrow> rest | Some t \<Rightarrow> (name, t) # rest))
        else delete_entries C rest })"
  by pat_completeness auto
termination
  by (relation "measure (\<lambda>(C, es). size_list (size_prod (\<lambda>_. 0) size) es)") auto

text \<open>A home directory that is a link is emptied beyond the link.\<close>

definition gum_file_delete_home_dir :: "ctx \<Rightarrow> pstr \<Rightarrow> bool wm" where
  "gum_file_delete_home_dir C dir =
     (case dir of None \<Rightarrow> fail_with GUM_ERROR_HOME_DIR_DELETE_FAILURE
      | Some path \<Rightarrow> on_tree path (\<lambda>d.
          case d of
            Some (HDir a es) \<Rightarrow> remove_dir C a (delete_entries C es) es
          | Some (HLink a t) \<Rightarrow> do {
              opened \<leftarrow> sys C SysOpendir;
              if \<not> opened then do { set_error GUM_ERROR_HOME_DIR_DELETE_FAILURE; ret (False, d) }
              else do {
                log_event (EvBeyondLink path);
                ok \<leftarrow> sys C SysRemove;
                if ok then ret (True, None)
                else do { set_error GUM_ERROR_HOME_DIR_DELETE_FAILURE; ret (False, d) } } }
          | _ \<Rightarrow> do { set_error GUM_ERROR_HOME_DIR_DELETE_FAILURE; ret (False, d) }))"

definition gum_file_new_path :: "env \<Rightarrow> pstr \<Rightarrow> pstr \<Rightarrow> pstr" where
  "gum_file_new_path E dir filename =
     (case (dir, filename) of (Some d, Some f) \<Rightarrow> Some (g_build_filename E [d, f]) | _ \<Rightarrow> None)"

end
