(* ===== verification/Gumd_User.thy ===== *)
theory Gumd_User
  imports Gumd_Group Gum_Home
begin

text \<open>
  \<^verbatim>\<open>src/daemon/core/gumd-daemon-user.c\<close>: the user object of the daemon, its
  update callbacks, the choice of name and id, the user information file, and the
  operations that add, delete, change, look up and list users. An object is a value
  threaded through the operations, as for groups.
\<close>

section \<open>The object\<close>

record daemon_user =
  nick_name :: pstr
  du_pw :: passwd
  du_shadow :: spwd
  du_icon :: pstr

definition gumd_daemon_user_init :: daemon_user where
  "gumd_daemon_user_init =
     \<lparr>nick_name = None,
      du_pw = \<lparr>pw_name = None, pw_passwd = None, pw_uid = GUM_USER_INVALID_UID, pw_gid = 0xFFFFFFFF,
               pw_gecos = None, pw_dir = None, pw_shell = None\<rparr>,
      du_shadow = \<lparr>sp_namp = None, sp_pwdp = None, sp_lstchg = 0, sp_min = 0, sp_max = 0,
                   sp_warn = 0, sp_inact = 0, sp_expire = 0, sp_flag = 0\<rparr>,
      du_icon = None\<rparr>"

abbreviation map_pw :: "(passwd \<Rightarrow> passwd) \<Rightarrow> daemon_user \<Rightarrow> daemon_user" where
  "map_pw f self \<equiv> self\<lparr>du_pw := f (du_pw self)\<rparr>"

abbreviation map_shadow :: "(spwd \<Rightarrow> spwd) \<Rightarrow> daemon_user \<Rightarrow> daemon_user" where
  "map_shadow f self \<equiv> self\<lparr>du_shadow := f (du_shadow self)\<rparr>"

definition GECOS_FIELD_REALNAME :: nat where "GECOS_FIELD_REALNAME = 0"
definition GECOS_FIELD_OFFICE :: nat where "GECOS_FIELD_OFFICE = 1"
definition GECOS_FIELD_OFFICEPHONE :: nat where "GECOS_FIELD_OFFICEPHONE = 2"
definition GECOS_FIELD_HOMEPHONE :: nat where "GECOS_FIELD_HOMEPHONE = 3"
definition GECOS_FIELD_USERTYPE :: nat where "GECOS_FIELD_USERTYPE = 4"
definition GECOS_FIELD_COUNT :: nat where "GECOS_FIELD_COUNT = 5"

lemmas gecos_defs = GECOS_FIELD_REALNAME_def GECOS_FIELD_OFFICE_def GECOS_FIELD_OFFICEPHONE_def
  GECOS_FIELD_HOMEPHONE_def GECOS_FIELD_USERTYPE_def GECOS_FIELD_COUNT_def

definition gecos_field :: "env \<Rightarrow> passwd \<Rightarrow> nat \<Rightarrow> pstr" where
  "gecos_field E pw field = gum_string_utils_get_string E (pw_gecos pw) (Some '','') field"

definition get_usertype_from_gecos :: "env \<Rightarrow> passwd \<Rightarrow> GumUserType" where
  "get_usertype_from_gecos E pw =
     (if pw_gecos pw \<noteq> None then gum_user_type_from_string (gecos_field E pw GECOS_FIELD_USERTYPE)
      else GUM_USERTYPE_NONE)"

definition user_set_uid_property :: "daemon_user \<Rightarrow> uid_t \<Rightarrow> daemon_user" where
  "user_set_uid_property self val =
     (if pw_uid (du_pw self) \<noteq> val then map_pw (\<lambda>p. p\<lparr>pw_uid := val\<rparr>) self else self)"

definition user_set_gid_property :: "daemon_user \<Rightarrow> gid_t \<Rightarrow> daemon_user" where
  "user_set_gid_property self val =
     (if pw_gid (du_pw self) \<noteq> val then map_pw (\<lambda>p. p\<lparr>pw_gid := val\<rparr>) self else self)"

definition set_usertype_property :: "env \<Rightarrow> daemon_user \<Rightarrow> GumUserType \<Rightarrow> daemon_user" where
  "set_usertype_property E self val =
     (if val > GUM_USERTYPE_NONE \<and> val < GUM_USERTYPE_MAX_VALUE \<and>
         get_usertype_from_gecos E (du_pw self) \<noteq> val
      then map_pw (\<lambda>p. p\<lparr>pw_gecos := gum_string_utils_insert_string E (pw_gecos p) (Some '','')
             (gum_user_type_to_string val) GECOS_FIELD_USERTYPE GECOS_FIELD_COUNT\<rparr>) self
      else self)"

definition set_username_property :: "daemon_user \<Rightarrow> pstr \<Rightarrow> daemon_user" where
  "set_username_property self val =
     (if val \<noteq> pw_name (du_pw self) \<and> valid (gum_validate_name val)
      then map_pw (\<lambda>p. p\<lparr>pw_name := val\<rparr>) self else self)"

definition user_set_secret_property :: "daemon_user \<Rightarrow> pstr \<Rightarrow> daemon_user" where
  "user_set_secret_property self val =
     (if val \<noteq> pw_passwd (du_pw self) \<and> valid (gum_validate_db_secret_entry val)
      then map_pw (\<lambda>p. p\<lparr>pw_passwd := val\<rparr>) self else self)"

definition set_nickname_property :: "daemon_user \<Rightarrow> pstr \<Rightarrow> daemon_user" where
  "set_nickname_property self val =
     (if val \<noteq> nick_name self \<and> valid (gum_validate_db_string_entry val)
      then self\<lparr>nick_name := val\<rparr> else self)"

text \<open>The setters of the four text fields of gecos have one body.\<close>

definition set_gecos_property :: "env \<Rightarrow> nat \<Rightarrow> daemon_user \<Rightarrow> pstr \<Rightarrow> daemon_user" where
  "set_gecos_property E field self val =
     (if val \<noteq> gecos_field E (du_pw self) field \<and> valid (gum_validate_db_string_entry val)
      then map_pw (\<lambda>p. p\<lparr>pw_gecos := gum_string_utils_insert_string E (pw_gecos p) (Some '','')
             val field GECOS_FIELD_COUNT\<rparr>) self
      else self)"

definition set_realname_property :: "env \<Rightarrow> daemon_user \<Rightarrow> pstr \<Rightarrow> daemon_user" where
  "set_realname_property E = set_gecos_property E GECOS_FIELD_REALNAME"

definition set_office_property :: "env \<Rightarrow> daemon_user \<Rightarrow> pstr \<Rightarrow> daemon_user" where
  "set_office_property E = set_gecos_property E GECOS_FIELD_OFFICE"

definition set_officephone_property :: "env \<Rightarrow> daemon_user \<Rightarrow> pstr \<Rightarrow> daemon_user" where
  "set_officephone_property E = set_gecos_property E GECOS_FIELD_OFFICEPHONE"

definition set_homephone_property :: "env \<Rightarrow> daemon_user \<Rightarrow> pstr \<Rightarrow> daemon_user" where
  "set_homephone_property E = set_gecos_property E GECOS_FIELD_HOMEPHONE"

definition set_homedir_property :: "daemon_user \<Rightarrow> pstr \<Rightarrow> daemon_user" where
  "set_homedir_property self val =
     (if val \<noteq> pw_dir (du_pw self) \<and> valid (gum_validate_db_string_entry val)
      then map_pw (\<lambda>p. p\<lparr>pw_dir := val\<rparr>) self else self)"

definition set_shell_property :: "daemon_user \<Rightarrow> pstr \<Rightarrow> daemon_user" where
  "set_shell_property self val =
     (if val \<noteq> pw_shell (du_pw self) \<and> valid (gum_validate_db_string_entry val)
      then map_pw (\<lambda>p. p\<lparr>pw_shell := val\<rparr>) self else self)"

definition set_icon_property :: "daemon_user \<Rightarrow> pstr \<Rightarrow> daemon_user" where
  "set_icon_property self val =
     (if val \<noteq> du_icon self \<and> valid (gum_validate_db_string_entry val)
      then self\<lparr>du_icon := val\<rparr> else self)"

text \<open>Writing a property by its id, and reading those that are text.\<close>

datatype user_prop =
    PROP_UID uid_t
  | PROP_USER_GID gid_t
  | PROP_USERTYPE GumUserType
  | PROP_USERNAME pstr
  | PROP_USER_SECRET pstr
  | PROP_NICKNAME pstr
  | PROP_REALNAME pstr
  | PROP_OFFICE pstr
  | PROP_OFFICEPHONE pstr
  | PROP_HOMEPHONE pstr
  | PROP_HOMEDIR pstr
  | PROP_SHELL pstr
  | PROP_ICON pstr

definition user_set_property :: "env \<Rightarrow> daemon_user \<Rightarrow> user_prop \<Rightarrow> daemon_user" where
  "user_set_property E self p =
     (case p of
        PROP_UID v \<Rightarrow> user_set_uid_property self v
      | PROP_USER_GID v \<Rightarrow> user_set_gid_property self v
      | PROP_USERTYPE v \<Rightarrow> set_usertype_property E self v
      | PROP_USERNAME v \<Rightarrow> set_username_property self v
      | PROP_USER_SECRET v \<Rightarrow> user_set_secret_property self v
      | PROP_NICKNAME v \<Rightarrow> set_nickname_property self v
      | PROP_REALNAME v \<Rightarrow> set_realname_property E self v
      | PROP_OFFICE v \<Rightarrow> set_office_property E self v
      | PROP_OFFICEPHONE v \<Rightarrow> set_officephone_property E self v
      | PROP_HOMEPHONE v \<Rightarrow> set_homephone_property E self v
      | PROP_HOMEDIR v \<Rightarrow> set_homedir_property self v
      | PROP_SHELL v \<Rightarrow> set_shell_property self v
      | PROP_ICON v \<Rightarrow> set_icon_property self v)"

definition user_get_gecos :: "env \<Rightarrow> daemon_user \<Rightarrow> nat \<Rightarrow> pstr" where
  "user_get_gecos E self field =
     (if pw_gecos (du_pw self) \<noteq> None then gecos_field E (du_pw self) field else None)"

section \<open>Name, id and secret\<close>

definition default_realname :: "env \<Rightarrow> daemon_user \<Rightarrow> daemon_user" where
  "default_realname E self =
     (if gecos_field E (du_pw self) 0 = None then set_realname_property E self (pw_name (du_pw self))
      else self)"

definition set_daemon_user_name :: "ctx \<Rightarrow> daemon_user \<Rightarrow> (bool \<times> daemon_user) wm" where
  "set_daemon_user_name C self =
     (if pw_name (du_pw self) = None \<and> nick_name self = None
      then do { set_error GUM_ERROR_INVALID_NAME; ret (False, self) }
      else if pw_name (du_pw self) \<noteq> None then do {
        ok \<leftarrow> check_valid (gum_validate_name (pw_name (du_pw self)));
        if \<not> ok then ret (False, self) else ret (True, default_realname (c_env C) self) }
      else if get_usertype_from_gecos (c_env C) (du_pw self) = GUM_USERTYPE_SYSTEM
      then do { set_error GUM_ERROR_INVALID_NAME; ret (False, self) }
      else case gum_validate_generate_username (c_env C) (nick_name self) of
        Inl e \<Rightarrow> do { set_error e; ret (False, self) }
      | Inr tname \<Rightarrow>
          (let self = set_username_property self (Some tname)
           in if pw_name (du_pw self) = None then ret (False, self)
              else ret (True, default_realname (c_env C) self)))"

definition get_default_uid_range :: "ctx \<Rightarrow> GumUserType \<Rightarrow> uid_t \<times> uid_t" where
  "get_default_uid_range C ut =
     (let uint = (\<lambda>key. gum_config_get_uint (glob_config C) key GUM_USER_INVALID_UID)
      in (if ut = GUM_USERTYPE_SYSTEM then uint GUM_CONFIG_GENERAL_SYS_UID_MIN
          else if ut = GUM_USERTYPE_SECURITY then uint GUM_CONFIG_GENERAL_SEC_UID_MIN
          else uint GUM_CONFIG_GENERAL_UID_MIN,
          if ut = GUM_USERTYPE_SYSTEM then uint GUM_CONFIG_GENERAL_SYS_UID_MAX
          else if ut = GUM_USERTYPE_SECURITY then uint GUM_CONFIG_GENERAL_SEC_UID_MAX
          else uint GUM_CONFIG_GENERAL_UID_MAX))"

text \<open>The loop over the range, with one step per id there is, as for groups.\<close>

function find_uid_loop :: "ctx \<Rightarrow> nat \<Rightarrow> uid_t \<Rightarrow> uid_t \<Rightarrow> uid_t option wm" where
  "find_uid_loop C fuel tmp_uid uid_max =
     (if fuel = 0 \<or> \<not> tmp_uid \<le> uid_max then ret None
      else do {
        p \<leftarrow> gum_file_getpwuid C tmp_uid (cfg C GUM_CONFIG_GENERAL_PASSWD_FILE);
        if p = None then ret (Some tmp_uid)
        else find_uid_loop C (fuel - 1) (tmp_uid + 1) uid_max })"
  by pat_completeness auto
termination by (relation "measure (\<lambda>(C, fuel, t, m). fuel)") auto

declare find_uid_loop.simps [simp del]

definition find_free_uid :: "ctx \<Rightarrow> daemon_user \<Rightarrow> uid_t option wm" where
  "find_free_uid C self =
     (let (uid_min, uid_max) = get_default_uid_range C (get_usertype_from_gecos (c_env C) (du_pw self))
      in if \<not> uid_min < uid_max then ret None else find_uid_loop C all_ids uid_min uid_max)"

definition home_path :: "ctx \<Rightarrow> pstr \<Rightarrow> string" where
  "home_path C name =
     (case cfg C GUM_CONFIG_GENERAL_HOME_DIR_PREF of None \<Rightarrow> ''(null)'' | Some p \<Rightarrow> p) @ ''/'' @
     (case name of None \<Rightarrow> ''(null)'' | Some n \<Rightarrow> n)"

definition set_uid :: "ctx \<Rightarrow> daemon_user \<Rightarrow> (bool \<times> daemon_user) wm" where
  "set_uid C self = do {
     (ok, self) \<leftarrow> set_daemon_user_name C self;
     if \<not> ok then ret (False, self)
     else do {
       p \<leftarrow> gum_file_getpwnam C (pw_name (du_pw self)) (cfg C GUM_CONFIG_GENERAL_PASSWD_FILE);
       if p \<noteq> None then do { set_error GUM_ERROR_USER_ALREADY_EXISTS; ret (False, self) }
       else do {
         r \<leftarrow> find_free_uid C self;
         case r of
           None \<Rightarrow> do { set_error GUM_ERROR_USER_UID_NOT_AVAILABLE; ret (False, self) }
         | Some uid \<Rightarrow>
             (let self = user_set_uid_property self uid
              in ret (True,
                   if get_usertype_from_gecos (c_env C) (du_pw self) \<noteq> GUM_USERTYPE_SYSTEM
                   then set_homedir_property self (Some (home_path C (pw_name (du_pw self))))
                   else self)) } } }"

definition user_set_secret :: "ctx \<Rightarrow> daemon_user \<Rightarrow> (bool \<times> daemon_user) wm" where
  "user_set_secret C self0 =
     (let self = map_shadow (\<lambda>s. s\<lparr>sp_pwdp := None\<rparr>) self0
      in case pw_passwd (du_pw self) of
           None \<Rightarrow>
             (let ut = get_usertype_from_gecos (c_env C) (du_pw self);
                  self = map_shadow (\<lambda>s. s\<lparr>sp_pwdp :=
                    (if ut = GUM_USERTYPE_SYSTEM then Some ''*''
                     else if ut = GUM_USERTYPE_GUEST then Some [] else Some ''!'')\<rparr>) self
              in ret (True, user_set_secret_property self (Some ''x'')))
         | Some pw \<Rightarrow> do {
             enc \<leftarrow> gum_crypt_encrypt_secret C pw (cfg C GUM_CONFIG_GENERAL_ENCRYPT_METHOD);
             case enc of
               None \<Rightarrow> do { set_error GUM_ERROR_USER_SECRET_ENCRYPT_FAILURE; ret (False, self) }
             | Some h \<Rightarrow>
                 ret (True,
                   user_set_secret_property
                     (map_pw (\<lambda>p. p\<lparr>pw_passwd := Some []\<rparr>)
                       (map_shadow (\<lambda>s. s\<lparr>sp_pwdp := Some h\<rparr>) self)) (Some ''x'')) })"

definition set_shadow_data :: "ctx \<Rightarrow> daemon_user \<Rightarrow> (bool \<times> daemon_user) wm" where
  "set_shadow_data C self0 = do {
     let self = map_shadow (\<lambda>s. s\<lparr>sp_namp := pw_name (du_pw self0)\<rparr>) self0;
     (ok, self) \<leftarrow> user_set_secret C self;
     if \<not> ok then ret (False, self)
     else do {
       t \<leftarrow> gets tick;
       let days = clock_days C t;
       ret (True, map_shadow (\<lambda>s. s\<lparr>
         sp_lstchg := (if days = 0 then -1 else days),
         sp_min := gum_config_get_int (glob_config C) GUM_CONFIG_GENERAL_PASS_MIN_DAYS (-1),
         sp_max := gum_config_get_int (glob_config C) GUM_CONFIG_GENERAL_PASS_MAX_DAYS (-1),
         sp_warn := gum_config_get_int (glob_config C) GUM_CONFIG_GENERAL_PASS_WARN_AGE (-1),
         sp_inact := -1, sp_expire := -1, sp_flag := -1\<rparr>) self) } }"

section \<open>The update callbacks\<close>

definition passwd_switch :: "GumOpType \<Rightarrow> passwd \<Rightarrow> pstr \<Rightarrow> passwd \<Rightarrow> bool \<Rightarrow> passwd action" where
  "passwd_switch op pw user_data entry dn =
     (if \<not> dn then
        (case op of
           GUM_OPTYPE_ADD \<Rightarrow>
             if pw_uid pw < pw_uid entry then Write [pw, entry] True else Write [entry] dn
         | GUM_OPTYPE_DELETE \<Rightarrow>
             if pw_uid pw = pw_uid entry \<and> pw_gid pw = pw_gid entry \<and> pw_name pw = pw_name entry
             then Write [] True else Write [entry] dn
         | GUM_OPTYPE_MODIFY \<Rightarrow>
             (let old_name = (if user_data \<noteq> None then user_data else pw_name pw)
              in if pw_uid pw = pw_uid entry \<and> pw_gid pw = pw_gid entry \<and> old_name = pw_name entry
                 then Write [pw] True else Write [entry] dn))
      else Write [entry] dn)"

definition update_passwd_entry :: "ctx \<Rightarrow> daemon_user \<Rightarrow> GumOpType \<Rightarrow> pstr \<Rightarrow> update_cb" where
  "update_passwd_entry C self op user_data source_file dup_file =
     update_entries (\<lambda>e. putpwent C e dup_file) (passwd_switch op (du_pw self) user_data) op
       (du_pw self) (pw_entries source_file)"

definition copy_shadow_struct :: "spwd \<Rightarrow> spwd \<Rightarrow> bool \<Rightarrow> spwd" where
  "copy_shadow_struct src dest copy_only_if_invalid =
     src\<lparr>sp_namp := (if \<not> copy_only_if_invalid \<or> sp_namp dest = None then sp_namp src else sp_namp dest),
         sp_pwdp := (if \<not> copy_only_if_invalid \<or> sp_pwdp dest = None then sp_pwdp src else sp_pwdp dest)\<rparr>"

text \<open>
  Locking an account: a copy of its entry is written with an exclamation mark before the
  secret, or without it. Nothing is put in the place of the secret that the copy gives up
  when the entry already is as asked for.
\<close>

definition secret_locked :: "pstr \<Rightarrow> bool" where
  "secret_locked s = (case s of Some (c # _) \<Rightarrow> c = CHR ''!'' | _ \<Rightarrow> False)"

definition lock_copy :: "bool \<Rightarrow> spwd \<Rightarrow> spwd" where
  "lock_copy lock entry =
     (let spent = entry\<lparr>sp_pwdp := None\<rparr>;
          pw = (case sp_pwdp entry of None \<Rightarrow> [] | Some s \<Rightarrow> s)
      in if lock \<and> \<not> secret_locked (sp_pwdp entry) then spent\<lparr>sp_pwdp := Some (CHR ''!'' # pw)\<rparr>
         else if \<not> lock \<and> secret_locked (sp_pwdp entry) then spent\<lparr>sp_pwdp := Some (tl pw)\<rparr>
         else spent)"

definition lock_switch :: "GumOpType \<Rightarrow> passwd \<Rightarrow> bool \<Rightarrow> spwd \<Rightarrow> bool \<Rightarrow> spwd action" where
  "lock_switch op pw lock entry dn =
     (if \<not> dn then
        (case op of
           GUM_OPTYPE_MODIFY \<Rightarrow>
             if pw_name pw = sp_namp entry then Write [lock_copy lock entry] True else Write [entry] dn
         | _ \<Rightarrow> Write [entry] dn)
      else Write [entry] dn)"

definition lock_shadow_entry :: "ctx \<Rightarrow> daemon_user \<Rightarrow> GumOpType \<Rightarrow> bool option \<Rightarrow> update_cb" where
  "lock_shadow_entry C self op user_data source_file dup_file =
     (case user_data of
        None \<Rightarrow> fail_with GUM_ERROR_FILE_WRITE
      | Some lock \<Rightarrow> do {
          r \<leftarrow> entry_loop (\<lambda>e. putspent C e dup_file) (lock_switch op (du_pw self) lock)
                 (sp_entries source_file) False;
          case r of None \<Rightarrow> ret False
          | Some dn \<Rightarrow> if \<not> dn then fail_with GUM_ERROR_FILE_WRITE else ret True })"

definition shadow_switch :: "GumOpType \<Rightarrow> spwd \<Rightarrow> pstr \<Rightarrow> spwd \<Rightarrow> bool \<Rightarrow> spwd action" where
  "shadow_switch op sp user_data entry dn =
     (if \<not> dn then
        (case op of
           GUM_OPTYPE_ADD \<Rightarrow>
             if sp_namp sp = sp_namp entry then Fail GUM_ERROR_USER_ALREADY_EXISTS
             else Write [entry] dn
         | GUM_OPTYPE_DELETE \<Rightarrow>
             if sp_namp sp = sp_namp entry then Write [] True else Write [entry] dn
         | GUM_OPTYPE_MODIFY \<Rightarrow>
             (let old_name = (if user_data \<noteq> None then user_data else sp_namp sp)
              in if old_name = sp_namp entry then Write [sp] True else Write [entry] dn))
      else Write [entry] dn)"

definition update_shadow_entry :: "ctx \<Rightarrow> daemon_user \<Rightarrow> GumOpType \<Rightarrow> pstr \<Rightarrow> update_cb" where
  "update_shadow_entry C self op user_data source_file dup_file =
     update_entries (\<lambda>e. putspent C e dup_file) (shadow_switch op (du_shadow self) user_data) op
       (du_shadow self) (sp_entries source_file)"

section \<open>Groups and home directory\<close>

definition user_set_group :: "ctx \<Rightarrow> daemon_user \<Rightarrow> (bool \<times> daemon_user) wm" where
  "user_set_group C self = do {
     let grp_type = (if get_usertype_from_gecos (c_env C) (du_pw self) = GUM_USERTYPE_SYSTEM
                     then GUM_GROUPTYPE_SYSTEM else GUM_GROUPTYPE_USER);
     let primary_gname = cfg C GUM_CONFIG_GENERAL_USR_PRIMARY_GRPNAME;
     grp \<leftarrow> (if primary_gname \<noteq> None
              then gum_file_getgrnam C primary_gname (cfg C GUM_CONFIG_GENERAL_GROUP_FILE)
              else ret None);
     case grp of
       None \<Rightarrow> do {
         let group = set_groupname_property gumd_daemon_group_new
               (if primary_gname \<noteq> None then primary_gname else pw_name (du_pw self));
         let group = set_grouptype_property group grp_type;
         (ok, group) \<leftarrow> gumd_daemon_group_add C group (pw_uid (du_pw self));
         if \<not> ok then ret (False, self)
         else ret (True, user_set_gid_property self (gr_gid (gd_group group))) }
     | Some g \<Rightarrow> ret (True, user_set_gid_property self (gr_gid g)) }"

text \<open>The loop adds the user to each default group; its result is that of the last one.\<close>

fun default_groups_loop :: "ctx \<Rightarrow> uid_t \<Rightarrow> string list \<Rightarrow> bool \<Rightarrow> bool wm" where
  "default_groups_loop C uid [] added = ret added"
| "default_groups_loop C uid (g # gs) added = do {
     (added, _) \<leftarrow> gumd_daemon_group_add_member C
        (set_groupname_property gumd_daemon_group_new (Some g)) uid False;
     default_groups_loop C uid gs added }"

definition set_default_groups :: "ctx \<Rightarrow> daemon_user \<Rightarrow> bool wm" where
  "set_default_groups C self =
     (let ut = get_usertype_from_gecos (c_env C) (du_pw self)
      in if ut = GUM_USERTYPE_SYSTEM then ret True
         else case cfg C (if ut = GUM_USERTYPE_ADMIN then GUM_CONFIG_GENERAL_DEF_ADMIN_GROUPS
                          else GUM_CONFIG_GENERAL_DEF_USR_GROUPS) of
                None \<Rightarrow> ret True
              | Some s \<Rightarrow>
                  default_groups_loop C (pw_uid (du_pw self)) (g_strsplit (c_env C) s '','') True)"

definition create_home_dir :: "ctx \<Rightarrow> daemon_user \<Rightarrow> bool wm" where
  "create_home_dir C self =
     (if get_usertype_from_gecos (c_env C) (du_pw self) = GUM_USERTYPE_SYSTEM then ret True
      else gum_file_create_home_dir C (pw_dir (du_pw self)) (pw_uid (du_pw self)) (pw_gid (du_pw self))
             (gum_config_get_uint (glob_config C) GUM_CONFIG_GENERAL_UMASK GUM_UMASK))"

definition delete_home_dir :: "ctx \<Rightarrow> daemon_user \<Rightarrow> bool wm" where
  "delete_home_dir C self =
     (if get_usertype_from_gecos (c_env C) (du_pw self) = GUM_USERTYPE_SYSTEM then ret True
      else gum_file_delete_home_dir C (pw_dir (du_pw self)))"

definition user_delete_group :: "ctx \<Rightarrow> daemon_user \<Rightarrow> bool wm" where
  "user_delete_group C self = do {
     (deleted, _) \<leftarrow> gumd_daemon_group_delete C
        (set_gid_property gumd_daemon_group_new (pw_gid (du_pw self)));
     ret deleted }"

section \<open>The user information file\<close>

text \<open>The id is printed as a signed number, and the path cut to the buffer of 4096 bytes.\<close>

definition GUMD_STR_LEN :: nat where "GUMD_STR_LEN = 4096"

definition userinfo_path :: "ctx \<Rightarrow> daemon_user \<Rightarrow> pstr" where
  "userinfo_path C self =
     (case cfg C GUM_CONFIG_GENERAL_USERINFO_DIR of None \<Rightarrow> None
      | Some str \<Rightarrow>
          (let i = sint (pw_uid (du_pw self))
           in Some (take (GUMD_STR_LEN - 1)
                (str @ (if i < 0 then ''-'' else []) @ decimal_digits (nat \<bar>i\<bar>)))))"

definition delete_userinfo :: "ctx \<Rightarrow> daemon_user \<Rightarrow> unit wm" where
  "delete_userinfo C self =
     (case userinfo_path C self of None \<Rightarrow> ret ()
      | Some path \<Rightarrow> do {
          ok \<leftarrow> sys C SysRemove;
          modify (\<lambda>w. if ok then w\<lparr>infos := (infos w)(path := None)\<rparr> else w) })"

text \<open>A key file is saved whole or not at all.\<close>

definition save_userinfo :: "ctx \<Rightarrow> string \<Rightarrow> pstr \<Rightarrow> bool wm" where
  "save_userinfo C path icon = do {
     ok \<leftarrow> sys C SysKeyfile;
     modify (\<lambda>w. if ok then w\<lparr>infos := (infos w)(path := Some icon)\<rparr> else w);
     ret ok }"

definition load_userinfo :: "ctx \<Rightarrow> string \<Rightarrow> pstr option wm" where
  "load_userinfo C path = do {
     ok \<leftarrow> sys C SysKeyfile;
     info \<leftarrow> gets (\<lambda>w. infos w path);
     ret (if ok then info else None) }"

definition add_userinfo :: "ctx \<Rightarrow> daemon_user \<Rightarrow> bool wm" where
  "add_userinfo C self =
     (case userinfo_path C self of None \<Rightarrow> ret False
      | Some path \<Rightarrow> save_userinfo C path (du_icon self))"

definition update_userinfo :: "ctx \<Rightarrow> daemon_user \<Rightarrow> pstr \<Rightarrow> bool wm" where
  "update_userinfo C self icon =
     (case userinfo_path C self of None \<Rightarrow> ret False
      | Some path \<Rightarrow> do {
          info \<leftarrow> load_userinfo C path;
          let old = (case info of None \<Rightarrow> None | Some i \<Rightarrow> i);
          save_userinfo C path (if icon \<noteq> None then icon else old) })"

definition get_userinfo :: "ctx \<Rightarrow> daemon_user \<Rightarrow> pstr wm" where
  "get_userinfo C self =
     (case userinfo_path C self of None \<Rightarrow> ret None
      | Some path \<Rightarrow> do {
          info \<leftarrow> load_userinfo C path;
          ret (case info of None \<Rightarrow> None
               | Some icon \<Rightarrow> Some (case icon of None \<Rightarrow> [] | Some i \<Rightarrow> i)) })"

section \<open>Copies\<close>

definition get_passwd :: "ctx \<Rightarrow> daemon_user \<Rightarrow> passwd option wm" where
  "get_passwd C self = do {
     let s_uid = pw_uid (du_pw self);
     let s_name = pw_name (du_pw self);
     p1 \<leftarrow> (if s_uid \<noteq> GUM_USER_INVALID_UID
             then gum_file_getpwuid C s_uid (cfg C GUM_CONFIG_GENERAL_PASSWD_FILE) else ret None);
     pwd \<leftarrow> (if s_name \<noteq> None \<and> p1 = None
              then gum_file_getpwnam C s_name (cfg C GUM_CONFIG_GENERAL_PASSWD_FILE) else ret p1);
     case pwd of
       None \<Rightarrow> do { set_error GUM_ERROR_USER_NOT_FOUND; ret None }
     | Some p \<Rightarrow>
         if (s_uid \<noteq> GUM_USER_INVALID_UID \<and> s_uid \<noteq> pw_uid p) \<or> (s_name \<noteq> None \<and> s_name \<noteq> pw_name p)
         then do { set_error GUM_ERROR_USER_NOT_FOUND; ret None }
         else ret (Some p) }"

definition copy_passwd_struct :: "env \<Rightarrow> passwd \<Rightarrow> daemon_user \<Rightarrow> daemon_user" where
  "copy_passwd_struct E src dest0 =
     (let dest = set_username_property dest0 (pw_name src);
          dest = user_set_secret_property dest (pw_passwd src);
          dest = user_set_uid_property dest (pw_uid src);
          dest = user_set_gid_property dest (pw_gid src);
          dest = set_realname_property E dest (gecos_field E src GECOS_FIELD_REALNAME);
          dest = set_office_property E dest (gecos_field E src GECOS_FIELD_OFFICE);
          dest = set_officephone_property E dest (gecos_field E src GECOS_FIELD_OFFICEPHONE);
          dest = set_homephone_property E dest (gecos_field E src GECOS_FIELD_HOMEPHONE);
          dest = set_usertype_property E dest (get_usertype_from_gecos E src);
          dest = set_homedir_property dest (pw_dir src)
      in set_shell_property dest (pw_shell src))"

definition copy_passwd_data :: "ctx \<Rightarrow> daemon_user \<Rightarrow> (bool \<times> daemon_user) wm" where
  "copy_passwd_data C self = do {
     p \<leftarrow> get_passwd C self;
     case p of None \<Rightarrow> ret (False, self)
     | Some pent \<Rightarrow> do {
         s \<leftarrow> gum_file_getspnam C (pw_name pent) (cfg C GUM_CONFIG_GENERAL_SHADOW_FILE);
         case s of None \<Rightarrow> do { set_error GUM_ERROR_USER_NOT_FOUND; ret (False, self) }
         | Some spent \<Rightarrow> do {
             icon \<leftarrow> get_userinfo C self;
             let self = copy_passwd_struct (c_env C) pent self;
             let self = map_shadow (\<lambda>d. copy_shadow_struct spent d False) self;
             ret (True, set_icon_property self icon) } } }"

section \<open>Sessions\<close>

definition is_user_logged_in :: "ctx \<Rightarrow> uid_t \<Rightarrow> bool wm" where
  "is_user_logged_in C uid = do {
     ok \<leftarrow> sys C SysDBus;
     c_uids \<leftarrow> gets sessions;
     ret (ok \<and> list_ex (\<lambda>c_uid. c_uid = uid) c_uids) }"

text \<open>
  A failing \<open>TerminateUser\<close> counts as a success if the user is not logged in afterwards.
\<close>

definition terminate_user :: "ctx \<Rightarrow> uid_t \<Rightarrow> bool wm" where
  "terminate_user C uid =
     (if \<not> use_systemd C then ret True
      else do {
        connected \<leftarrow> sys C SysDBus;
        if \<not> connected then ret False
        else do {
          proxied \<leftarrow> sys C SysDBus;
          if \<not> proxied then ret False
          else do {
            loggedin \<leftarrow> is_user_logged_in C uid;
            if \<not> loggedin then ret True
            else do {
              t \<leftarrow> gets tick;
              ok \<leftarrow> sys C SysDBus;
              modify (\<lambda>w. w\<lparr>sessions := logind_terminate C t uid (sessions w)\<rparr>);
              loggedin \<leftarrow> is_user_logged_in C uid;
              ret (ok \<or> \<not> loggedin) } } } })"

section \<open>Constructors\<close>

definition gumd_daemon_user_new :: daemon_user where
  "gumd_daemon_user_new = gumd_daemon_user_init"

definition gumd_daemon_user_new_by_uid :: "ctx \<Rightarrow> uid_t \<Rightarrow> daemon_user option wm" where
  "gumd_daemon_user_new_by_uid C uid = do {
     locked \<leftarrow> gum_lock_pwdf_lock C;
     if \<not> locked then ret None
     else do {
       let usr = user_set_uid_property gumd_daemon_user_init uid;
       (ok, usr) \<leftarrow> no_error (copy_passwd_data C usr);
       gum_lock_pwdf_unlock C;
       ret (if ok then Some usr else None) } }"

definition gumd_daemon_user_new_by_name :: "ctx \<Rightarrow> pstr \<Rightarrow> daemon_user option wm" where
  "gumd_daemon_user_new_by_name C username =
     (if username = None then ret None
      else do {
        locked \<leftarrow> gum_lock_pwdf_lock C;
        if \<not> locked then ret None
        else do {
          let usr = set_username_property gumd_daemon_user_init username;
          (ok, usr) \<leftarrow> no_error (copy_passwd_data C usr);
          gum_lock_pwdf_unlock C;
          ret (if ok then Some usr else None) } })"

section \<open>Adding a user\<close>

definition USERADD_SCRIPT_DIR :: "ctx \<Rightarrow> string" where
  "USERADD_SCRIPT_DIR C = sysconfdir C @ ''/gumd/useradd.d''"

definition USERDEL_SCRIPT_DIR :: "ctx \<Rightarrow> string" where
  "USERDEL_SCRIPT_DIR C = sysconfdir C @ ''/gumd/userdel.d''"

definition default_shell :: "ctx \<Rightarrow> daemon_user \<Rightarrow> daemon_user" where
  "default_shell C self =
     (if pw_shell (du_pw self) = None
      then set_shell_property self
             (cfg C (if get_usertype_from_gecos (c_env C) (du_pw self) = GUM_USERTYPE_SECURITY
                     then GUM_CONFIG_GENERAL_SEC_SHELL else GUM_CONFIG_GENERAL_SHELL))
      else self)"

text \<open>An update of the passwd file and, if it succeeds, one of the shadow file.\<close>

definition update_passwd_shadow :: "ctx \<Rightarrow> daemon_user \<Rightarrow> GumOpType \<Rightarrow> pstr \<Rightarrow> bool wm" where
  "update_passwd_shadow C self op user_data =
     and_then
       (gum_file_update C (Some (update_passwd_entry C self op user_data))
          (cfg C GUM_CONFIG_GENERAL_PASSWD_FILE))
       (gum_file_update C (Some (update_shadow_entry C self op user_data))
          (cfg C GUM_CONFIG_GENERAL_SHADOW_FILE))"

text \<open>On success \<open>*uid\<close> is the id of the object returned.\<close>

definition gumd_daemon_user_add :: "ctx \<Rightarrow> daemon_user \<Rightarrow> (bool \<times> daemon_user) wm" where
  "gumd_daemon_user_add C self0 =
     (if get_usertype_from_gecos (c_env C) (du_pw self0) = GUM_USERTYPE_NONE
      then do { set_error GUM_ERROR_USER_INVALID_USER_TYPE; ret (False, self0) }
      else do {
        let self = default_shell C self0;
        locked \<leftarrow> gum_lock_pwdf_lock C;
        if \<not> locked then do { set_error GUM_ERROR_DB_ALREADY_LOCKED; ret (False, self) }
        else do {
          (ok, self) \<leftarrow> set_uid C self;
          if \<not> ok then unlock_ret C (False, self)
          else do {
            (ok, self) \<leftarrow> user_set_group C self;
            if \<not> ok then unlock_ret C (False, self)
            else do {
              (ok, self) \<leftarrow> set_shadow_data C self;
              if \<not> ok then unlock_ret C (False, self)
              else do {
                ok \<leftarrow> update_passwd_shadow C self GUM_OPTYPE_ADD None;
                if \<not> ok then unlock_ret C (False, self)
                else do {
                  add_userinfo C self;
                  set_default_groups C self;
                  ok \<leftarrow> create_home_dir C self;
                  if \<not> ok then unlock_ret C (False, self)
                  else do {
                    gum_utils_run_user_scripts C (USERADD_SCRIPT_DIR C) (pw_name (du_pw self))
                      (pw_uid (du_pw self)) (pw_gid (du_pw self)) (pw_dir (du_pw self))
                      (gecos_field (c_env C) (du_pw self) GECOS_FIELD_USERTYPE);
                    unlock_ret C (True, self) } } } } } } })"

section \<open>Deleting a user\<close>

text \<open>Locking or unlocking the account of the object, with no place for an error.\<close>

definition lock_account :: "ctx \<Rightarrow> daemon_user \<Rightarrow> bool \<Rightarrow> bool wm" where
  "lock_account C self lock =
     no_error (gum_file_update C (Some (lock_shadow_entry C self GUM_OPTYPE_MODIFY (Some lock)))
       (cfg C GUM_CONFIG_GENERAL_SHADOW_FILE))"

definition gumd_daemon_user_delete :: "ctx \<Rightarrow> daemon_user \<Rightarrow> bool \<Rightarrow> (bool \<times> daemon_user) wm" where
  "gumd_daemon_user_delete C self rem_home_dir = do {
     locked \<leftarrow> gum_lock_pwdf_lock C;
     if \<not> locked then do { set_error GUM_ERROR_DB_ALREADY_LOCKED; ret (False, self) }
     else if pw_uid (du_pw self) = GUM_USER_INVALID_UID
     then unlock_fail C GUM_ERROR_USER_NOT_FOUND self
     else do {
       (ok, self) \<leftarrow> copy_passwd_data C self;
       if \<not> ok then unlock_fail C GUM_ERROR_USER_NOT_FOUND self
       else do {
         me \<leftarrow> gets euid;
         if pw_uid (du_pw self) = me then unlock_fail C GUM_ERROR_USER_SELF_DESTRUCTION self
         else do {
           ok \<leftarrow> lock_account C self True;
           if \<not> ok then unlock_fail C GUM_ERROR_USER_LOCK_FAILURE self
           else do {
             ok \<leftarrow> terminate_user C (pw_uid (du_pw self));
             if \<not> ok then do {
               lock_account C self False;
               unlock_fail C GUM_ERROR_USER_SESSION_TERM_FAILURE self }
             else do {
               gum_utils_run_user_scripts C (USERDEL_SCRIPT_DIR C) (pw_name (du_pw self))
                 (pw_uid (du_pw self)) (pw_gid (du_pw self)) (pw_dir (du_pw self)) None;
               delete_userinfo C self;
               ok \<leftarrow> update_passwd_shadow C self GUM_OPTYPE_DELETE None;
               if \<not> ok then do {
                 lock_account C self False;
                 unlock_ret C (False, self) }
               else do {
                 ok \<leftarrow> and_then (user_delete_group C self)
                        (gumd_daemon_group_delete_user_membership C (pw_name (du_pw self)));
                 if \<not> ok then unlock_ret C (False, self)
                 else do {
                   ok \<leftarrow> (if rem_home_dir then delete_home_dir C self else ret True);
                   unlock_ret C (ok, self) } } } } } } } }"

section \<open>Changing a user\<close>

definition update_gecos_field :: "env \<Rightarrow> passwd \<Rightarrow> nat \<Rightarrow> daemon_user \<Rightarrow> daemon_user" where
  "update_gecos_field E src field dest =
     (case gecos_field E (du_pw dest) field of
        Some (c # cs) \<Rightarrow> dest
      | _ \<Rightarrow>
          (let str = gecos_field E src field
           in if field = GECOS_FIELD_REALNAME then set_realname_property E dest str
              else if field = GECOS_FIELD_OFFICE then set_office_property E dest str
              else if field = GECOS_FIELD_OFFICEPHONE then set_officephone_property E dest str
              else if field = GECOS_FIELD_HOMEPHONE then set_homephone_property E dest str
              else if field = GECOS_FIELD_USERTYPE
              then set_usertype_property E dest (gum_user_type_from_string str)
              else dest))"

text \<open>What the object takes over from the entries of the files before they are compared.\<close>

definition user_merge_for_update :: "env \<Rightarrow> daemon_user \<Rightarrow> passwd \<Rightarrow> spwd \<Rightarrow> daemon_user" where
  "user_merge_for_update E self0 pw shadow =
     (let self = map_shadow (\<lambda>d. copy_shadow_struct shadow d True) self0;
          self = set_username_property self (pw_name pw);
          self = user_set_uid_property self (pw_uid pw);
          self = user_set_gid_property self (pw_gid pw);
          self = set_homedir_property self (pw_dir pw);
          self = update_gecos_field E pw GECOS_FIELD_REALNAME self;
          self = update_gecos_field E pw GECOS_FIELD_OFFICE self;
          self = update_gecos_field E pw GECOS_FIELD_OFFICEPHONE self;
          self = update_gecos_field E pw GECOS_FIELD_HOMEPHONE self
      in update_gecos_field E pw GECOS_FIELD_USERTYPE self)"

definition icon_changes :: "daemon_user \<Rightarrow> pstr \<Rightarrow> bool" where
  "icon_changes self icon \<longleftrightarrow> du_icon self \<noteq> None \<and> icon \<noteq> du_icon self"

definition secret_changes :: "env \<Rightarrow> daemon_user \<Rightarrow> bool" where
  "secret_changes E self \<longleftrightarrow>
     pw_passwd (du_pw self) \<noteq> None \<and> pw_passwd (du_pw self) \<noteq> Some ''x'' \<and>
     gum_crypt_cmp_secret E (pw_passwd (du_pw self)) (sp_pwdp (du_shadow self)) \<noteq> 0"

definition gecos_changes :: "daemon_user \<Rightarrow> passwd \<Rightarrow> bool" where
  "gecos_changes self pw \<longleftrightarrow>
     pw_gecos (du_pw self) \<noteq> None \<and> pw_gecos pw \<noteq> pw_gecos (du_pw self)"

definition shell_changes :: "daemon_user \<Rightarrow> passwd \<Rightarrow> bool" where
  "shell_changes self pw \<longleftrightarrow>
     pw_shell (du_pw self) \<noteq> None \<and> pw_shell pw \<noteq> pw_shell (du_pw self)"

text \<open>The counter \<open>change\<close> is positive exactly if one of the four things changes.\<close>

definition gumd_daemon_user_update :: "ctx \<Rightarrow> daemon_user \<Rightarrow> (bool \<times> daemon_user) wm" where
  "gumd_daemon_user_update C self = do {
     locked \<leftarrow> gum_lock_pwdf_lock C;
     if \<not> locked then do { set_error GUM_ERROR_DB_ALREADY_LOCKED; ret (False, self) }
     else if pw_uid (du_pw self) = GUM_USER_INVALID_UID
     then unlock_fail C GUM_ERROR_USER_NOT_FOUND self
     else do {
       p \<leftarrow> get_passwd C self;
       case p of None \<Rightarrow> unlock_ret C (False, self)
       | Some pw \<Rightarrow> do {
           s \<leftarrow> gum_file_getspnam C (pw_name pw) (cfg C GUM_CONFIG_GENERAL_SHADOW_FILE);
           case s of None \<Rightarrow> unlock_fail C GUM_ERROR_USER_NOT_FOUND self
           | Some shadow \<Rightarrow> do {
               icon \<leftarrow> get_userinfo C self;
               let new_icon = icon_changes self icon;
               (if new_icon then update_userinfo C self (du_icon self) else ret False);
               let self = user_merge_for_update (c_env C) self pw shadow;
               let new_secret = secret_changes (c_env C) self;
               (ok, self) \<leftarrow> (if new_secret then user_set_secret C self
                              else ret (True, user_set_secret_property self (pw_passwd pw)));
               if \<not> ok then unlock_ret C (False, self)
               else if gecos_changes self pw \<and>
                       gecos_field (c_env C) (du_pw self) GECOS_FIELD_USERTYPE \<noteq>
                       gecos_field (c_env C) pw GECOS_FIELD_USERTYPE
               then unlock_fail C GUM_ERROR_USER_INVALID_USER_TYPE self
               else if \<not> (new_icon \<or> new_secret \<or> gecos_changes self pw \<or> shell_changes self pw)
               then unlock_fail C GUM_ERROR_USER_NO_CHANGES self
               else do {
                 ok \<leftarrow> update_passwd_shadow C self GUM_OPTYPE_MODIFY (pw_name pw);
                 unlock_ret C (ok, self) } } } } }"

section \<open>Looking users up\<close>

definition gumd_daemon_user_get_uid_by_name :: "ctx \<Rightarrow> pstr \<Rightarrow> uid_t wm" where
  "gumd_daemon_user_get_uid_by_name C username =
     (if username = None then ret GUM_USER_INVALID_UID
      else do {
        locked \<leftarrow> gum_lock_pwdf_lock C;
        if \<not> locked then ret GUM_USER_INVALID_UID
        else do {
          pwd \<leftarrow> gum_file_getpwnam C username (cfg C GUM_CONFIG_GENERAL_PASSWD_FILE);
          gum_lock_pwdf_unlock C;
          ret (case pwd of None \<Rightarrow> GUM_USER_INVALID_UID | Some p \<Rightarrow> pw_uid p) } })"

text \<open>The type an entry is listed under.\<close>

definition listed_type :: "ctx \<Rightarrow> passwd \<Rightarrow> GumUserType" where
  "listed_type C pent =
     (let ut = get_usertype_from_gecos (c_env C) pent;
          sys_uid_min = gum_config_get_uint (glob_config C) GUM_CONFIG_GENERAL_SYS_UID_MIN GUM_USER_INVALID_UID;
          sys_uid_max = gum_config_get_uint (glob_config C) GUM_CONFIG_GENERAL_SYS_UID_MAX GUM_USER_INVALID_UID
      in if ut = GUM_USERTYPE_NONE \<and> sys_uid_min \<le> pw_uid pent \<and> pw_uid pent \<le> sys_uid_max
         then GUM_USERTYPE_SYSTEM else ut)"

definition requested_types :: "string list option \<Rightarrow> 16 word" where
  "requested_types types =
     (case types of
        None \<Rightarrow> ucast (GUM_USERTYPE_SYSTEM OR GUM_USERTYPE_ADMIN OR GUM_USERTYPE_GUEST OR GUM_USERTYPE_NORMAL)
      | Some [] \<Rightarrow> ucast (GUM_USERTYPE_SYSTEM OR GUM_USERTYPE_ADMIN OR GUM_USERTYPE_GUEST OR GUM_USERTYPE_NORMAL)
      | Some (t # ts) \<Rightarrow> gum_user_type_from_strv (Some (t # ts)))"

definition gumd_daemon_user_get_user_list :: "ctx \<Rightarrow> string list option \<Rightarrow> uid_t list option wm" where
  "gumd_daemon_user_get_user_list C types =
     (let in_types = requested_types types
      in if in_types = ucast GUM_USERTYPE_NONE
         then do { set_error GUM_ERROR_USER_INVALID_USER_TYPE; ret None }
         else do {
           locked \<leftarrow> gum_lock_pwdf_lock C;
           if \<not> locked then do { set_error GUM_ERROR_DB_ALREADY_LOCKED; ret None }
           else do {
             fp \<leftarrow> open_file_r C (cfg C GUM_CONFIG_GENERAL_PASSWD_FILE);
             case fp of
               None \<Rightarrow> do { gum_lock_pwdf_unlock C; set_error GUM_ERROR_FILE_OPEN; ret None }
             | Some ls \<Rightarrow>
                 unlock_ret C (Some (map pw_uid
                   (filter (\<lambda>p. listed_type C p AND ucast in_types \<noteq> 0) (pw_entries ls)))) } })"

end
