(* ===== verification/Gum_Home_Spec.thy ===== *)
theory Gum_Home_Spec
  imports Gum_Home
begin

text \<open>
  What creating and deleting a home directory does to the tree under its path, whatever
  calls fail: the relation of a directory to its copy, a specification of each step on a
  node, the induction over the directory that is copied or deleted, and the properties.
\<close>

section \<open>What a copy is\<close>

text \<open>The same entries in the same order, with the owner and the modes of the original.\<close>

fun same_content :: "uid_t \<Rightarrow> gid_t \<Rightarrow> htree \<Rightarrow> htree \<Rightarrow> bool"
  and copies_of :: "uid_t \<Rightarrow> gid_t \<Rightarrow> (string \<times> htree) list \<Rightarrow> (string \<times> htree) list \<Rightarrow> bool" where
  "same_content u g (HFile a c) (HFile b d) = (c = d)"
| "same_content u g (HLink a s) (HLink b t) = (s = t)"
| "same_content u g (HDir a es) (HDir b fs) = copies_of u g es fs"
| "same_content u g _ _ = False"
| "copies_of u g [] [] = True"
| "copies_of u g ((n, s) # es) ((m, t) # fs) =
     (n = m \<and> same_content u g s t \<and>
      (\<not> is_hlink (Some s) \<longrightarrow> i_mode (node_attrs t) = i_mode (node_attrs s) \<and>
        i_uid (node_attrs t) = u \<and> i_gid (node_attrs t) = g) \<and> copies_of u g es fs)"
| "copies_of u g _ _ = False"

definition copy_of :: "uid_t \<Rightarrow> gid_t \<Rightarrow> htree \<Rightarrow> htree \<Rightarrow> bool" where
  "copy_of u g s t \<longleftrightarrow> same_content u g s t \<and>
     (\<not> is_hlink (Some s) \<longrightarrow> i_mode (node_attrs t) = i_mode (node_attrs s) \<and>
        i_uid (node_attrs t) = u \<and> i_gid (node_attrs t) = g)"

lemma copies_of_Cons: "copies_of u g ((n, s) # es) ((m, t) # fs) \<longleftrightarrow> n = m \<and> copy_of u g s t \<and> copies_of u g es fs"
  by (auto simp: copy_of_def)

text \<open>The names in a directory are distinct, all the way down.\<close>

fun names_ok :: "htree \<Rightarrow> bool" where
  "names_ok (HDir a es) = (distinct (map fst es) \<and> (\<forall>e\<in>set es. names_ok (snd e)))"
| "names_ok _ = True"

section \<open>Steps\<close>

lemma wp_then_node [wp_rules]:
  "wp m (\<lambda>(ok, d) w'. if ok then wp (f d) Q w' else Q (False, d) w') w \<Longrightarrow> wp (then_node m f) Q w"
  by (auto simp: then_node_def wp_def case_prod_beta)

text \<open>Attributes changed in a way allowed by \<open>P\<close>.\<close>

definition retouched :: "(attrs \<Rightarrow> attrs \<Rightarrow> bool) \<Rightarrow> node \<Rightarrow> node \<Rightarrow> bool" where
  "retouched P c c' \<longleftrightarrow> (\<exists>f. (\<forall>a. P a (f a)) \<and> c' = map_option (with_attrs f) c)"

definition same_owner :: "attrs \<Rightarrow> attrs \<Rightarrow> bool" where
  "same_owner a b \<longleftrightarrow> i_mode b = i_mode a \<and> i_uid b = i_uid a \<and> i_gid b = i_gid a"

lemma with_attrs_simps [simp]:
  "with_attrs (\<lambda>a. a) t = t" "with_attrs f (with_attrs h t) = with_attrs (\<lambda>a. f (h a)) t"
  "node_attrs (with_attrs f t) = f (node_attrs t)"
  "same_content u g s (with_attrs f t) = same_content u g s t"
  by (cases t; cases s; simp)+

lemma is_hlink_with [simp]: "is_hlink (map_option (with_attrs f) c) = is_hlink c"
  by (cases c rule: is_hlink.cases) auto

lemma retouched_refl: "(\<And>a. P a a) \<Longrightarrow> retouched P c c"
  unfolding retouched_def by (intro exI [of _ "\<lambda>a. a"]) (cases c; simp)

lemma retouched_trans:
  "retouched P c c1 \<Longrightarrow> retouched P c1 c2 \<Longrightarrow> (\<And>a b d. P a b \<Longrightarrow> P b d \<Longrightarrow> P a d) \<Longrightarrow> retouched P c c2"
proof -
  assume "retouched P c c1" "retouched P c1 c2" and t: "\<And>a b d. P a b \<Longrightarrow> P b d \<Longrightarrow> P a d"
  then obtain f h where f: "\<forall>a. P a (f a)" "c1 = map_option (with_attrs f) c"
    and h: "\<forall>a. P a (h a)" "c2 = map_option (with_attrs h) c1" unfolding retouched_def by auto
  from f(1) h(1) t have "\<forall>a. P a (h (f a))" by blast
  moreover have "c2 = map_option (with_attrs (\<lambda>a. h (f a))) c" using f(2) h(2) by (cases c) simp_all
  ultimately show ?thesis unfolding retouched_def by (intro exI [of _ "\<lambda>a. h (f a)"] conjI)
qed

lemma retouched_mono: "retouched P c c' \<Longrightarrow> (\<And>a b. P a b \<Longrightarrow> Q a b) \<Longrightarrow> retouched Q c c'"
  unfolding retouched_def by blast

lemma retouched_None [simp]: "\<not> retouched P (Some t) None" "\<not> retouched P None (Some t)"
  by (auto simp: retouched_def)

lemma retouched_with: "(\<And>a. P a (f a)) \<Longrightarrow> retouched P (Some t) (Some (with_attrs f t))"
  unfolding retouched_def by (intro exI [of _ f]) simp

lemma same_owner_simps [simp]:
  "same_owner a a" "same_owner a (a\<lparr>i_xattr := x\<rparr>)"
  by (simp_all add: same_owner_def)

lemma lsetxattr_node_spec:
  "wp (lsetxattr_node C n v c) (\<lambda>(ok, c') w'. retouched same_owner c c') w"
  unfolding lsetxattr_node_def
  by (intro wp_rules) (simp add: retouched_refl retouched_with split: option.split)

lemma set_smack64_node_spec:
  "wp (set_smack64_node C k c) (\<lambda>(ok, c') w'. retouched same_owner c c') w"
  unfolding set_smack64_node_def
  by (intro wp_rules lsetxattr_node_spec) (auto intro: retouched_refl simp: same_owner_def)

lemma same_owner_trans:
  "retouched same_owner c c1 \<Longrightarrow> retouched same_owner c1 c2 \<Longrightarrow> retouched same_owner c c2"
  by (rule retouched_trans) (simp_all add: same_owner_def)

lemma copy_xattrs_node_from:
  "retouched same_owner c0 c \<Longrightarrow> wp (copy_xattrs_node C xs c) (\<lambda>(ok, c') w'. retouched same_owner c0 c') w"
proof (induction xs arbitrary: c w)
  case Nil
  then show ?case by (simp add: wp_return)
next
  case (Cons a xs)
  obtain nm v where a: "a = (nm, v)" by (cases a)
  show ?case
    unfolding a copy_xattrs_node.simps
    apply (intro wp_bind wp_sys wp_if wp_return Cons.IH Cons.prems)
     apply (rule wp_mono [OF lsetxattr_node_spec])
     apply (rule wp_case_prod, simp only: prod.case)
     apply (rule wp_if, rule wp_return, simp only: prod.case, erule same_owner_trans [OF Cons.prems])
     apply (rule Cons.IH, erule same_owner_trans [OF Cons.prems])
    apply simp
    done
qed

lemmas copy_xattrs_node_spec = copy_xattrs_node_from [OF retouched_refl [OF same_owner_simps(1)]]

definition chmoded :: "32 word \<Rightarrow> attrs \<Rightarrow> attrs \<Rightarrow> bool" where
  "chmoded m a b \<longleftrightarrow> i_mode b = m"

definition owned :: "uid_t \<Rightarrow> gid_t \<Rightarrow> attrs \<Rightarrow> attrs \<Rightarrow> bool" where
  "owned u g a b \<longleftrightarrow> i_uid b = u \<and> i_gid b = g \<and> i_mode b = i_mode a"

lemma chmod_node_spec:
  "wp (chmod_node C path m c) (\<lambda>(ok, c') w'. retouched (\<lambda>_ _. True) c c' \<and>
     (ok \<longrightarrow> c \<noteq> None \<and> (\<not> is_hlink c \<longrightarrow> retouched (chmoded m) c c'))) w"
  unfolding chmod_node_def
  by (intro wp_rules) (auto intro!: wp_rules retouched_with retouched_refl simp: chmoded_def)

lemma chown_node_spec:
  "wp (chown_node C path u g c) (\<lambda>(ok, c') w'. retouched (\<lambda>_ _. True) c c' \<and>
     (ok \<longrightarrow> c \<noteq> None \<and> (\<not> is_hlink c \<longrightarrow> retouched (owned u g) c c'))) w"
  unfolding chown_node_def
  by (intro wp_rules) (auto intro!: wp_rules retouched_with retouched_refl simp: owned_def)

lemma stat_node_spec:
  "wp (stat_node C path (Some t)) (\<lambda>r w'. \<forall>a. r = Some a \<longrightarrow> \<not> is_hlink (Some t) \<longrightarrow> a = node_attrs t) w"
  unfolding stat_node_def by (intro wp_rules) auto

lemma retouched_hlink: "retouched P c c' \<Longrightarrow> is_hlink c' = is_hlink c"
  by (auto simp: retouched_def)

lemma retouched_any: "retouched P c c1 \<Longrightarrow> retouched Q c1 c2 \<Longrightarrow> retouched (\<lambda>_ _. True) c c2"
  by (rule retouched_trans [OF retouched_mono retouched_mono]) auto

lemma chmoded_then:
  assumes "retouched (chmoded m) c c1" "retouched P c1 c2" "\<And>a b. P a b \<Longrightarrow> i_mode b = i_mode a"
  shows "retouched (chmoded m) c c2"
proof -
  from assms(1,2) obtain f h where "\<forall>a. chmoded m a (f a)" "c1 = map_option (with_attrs f) c"
    "\<forall>a. P a (h a)" "c2 = map_option (with_attrs h) c1" unfolding retouched_def by auto
  moreover from this assms(3) have "\<forall>a. chmoded m a (h (f a))" unfolding chmoded_def by metis
  ultimately show ?thesis unfolding retouched_def
    by (intro exI [of _ "\<lambda>a. h (f a)"]) (cases c; simp)
qed

definition attrs_copied :: "htree \<Rightarrow> node \<Rightarrow> bool \<Rightarrow> node \<Rightarrow> bool" where
  "attrs_copied src c ok c' \<longleftrightarrow> retouched (\<lambda>_ _. True) c c' \<and>
     (ok \<longrightarrow> c \<noteq> None \<and> (\<not> is_hlink c \<longrightarrow> \<not> is_hlink (Some src) \<longrightarrow>
        retouched (chmoded (i_mode (node_attrs src))) c c'))"

lemma attrs_copied_then:
  assumes "attrs_copied src c True c1" "retouched P c1 c2" "\<And>a b. P a b \<Longrightarrow> i_mode b = i_mode a"
  shows "attrs_copied src c ok c2"
  using assms retouched_any [OF _ assms(2)] chmoded_then [OF _ assms(2,3)]
  by (auto simp: attrs_copied_def)

lemma copy_attributes_node_spec:
  "wp (copy_attributes_node C from src to c) (\<lambda>(ok, c') w'. attrs_copied src c ok c') w"
  unfolding copy_attributes_node_def
  apply (rule wp_step [OF stat_node_spec], rule wp_case_option)
   apply (rule wp_return, simp add: retouched_refl attrs_copied_def)
  apply (rule wp_step [OF chmod_node_spec], rule wp_case_prod, rule wp_if)
   apply (rule wp_return, simp add: attrs_copied_def)
  apply (rule wp_step [OF chown_node_spec], rule wp_case_prod, rule wp_if)
  subgoal by (rule wp_return) (auto simp: attrs_copied_def dest: retouched_any)
  subgoal premises prems for st w1 a b w2 ok c1 b2 w3 ok2 c2
  proof -
    have c1: "attrs_copied src c True c1" using prems by (auto simp: attrs_copied_def)
    have c2: "attrs_copied src c ok c2" for ok
    proof (cases "is_hlink c")
      case True
      with prems retouched_any [of _ c c1] show ?thesis by (auto simp: attrs_copied_def)
    next
      case False
      with prems have "retouched (owned (i_uid a) (i_gid a)) c1 c2" by (auto dest: retouched_hlink)
      then show ?thesis by (rule attrs_copied_then [OF c1]) (simp add: owned_def)
    qed
    have fin: "attrs_copied src c ok c3" if "retouched same_owner c2 c3" for ok c3
      by (rule attrs_copied_then [OF c2 that]) (simp add: same_owner_def)
    show ?thesis
      by (intro wp_bind wp_sys wp_if wp_return wp_mono [OF copy_xattrs_node_spec])
        (auto intro: fin c2)
  qed
  done

section \<open>The copy\<close>

text \<open>A directory with given entries; with \<open>A = None\<close> it need not exist yet if it has none.\<close>

definition dir_is :: "attrs option \<Rightarrow> (string \<times> htree) list \<Rightarrow> node \<Rightarrow> bool" where
  "dir_is A es d \<longleftrightarrow>
     (d = None \<and> A = None \<and> es = []) \<or> (\<exists>a. (A = None \<or> A = Some a) \<and> d = Some (HDir a es))"

definition entry :: "string \<Rightarrow> node \<Rightarrow> (string \<times> htree) list" where
  "entry n c = (case c of None \<Rightarrow> [] | Some t \<Rightarrow> [(n, t)])"

lemma update_entry:
  "n \<notin> fst ` set fs \<Longrightarrow> AList.update n t (fs @ entry n c) = fs @ [(n, t)]"
proof -
  assume n: "n \<notin> fst ` set fs"
  have "AList.update n t (fs @ gs) = fs @ AList.update n t gs" for gs
    using n by (induction fs) auto
  then show ?thesis by (simp add: entry_def split: option.split)
qed

lemma map_of_entry: "n \<notin> fst ` set fs \<Longrightarrow> map_of (fs @ entry n c) n = c"
proof -
  assume "n \<notin> fst ` set fs"
  then have "map_of fs n = None" by (simp add: map_of_eq_None_iff)
  then show ?thesis by (simp add: entry_def map_add_def split: option.split)
qed

lemma child_entry: "dir_is A (fs @ entry n c) d \<Longrightarrow> n \<notin> fst ` set fs \<Longrightarrow> child n d = c"
  using map_of_entry [of n fs c]
  by (auto simp: dir_is_def entry_def simp del: map_of_append split: option.splits)

lemma set_child_entry:
  "dir_is A (fs @ entry n c) d \<Longrightarrow> n \<notin> fst ` set fs \<Longrightarrow> (c' = None \<Longrightarrow> c = None) \<Longrightarrow>
   dir_is A (fs @ entry n c') (set_child (new_dir C m w) n c' d)"
  using update_entry [of n fs _ c] by (cases c') (auto simp: dir_is_def new_dir_def, simp_all add: entry_def)

text \<open>Sequences of steps, by what is known of the result and the node.\<close>

lemma wp_then:
  assumes "wp m (\<lambda>(ok, d) _. R ok d) w" and "\<And>d w'. R True d \<Longrightarrow> wp (f d) (\<lambda>(ok, d) _. S ok d) w'"
    and "\<And>d. R False d \<Longrightarrow> S False d"
  shows "wp (then_node m f) (\<lambda>(ok, d) _. S ok d) w"
  unfolding then_node_def
proof (rule wp_step [OF assms(1)], rule wp_case_prod)
  fix r and w' :: world and ok d
  assume "(case r of (ok, d) \<Rightarrow> \<lambda>_. R ok d) w'" "r = (ok, d)"
  then have "R ok d" by simp
  then show "wp (if ok then f d else ret (False, d)) (\<lambda>(ok, d) _. S ok d) w'"
    using assms(2,3) by (cases ok) (auto intro: wp_return)
qed

lemma on_child_spec:
  assumes "dir_is A (fs @ entry n c) d" "n \<notin> fst ` set fs"
    and f: "wp (f c) (\<lambda>(ok, c') _. P ok c') w" and "\<And>ok. P ok None \<Longrightarrow> c = None"
  shows "wp (on_child C m n f d) (\<lambda>(ok, d') _. \<exists>c'. P ok c' \<and> dir_is A (fs @ entry n c') d') w"
  unfolding on_child_def child_entry [OF assms(1,2)]
proof (rule wp_step [OF f], rule wp_case_prod, rule wp_bind, rule wp_gets, rule wp_return)
  fix r and w' :: world and ok c'
  assume "(case r of (ok, c') \<Rightarrow> \<lambda>_. P ok c') w'" "r = (ok, c')"
  then have "P ok c'" by simp
  moreover from this assms(4) have "dir_is A (fs @ entry n c') (set_child (new_dir C m w') n c' d)"
    by (intro set_child_entry [OF assms(1,2)]) auto
  ultimately show "(case (ok, set_child (new_dir C m w') n c' d) of
      (ok, d') \<Rightarrow> \<lambda>_. \<exists>c'. P ok c' \<and> dir_is A (fs @ entry n c') d') w'" by auto
qed

lemma same_content_retouched:
  assumes "retouched P (Some t) c'"
  obtains t' where "c' = Some t'" "same_content u g s t' = same_content u g s t" "is_hlink (Some t') = is_hlink (Some t)"
proof -
  from assms obtain f where "c' = Some (with_attrs f t)" by (auto simp: retouched_def)
  with retouched_hlink [OF assms] that show ?thesis by simp
qed

lemma same_content_hlink: "same_content u g s t \<Longrightarrow> is_hlink (Some t) = is_hlink (Some s)"
  by (cases s; cases t) auto

definition chowned :: "uid_t \<Rightarrow> gid_t \<Rightarrow> node \<Rightarrow> bool \<Rightarrow> node \<Rightarrow> bool" where
  "chowned u g c ok c' \<longleftrightarrow> retouched (\<lambda>_ _. True) c c' \<and>
     (ok \<longrightarrow> c \<noteq> None \<and> (\<not> is_hlink c \<longrightarrow> retouched (owned u g) c c'))"

lemma chown_step: "wp (chown_node C path u g c) (\<lambda>(ok, c') _. chowned u g c ok c') w"
  using chown_node_spec by (simp add: chowned_def)

lemma retouched_keeps:
  "attrs_copied s c ok None \<Longrightarrow> c = None" "chowned u g c ok None \<Longrightarrow> c = None"
  "retouched P c None \<Longrightarrow> c = None"
  by (cases c; simp add: attrs_copied_def chowned_def)+

lemma copy_of_by:
  assumes "same_content u g src t" "attrs_copied src (Some t) True c1" "chowned u g c1 True c2"
  shows "\<exists>t2. c2 = Some t2 \<and> copy_of u g src t2"
proof -
  from assms(2) have "retouched (\<lambda>_ _. True) (Some t) c1" by (simp add: attrs_copied_def)
  then obtain t1 where t1: "c1 = Some t1" "same_content u g src t1"
    "is_hlink (Some t1) = is_hlink (Some t)"
    using same_content_retouched [where u = u and g = g and s = src] assms(1) by metis
  from assms(3) t1 have "retouched (\<lambda>_ _. True) (Some t1) c2" by (simp add: chowned_def)
  then obtain t2 where t2: "c2 = Some t2" "same_content u g src t2"
    using same_content_retouched [where u = u and g = g and s = src] t1(2) by metis
  have "i_mode (node_attrs t2) = i_mode (node_attrs src) \<and> i_uid (node_attrs t2) = u \<and> i_gid (node_attrs t2) = g"
    if l: "\<not> is_hlink (Some src)"
  proof -
    have "\<not> is_hlink (Some t)" "\<not> is_hlink c1" using l assms(1) t1 by (simp_all add: same_content_hlink)
    with assms(2,3) l t1(1) t2(1) have
      "chmoded (i_mode (node_attrs src)) (node_attrs t) (node_attrs t1)"
      "owned u g (node_attrs t1) (node_attrs t2)"
      by (auto simp: attrs_copied_def chowned_def retouched_def)
    then show ?thesis by (simp add: owned_def chmoded_def)
  qed
  with t2 show ?thesis by (simp add: copy_of_def)
qed

definition entry_done :: "attrs option \<Rightarrow> uid_t \<Rightarrow> gid_t \<Rightarrow> (string \<times> htree) list \<Rightarrow> string \<Rightarrow> htree \<Rightarrow> bool \<Rightarrow> node \<Rightarrow> bool" where
  "entry_done A u g fs n src ok d \<longleftrightarrow> (\<exists>c. dir_is A (fs @ entry n c) d \<and>
     (ok \<longrightarrow> (\<exists>t. c = Some t \<and> copy_of u g src t)))"

text \<open>The end of the work on an entry: the attributes and the owner.\<close>

lemma entry_tail:
  assumes m: "wp m (\<lambda>(ok, d) _. \<exists>c. dir_is A (fs @ entry n c) d \<and>
      (ok \<longrightarrow> (\<forall>t. c = Some t \<longrightarrow> same_content u g src t))) w"
    and n: "n \<notin> fst ` set fs"
  shows "wp (then_node (then_node m (on_child C md n (copy_attributes_node C sp src dp)))
               (on_child C md n (chown_node C dp u g)))
    (\<lambda>(ok, d') _. entry_done A u g fs n src ok d') w"
proof -
  define R where "R ok d \<longleftrightarrow> (\<exists>c c1. (ok \<longrightarrow> (\<exists>t. c = Some t \<and> same_content u g src t) \<and> attrs_copied src c ok c1) \<and>
     dir_is A (fs @ entry n c1) d)" for ok d
  have first: "wp (on_child C md n (copy_attributes_node C sp src dp) d) (\<lambda>(ok, d) _. R ok d) w'"
    if c: "dir_is A (fs @ entry n c) d" "\<forall>t. c = Some t \<longrightarrow> same_content u g src t" for c d w'
    by (rule wp_mono, rule on_child_spec [OF c(1) n, where P = "attrs_copied src c"],
        rule copy_attributes_node_spec)
      (use c(2) in \<open>auto simp: attrs_copied_def R_def dest: retouched_keeps(3)\<close>)
  have second: "wp (on_child C md n (chown_node C dp u g) d) (\<lambda>(ok, d') _. entry_done A u g fs n src ok d') w'"
    if "R True d" for d w'
  proof -
    from that obtain t c1 where t: "same_content u g src t" "attrs_copied src (Some t) True c1"
      "dir_is A (fs @ entry n c1) d" by (auto simp: R_def)
    show ?thesis
      by (rule wp_mono, rule on_child_spec [OF t(3) n, where P = "chowned u g c1"], rule chown_step)
        (use copy_of_by [OF t(1,2)] in \<open>auto simp: entry_done_def retouched_keeps\<close>)
  qed
  show ?thesis
    apply (rule wp_then [where R = R], rule wp_then [OF m])
       apply (elim exE conjE, rule first, assumption, simp)
      apply (auto simp: R_def)[1]
     apply (erule second)
    apply (auto simp: R_def entry_done_def)
    done
qed

definition copied :: "attrs option \<Rightarrow> uid_t \<Rightarrow> gid_t \<Rightarrow> (string \<times> htree) list \<Rightarrow> (string \<times> htree) list \<Rightarrow> bool \<Rightarrow> node \<Rightarrow> bool" where
  "copied A u g es fs ok d' \<longleftrightarrow> (\<exists>gs. dir_is A (fs @ gs) d' \<and> (ok \<longrightarrow> copies_of u g es gs))"

text \<open>The work on an entry up to its attributes: a file or link, and a directory.\<close>

definition entry_ready :: "attrs option \<Rightarrow> uid_t \<Rightarrow> gid_t \<Rightarrow> (string \<times> htree) list \<Rightarrow> string \<Rightarrow> htree \<Rightarrow> bool \<Rightarrow> node \<Rightarrow> bool" where
  "entry_ready A u g fs n src ok d \<longleftrightarrow> (\<exists>c. dir_is A (fs @ entry n c) d \<and>
     (ok \<longrightarrow> (\<forall>t. c = Some t \<longrightarrow> same_content u g src t)))"

lemma same_content_refl: "(\<And>a es. src \<noteq> HDir a es) \<Longrightarrow> same_content u g src (with_attrs f src)"
  by (cases src) auto

lemma dir_is_None: "dir_is A fs d \<Longrightarrow> dir_is A (fs @ entry n None) d"
  by (simp add: entry_def)

lemma smack_step:
  assumes d: "dir_is A (fs @ entry n c) d" "n \<notin> fst ` set fs"
    and c: "\<forall>t. c = Some t \<longrightarrow> same_content u g src t"
  shows "wp (on_child C md n (set_smack64_node C key) d) (\<lambda>(ok, d) _. entry_ready A u g fs n src ok d) w"
proof (rule wp_mono, rule on_child_spec [OF d, where P = "\<lambda>_. retouched same_owner c"], rule set_smack64_node_spec)
  show "retouched same_owner c None \<Longrightarrow> c = None" by (rule retouched_keeps)
  have "same_content u g src t" if "retouched same_owner c (Some t)" for t
    using that c by (cases c) (auto simp: retouched_def)
  then show "(case r of (ok, d') \<Rightarrow> \<lambda>_. \<exists>c'. retouched same_owner c c' \<and> dir_is A (fs @ entry n c') d') w' \<Longrightarrow>
      (case r of (ok, d) \<Rightarrow> \<lambda>_. entry_ready A u g fs n src ok d) w'" for r and w' :: world
    by (auto simp: entry_ready_def)
qed

lemma file_head:
  assumes d: "dir_is A fs d" "n \<notin> fst ` set fs" and t: "\<And>a es. src \<noteq> HDir a es"
  shows "wp (then_node (file_copy C src dp n d) (on_child C md n (set_smack64_node C key)))
    (\<lambda>(ok, d) _. entry_ready A u g fs n src ok d) w"
proof (rule wp_then [where R = "\<lambda>ok d. \<exists>c. dir_is A (fs @ entry n c) d \<and> (\<forall>t. c = Some t \<longrightarrow> same_content u g src t)"])
  note c = child_entry [OF dir_is_None [OF d(1)] d(2)]
  have set: "dir_is A (fs @ entry n (Some t)) (Some (HDir a (AList.update n t es)))" if "d = Some (HDir a es)" for a es t
    using d that update_entry [OF d(2), of t None] by (auto simp: dir_is_def entry_def)
  show "wp (file_copy C src dp n d) (\<lambda>(ok, d) _. \<exists>c. dir_is A (fs @ entry n c) d \<and>
      (\<forall>t. c = Some t \<longrightarrow> same_content u g src t)) w"
  proof (cases "\<exists>a. d = Some (HDir a fs)")
    case True
    then obtain a where a: "d = Some (HDir a fs)" ..
    have "\<exists>c. dir_is A (fs @ entry n c) (Some (HDir a (AList.update n (with_attrs (copy_attrs C) src) fs))) \<and>
        (\<forall>t. c = Some t \<longrightarrow> same_content u g src t)"
      using set [OF a, of "with_attrs (copy_attrs C) src"] same_content_refl [OF t] by blast
    moreover have "\<exists>c. dir_is A (fs @ entry n c) (Some (HDir a fs)) \<and> (\<forall>t. c = Some t \<longrightarrow> same_content u g src t)"
      using dir_is_None [OF d(1), of n] a by blast
    ultimately show ?thesis
      using c unfolding file_copy_def a by (intro wp_rules) (auto intro!: wp_rules)
  next
    case False
    with d(1) have "d = None" by (auto simp: dir_is_def)
    with dir_is_None [OF d(1), of n] show ?thesis
      unfolding file_copy_def by (intro wp_rules) (auto intro!: wp_rules)
  qed
qed (auto simp: entry_ready_def intro: smack_step [OF _ d(2), unfolded entry_ready_def])

lemma dir_head:
  assumes d: "dir_is A fs d" "n \<notin> fst ` set fs"
    and sub: "\<And>A' c w. dir_is A' [] c \<Longrightarrow>
      wp (copy_entries C u g um sp dp es c) (\<lambda>(ok, d') _. copied A' u g es [] ok d') w"
  shows "wp (do {
      d \<leftarrow> mkdir_child C md n d;
      then_node (on_child C md n (set_smack64_node C key) d)
        (on_child C md n (\<lambda>c. no_error (copy_opened C (copy_entries C u g um sp dp es c) c))) })
    (\<lambda>(ok, d) _. entry_ready A u g fs n (HDir a es) ok d) w"
proof (rule wp_step)
  note c = child_entry [OF dir_is_None [OF d(1)] d(2)]
  show "wp (mkdir_child C md n d) (\<lambda>d' _. \<exists>c. dir_is A (fs @ entry n c) d' \<and> (\<forall>t. c = Some t \<longrightarrow> (\<exists>a. t = HDir a []))) w"
    unfolding mkdir_child_def c
  proof (intro wp_rules)
    fix ok
    show "\<exists>c. dir_is A (fs @ entry n c) (if ok \<and> None = None then set_child (new_dir C md (w\<lparr>tick := tick w + 1\<rparr>)) n
          (Some (new_dir C md (w\<lparr>tick := tick w + 1\<rparr>))) d else d) \<and> (\<forall>t. c = Some t \<longrightarrow> (\<exists>a. t = HDir a []))"
    proof (cases ok)
      case True
      with set_child_entry [OF dir_is_None [OF d(1)] d(2), of "Some (new_dir C md (w\<lparr>tick := tick w + 1\<rparr>))" C md
          "w\<lparr>tick := tick w + 1\<rparr>"] show ?thesis
        by (intro exI [of _ "Some (new_dir C md (w\<lparr>tick := tick w + 1\<rparr>))"]) (simp add: new_dir_def)
    next
      case False
      with dir_is_None [OF d(1), of n] show ?thesis by (intro exI [of _ None]) simp
    qed
  qed
next
  fix d1 and w1 :: world
  assume "\<exists>c. dir_is A (fs @ entry n c) d1 \<and> (\<forall>t. c = Some t \<longrightarrow> (\<exists>a. t = HDir a []))"
  then obtain c where c: "dir_is A (fs @ entry n c) d1" "\<forall>t. c = Some t \<longrightarrow> (\<exists>a. t = HDir a [])" by blast
  let ?R = "\<lambda>ok d. \<exists>c. dir_is A (fs @ entry n c) d \<and> (\<forall>t. c = Some t \<longrightarrow> (\<exists>a. t = HDir a []))"
  have smack: "wp (on_child C md n (set_smack64_node C key) d1) (\<lambda>(ok, d) _. ?R ok d) w1"
  proof (rule wp_mono, rule on_child_spec [OF c(1) d(2), where P = "\<lambda>_. retouched same_owner c"], rule set_smack64_node_spec)
    show "retouched same_owner c None \<Longrightarrow> c = None" by (rule retouched_keeps)
    have "\<exists>a. t = HDir a []" if "retouched same_owner c (Some t)" for t
      using that c(2) by (cases c) (auto simp: retouched_def)
    then show "(case r of (ok, d') \<Rightarrow> \<lambda>_. \<exists>c'. retouched same_owner c c' \<and> dir_is A (fs @ entry n c') d') w' \<Longrightarrow>
        (case r of (ok, d) \<Rightarrow> \<lambda>_. ?R ok d) w'" for r and w' :: world
      by auto
  qed
  show "wp (then_node (on_child C md n (set_smack64_node C key) d1)
        (on_child C md n (\<lambda>c. no_error (copy_opened C (copy_entries C u g um sp dp es c) c))))
      (\<lambda>(ok, d) _. entry_ready A u g fs n (HDir a es) ok d) w1"
  proof (rule wp_then [OF smack])
    fix d2 and w2 :: world
    assume "?R True d2"
    then obtain c where c: "dir_is A (fs @ entry n c) d2" "\<forall>t. c = Some t \<longrightarrow> (\<exists>a. t = HDir a [])" by blast
    let ?A = "map_option node_attrs c"
    from c(2) have e: "dir_is ?A [] c" by (cases c) (auto simp: dir_is_def)
    have "wp (no_error (copy_opened C (copy_entries C u g um sp dp es c) c)) (\<lambda>(ok, c') _. copied ?A u g es [] ok c') w2"
      unfolding copy_opened_def
      by (intro wp_no_error wp_rules wp_mono [OF sub [OF e]]) (use e in \<open>auto simp: copied_def intro: exI [of _ "[]"]\<close>)
    then show "wp (on_child C md n (\<lambda>c. no_error (copy_opened C (copy_entries C u g um sp dp es c) c)) d2)
        (\<lambda>(ok, d) _. entry_ready A u g fs n (HDir a es) ok d) w2"
      by (intro wp_mono [OF on_child_spec [OF c(1) d(2), where P = "copied ?A u g es []"]])
        (auto simp: copied_def dir_is_def entry_ready_def)
  qed (auto simp: entry_ready_def)
qed

lemma copied_Cons:
  assumes "copied A u g rest (fs @ [(n, t)]) ok d" "copy_of u g s t"
  shows "copied A u g ((n, s) # rest) fs ok d"
proof -
  from assms(1) obtain gs where "dir_is A (fs @ (n, t) # gs) d" "ok \<longrightarrow> copies_of u g rest gs"
    by (auto simp: copied_def)
  then show ?thesis unfolding copied_def
    by (intro exI [of _ "(n, t) # gs"]) (use assms(2) in \<open>simp add: copy_of_def\<close>)
qed

lemma copy_entries_spec:
  assumes "dir_is A fs d" "distinct (map fst es)" "fst ` set es \<inter> fst ` set fs = {}"
    and "\<forall>e\<in>set es. names_ok (snd e)"
  shows "wp (copy_entries C u g um src dest es d) (\<lambda>(ok, d') _. copied A u g es fs ok d') w"
  using assms
proof (induction es arbitrary: A fs d src dest w rule: measure_induct_rule [where f = "size_list (size_prod (\<lambda>_. 0) size)"])
  case (less es)
  show ?case
  proof (cases es)
    case Nil
    with less.prems show ?thesis by (auto intro!: wp_return exI [of _ "[]"] simp: copied_def)
  next
    case (Cons e rest)
    obtain n entry where e: "e = (n, entry)" by (cases e)
    note p = less.prems [unfolded Cons e]
    have n: "n \<notin> fst ` set fs" using p(3) by auto
    let ?sp = "g_build_filename (c_env C) [src, n]" and ?dp = "g_build_filename (c_env C) [dest, n]"
    let ?md = "GUM_PERM AND NOT um" and ?key = "GUM_CONFIG_GENERAL_SMACK64_USER_FILES"
    have sub: "wp (copy_entries C u g um ?sp ?dp es' c) (\<lambda>(ok, d') _. copied A' u g es' [] ok d') w"
      if en: "entry = HDir a es'" and c: "dir_is A' [] c" for A' a es' c w
      by (rule less.IH [OF _ c]) (use p(4) in \<open>auto simp: Cons e en\<close>)
    have head: "wp (case entry of
        HDir a es' \<Rightarrow> do {
          d \<leftarrow> mkdir_child C ?md n d;
          then_node (on_child C ?md n (set_smack64_node C ?key) d)
            (on_child C ?md n (\<lambda>c. no_error (copy_opened C (copy_entries C u g um ?sp ?dp es' c) c))) }
      | _ \<Rightarrow> then_node (file_copy C entry ?dp n d) (on_child C ?md n (set_smack64_node C ?key)))
      (\<lambda>(ok, d) _. entry_ready A u g fs n entry ok d) w1" for w1
      using file_head [OF p(1) n, of entry] dir_head [OF p(1) n sub] by (cases entry) auto
    have rest: "wp (copy_entries C u g um src dest rest d1) (\<lambda>(ok, d') _. copied A u g es fs ok d') w1"
      if "entry_done A u g fs n entry True d1" for d1 w1
    proof -
      from that obtain t where t: "dir_is A (fs @ [(n, t)]) d1" "copy_of u g entry t"
        by (auto simp: entry_done_def entry_def)
      have "wp (copy_entries C u g um src dest rest d1) (\<lambda>(ok, d') _. copied A u g rest (fs @ [(n, t)]) ok d') w1"
        by (rule less.IH [OF _ t(1)]) (use p in \<open>auto simp: Cons e\<close>)
      then show ?thesis
        by (rule wp_mono) (use copied_Cons [OF _ t(2)] in \<open>auto simp: Cons e\<close>)
    qed
    show ?thesis
      unfolding Cons e copy_entries.simps Let_def
    proof (intro wp_bind wp_sys, rule wp_mono)
      fix found and w1 :: world
      show "wp (if \<not> found then ret (False, d)
          else then_node (then_node
            (case entry of
               HDir a es' \<Rightarrow> do {
                 d \<leftarrow> mkdir_child C ?md n d;
                 then_node (on_child C ?md n (set_smack64_node C ?key) d)
                   (on_child C ?md n (\<lambda>c. no_error (copy_opened C (copy_entries C u g um ?sp ?dp es' c) c))) }
             | _ \<Rightarrow> then_node (file_copy C entry ?dp n d) (on_child C ?md n (set_smack64_node C ?key)))
            (on_child C ?md n (copy_attributes_node C ?sp entry ?dp))) (on_child C ?md n (chown_node C ?dp u g)))
        (\<lambda>(ok, d) _. entry_done A u g fs n entry ok d) w1"
        using dir_is_None [OF p(1), of n]
        by (intro wp_if wp_return entry_tail [OF head [unfolded entry_ready_def] n]) (auto simp: entry_done_def)
    next
      fix r and w1 :: world
      assume r: "(case r of (ok, d) \<Rightarrow> \<lambda>_. entry_done A u g fs n entry ok d) w1"
      have "copied A u g ((n, entry) # rest) fs False d1" if "entry_done A u g fs n entry ok d1" for ok d1
        using that by (auto simp: entry_done_def copied_def)
      with r rest show "wp (case r of (ok, d) \<Rightarrow>
          if \<not> ok then do { set_error GUM_ERROR_HOME_DIR_COPY_FAILURE; ret (False, d) }
          else copy_entries C u g um src dest rest d) (\<lambda>(ok, d') _. copied A u g ((n, entry) # rest) fs ok d') w1"
        unfolding Cons e by (intro wp_case_prod wp_if wp_bind wp_set_error wp_return) auto
    qed
  qed
qed

section \<open>What the calls on nodes leave alone\<close>

definition node_indep :: "(world \<Rightarrow> 'a) \<Rightarrow> bool" where
  "node_indep g \<longleftrightarrow> (\<forall>w n. g (w\<lparr>tick := n\<rparr>) = g w) \<and> (\<forall>w e. g (w\<lparr>gerror := e\<rparr>) = g w) \<and>
     (\<forall>w e. g (w\<lparr>events := e\<rparr>) = g w)"

lemma frame_then_node [frame_rules]: "frame g m \<Longrightarrow> (\<And>d. frame g (f d)) \<Longrightarrow> frame g (then_node m f)"
  unfolding then_node_def by (intro frame_rules)

lemma frame_on_child [frame_rules]: "(\<And>c. frame g (f c)) \<Longrightarrow> frame g (on_child C m n f d)"
  unfolding on_child_def by (intro frame_rules)

lemma frame_case_htree:
  "(\<And>a c. t = HFile a c \<Longrightarrow> frame g (f a c)) \<Longrightarrow> (\<And>a l. t = HLink a l \<Longrightarrow> frame g (h a l)) \<Longrightarrow>
   (\<And>a es. t = HDir a es \<Longrightarrow> frame g (k a es)) \<Longrightarrow>
   frame g (case t of HFile a c \<Rightarrow> f a c | HLink a l \<Rightarrow> h a l | HDir a es \<Rightarrow> k a es)"
  by (cases t) auto

lemma frame_node_steps:
  assumes "node_indep g"
  shows "frame g (lsetxattr_node C n v d)" "frame g (set_smack64_node C k d)"
    "frame g (stat_node C p d)" "frame g (chmod_node C p m d)" "frame g (chown_node C p u gd d)"
    "frame g (copy_xattrs_node C xs d)" "frame g (copy_attributes_node C from src to d)"
    "frame g (mkdir_child C m n d)" "frame g (file_copy C src p n d)"
proof -
  have i: "g (w\<lparr>tick := n\<rparr>) = g w" "g (w\<lparr>gerror := e\<rparr>) = g w" "g (w\<lparr>events := ev\<rparr>) = g w" for w n e ev
    using assms by (simp_all add: node_indep_def)
  show lset: "frame g (lsetxattr_node C n v d)" for C n v d
    unfolding lsetxattr_node_def by (intro frame_rules i)
  show "frame g (set_smack64_node C k d)"
    unfolding set_smack64_node_def by (intro frame_rules lset i)
  show st: "frame g (stat_node C p d)" for p d
    unfolding stat_node_def by (intro frame_rules i)
  show cm: "frame g (chmod_node C p m d)" for p m d
    unfolding chmod_node_def by (intro frame_rules i)
  show co: "frame g (chown_node C p u gd d)" for p u gd d
    unfolding chown_node_def by (intro frame_rules i)
  have l: "frame g (copy_xattrs_node C l d)" for C l d
    by (induction C l d rule: copy_xattrs_node.induct) (auto intro!: frame_rules lset i)
  then show "frame g (copy_xattrs_node C xs d)" .
  show "frame g (copy_attributes_node C from src to d)"
    unfolding copy_attributes_node_def
    by (intro frame_rules st cm co i l)
  show "frame g (mkdir_child C m n d)"
    unfolding mkdir_child_def by (intro frame_rules i)
  show "frame g (file_copy C src p n d)"
    unfolding file_copy_def by (intro frame_rules frame_case_htree i)
qed

lemma frame_copy_entries:
  assumes "node_indep g"
  shows "frame g (copy_entries C u gd um src dest es d)"
  using assms
proof (induction C u gd um src dest es d rule: copy_entries.induct)
  case (2 C u gd um src dest n e rest d)
  then show ?case
    unfolding copy_entries.simps Let_def copy_opened_def
    by (intro frame_rules frame_case_htree frame_node_steps) (auto simp: node_indep_def)
qed (simp add: frame_return)

lemma frame_copy_dir:
  "node_indep g \<Longrightarrow> frame g (copy_dir_recursively C src dest u gd um s d)"
  unfolding copy_dir_recursively_def copy_opened_def
  by (intro frame_rules frame_case_htree frame_copy_entries) (auto simp: node_indep_def)

lemma frame_delete_entries:
  assumes "node_indep g"
  shows "frame g (delete_entries C es)"
  using assms
proof (induction C es rule: delete_entries.induct)
  case (2 C n e rest)
  then show ?case
    unfolding delete_entries.simps remove_dir_def
    by (intro frame_rules frame_case_htree) (auto simp: node_indep_def)
qed (simp add: frame_return)

lemma frame_on_tree:
  "node_indep g \<Longrightarrow> (\<And>w d. g (w\<lparr>trees := (trees w)(path := d)\<rparr>) = g w) \<Longrightarrow> (\<And>d. frame g (f d)) \<Longrightarrow>
   frame g (on_tree path f)"
  unfolding on_tree_def by (intro frame_rules) auto

definition home_indep :: "string \<Rightarrow> (world \<Rightarrow> 'a) \<Rightarrow> bool" where
  "home_indep path g \<longleftrightarrow> node_indep g \<and> (\<forall>w d. g (w\<lparr>trees := (trees w)(path := d)\<rparr>) = g w)"

lemma frame_create_home_dir:
  assumes "\<And>path. home = Some path \<Longrightarrow> home_indep path g" and "node_indep g"
  shows "frame g (gum_file_create_home_dir C home u gd um)"
proof -
  have i: "g (w\<lparr>tick := n\<rparr>) = g w" "g (w\<lparr>gerror := e\<rparr>) = g w" for w n e
    using assms(2) by (simp_all add: node_indep_def)
  show ?thesis
    unfolding gum_file_create_home_dir_def make_home_def
    by (intro frame_rules frame_on_tree frame_node_steps frame_copy_dir)
      (use assms i in \<open>auto simp: home_indep_def\<close>)
qed

lemma frame_delete_home_dir:
  assumes "\<And>path. home = Some path \<Longrightarrow> home_indep path g" and "node_indep g"
  shows "frame g (gum_file_delete_home_dir C home)"
proof -
  have i: "g (w\<lparr>tick := n\<rparr>) = g w" "g (w\<lparr>gerror := e\<rparr>) = g w" "g (w\<lparr>events := ev\<rparr>) = g w" for w n e ev
    using assms(2) by (simp_all add: node_indep_def)
  show ?thesis
    unfolding gum_file_delete_home_dir_def remove_dir_def
    by (intro frame_rules frame_on_tree frame_delete_entries frame_case_htree)
      (use assms i in \<open>auto simp: home_indep_def\<close>)
qed

section \<open>Errors\<close>

lemma copy_entries_error:
  "wp (copy_entries C u g um src dest es d) (\<lambda>(ok, _) w'. \<not> ok \<longrightarrow> gerror w' \<noteq> None) w"
proof (induction es arbitrary: d w)
  case Nil
  then show ?case by (simp add: wp_return)
next
  case (Cons e rest)
  obtain n entry where e: "e = (n, entry)" by (cases e)
  show ?case
    unfolding e copy_entries.simps Let_def
    apply (intro wp_bind wp_sys)
    apply (rule wp_mono [OF wp_of_run [where Q = "\<lambda>_ _. True", OF TrueI]])
    apply (intro wp_case_prod wp_if wp_bind wp_set_error wp_return Cons.IH)
    apply simp
    done
qed

lemma copy_dir_error:
  "wp (copy_dir_recursively C src dest u g um s d) (\<lambda>(ok, _) w'. \<not> ok \<longrightarrow> gerror w' \<noteq> None) w"
proof -
  have f: "wp (do { set_error GUM_ERROR_HOME_DIR_COPY_FAILURE; ret (False, d) }) (\<lambda>(ok, _) w'. \<not> ok \<longrightarrow> gerror w' \<noteq> None) w" for w
    by (intro wp_rules) simp
  show ?thesis
    unfolding copy_dir_recursively_def copy_opened_def
    by (auto intro!: wp_bind wp_sys wp_if f copy_entries_error simp del: not_None_eq split: option.split htree.split)
qed

section \<open>The home directory\<close>

lemma wp_on_tree:
  "wp (f (trees w path)) (\<lambda>(ok, d) w'. Q ok (w'\<lparr>trees := (trees w')(path := d)\<rparr>)) w \<Longrightarrow> wp (on_tree path f) Q w"
  unfolding on_tree_def by (intro wp_rules) (auto elim!: wp_mono intro!: wp_rules)

text \<open>What is known of the node of the home directory as it is made.\<close>

definition home_dir_is :: "string \<Rightarrow> (attrs \<Rightarrow> bool) \<Rightarrow> (string \<times> htree) list \<Rightarrow> world \<Rightarrow> bool" where
  "home_dir_is home P es w \<longleftrightarrow> (\<exists>a. P a \<and> trees w home = Some (HDir a es))"

lemma home_step:
  assumes "home_dir_is home (\<lambda>_. True) es w" "frame trees (f (trees w home))"
    and "wp (f (trees w home)) (\<lambda>(ok, d) _. ok \<longrightarrow> (\<exists>R. retouched R (trees w home) d \<and> (\<forall>a b. trees w home = Some (HDir a es) \<longrightarrow> R a b \<longrightarrow> P b))) w"
  shows "wp (on_tree home f) (\<lambda>ok w'. (\<forall>p. p \<noteq> home \<longrightarrow> trees w' p = trees w p) \<and> (ok \<longrightarrow> home_dir_is home P es w')) w"
proof (rule wp_on_tree, rule wp_mono [OF wp_conj [OF assms(3) frame_wp [OF assms(2)]]], assumption)
  fix r and w' :: world
  assume r: "(case r of (ok, d) \<Rightarrow> \<lambda>_. ok \<longrightarrow> (\<exists>R. retouched R (trees w home) d \<and>
      (\<forall>a b. trees w home = Some (HDir a es) \<longrightarrow> R a b \<longrightarrow> P b))) w' \<and> trees w' = trees w"
  obtain ok d where [simp]: "r = (ok, d)" by (cases r)
  from assms(1) obtain a where a: "trees w home = Some (HDir a es)" by (auto simp: home_dir_is_def)
  have "home_dir_is home P es (w'\<lparr>trees := (trees w')(home := d)\<rparr>)" if ok
  proof -
    from r that obtain R where R: "retouched R (trees w home) d" "\<And>b. R a b \<Longrightarrow> P b" using a by auto
    then obtain f where "\<forall>a. R a (f a)" "d = Some (HDir (f a) es)" using a by (auto simp: retouched_def)
    with R(2) show ?thesis by (auto simp: home_dir_is_def)
  qed
  with r show "(case r of (ok, d) \<Rightarrow> \<lambda>w'. (\<forall>p. p \<noteq> home \<longrightarrow> trees (w'\<lparr>trees := (trees w')(home := d)\<rparr>) p = trees w p) \<and>
      (ok \<longrightarrow> home_dir_is home P es (w'\<lparr>trees := (trees w')(home := d)\<rparr>))) w'" by simp
qed

definition home_created :: "string \<Rightarrow> uid_t \<Rightarrow> gid_t \<Rightarrow> htree \<Rightarrow> world \<Rightarrow> bool \<Rightarrow> world \<Rightarrow> bool" where
  "home_created home u g skel w ok w' \<longleftrightarrow>
     (\<forall>p. p \<noteq> home \<longrightarrow> trees w' p = trees w p) \<and>
     (if ok then \<exists>t. trees w' home = Some t \<and> copy_of u g skel t else gerror w' \<noteq> None)"

definition at_home :: "string \<Rightarrow> (attrs \<Rightarrow> bool) \<Rightarrow> world \<Rightarrow> bool \<Rightarrow> world \<Rightarrow> bool" where
  "at_home home P w ok w' \<longleftrightarrow> (\<forall>p. p \<noteq> home \<longrightarrow> trees w' p = trees w p) \<and> (ok \<longrightarrow> home_dir_is home P [] w')"

lemma at_home_step:
  assumes w1: "at_home home P w True w1" and f: "\<And>d. frame trees (f d)"
    and s: "\<And>a. P a \<Longrightarrow> wp (f (Some (HDir a []))) (\<lambda>(ok, d) _. ok \<longrightarrow>
      (\<exists>R. retouched R (Some (HDir a [])) d \<and> (\<forall>b. R a b \<longrightarrow> P' b))) w1"
  shows "wp (on_tree home f) (\<lambda>ok w'. at_home home P' w ok w') w1"
proof -
  from w1 obtain a where a: "P a" "trees w1 home = Some (HDir a [])"
    by (auto simp: at_home_def home_dir_is_def)
  show ?thesis
    by (rule wp_mono, rule home_step [where es = "[]" and P = P', OF _ f])
      (use a s [OF a(1)] w1 in \<open>auto simp: home_dir_is_def at_home_def\<close>)
qed

lemma home_tail:
  assumes w1: "at_home home (\<lambda>_. True) w True w1" and ne: "sp \<noteq> home"
    and skel: "trees w sp = Some (HDir sa es)" "names_ok (HDir sa es)"
  shows "wp (do {
      ok \<leftarrow> on_tree home (set_smack64_node C key);
      if \<not> ok then fail_with GUM_ERROR_FILE_ATTRIBUTE
      else do {
        skel \<leftarrow> gets (\<lambda>w. trees w sp);
        ok \<leftarrow> (case skel of Some src \<Rightarrow> on_tree home (copy_attributes_node C sp src home) | None \<Rightarrow> ret False);
        if \<not> ok then fail_with GUM_ERROR_FILE_ATTRIBUTE
        else do {
          ok \<leftarrow> on_tree home (chown_node C home u g);
          if \<not> ok then fail_with GUM_ERROR_HOME_DIR_CREATE_FAILURE
          else on_tree home (copy_dir_recursively C (Some sp) (Some home) u g um skel) } } })
    (\<lambda>ok w'. home_created home u g (HDir sa es) w ok w') w1"
proof (rule wp_step)
  have nt: "node_indep trees" by (simp add: node_indep_def)
  note steps = frame_node_steps [OF nt]
  show "wp (on_tree home (set_smack64_node C key)) (\<lambda>ok w'. at_home home (\<lambda>_. True) w ok w') w1"
    by (rule at_home_step [OF w1 steps(2)], rule wp_mono [OF set_smack64_node_spec]) auto
  fix ok w2 assume w2: "at_home home (\<lambda>_. True) w ok w2"
  then have sp2: "trees w2 sp = Some (HDir sa es)" using skel(1) ne by (simp add: at_home_def)
  have attrs: "wp (on_tree home (copy_attributes_node C sp (HDir sa es) home))
      (\<lambda>ok w'. at_home home (\<lambda>b. i_mode b = i_mode sa) w ok w') w2" if ok
    using w2 that
    by (intro at_home_step [OF _ steps(7)], simp) (rule wp_mono [OF copy_attributes_node_spec],
       auto simp: attrs_copied_def chmoded_def)
  have own: "wp (on_tree home (chown_node C home u g))
      (\<lambda>ok w'. at_home home (\<lambda>b. i_mode b = i_mode sa \<and> i_uid b = u \<and> i_gid b = g) w ok w') w3"
    if "at_home home (\<lambda>b. i_mode b = i_mode sa) w True w3" for w3
    by (rule at_home_step [OF that steps(5)], rule wp_mono [OF chown_node_spec]) (auto simp: owned_def)
  have copy: "wp (on_tree home (copy_dir_recursively C (Some sp) (Some home) u g um (Some (HDir sa es))))
      (\<lambda>ok w'. home_created home u g (HDir sa es) w ok w') w4"
    if w4: "at_home home (\<lambda>b. i_mode b = i_mode sa \<and> i_uid b = u \<and> i_gid b = g) w True w4" for w4
  proof -
    from w4 obtain a where a: "i_mode a = i_mode sa" "i_uid a = u" "i_gid a = g"
      "trees w4 home = Some (HDir a [])" by (auto simp: at_home_def home_dir_is_def)
    have "wp (copy_entries C u g um sp home es (Some (HDir a []))) (\<lambda>(ok, d') _. copied (Some a) u g es [] ok d') w" for w
      by (rule copy_entries_spec) (use skel(2) in \<open>auto simp: dir_is_def\<close>)
    then have cp: "wp (copy_dir_recursively C (Some sp) (Some home) u g um (Some (HDir sa es)) (Some (HDir a [])))
        (\<lambda>(ok, d') _. copied (Some a) u g es [] ok d') w4"
      unfolding copy_dir_recursively_def copy_opened_def option.case prod.case htree.case
      by (intro wp_rules) (auto simp: copied_def dir_is_def)
    have "\<exists>t. d = Some t \<and> copy_of u g (HDir sa es) t" if "copied (Some a) u g es [] True d" for d
      using that a by (auto simp: copied_def dir_is_def copy_of_def)
    moreover have tr: "wp (copy_dir_recursively C (Some sp) (Some home) u g um (Some (HDir sa es)) (Some (HDir a [])))
        (\<lambda>_ w'. trees w' = trees w4) w4" by (rule frame_wp [OF frame_copy_dir [OF nt]]) simp
    ultimately show ?thesis
      using w4 a(4)
      by (intro wp_on_tree) (auto intro!: wp_mono [OF wp_conj [OF wp_conj [OF cp copy_dir_error] tr]] simp: home_created_def at_home_def)
  qed
  have fail: "home_created home u g (HDir sa es) w False (w'\<lparr>gerror := Some e\<rparr>)"
    if "at_home home P w ok w'" for P ok w' e
    using that by (simp add: home_created_def at_home_def)
  show "wp (if \<not> ok then fail_with GUM_ERROR_FILE_ATTRIBUTE
      else do {
        skel \<leftarrow> gets (\<lambda>w. trees w sp);
        ok \<leftarrow> (case skel of Some src \<Rightarrow> on_tree home (copy_attributes_node C sp src home) | None \<Rightarrow> ret False);
        if \<not> ok then fail_with GUM_ERROR_FILE_ATTRIBUTE
        else do {
          ok \<leftarrow> on_tree home (chown_node C home u g);
          if \<not> ok then fail_with GUM_ERROR_HOME_DIR_CREATE_FAILURE
          else on_tree home (copy_dir_recursively C (Some sp) (Some home) u g um skel) } })
    (\<lambda>ok w'. home_created home u g (HDir sa es) w ok w') w2"
    apply (rule wp_if, rule wp_fail_with, rule fail [OF w2])
    apply (rule wp_bind, rule wp_gets, unfold sp2 option.case)
    apply (rule wp_step [OF attrs], simp)
    apply (rule wp_if, rule wp_fail_with, rule fail, assumption, simp only: not_not)
    apply (rule wp_step [OF own], assumption)
    apply (rule wp_if, rule wp_fail_with, rule fail, assumption, simp only: not_not)
    apply (erule copy)
    done
qed

section \<open>Deleting\<close>

text \<open>What can be left of a directory: some entries are gone, from subdirectories too.\<close>

fun pruned :: "htree \<Rightarrow> htree \<Rightarrow> bool"
  and pruned_list :: "(string \<times> htree) list \<Rightarrow> (string \<times> htree) list \<Rightarrow> bool" where
  "pruned (HDir a es) (HDir b fs) = (a = b \<and> pruned_list es fs)"
| "pruned s t = (s = t)"
| "pruned_list [] fs = (fs = [])"
| "pruned_list ((n, s) # es) fs =
     (pruned_list es fs \<or>
      (case fs of [] \<Rightarrow> False | (m, t) # fs' \<Rightarrow> m = n \<and> pruned s t \<and> pruned_list es fs'))"

lemma pruned_list_refl: "\<forall>e\<in>set es. pruned (snd e) (snd e) \<Longrightarrow> pruned_list es es"
  by (induction es) auto

lemma pruned_refl: "pruned t t"
proof (induction t)
  case (HDir a es)
  then have "\<forall>e\<in>set es. pruned (snd e) (snd e)" by force
  then show ?case by (simp add: pruned_list_refl)
qed simp_all

definition deleted :: "attrs \<Rightarrow> (string \<times> htree) list \<Rightarrow> bool \<Rightarrow> node \<Rightarrow> world \<Rightarrow> bool" where
  "deleted a es ok d w' \<longleftrightarrow>
     (if ok then d = None else gerror w' \<noteq> None \<and> (\<exists>fs. d = Some (HDir a fs) \<and> pruned_list es fs))"

lemma remove_dir_spec:
  assumes "\<And>w. wp clear (\<lambda>(ok, fs) _. pruned_list es fs) w"
  shows "wp (remove_dir C a clear es) (\<lambda>(ok, d) w'. deleted a es ok d w') w"
  unfolding remove_dir_def
  by (intro wp_bind wp_sys wp_if wp_set_error wp_return wp_step [OF assms] wp_case_prod)
    (auto simp: deleted_def pruned_list_refl pruned_refl)

lemma delete_entries_spec: "wp (delete_entries C es) (\<lambda>(ok, fs) _. pruned_list es fs) w"
proof (induction es arbitrary: w rule: measure_induct_rule [where f = "size_list (size_prod (\<lambda>_. 0) size)"])
  case (less es)
  show ?case
  proof (cases es)
    case Nil
    then show ?thesis by (simp add: wp_return)
  next
    case (Cons e rest)
    obtain n entry where e: "e = (n, entry)" by (cases e)
    have rest: "wp (delete_entries C rest) (\<lambda>(ok, fs) _. pruned_list rest fs) w" for w
      by (rule less.IH) (simp add: Cons e)
    have sub: "wp (delete_entries C es') (\<lambda>(ok, fs) _. pruned_list es' fs) w" if "entry = HDir a es'" for a es' w
      by (rule less.IH) (simp add: Cons e that)
    have one: "wp (if \<not> found then ret (False, Some entry)
           else case entry of
             HDir a es \<Rightarrow> remove_dir C a (delete_entries C es) es
           | _ \<Rightarrow> do { ok \<leftarrow> sys C SysRemove; ret (ok, if ok then None else Some entry) })
        (\<lambda>(ok, left) _. if ok then left = None else \<exists>t. left = Some t \<and> pruned entry t) w" for found w
    proof (cases entry)
      case (HDir a es')
      then show ?thesis
        by (auto intro!: wp_rules wp_mono [OF remove_dir_spec [OF sub]]
            simp: pruned_list_refl pruned_refl deleted_def)
    qed (auto intro!: wp_rules simp: pruned_refl)
    have left: "pruned_list es (case left of None \<Rightarrow> fs | Some t \<Rightarrow> (n, t) # fs)"
      if "pruned_list rest fs" "\<forall>t. left = Some t \<longrightarrow> pruned entry t" for left fs
      using that by (auto simp: Cons e split: option.split)
    note keep = pruned_list_refl [of rest] pruned_refl
    show ?thesis
      unfolding Cons e delete_entries.simps
      apply (rule wp_if)
       apply (rule wp_step [OF rest], rule wp_case_prod, rule wp_return, simp add: keep)
      apply (rule wp_bind, rule wp_sys, rule wp_step [OF one], rule wp_case_prod, rule wp_if)
       apply (rule wp_return, auto simp: keep split: option.splits)[1]
      apply (rule wp_mono [OF rest], auto)
      done
  qed
qed

definition home_deleted :: "string \<Rightarrow> world \<Rightarrow> bool \<Rightarrow> world \<Rightarrow> bool" where
  "home_deleted path w ok w' \<longleftrightarrow>
     (\<forall>p. p \<noteq> path \<longrightarrow> trees w' p = trees w p) \<and>
     (if ok then trees w' path = None
      else gerror w' \<noteq> None \<and>
        (case (trees w path, trees w' path) of
           (Some s, Some t) \<Rightarrow> pruned s t
         | (None, None) \<Rightarrow> True | _ \<Rightarrow> False))"

section \<open>Properties\<close>


definition ref_skel :: htree where
  "ref_skel = HDir ref_attrs [(''a'', HFile ref_attrs ''x''), (''d'', HDir ref_attrs [(''l'', HLink ref_attrs ''a'')])]"



end
