(* ===== verification/Gumd_Group_Db.thy ===== *)
theory Gumd_Group_Db
  imports Gumd_Group
begin

text \<open>
  What the operations of the group object do to the databases: the lemmas on the search for
  a free group id, on the two update callbacks as changes of the group and gshadow entries,
  and on each handler, with the properties of the component.
\<close>

section \<open>The search for a free id\<close>

interpretation gid_search: id_search C
  "\<lambda>t. gum_file_getgrgid C t (cfg C GUM_CONFIG_GENERAL_GROUP_FILE)" "find_gid_loop C"
  "used_ids gr_entries gr_gid (cfg C GUM_CONFIG_GENERAL_GROUP_FILE)" for C
  by unfold_locales (rule find_gid_loop.simps, rule getgrgid_used, simp_all)

text \<open>The group id a new group gets.\<close>

lemma find_free_gid_spec:
  assumes "reads_ok C" and "snd (get_default_gid_range C self) < 0xFFFFFFFF"
  defines "used \<equiv> used_ids gr_entries gr_gid (cfg C GUM_CONFIG_GENERAL_GROUP_FILE)"
    and "rg \<equiv> get_default_gid_range C self"
  shows "wp (find_free_gid C self pref) (\<lambda>r w'. (\<exists>n. w' = w\<lparr>tick := n\<rparr>) \<and>
     (if pref \<noteq> GUM_GROUP_INVALID_GID \<and> pref \<notin> used w then r = Some pref
      else case r of
        None \<Rightarrow> fst rg < snd rg \<longrightarrow> (\<forall>i. fst rg \<le> i \<and> i \<le> snd rg \<longrightarrow> i \<in> used w)
      | Some g \<Rightarrow> fst rg \<le> g \<and> g \<le> snd rg \<and> g \<notin> used w \<and>
                  (\<forall>i. fst rg \<le> i \<and> i < g \<longrightarrow> i \<in> used w))) w"
proof -
  have "unat (snd rg) + 1 \<le> all_ids"
    using assms(2) by (simp add: all_ids_def rg_def word_less_nat_alt)
  then have "wp (find_gid_loop C all_ids (fst rg) (snd rg))
      (gid_search.found C (fst rg) (snd rg) w1) w1" for w1
    using assms by (intro gid_search.loop_finds) auto
  moreover obtain mn mx where rg: "rg = (mn, mx)" by (cases rg)
  ultimately have loop: "wp (find_gid_loop C all_ids mn mx) (gid_search.found C mn mx w1) w1" for w1
    by simp
  have pref: "wp (if pref \<noteq> GUM_GROUP_INVALID_GID
               then do { g \<leftarrow> gum_file_getgrgid C pref (cfg C GUM_CONFIG_GENERAL_GROUP_FILE);
                         ret (g = None) }
               else ret False) (\<lambda>f w'. (\<exists>n. w' = w\<lparr>tick := n\<rparr>) \<and>
                 (f \<longleftrightarrow> pref \<noteq> GUM_GROUP_INVALID_GID \<and> pref \<notin> used w)) w"
    using getgrgid_used [OF assms(1), of pref]
    by (auto intro!: wp_step [OF getgrgid_used [OF assms(1)]] wp_return exI [of _ "tick w"]
             simp: used_def)
  show ?thesis
    unfolding find_free_gid_def rg_def [symmetric] rg prod.case Let_def fst_conv snd_conv
    by (rule wp_step [OF pref])
      (auto intro!: wp_rules wp_mono [OF loop] simp: gid_search.found_def used_def
            split: prod.splits option.splits)
qed

section \<open>The files after an update\<close>

lemma update_daemon_group_entry_callback:
  "update_callback C (update_daemon_group_entry C self op ud)
     (pass_out gr_entries (\<lambda>e. map_option GrLine (group_line e))
        (group_switch op (gd_group self) ud) op (gd_group self))"
  using update_entries_callback [of C "\<lambda>e. map_option GrLine (group_line e)"]
  unfolding update_daemon_group_entry_def [abs_def] putgrent_def .

lemma update_gshadow_entry_callback:
  "update_callback C (update_gshadow_entry C self op ud)
     (pass_out sg_entries (\<lambda>e. map_option SgLine (sgrp_line e))
        (gshadow_switch op (gd_gshadow self) ud) op (gd_gshadow self))"
  using update_entries_callback [of C "\<lambda>e. map_option SgLine (sgrp_line e)"]
  unfolding update_gshadow_entry_def [abs_def] putsgent_def .

interpretation group_file: update_callback C "update_daemon_group_entry C self op ud"
  "pass_out gr_entries (\<lambda>e. map_option GrLine (group_line e))
     (group_switch op (gd_group self) ud) op (gd_group self)" for C self op ud
  by (rule update_daemon_group_entry_callback)

interpretation gshadow_file: update_callback C "update_gshadow_entry C self op ud"
  "pass_out sg_entries (\<lambda>e. map_option SgLine (sgrp_line e))
     (gshadow_switch op (gd_gshadow self) ud) op (gd_gshadow self)" for C self op ud
  by (rule update_gshadow_entry_callback)

text \<open>The switches have the common shapes.\<close>

definition group_matches :: "group_t \<Rightarrow> pstr \<Rightarrow> group_t \<Rightarrow> bool" where
  "group_matches g old_name e \<longleftrightarrow> gr_gid g = gr_gid e \<and> old_name = gr_name e"

lemma group_switch_add:
  "update_out (group_switch GUM_OPTYPE_ADD g ud) GUM_OPTYPE_ADD g es =
     Some (insert_before (\<lambda>e. gr_gid g < gr_gid e) g es)"
  by (rule update_out_insert) (auto simp: group_switch_def)

lemma group_switch_delete:
  "update_out (group_switch GUM_OPTYPE_DELETE g ud) GUM_OPTYPE_DELETE g es =
     (if \<exists>e\<in>set es. group_matches g (gr_name g) e
      then Some (subst_first (group_matches g (gr_name g)) [] es) else None)"
  by (rule update_out_subst) (auto simp: group_switch_def group_matches_def)

lemma group_switch_modify:
  "update_out (group_switch GUM_OPTYPE_MODIFY g ud) GUM_OPTYPE_MODIFY g es =
     (let old = if ud \<noteq> None then ud else gr_name g
      in if \<exists>e\<in>set es. group_matches g old e
         then Some (subst_first (group_matches g old) [g] es) else None)"
  unfolding Let_def
  by (rule update_out_subst) (auto simp: group_switch_def group_matches_def)

lemma gshadow_switch_add:
  "update_out (gshadow_switch GUM_OPTYPE_ADD g ud) GUM_OPTYPE_ADD g es =
     (if \<exists>e\<in>set es. sg_namp g = sg_namp e then None else Some (es @ [g]))"
  by (rule update_out_append [where err = GUM_ERROR_GROUP_ALREADY_EXISTS])
    (auto simp: gshadow_switch_def)

lemma gshadow_switch_delete:
  "update_out (gshadow_switch GUM_OPTYPE_DELETE g ud) GUM_OPTYPE_DELETE g es =
     (if \<exists>e\<in>set es. sg_namp g = sg_namp e
      then Some (subst_first (\<lambda>e. sg_namp g = sg_namp e) [] es) else None)"
  by (rule update_out_subst) (auto simp: gshadow_switch_def)

lemma gshadow_switch_modify:
  "update_out (gshadow_switch GUM_OPTYPE_MODIFY g ud) GUM_OPTYPE_MODIFY g es =
     (let old = if ud \<noteq> None then ud else sg_namp g
      in if \<exists>e\<in>set es. old = sg_namp e
         then Some (subst_first (\<lambda>e. old = sg_namp e) [g] es) else None)"
  unfolding Let_def by (rule update_out_subst) (auto simp: gshadow_switch_def)

text \<open>So both callbacks are passes of the common kind, on any file they are used for.\<close>

definition group_acts :: "GumOpType \<Rightarrow> group_t \<Rightarrow> pstr \<Rightarrow> group_t \<Rightarrow> bool" where
  "group_acts op g ud =
     group_matches g (if op = GUM_OPTYPE_MODIFY \<and> ud \<noteq> None then ud else gr_name g)"

definition gshadow_acts :: "GumOpType \<Rightarrow> sgrp \<Rightarrow> pstr \<Rightarrow> sgrp \<Rightarrow> bool" where
  "gshadow_acts op g ud =
     (\<lambda>e. (if op = GUM_OPTYPE_MODIFY \<and> ud \<noteq> None then ud else sg_namp g) = sg_namp e)"

lemma group_switch_out:
  "update_out (group_switch op g ud) op g es =
   switch_out op g (\<lambda>e. gr_gid g < gr_gid e) (\<lambda>_. False) (group_acts op g ud) es"
  by (cases op) (simp_all add: switch_out_def group_acts_def group_switch_add group_switch_delete
      group_switch_modify Let_def)

lemma gshadow_switch_out:
  "update_out (gshadow_switch op g ud) op g es =
   switch_out op g (\<lambda>_. False) (\<lambda>e. sg_namp g = sg_namp e) (gshadow_acts op g ud) es"
  by (cases op) (simp_all add: switch_out_def gshadow_acts_def gshadow_switch_add
      gshadow_switch_delete gshadow_switch_modify Let_def insert_before_False)

abbreviation group_change :: "GumOpType \<Rightarrow> group_t \<Rightarrow> pstr \<Rightarrow> group_t list \<Rightarrow> group_t list \<Rightarrow> bool" where
  "group_change op g ud \<equiv>
     entry_change group_line op g (\<lambda>e. gr_gid g < gr_gid e) (\<lambda>_. False) (group_acts op g ud)"

abbreviation gshadow_change :: "GumOpType \<Rightarrow> sgrp \<Rightarrow> pstr \<Rightarrow> sgrp list \<Rightarrow> sgrp list \<Rightarrow> bool" where
  "gshadow_change op g ud \<equiv>
     entry_change sgrp_line op g (\<lambda>_. False) (\<lambda>e. sg_namp g = sg_namp e) (gshadow_acts op g ud)"

abbreviation gr_wf :: "group_t list \<Rightarrow> bool" where
  "gr_wf \<equiv> wf_entries group_line"

abbreviation sg_wf :: "sgrp list \<Rightarrow> bool" where
  "sg_wf \<equiv> wf_entries sgrp_line"

text \<open>What an update by each callback does to the four databases.\<close>

definition group_updated ::
    "ctx \<Rightarrow> GumOpType \<Rightarrow> group_t \<Rightarrow> pstr \<Rightarrow> world \<Rightarrow> bool \<Rightarrow> world \<Rightarrow> bool" where
  "group_updated C op g ud w ok w' \<longleftrightarrow> others_kept C (group_path C) w w' \<and>
     (if ok then group_change op g ud (group_db C w) (group_db C w')
      else files w' (group_path C) = files w (group_path C) \<and> gerror w' \<noteq> None)"

definition gshadow_updated ::
    "ctx \<Rightarrow> GumOpType \<Rightarrow> sgrp \<Rightarrow> pstr \<Rightarrow> world \<Rightarrow> bool \<Rightarrow> world \<Rightarrow> bool" where
  "gshadow_updated C op g ud w ok w' \<longleftrightarrow> others_kept C (gshadow_path C) w w' \<and>
     (if ok then gshadow_change op g ud (gshadow_db C w) (gshadow_db C w')
      else files w' (gshadow_path C) = files w (gshadow_path C) \<and> gerror w' \<noteq> None)"

lemma group_update_step:
  assumes "paths_ok C" and "reads_ok C" and "gr_wf (group_db C w)"
  shows "wp (gum_file_update C (Some (update_daemon_group_entry C self op ud))
               (cfg C GUM_CONFIG_GENERAL_GROUP_FILE))
    (group_updated C op (gd_group self) ud w) w"
  using gr_file.update_step [OF assms(1,2) _ _ group_switch_out, of "group_path C" w op "gd_group self" ud] assms(3)
  unfolding paths_okD(3) [OF assms(1)] update_daemon_group_entry_def [abs_def] putgrent_def
    group_updated_def [abs_def] group_db_def
  by (simp add: db_paths_def)

lemma gshadow_update_step:
  assumes "paths_ok C" and "reads_ok C" and "sg_wf (gshadow_db C w)"
  shows "wp (gum_file_update C (Some (update_gshadow_entry C self op ud))
               (cfg C GUM_CONFIG_GENERAL_GSHADOW_FILE))
    (gshadow_updated C op (gd_gshadow self) ud w) w"
  using sg_file.update_step [OF assms(1,2) _ _ gshadow_switch_out, of "gshadow_path C" w op "gd_gshadow self" ud] assms(3)
  unfolding paths_okD(4) [OF assms(1)] update_gshadow_entry_def [abs_def] putsgent_def
    gshadow_updated_def [abs_def] gshadow_db_def
  by (simp add: db_paths_def)

text \<open>The gshadow file is updated only if it is there.\<close>

definition gshadow_if_there ::
    "ctx \<Rightarrow> GumOpType \<Rightarrow> sgrp \<Rightarrow> pstr \<Rightarrow> world \<Rightarrow> bool \<Rightarrow> world \<Rightarrow> bool" where
  "gshadow_if_there C op g ud w ok w' \<longleftrightarrow>
     (if files w (gshadow_path C) = None then ok \<and> files w' = files w
      else gshadow_updated C op g ud w ok w')"

lemma gshadow_update_if_exists:
  assumes "paths_ok C" and "reads_ok C" and "sg_wf (gshadow_db C w)"
  shows "wp (update_if_exists C (update_gshadow_entry C self op ud)
               (cfg C GUM_CONFIG_GENERAL_GSHADOW_FILE))
    (gshadow_if_there C op (gd_gshadow self) ud w) w"
  unfolding update_if_exists_def file_test_exists_def
proof (intro wp_bind wp_gets wp_if wp_return)
  assume e: "case cfg C GUM_CONFIG_GENERAL_GSHADOW_FILE of None \<Rightarrow> False | Some p \<Rightarrow> files w p \<noteq> None"
  show "wp (gum_file_update C (Some (update_gshadow_entry C self op ud)) (cfg C GUM_CONFIG_GENERAL_GSHADOW_FILE))
      (gshadow_if_there C op (gd_gshadow self) ud w) w"
    using e paths_okD(4) [OF assms(1)]
    by (intro wp_mono [OF gshadow_update_step [OF assms]]) (auto simp: gshadow_if_there_def)
next
  assume "\<not> (case cfg C GUM_CONFIG_GENERAL_GSHADOW_FILE of None \<Rightarrow> False | Some p \<Rightarrow> files w p \<noteq> None)"
  then show "gshadow_if_there C op (gd_gshadow self) ud w True w"
    using paths_okD(4) [OF assms(1)] by (simp add: gshadow_if_there_def)
qed

lemma gshadow_if_there_kept:
  "gshadow_if_there C op g ud w ok w' \<Longrightarrow> others_kept C (gshadow_path C) w w'"
  by (auto simp: gshadow_if_there_def gshadow_updated_def others_kept_def split: if_splits)

section \<open>What leaves the databases alone\<close>

lemma frame_db_group:
  assumes "db_indep g"
  shows "frame g (check_group_type gr)"
    and "frame g (group_set_secret C gr)" and "frame g (set_gshadow_data C gr)"
    and "frame g (get_group C gr)" and "frame g (copy_group_data C gr gent sgent)"
proof -
  note g = db_indepD [OF assms]
  show "frame g (check_group_type gr)"
    unfolding check_group_type_def by (intro frame_rules g)
  show secret: "frame g (group_set_secret C gr)" for gr
    unfolding group_set_secret_def by (intro frame_rules g)
  show "frame g (set_gshadow_data C gr)"
    unfolding set_gshadow_data_def by (intro frame_rules secret)
  show group: "frame g (get_group C gr)" for gr
    unfolding get_group_def by (intro frame_rules frame_db [OF assms] g)
  show "frame g (copy_group_data C gr gent sgent)"
    unfolding copy_group_data_def by (intro frame_rules group frame_db [OF assms])
qed

lemmas group_files_kept = frame_db_group [OF db_indep_files, THEN frame_wp]

section \<open>Adding a group\<close>

definition group_added :: "ctx \<Rightarrow> daemon_group \<Rightarrow> gid_t \<Rightarrow> group_t list \<Rightarrow> group_t \<Rightarrow> group_t list \<Rightarrow> bool" where
  "group_added C self pref db g db' \<longleftrightarrow>
     db' = insert_before (\<lambda>e. gr_gid g < gr_gid e) g db \<and>
     group_line g = Some g \<and>
     gr_name g = gr_name (gd_group self) \<and> valid (gum_validate_name (gr_name g)) \<and>
     gr_name g \<notin> gr_name ` set db \<and> gr_passwd g = Some ''x'' \<and>
     gr_mem g = nnl (gr_mem (gd_group self)) \<and>
     chosen_id (get_default_gid_range C self) pref (gr_gid ` set db) (gr_gid g)"

lemma set_gid_property_eq: "set_gid_property self v = map_group (\<lambda>g. g\<lparr>gr_gid := v\<rparr>) self"
  by (cases self) (simp add: set_gid_property_def)

lemma set_gid_spec:
  assumes "paths_ok C" and "reads_ok C" and "snd (get_default_gid_range C self) < 0xFFFFFFFF"
  shows "wp (set_gid C self pref) (\<lambda>(ok, self') w'. files w' = files w \<and>
    (ok \<longrightarrow> (\<exists>i. self' = map_group (\<lambda>g. g\<lparr>gr_gid := i\<rparr>) self \<and>
       valid (gum_validate_name (gr_name (gd_group self))) \<and>
       gr_name (gd_group self) \<notin> gr_name ` set (group_db C w) \<and>
       chosen_id (get_default_gid_range C self) pref (gr_gid ` set (group_db C w)) i))) w"
proof (cases "gum_validate_name (gr_name (gd_group self))")
  case (Inl e)
  then show ?thesis by (auto simp: set_gid_def check_valid_def intro!: wp_rules)
next
  case (Inr u)
  then obtain n where n: "gr_name (gd_group self) = Some n" "gum_validate_name (Some n) = Inr ()"
    by (auto simp: gum_validate_name_iff)
  have used: "used_ids gr_entries gr_gid (cfg C GUM_CONFIG_GENERAL_GROUP_FILE) w1 =
      gr_gid ` set (group_db C w1)" for w1
    by (simp add: used_ids_def group_db_def paths_okD(3) [OF assms(1)])
  have find: "wp (find_free_gid C self pref) (\<lambda>r w'. files w' = files w \<and> (\<forall>i. r = Some i \<longrightarrow>
      chosen_id (get_default_gid_range C self) pref (gr_gid ` set (group_db C w)) i)) w1"
    if "files w1 = files w" for w1
    using find_free_gid_spec [OF assms(2,3), of pref w1] unfolding used db_cong(3) [OF fun_cong [OF that]]
    by (rule wp_mono) (auto simp: that chosen_id_def GUM_GROUP_INVALID_GID_def split: if_splits)
  have names: "List.find (\<lambda>p. gr_name p = Some n) es = None \<longleftrightarrow> Some n \<notin> gr_name ` set es" for es
    unfolding find_None_iff_all by force
  show ?thesis
    unfolding set_gid_def n check_valid_def paths_okD(3) [OF assms(1)] sum.case
  proof (rule wp_bind, rule wp_return, simp only: not_True_eq_False if_False,
      rule wp_step [OF lookups(4)])
    fix r w1
    assume r: "looked_up C gr_entries (\<lambda>p. gr_name p = Some n) (group_path C) w r w1"
    then have w1: "files w1 = files w" by (auto simp: looked_up_def)
    from r assms(2) have "r = List.find (\<lambda>p. gr_name p = Some n) (group_db C w)"
      by (simp add: looked_up_def group_db_def)
    then have nn: "r = None \<Longrightarrow> Some n \<notin> gr_name ` set (group_db C w)"
      using names by metis
    show "wp (if r \<noteq> None then do { set_error GUM_ERROR_GROUP_ALREADY_EXISTS; ret (False, self) }
        else do {
          r \<leftarrow> find_free_gid C self pref;
          case r of
            None \<Rightarrow> do { set_error GUM_ERROR_GROUP_GID_NOT_AVAILABLE; ret (False, self) }
          | Some gid \<Rightarrow> ret (True, set_gid_property self gid) })
      (\<lambda>(ok, self') w'. files w' = files w \<and>
        (ok \<longrightarrow> (\<exists>i. self' = map_group (\<lambda>g. g\<lparr>gr_gid := i\<rparr>) self \<and>
          (Inr () :: GumError + unit) = Inr () \<and> Some n \<notin> gr_name ` set (group_db C w) \<and>
          chosen_id (get_default_gid_range C self) pref (gr_gid ` set (group_db C w)) i))) w1"
      by (intro wp_if wp_bind wp_set_error wp_return wp_case_option wp_mono [OF find [OF w1]])
        (use nn n(2) in \<open>auto simp: w1 set_gid_property_eq\<close>)
  qed
qed

lemma secret_x: "valid (gum_validate_db_secret_entry (Some ''x''))"
  by code_simp

lemma set_secret_x:
  "gd_group (set_secret_property self (Some ''x'')) = (gd_group self)\<lparr>gr_passwd := Some ''x''\<rparr>"
  "gd_gshadow (set_secret_property self v) = gd_gshadow self"
  "gd_type (set_secret_property self v) = gd_type self"
  using secret_x by (cases "gd_group self"; simp add: set_secret_property_def)+

text \<open>
  What storing the secret does to the object: the group entry refers to gshadow, whose
  entry is locked if there was no secret.
\<close>

definition stored_secret :: "ctx \<Rightarrow> daemon_group \<Rightarrow> string \<Rightarrow> bool" where
  "stored_secret C self pw \<longleftrightarrow>
     (case gr_passwd (gd_group self) of
        None \<Rightarrow> pw = (if gd_type self = GUM_GROUPTYPE_SYSTEM then ''*'' else ''!'')
      | Some p \<Rightarrow> hashed C (cfg C GUM_CONFIG_GENERAL_ENCRYPT_METHOD) p pw)"

lemma stored_secret_simps [simp]:
  "stored_secret C (map_group (gr_gid_update f) self) pw = stored_secret C self pw"
  "stored_secret C (map_gshadow h self) pw = stored_secret C self pw"
  by (simp_all add: stored_secret_def cong: option.case_cong)

definition secret_stored :: "ctx \<Rightarrow> daemon_group \<Rightarrow> daemon_group \<Rightarrow> bool" where
  "secret_stored C self self' \<longleftrightarrow>
     gd_group self' = (gd_group self)\<lparr>gr_passwd := Some ''x''\<rparr> \<and>
     (\<exists>pw. gd_gshadow self' = (gd_gshadow self)\<lparr>sg_passwd := Some pw\<rparr> \<and>
        stored_secret C self pw)"

lemma group_set_secret_spec:
  "wp (group_set_secret C self) (\<lambda>(ok, self') w'. files w' = files w \<and>
     (ok \<longrightarrow> secret_stored C self self')) w"
  unfolding group_set_secret_def Let_def
  by (intro wp_case_option wp_step [OF encrypt_hashed] wp_rules)
    (auto simp: set_secret_x secret_stored_def stored_secret_def intro!: wp_rules)

definition gshadow_of :: "ctx \<Rightarrow> daemon_group \<Rightarrow> sgrp \<Rightarrow> bool" where
  "gshadow_of C self s \<longleftrightarrow>
     sg_namp s = gr_name (gd_group self) \<and> sg_mem s = gr_mem (gd_group self) \<and>
     sg_adm s = sg_adm (gd_gshadow self) \<and> (\<exists>pw. sg_passwd s = Some pw \<and> stored_secret C self pw)"

lemma set_gshadow_data_spec:
  "wp (set_gshadow_data C self) (\<lambda>(ok, self') w'. files w' = files w \<and>
     (ok \<longrightarrow> gd_group self' = (gd_group self)\<lparr>gr_passwd := Some ''x''\<rparr> \<and>
             gshadow_of C self (gd_gshadow self'))) w"
  unfolding set_gshadow_data_def Let_def
  by (rule wp_step [OF group_set_secret_spec])
    (auto intro!: wp_rules simp: secret_stored_def gshadow_of_def)

text \<open>How the databases change when a group is added.\<close>

definition gshadow_appended :: "ctx \<Rightarrow> daemon_group \<Rightarrow> world \<Rightarrow> world \<Rightarrow> bool" where
  "gshadow_appended C self w w' \<longleftrightarrow>
     (if files w (gshadow_path C) = None then files w' (gshadow_path C) = None
      else \<exists>s0 s. gshadow_of C self s0 \<and> sgrp_line s0 = Some s \<and>
             gr_name (gd_group self) \<notin> sg_namp ` set (gshadow_db C w) \<and>
             gshadow_db C w' = gshadow_db C w @ [s])"

definition group_add_done ::
    "ctx \<Rightarrow> daemon_group \<Rightarrow> gid_t \<Rightarrow> world \<Rightarrow> bool \<Rightarrow> daemon_group \<Rightarrow> world \<Rightarrow> bool" where
  "group_add_done C self pref w ok self' w' \<longleftrightarrow>
     files_eq_on {passwd_path C, shadow_path C} w w' \<and>
     (if ok then (\<exists>g. group_added C self pref (group_db C w) g (group_db C w') \<and>
                      gr_gid g = gr_gid (gd_group self')) \<and> gshadow_appended C self w w'
      else files w' (gshadow_path C) = files w (gshadow_path C) \<and>
           (files w' (group_path C) = files w (group_path C) \<or>
            files w (gshadow_path C) \<noteq> None \<and>
            (\<exists>g. group_added C self pref (group_db C w) g (group_db C w'))))"

text \<open>The object once the id is chosen and the secret stored.\<close>

definition ready_to_add :: "ctx \<Rightarrow> daemon_group \<Rightarrow> gid_t \<Rightarrow> world \<Rightarrow> daemon_group \<Rightarrow> bool" where
  "ready_to_add C self pref w self' \<longleftrightarrow>
     (\<exists>i. gd_group self' = (gd_group self)\<lparr>gr_gid := i, gr_passwd := Some ''x''\<rparr> \<and>
          chosen_id (get_default_gid_range C self) pref (gr_gid ` set (group_db C w)) i) \<and>
     gshadow_of C self (gd_gshadow self') \<and>
     valid (gum_validate_name (gr_name (gd_group self))) \<and>
     gr_name (gd_group self) \<notin> gr_name ` set (group_db C w)"

lemma ready_added:
  assumes "ready_to_add C self pref w self'"
    and "group_change GUM_OPTYPE_ADD (gd_group self') None (group_db C w) db'"
  shows "\<exists>g. group_added C self pref (group_db C w) g db' \<and> gr_gid g = gr_gid (gd_group self')"
proof -
  from assms(2) obtain g where g: "group_line (gd_group self') = Some g"
    "db' = insert_before (\<lambda>e. gr_gid (gd_group self') < gr_gid e) g (group_db C w)"
    by (auto simp: entry_change_def)
  show ?thesis
    using assms(1) g line_keys(3) [OF g(1)] group_line_idem [OF g(1)] line_simps(3) [OF g(1)]
    unfolding ready_to_add_def group_added_def by (intro exI [of _ g]) (auto simp: nn_def)
qed

lemma path_distinct:
  assumes "paths_ok C"
  shows "group_path C \<noteq> gshadow_path C" "passwd_path C \<noteq> gshadow_path C"
    "shadow_path C \<noteq> gshadow_path C" "passwd_path C \<noteq> group_path C" "shadow_path C \<noteq> group_path C"
    "passwd_path C \<noteq> shadow_path C"
  using paths_okD(5) [OF assms] by auto

lemmas kept_defs = others_kept_def files_eq_on_def db_paths_def

lemma group_add_tail:
  assumes ok: "paths_ok C" "reads_ok C" "gr_wf (group_db C w)" "sg_wf (gshadow_db C w)"
    and w: "files w1 = files w" and self: "ready_to_add C self pref w self1"
  shows "wp (do {
      ok \<leftarrow> gum_file_update C (Some (update_daemon_group_entry C self1 GUM_OPTYPE_ADD None))
             (cfg C GUM_CONFIG_GENERAL_GROUP_FILE);
      if \<not> ok then unlock_ret C (False, self1)
      else do {
        ok \<leftarrow> update_if_exists C (update_gshadow_entry C self1 GUM_OPTYPE_ADD None)
               (cfg C GUM_CONFIG_GENERAL_GSHADOW_FILE);
        if \<not> ok then unlock_ret C (False, self1)
        else do {
          uid \<leftarrow> gets ruid;
          gum_utils_run_group_scripts C (GROUPADD_SCRIPT_DIR C) (gr_name (gd_group self1))
            (gr_gid (gd_group self1)) uid;
          unlock_ret C (True, self1) } } })
    (\<lambda>(ok, self') w'. group_add_done C self pref w ok self' w') w1"
proof (rule wp_step [OF group_update_step [OF ok(1,2)]])
  note cong = db_cong [OF fun_cong [OF w]] and pd = path_distinct [OF ok(1)]
  show "gr_wf (group_db C w1)" using ok(3) cong by simp
  fix upd w2
  assume w2: "group_updated C GUM_OPTYPE_ADD (gd_group self1) None w1 upd w2"
  then have sh: "files w2 (gshadow_path C) = files w (gshadow_path C)"
    using pd by (simp add: group_updated_def kept_defs w)
  have pw: "files_eq_on {passwd_path C, shadow_path C} w w2"
    using w2 pd by (simp add: group_updated_def kept_defs w)
  have fail: "group_add_done C self pref w False self1 w'"
    if "\<not> upd \<or> files w (gshadow_path C) \<noteq> None" and w': "files w' = files w3"
      and w3: "others_kept C (gshadow_path C) w2 w3" "files w3 (gshadow_path C) = files w2 (gshadow_path C)" for w' w3
  proof -
    have db: "group_db C w' = group_db C w2" using w' w3 pd by (intro db_cong) (simp add: kept_defs)
    have "upd \<Longrightarrow> \<exists>g. group_added C self pref (group_db C w) g (group_db C w2)"
      using w2 cong ready_added [OF self, of "group_db C w2"] by (auto simp: group_updated_def)
    with that w2 sh pw pd show ?thesis
      by (auto simp: group_add_done_def group_updated_def kept_defs db w split: if_splits)
  qed
  show "wp (if \<not> upd then unlock_ret C (False, self1)
      else do {
        ok \<leftarrow> update_if_exists C (update_gshadow_entry C self1 GUM_OPTYPE_ADD None)
               (cfg C GUM_CONFIG_GENERAL_GSHADOW_FILE);
        if \<not> ok then unlock_ret C (False, self1)
        else do {
          uid \<leftarrow> gets ruid;
          gum_utils_run_group_scripts C (GROUPADD_SCRIPT_DIR C) (gr_name (gd_group self1))
            (gr_gid (gd_group self1)) uid;
          unlock_ret C (True, self1) } }) (\<lambda>(ok, self') w'. group_add_done C self pref w ok self' w') w2"
  proof (rule wp_if)
    assume "\<not> upd"
    then show "wp (unlock_ret C (False, self1))
        (\<lambda>(ok, self') w'. group_add_done C self pref w ok self' w') w2"
      by (intro wp_unlock_ret) (auto intro!: fail [OF _ _ others_kept_refl])
  next
    assume "\<not> \<not> upd"
    then have grp: "group_change GUM_OPTYPE_ADD (gd_group self1) None (group_db C w) (group_db C w2)"
      using w2 cong by (simp add: group_updated_def)
    have wf2: "sg_wf (gshadow_db C w2)" using ok(4) db_cong(4) [OF sh] by simp
    show "wp (do {
        ok \<leftarrow> update_if_exists C (update_gshadow_entry C self1 GUM_OPTYPE_ADD None)
               (cfg C GUM_CONFIG_GENERAL_GSHADOW_FILE);
        if \<not> ok then unlock_ret C (False, self1)
        else do {
          uid \<leftarrow> gets ruid;
          gum_utils_run_group_scripts C (GROUPADD_SCRIPT_DIR C) (gr_name (gd_group self1))
            (gr_gid (gd_group self1)) uid;
          unlock_ret C (True, self1) } }) (\<lambda>(ok, self') w'. group_add_done C self pref w ok self' w') w2"
    proof (rule wp_step [OF gshadow_update_if_exists [OF ok(1,2) wf2]])
      fix upd2 w3
      assume w3: "gshadow_if_there C GUM_OPTYPE_ADD (gd_gshadow self1) None w2 upd2 w3"
      note kept = gshadow_if_there_kept [OF w3]
      have "group_add_done C self pref w True self1 w'" if upd2 and w': "files w' = files w3" for w'
      proof -
        have db: "group_db C w' = group_db C w2" "files_eq_on {passwd_path C, shadow_path C} w2 w'"
          using w' kept pd by (auto intro!: db_cong simp: kept_defs)
        have "gshadow_appended C self w w'"
        proof (cases "files w (gshadow_path C) = None")
          case True
          with w3 w' sh show ?thesis by (simp add: gshadow_appended_def gshadow_if_there_def)
        next
          case False
          with w3 that sh db_cong(4) [OF sh] db_cong(4) [OF fun_cong [OF w']] obtain s where
            s: "sgrp_line (gd_gshadow self1) = Some s" "gshadow_db C w' = gshadow_db C w @ [s]"
              "\<forall>e\<in>set (gshadow_db C w). sg_namp (gd_gshadow self1) \<noteq> sg_namp e"
            by (auto simp: gshadow_if_there_def gshadow_updated_def entry_change_def insert_before_False)
          with self False show ?thesis
            unfolding gshadow_appended_def ready_to_add_def
            by (auto simp: gshadow_of_def intro!: exI [of _ "gd_gshadow self1"])
        qed
        with ready_added [OF self grp] db pw show ?thesis
          by (simp add: group_add_done_def files_eq_on_def)
      qed
      note success = this
      have "group_add_done C self pref w False self1 w'" if "\<not> upd2" and "files w' = files w3" for w'
        using that w3 sh kept
        by (intro fail [OF _ that(2)])
          (auto simp: gshadow_if_there_def gshadow_updated_def split: if_splits)
      with success show "wp (if \<not> upd2 then unlock_ret C (False, self1)
        else do {
          uid \<leftarrow> gets ruid;
          gum_utils_run_group_scripts C (GROUPADD_SCRIPT_DIR C) (gr_name (gd_group self1))
            (gr_gid (gd_group self1)) uid;
          unlock_ret C (True, self1) }) (\<lambda>(ok, self') w'. group_add_done C self pref w ok self' w') w3"
        by (intro wp_if wp_bind wp_gets files_rules) auto
    qed
  qed
qed

section \<open>The group database as a state machine\<close>

text \<open>
  The abstract view of the group file: entries with an id and a name each, of which a step
  adds one with a fresh id and name, drops one, or changes the other fields of some.
\<close>

definition same_keys :: "group_t list \<Rightarrow> group_t list \<Rightarrow> bool" where
  "same_keys es es' \<longleftrightarrow> map (\<lambda>e. (gr_gid e, gr_name e)) es' = map (\<lambda>e. (gr_gid e, gr_name e)) es"

inductive group_step :: "group_t list \<Rightarrow> group_t list \<Rightarrow> bool" where
  edit: "same_keys es es' \<Longrightarrow> gr_wf es' \<Longrightarrow> group_step es es'"
| add: "group_line g = Some g \<Longrightarrow> gr_gid g \<notin> gr_gid ` set es \<Longrightarrow> gr_name g \<notin> gr_name ` set es \<Longrightarrow>
        valid (gum_validate_name (gr_name g)) \<Longrightarrow>
        group_step es (insert_before (\<lambda>e. gr_gid g < gr_gid e) g es)"
| drop: "group_step es (subst_first P [] es)"

inductive_cases group_stepE: "group_step es es'"

text \<open>No two entries share an id or a name, and the ids are in order.\<close>

definition group_ids_ok :: "group_t list \<Rightarrow> bool" where
  "group_ids_ok es \<longleftrightarrow> gr_wf es \<and> distinct (map gr_gid es) \<and> distinct (map gr_name es)"

lemma same_keysD:
  assumes "same_keys es es'"
  shows "map gr_gid es' = map gr_gid es" "map gr_name es' = map gr_name es"
proof -
  have "map fst (map (\<lambda>e. (gr_gid e, gr_name e)) es') = map fst (map (\<lambda>e. (gr_gid e, gr_name e)) es)"
    "map snd (map (\<lambda>e. (gr_gid e, gr_name e)) es') = map snd (map (\<lambda>e. (gr_gid e, gr_name e)) es)"
    using assms by (simp_all only: same_keys_def)
  then show "map gr_gid es' = map gr_gid es" "map gr_name es' = map gr_name es"
    by (simp_all add: comp_def)
qed

lemma same_keys_refl [simp]: "same_keys es es"
  by (simp add: same_keys_def)

lemma group_step_refl: "gr_wf es \<Longrightarrow> group_step es es"
  by (rule edit) simp_all

lemma group_step_ok: "group_step es es' \<Longrightarrow> group_ids_ok es \<Longrightarrow> group_ids_ok es'"
proof (induction rule: group_step.induct)
  case (edit es es')
  then show ?case by (simp add: group_ids_ok_def same_keysD)
next
  case (add g es)
  then show ?case
    by (auto simp: group_ids_ok_def distinct_map_insert_before wf_entries_def)
next
  case (drop es P)
  then show ?case
    using set_subst_first_subset [of P "[]" es]
    by (auto simp: group_ids_ok_def wf_entries_def intro: distinct_map_delete_first)
qed

lemma group_step_sorted:
  "group_step es es' \<Longrightarrow> sorted (map gr_gid es) \<Longrightarrow> sorted (map gr_gid es')"
  by (induction rule: group_step.induct)
    (auto simp: same_keysD intro: sorted_insert_before sorted_delete_first)

text \<open>An update by the callback is such a step, unless it adds an entry that is not fresh or renames one.\<close>

lemma group_change_step:
  assumes "group_change op g ud es es'" and "gr_wf es"
    and "op = GUM_OPTYPE_DELETE \<or> op = GUM_OPTYPE_MODIFY \<and> (ud = None \<or> ud = gr_name g)"
  shows "group_step es es'"
proof (cases op)
  case GUM_OPTYPE_DELETE
  with assms(1) show ?thesis by (auto simp: entry_change_def intro: drop)
next
  case GUM_OPTYPE_MODIFY
  with assms(1) obtain g' where g': "group_line g = Some g'"
    "es' = subst_first (group_acts op g ud) [g'] es" by (auto simp: entry_change_def)
  have "same_keys es es'"
    unfolding same_keys_def g'(2)
    by (rule map_subst_first) (use assms(3) line_keys(3) [OF g'(1)] GUM_OPTYPE_MODIFY in
        \<open>auto simp: group_acts_def group_matches_def split: if_splits\<close>)
  from group_step.edit [OF this gr_file.wf_change [OF assms(2,1)]] show ?thesis .
qed (use assms in auto)

lemma group_updated_step:
  assumes "group_updated C op g ud w ok w'" and "gr_wf (group_db C w)"
    and "op = GUM_OPTYPE_DELETE \<or> op = GUM_OPTYPE_MODIFY \<and> (ud = None \<or> ud = gr_name g)"
  shows "group_step (group_db C w) (group_db C w')"
  using assms group_change_step [OF _ assms(2,3)] db_cong(3) [of w' C w]
  by (auto simp: group_updated_def intro!: group_step_refl split: if_splits)

lemma group_added_step:
  "group_added C self pref db g db' \<Longrightarrow> group_step db db'"
  unfolding group_added_def chosen_id_def by (auto intro: group_step.add)

section \<open>Looking the group up\<close>

definition is_group :: "daemon_group \<Rightarrow> group_t \<Rightarrow> bool" where
  "is_group self g \<longleftrightarrow>
     (gr_gid (gd_group self) = 0xFFFFFFFF \<or> gr_gid g = gr_gid (gd_group self)) \<and>
     (gr_name (gd_group self) = None \<or> gr_name g = gr_name (gd_group self))"

lemma lookup_group:
  assumes "paths_ok C"
  shows "wp (gum_file_getgrgid C gid (cfg C GUM_CONFIG_GENERAL_GROUP_FILE))
           (\<lambda>r w'. files w' = files w \<and> (\<forall>g. r = Some g \<longrightarrow> g \<in> set (group_db C w))) w"
    and "wp (gum_file_getgrnam C nm (cfg C GUM_CONFIG_GENERAL_GROUP_FILE))
           (\<lambda>r w'. files w' = files w \<and> (\<forall>g. r = Some g \<longrightarrow> g \<in> set (group_db C w))) w"
proof -
  show "wp (gum_file_getgrgid C gid (cfg C GUM_CONFIG_GENERAL_GROUP_FILE))
      (\<lambda>r w'. files w' = files w \<and> (\<forall>g. r = Some g \<longrightarrow> g \<in> set (group_db C w))) w"
    unfolding paths_okD(3) [OF assms]
    by (rule wp_mono [OF lookups(5)]) (auto simp: looked_up_def group_db_def)
  show "wp (gum_file_getgrnam C nm (cfg C GUM_CONFIG_GENERAL_GROUP_FILE))
      (\<lambda>r w'. files w' = files w \<and> (\<forall>g. r = Some g \<longrightarrow> g \<in> set (group_db C w))) w"
  proof (cases nm)
    case None
    then show ?thesis by (auto simp: gum_file_getgrnam_def intro: wp_return)
  next
    case (Some n)
    then show ?thesis unfolding Some paths_okD(3) [OF assms]
      by (intro wp_mono [OF lookups(4)]) (auto simp: looked_up_def group_db_def)
  qed
qed

lemma get_group_spec:
  assumes "paths_ok C"
  shows "wp (get_group C self) (\<lambda>r w'. files w' = files w \<and>
           (\<forall>g. r = Some g \<longrightarrow> g \<in> set (group_db C w) \<and> is_group self g)) w"
proof -
  have names: "wp (gum_file_getgrnam C nm (cfg C GUM_CONFIG_GENERAL_GROUP_FILE))
      (\<lambda>r w'. files w' = files w \<and> (\<forall>g. r = Some g \<longrightarrow> g \<in> set (group_db C w))) w1"
    if "files w1 = files w" for nm w1
    using lookup_group(2) [OF assms, of nm w1] that db_cong(3) [OF fun_cong [OF that]] by simp
  have ids: "wp (if gr_gid (gd_group self) \<noteq> 0xFFFFFFFF
        then gum_file_getgrgid C (gr_gid (gd_group self)) (cfg C GUM_CONFIG_GENERAL_GROUP_FILE)
        else ret None)
      (\<lambda>r w'. files w' = files w \<and> (\<forall>g. r = Some g \<longrightarrow> g \<in> set (group_db C w))) w"
    by (intro wp_if lookup_group(1) [OF assms] wp_return) simp
  show ?thesis
    unfolding get_group_def Let_def
  proof (rule wp_step [OF ids])
    fix g1 and w1 :: world assume w1: "files w1 = files w \<and> (\<forall>g. g1 = Some g \<longrightarrow> g \<in> set (group_db C w))"
    have two: "wp (if gr_name (gd_group self) \<noteq> None \<and> g1 = None
        then gum_file_getgrnam C (gr_name (gd_group self)) (cfg C GUM_CONFIG_GENERAL_GROUP_FILE)
        else ret g1) (\<lambda>r w'. files w' = files w \<and> (\<forall>g. r = Some g \<longrightarrow> g \<in> set (group_db C w))) w1"
      using w1 by (intro wp_if names wp_return) auto
    show "wp (do {
        grp \<leftarrow> (if gr_name (gd_group self) \<noteq> None \<and> g1 = None
          then gum_file_getgrnam C (gr_name (gd_group self)) (cfg C GUM_CONFIG_GENERAL_GROUP_FILE)
          else ret g1);
        case grp of None \<Rightarrow> do { set_error GUM_ERROR_GROUP_NOT_FOUND; ret None }
        | Some g \<Rightarrow>
            if gr_gid (gd_group self) \<noteq> 0xFFFFFFFF \<and> gr_gid (gd_group self) \<noteq> gr_gid g \<or>
               gr_name (gd_group self) \<noteq> None \<and> gr_name (gd_group self) \<noteq> gr_name g
            then do { set_error GUM_ERROR_GROUP_NOT_FOUND; ret None } else ret (Some g) })
      (\<lambda>r w'. files w' = files w \<and> (\<forall>g. r = Some g \<longrightarrow> g \<in> set (group_db C w) \<and> is_group self g)) w1"
      by (rule wp_step [OF two]) (auto simp: is_group_def intro!: wp_rules)
  qed
qed

text \<open>What copying an entry into the object leaves of it.\<close>

lemma copy_group_prop_simps:
  "gr_gid (gd_group (copy_group_prop g self)) = gr_gid g"
  "gr_mem (gd_group (copy_group_prop g self)) = gr_mem g"
  "gr_name (gd_group (copy_group_prop g self)) \<in> {gr_name g, gr_name (gd_group self)}"
  "valid (gum_validate_db_secret_entry (gr_passwd g)) \<Longrightarrow>
   gr_passwd (gd_group (copy_group_prop g self)) = gr_passwd g"
  "gd_gshadow (copy_group_prop g self) = gd_gshadow self"
  "gd_type (copy_group_prop g self) = gd_type self"
  by (auto simp: copy_group_prop_def set_groupname_property_def set_gid_property_eq
      set_secret_property_def Let_def)

lemma copy_group_data_spec:
  assumes "paths_ok C"
  shows "wp (copy_group_data C self gent sgent) (\<lambda>(ok, self') w'. files w' = files w \<and>
           (ok \<longrightarrow> (\<exists>g s. gd_group self' = gd_group (copy_group_prop g self) \<and>
              gd_gshadow self' = copy_gshadow_struct s (gd_gshadow self) False \<and>
              (case gent of None \<Rightarrow> g \<in> set (group_db C w) \<and> is_group self g | Some g0 \<Rightarrow> g = g0) \<and>
              (sgent \<noteq> None \<longrightarrow> s = sgent)))) w"
proof (cases gent)
  case (Some g0)
  show ?thesis unfolding copy_group_data_def Some option.case
    by (intro wp_rules files_kept) (auto simp: copy_group_prop_simps intro!: wp_rules files_kept)
next
  case None
  show ?thesis unfolding copy_group_data_def None option.case
    by (rule wp_step [OF get_group_spec [OF assms]], intro wp_rules files_kept)
      (auto simp: copy_group_prop_simps intro!: wp_rules files_kept)
qed

section \<open>Changing and deleting a group\<close>

lemma gshadow_update_others:
  assumes "paths_ok C"
  shows "wp (gum_file_update C (Some (update_gshadow_entry C self op ud))
               (cfg C GUM_CONFIG_GENERAL_GSHADOW_FILE))
    (\<lambda>_ w'. others_kept C (gshadow_path C) w w') w"
  unfolding paths_okD(4) [OF assms] others_kept_def
  by (rule wp_mono [OF gshadow_file.update_spec], rule updated_db_paths(1) [OF assms])
    (simp_all add: db_paths_def)

lemma gshadow_if_exists_others:
  assumes "paths_ok C"
  shows "wp (update_if_exists C (update_gshadow_entry C self op ud)
               (cfg C GUM_CONFIG_GENERAL_GSHADOW_FILE))
    (\<lambda>_ w'. others_kept C (gshadow_path C) w w') w"
  unfolding update_if_exists_def file_test_exists_def
  by (intro wp_bind wp_gets wp_if wp_return gshadow_update_others [OF assms] others_kept_refl)

text \<open>The end of the handlers that change the group file and then gshadow.\<close>

definition group_file_done ::
    "ctx \<Rightarrow> GumOpType \<Rightarrow> group_t \<Rightarrow> pstr \<Rightarrow> world \<Rightarrow> bool \<Rightarrow> world \<Rightarrow> bool" where
  "group_file_done C op g ud w upd w' \<longleftrightarrow>
     files_eq_on {passwd_path C, shadow_path C} w w' \<and>
     (if upd then group_change op g ud (group_db C w) (group_db C w')
      else files w' (group_path C) = files w (group_path C))"

lemma subst_first_map:
  "distinct (map f es) \<Longrightarrow> e \<in> set es \<Longrightarrow> P e \<Longrightarrow> (\<And>x. x \<in> set es \<Longrightarrow> P x \<Longrightarrow> f x = f e) \<Longrightarrow>
   subst_first P [y] es = map (\<lambda>x. if f x = f e then y else x) es"
proof (induction es)
  case (Cons a es)
  have ne: "f x \<noteq> f a" if "x \<in> set es" for x
    using Cons.prems(1) imageI [OF that, of f] by auto
  show ?case
  proof (cases "P a")
    case True
    from Cons.prems(4) [OF list.set_intros(1) this] have "f a = f e" .
    moreover from this ne have "map (\<lambda>x. if f x = f e then y else x) es = es"
      by (intro map_idI) simp
    ultimately show ?thesis using True by simp
  next
    case False
    with Cons.prems(2,3) have e: "e \<in> set es" by auto
    have "distinct (map f es)" using Cons.prems(1) by simp
    from Cons.IH [OF this e Cons.prems(3) Cons.prems(4) [OF list.set_intros(2)]] False ne [OF e]
    show ?thesis by simp
  qed
qed simp

lemma subst_first_filter:
  "distinct (map f es) \<Longrightarrow> e \<in> set es \<Longrightarrow> P e \<Longrightarrow> (\<And>x. x \<in> set es \<Longrightarrow> P x \<Longrightarrow> f x = f e) \<Longrightarrow>
   subst_first P [] es = filter (\<lambda>x. f x \<noteq> f e) es"
proof (induction es)
  case (Cons a es)
  have ne: "f x \<noteq> f a" if "x \<in> set es" for x
    using Cons.prems(1) imageI [OF that, of f] by auto
  show ?case
  proof (cases "P a")
    case True
    from Cons.prems(4) [OF list.set_intros(1) this] have "f a = f e" .
    moreover from this ne have "filter (\<lambda>x. f x \<noteq> f e) es = es"
      by (intro filter_True) simp
    ultimately show ?thesis using True by simp
  next
    case False
    with Cons.prems(2,3) have e: "e \<in> set es" by auto
    have "distinct (map f es)" using Cons.prems(1) by simp
    from Cons.IH [OF this e Cons.prems(3) Cons.prems(4) [OF list.set_intros(2)]] False ne [OF e]
    show ?thesis by simp
  qed
qed simp

text \<open>With distinct ids a modification or deletion is about the one entry with the id of the object.\<close>

lemma group_modified:
  assumes "group_change GUM_OPTYPE_MODIFY g ud es es'" and "distinct (map gr_gid es)"
  obtains e g' where "e \<in> set es" "gr_gid e = gr_gid g"
    "gr_name e = (if ud \<noteq> None then ud else gr_name g)"
    "group_line g = Some g'" "es' = map (\<lambda>x. if gr_gid x = gr_gid e then g' else x) es"
proof -
  from assms(1) obtain e g' where e: "e \<in> set es" "group_acts GUM_OPTYPE_MODIFY g ud e"
    "group_line g = Some g'" "es' = subst_first (group_acts GUM_OPTYPE_MODIFY g ud) [g'] es"
    by (auto simp: entry_change_def)
  from e(2) have "gr_gid e = gr_gid g" "gr_name e = (if ud \<noteq> None then ud else gr_name g)"
    by (auto simp: group_acts_def group_matches_def split: if_splits)
  moreover from e have "es' = map (\<lambda>x. if gr_gid x = gr_gid e then g' else x) es"
    unfolding e(4) by (intro subst_first_map [OF assms(2)]) (auto simp: group_acts_def group_matches_def)
  ultimately show ?thesis using e that by blast
qed

lemma group_deleted:
  assumes "group_change GUM_OPTYPE_DELETE g ud es es'" and "distinct (map gr_gid es)"
  obtains e where "e \<in> set es" "gr_gid e = gr_gid g" "gr_name e = gr_name g"
    "es' = filter (\<lambda>x. gr_gid x \<noteq> gr_gid g) es"
proof -
  from assms(1) obtain e where e: "e \<in> set es" "group_acts GUM_OPTYPE_DELETE g ud e"
    "es' = subst_first (group_acts GUM_OPTYPE_DELETE g ud) [] es"
    by (auto simp: entry_change_def)
  from e(2) have k: "gr_gid e = gr_gid g" "gr_name e = gr_name g"
    by (auto simp: group_acts_def group_matches_def split: if_splits)
  moreover from e have "es' = filter (\<lambda>x. gr_gid x \<noteq> gr_gid e) es"
    unfolding e(3) by (intro subst_first_filter [OF assms(2)]) (auto simp: group_acts_def group_matches_def)
  ultimately show ?thesis using e that by simp
qed

end
