(* ===== verification/Gumd_Group_Props.thy ===== *)
theory Gumd_Group_Props
  imports Gumd_Group_Db
begin

text \<open>
  The properties of the group object of the daemon: what adding, deleting and changing a
  group and its members does to the group and gshadow files, and what it leaves alone.
\<close>

section \<open>The end of the handlers\<close>

text \<open>
  What the handlers that change the group file and then something else end with. \<open>R\<close> says
  how the second step leaves the gshadow file.
\<close>

lemma change_tail:
  assumes ok: "paths_ok C" "reads_ok C" "gr_wf (group_db C w)" and w: "files w1 = files w"
    and rest: "\<And>w2. files w2 (gshadow_path C) = files w (gshadow_path C) \<Longrightarrow>
      wp rest (\<lambda>r w'. others_kept C (gshadow_path C) w2 w' \<and> R r w') w2"
    and R: "\<And>r w2 w3. R r w2 \<Longrightarrow> files w3 = files w2 \<Longrightarrow> R r w3"
    and fin: "\<And>r upd w'. group_file_done C op (gd_group self) ud w upd w' \<Longrightarrow>
      (if upd then R r w'
       else \<not> r \<and> files w' (gshadow_path C) = files w (gshadow_path C)) \<Longrightarrow> Q (r, self) w'"
  shows "wp (do {
      ok \<leftarrow> gum_file_update C (Some (update_daemon_group_entry C self op ud))
             (cfg C GUM_CONFIG_GENERAL_GROUP_FILE);
      if \<not> ok then unlock_ret C (False, self)
      else do { ok \<leftarrow> rest; unlock_ret C (ok, self) } }) Q w1"
proof (rule wp_step [OF group_update_step [OF ok(1,2)]])
  note cong = db_cong [OF fun_cong [OF w]] and pd = path_distinct [OF ok(1)]
  show "gr_wf (group_db C w1)" using ok(3) cong by simp
  fix upd w2 assume w2: "group_updated C op (gd_group self) ud w1 upd w2"
  then have gs: "files w2 (gshadow_path C) = files w (gshadow_path C)"
    using pd by (simp add: group_updated_def kept_defs w)
  have reached: "group_file_done C op (gd_group self) ud w upd w'"
    if "others_kept C (gshadow_path C) w2 w3" "files w' = files w3" for w3 w'
  proof -
    have "group_db C w' = group_db C w2" using that pd by (intro db_cong) (simp add: kept_defs)
    with that w2 cong pd show ?thesis
      by (auto simp: group_file_done_def group_updated_def kept_defs w)
  qed
  show "wp (if \<not> upd then unlock_ret C (False, self)
      else do { ok \<leftarrow> rest; unlock_ret C (ok, self) }) Q w2"
    by (intro wp_if wp_unlock_ret wp_step [OF rest [OF gs]])
      (auto intro!: fin intro: reached others_kept_refl R simp: gs)
qed

text \<open>With an update of the gshadow file if it is there.\<close>

definition gshadow_done ::
    "ctx \<Rightarrow> GumOpType \<Rightarrow> sgrp \<Rightarrow> pstr \<Rightarrow> world \<Rightarrow> bool \<Rightarrow> world \<Rightarrow> bool" where
  "gshadow_done C op g ud w r w' \<longleftrightarrow>
     (if r \<and> files w (gshadow_path C) \<noteq> None
      then gshadow_change op g ud (gshadow_db C w) (gshadow_db C w')
      else files w' (gshadow_path C) = files w (gshadow_path C))"

lemma gshadow_tail:
  assumes "paths_ok C" "reads_ok C" "sg_wf (gshadow_db C w)"
    and gs: "files w2 (gshadow_path C) = files w (gshadow_path C)"
  shows "wp (update_if_exists C (update_gshadow_entry C self op ud) (cfg C GUM_CONFIG_GENERAL_GSHADOW_FILE))
    (\<lambda>r w'. others_kept C (gshadow_path C) w2 w' \<and> gshadow_done C op (gd_gshadow self) ud w r w') w2"
proof (rule wp_mono [OF gshadow_update_if_exists [OF assms(1,2)]])
  note db = db_cong(4) [OF gs]
  show "sg_wf (gshadow_db C w2)" using assms(3) db by simp
  fix r w' assume w': "gshadow_if_there C op (gd_gshadow self) ud w2 r w'"
  then show "others_kept C (gshadow_path C) w2 w' \<and> gshadow_done C op (gd_gshadow self) ud w r w'"
    using gshadow_if_there_kept [OF w'] gs db
    by (auto simp: gshadow_if_there_def gshadow_done_def gshadow_updated_def split: if_splits)
qed

lemma gshadow_done_cong:
  "gshadow_done C op g ud w r w2 \<Longrightarrow> files w3 = files w2 \<Longrightarrow> gshadow_done C op g ud w r w3"
  using db_cong(4) [of w3 C w2] by (simp add: gshadow_done_def)

section \<open>Members\<close>

definition members :: "group_t \<Rightarrow> string list" where
  "members g = (case gr_mem g of None \<Rightarrow> [] | Some ms \<Rightarrow> ms)"

text \<open>
  One entry of the group file, that of the object, has other members: they are changed by
  the name that the passwd file has for the user id.
\<close>

definition members_changed ::
    "ctx \<Rightarrow> daemon_group \<Rightarrow> uid_t \<Rightarrow> (string \<Rightarrow> string list \<Rightarrow> string list option) \<Rightarrow> world \<Rightarrow> world \<Rightarrow> bool" where
  "members_changed C self uid change w w' \<longleftrightarrow>
     (\<exists>p n e ms e'. p \<in> set (passwd_db C w) \<and> pw_uid p = uid \<and> pw_name p = Some n \<and>
        e \<in> set (group_db C w) \<and> is_group self e \<and> change n (members e) = Some ms \<and>
        group_line e' = Some e' \<and>
        gr_gid e' = gr_gid e \<and> gr_name e' = gr_name e \<and> gr_mem e' = Some ms \<and>
        (valid (gum_validate_db_secret_entry (gr_passwd e)) \<longrightarrow> gr_passwd e' = gr_passwd e) \<and>
        group_db C w' = map (\<lambda>x. if gr_gid x = gr_gid e then e' else x) (group_db C w))"

definition join_members :: "string \<Rightarrow> string list \<Rightarrow> string list option" where
  "join_members n ms = (if n \<in> set ms then None else Some (ms @ [n]))"

definition leave_members :: "string \<Rightarrow> string list \<Rightarrow> string list option" where
  "leave_members n ms = (if n \<in> set ms then Some (removeAll n ms) else None)"

lemma getpwuid_spec:
  assumes "paths_ok C" and "files w1 = files w"
  shows "wp (gum_file_getpwuid C uid (cfg C GUM_CONFIG_GENERAL_PASSWD_FILE)) (\<lambda>r w'.
     files w' = files w \<and> (\<forall>p. r = Some p \<longrightarrow> p \<in> set (passwd_db C w) \<and> pw_uid p = uid)) w1"
  unfolding paths_okD(1) [OF assms(1)]
  by (rule wp_mono [OF lookups(2)])
    (use assms(2) db_cong(1) [OF fun_cong [OF assms(2)], of C] in \<open>auto simp: looked_up_def passwd_db_def\<close>)

lemma get_group_at:
  assumes "paths_ok C" and "files w1 = files w"
  shows "wp (get_group C self) (\<lambda>r w'. files w' = files w \<and>
           (\<forall>g. r = Some g \<longrightarrow> g \<in> set (group_db C w) \<and> is_group self g)) w1"
  using get_group_spec [OF assms(1), of self w1] assms(2) db_cong(3) [OF fun_cong [OF assms(2)]] by simp

text \<open>The object with the members set, written over the entry it was copied from.\<close>

lemma members_written:
  assumes ok: "paths_ok C" "group_ids_ok (group_db C w)"
    and p: "p \<in> set (passwd_db C w)" "pw_uid p = uid" "pw_name p = Some n"
    and e: "e \<in> set (group_db C w)" "is_group self e" "change n (members e) = Some ms"
    and fd: "group_file_done C GUM_OPTYPE_MODIFY
               ((gd_group (copy_group_prop e self))\<lparr>gr_mem := Some ms\<rparr>) None w True w'"
  shows "members_changed C self uid change w w'"
proof -
  let ?g = "(gd_group (copy_group_prop e self))\<lparr>gr_mem := Some ms\<rparr>"
  have d: "distinct (map gr_gid (group_db C w))" "gr_wf (group_db C w)"
    using ok(2) by (simp_all add: group_ids_ok_def)
  from fd have ch: "group_change GUM_OPTYPE_MODIFY ?g None (group_db C w) (group_db C w')"
    by (simp add: group_file_done_def)
  from group_modified [OF ch d(1)] obtain e1 g' where e1: "e1 \<in> set (group_db C w)"
    "gr_gid e1 = gr_gid ?g" "gr_name e1 = gr_name ?g"
    "group_line ?g = Some g'"
    "group_db C w' = map (\<lambda>x. if gr_gid x = gr_gid e1 then g' else x) (group_db C w)" by auto
  have gid: "gr_gid ?g = gr_gid e" by (simp add: copy_group_prop_simps)
  have eq: "e1 = e" using d(1) e(1) e1(1,2) gid by (auto simp: distinct_map inj_on_def)
  have g': "g' = ?g\<lparr>gr_passwd := nn (gr_passwd ?g),
      gr_mem := nnl (gr_mem ?g)\<rparr>" by (rule line_simps(3) [OF e1(4)])
  have pw: "nn (gr_passwd e) = gr_passwd e"
    using arg_cong [OF line_simps(3) [of e e], of gr_passwd] d(2) e(1)
    by (simp add: wf_entries_def)
  show ?thesis
    unfolding members_changed_def
  proof (intro exI conjI)
    show "group_db C w' = map (\<lambda>x. if gr_gid x = gr_gid e then g' else x) (group_db C w)"
      using e1(5) eq by simp
    show "group_line g' = Some g'" by (rule group_line_idem [OF e1(4)])
    show "gr_gid g' = gr_gid e" "gr_name g' = gr_name e" "gr_mem g' = Some ms"
      using e1(3) eq gid by (simp_all add: g' nnl_def)
    show "valid (gum_validate_db_secret_entry (gr_passwd e)) \<longrightarrow> gr_passwd g' = gr_passwd e"
      using pw by (simp add: g' copy_group_prop_simps)
  qed (use p e in auto)
qed

definition members_done ::
    "ctx \<Rightarrow> daemon_group \<Rightarrow> uid_t \<Rightarrow> (string \<Rightarrow> string list \<Rightarrow> string list option) \<Rightarrow> world \<Rightarrow> bool \<Rightarrow> world \<Rightarrow> bool" where
  "members_done C self uid change w ok w' \<longleftrightarrow>
     files_eq_on {passwd_path C, shadow_path C} w w' \<and>
     (members_changed C self uid change w w' \<or>
      \<not> ok \<and> files w' (group_path C) = files w (group_path C))"

lemma members_done_same: "files w' = files w \<Longrightarrow> members_done C self uid change w False w'"
  by (simp add: members_done_def files_eq_on_def)

lemma members_finish:
  assumes "paths_ok C" "group_ids_ok (group_db C w)"
    and "p \<in> set (passwd_db C w)" "pw_uid p = uid" "pw_name p = Some n"
    and "e \<in> set (group_db C w)" "is_group self e" "change n (members e) = Some ms"
    and fd: "group_file_done C GUM_OPTYPE_MODIFY
               ((gd_group (copy_group_prop e self))\<lparr>gr_mem := Some ms\<rparr>) None w upd w'" and r: "r \<longrightarrow> upd"
  shows "members_done C self uid change w r w'"
proof (cases upd)
  case True
  with fd members_written [where self = self and change = change, OF assms(1-8)] show ?thesis
    by (simp add: members_done_def group_file_done_def)
next
  case False
  with fd r show ?thesis by (simp add: members_done_def group_file_done_def)
qed

lemma search_members:
  "gum_string_utils_search_stringv (gr_mem e) (Some n) \<longleftrightarrow> n \<in> set (members e)"
  by (cases "gr_mem e") (simp_all add: search_stringv_iff members_def)

lemma append_members:
  "gum_string_utils_append_string (gr_mem e) (Some n) = Some (members e @ [n])"
  by (simp add: gum_string_utils_append_string_def members_def split: option.split)

lemma delete_members:
  "n \<in> set (members e) \<Longrightarrow>
   gum_string_utils_delete_string (gr_mem e) (Some n) = Some (removeAll n (members e))"
  by (cases "gr_mem e") (simp_all add: members_def)

lemma with_member_group:
  "gd_group (with_member self ms) = (gd_group self)\<lparr>gr_mem := ms\<rparr>"
  by (simp add: with_member_def)

lemma pw_name_Some:
  "wf_entries passwd_line ps \<Longrightarrow> p \<in> set ps \<Longrightarrow> \<exists>n. pw_name p = Some n"
  by (auto simp: wf_entries_def passwd_line_def split: if_splits)

lemma gd_group_admins:
  "gd_group (case s of None \<Rightarrow> A | Some s \<Rightarrow> if c s then A\<lparr>gd_gshadow := f s\<rparr> else A) = gd_group A"
  by (simp split: option.split)

section \<open>Deleting a group\<close>

definition gshadow_dropped :: "ctx \<Rightarrow> pstr \<Rightarrow> world \<Rightarrow> world \<Rightarrow> bool" where
  "gshadow_dropped C n w w' \<longleftrightarrow>
     (if files w (gshadow_path C) = None then files w' (gshadow_path C) = None
      else (\<exists>s\<in>set (gshadow_db C w). sg_namp s = n) \<and>
           gshadow_db C w' = subst_first (\<lambda>s. sg_namp s = n) [] (gshadow_db C w))"

definition group_dropped :: "ctx \<Rightarrow> daemon_group \<Rightarrow> world \<Rightarrow> bool \<Rightarrow> world \<Rightarrow> bool" where
  "group_dropped C self w ok w' \<longleftrightarrow>
     (\<exists>e\<in>set (group_db C w). is_group self e \<and> gr_gid e \<noteq> getegid C \<and>
        gr_gid e \<notin> pw_gid ` set (passwd_db C w) \<and>
        group_db C w' = filter (\<lambda>x. gr_gid x \<noteq> gr_gid e) (group_db C w) \<and>
        (if ok then \<exists>n\<in>{gr_name e, sg_namp (gd_gshadow self)}. gshadow_dropped C n w w'
         else files w' (gshadow_path C) = files w (gshadow_path C)))"

definition group_delete_done :: "ctx \<Rightarrow> daemon_group \<Rightarrow> world \<Rightarrow> bool \<Rightarrow> world \<Rightarrow> bool" where
  "group_delete_done C self w ok w' \<longleftrightarrow>
     files_eq_on {passwd_path C, shadow_path C} w w' \<and>
     (\<not> ok \<and> files_eq_on {group_path C, gshadow_path C} w w' \<or>
      gr_gid (gd_group self) \<noteq> GUM_GROUP_INVALID_GID \<and>
      (files_eq_on {group_path C, gshadow_path C} w w' \<and>
         (\<exists>e\<in>set (group_db C w). is_group self e \<and> gr_gid e \<in> pw_gid ` set (passwd_db C w)) \<or>
       group_dropped C self w ok w'))"

lemma group_delete_same: "files w' = files w \<Longrightarrow> group_delete_done C self w False w'"
  by (simp add: group_delete_done_def files_eq_on_def)

text \<open>The entry of gshadow that the object gets is the one with the name of the group.\<close>

lemma lookup_gshadow:
  assumes "paths_ok C"
  shows "wp (gum_file_getsgnam C nm (cfg C GUM_CONFIG_GENERAL_GSHADOW_FILE))
     (\<lambda>r w'. files w' = files w \<and> (\<forall>s. r = Some s \<longrightarrow> s \<in> set (gshadow_db C w) \<and> sg_namp s = nm)) w"
proof (cases nm)
  case None
  then show ?thesis by (auto simp: gum_file_getsgnam_def intro: wp_return)
next
  case (Some n)
  then show ?thesis unfolding Some paths_okD(4) [OF assms]
    by (intro wp_mono [OF lookup_getsgnam]) (auto simp: looked_up_def gshadow_db_def)
qed

lemma copy_group_data_fresh:
  assumes "paths_ok C" and "files w1 = files w"
  shows "wp (copy_group_data C self None None) (\<lambda>(ok, self') w'. files w' = files w \<and>
           (ok \<longrightarrow> (\<exists>g s. gd_group self' = gd_group (copy_group_prop g self) \<and>
              gd_gshadow self' = copy_gshadow_struct s (gd_gshadow self) False \<and>
              g \<in> set (group_db C w) \<and> is_group self g \<and>
              (\<forall>x. s = Some x \<longrightarrow> x \<in> set (gshadow_db C w) \<and> sg_namp x = gr_name g)))) w1"
proof -
  have gs: "wp (gum_file_getsgnam C nm (cfg C GUM_CONFIG_GENERAL_GSHADOW_FILE))
     (\<lambda>r w'. files w' = files w \<and> (\<forall>s. r = Some s \<longrightarrow> s \<in> set (gshadow_db C w) \<and> sg_namp s = nm)) w2"
    if "files w2 = files w" for nm w2
    using lookup_gshadow [OF assms(1), of nm w2] that db_cong(4) [OF fun_cong [OF that]] by simp
  show ?thesis
    unfolding copy_group_data_def option.case
    by (rule wp_step [OF get_group_at [OF assms]], rule wp_case_option, rule wp_return, simp,
        rule wp_step [OF gs], simp, rule wp_return)
      (auto simp: copy_group_prop_simps)
qed

lemma find_user_by_gid_none:
  assumes "paths_ok C" "reads_ok C" "files w1 = files w" "gid \<noteq> GUM_GROUP_INVALID_GID"
  shows "wp (gum_file_find_user_by_gid C gid (cfg C GUM_CONFIG_GENERAL_PASSWD_FILE))
     (\<lambda>r w'. files w' = files w \<and> (r = None \<longleftrightarrow> gid \<notin> pw_gid ` set (passwd_db C w))) w1"
  unfolding paths_okD(1) [OF assms(1)]
  by (rule wp_mono [OF lookups(6) [OF assms(4)]])
    (use assms(2,3) db_cong(1) [OF fun_cong [OF assms(3)], of C] in
      \<open>auto simp: looked_up_def passwd_db_def find_None_used\<close>)

lemma group_dropped_by:
  assumes "group_file_done C GUM_OPTYPE_DELETE (gd_group self') None w upd w'"
    and "if upd then gshadow_done C GUM_OPTYPE_DELETE (gd_gshadow self') None w r w'
         else \<not> r \<and> files w' (gshadow_path C) = files w (gshadow_path C)"
    and "distinct (map gr_gid (group_db C w))" and inv: "gr_gid (gd_group self) \<noteq> GUM_GROUP_INVALID_GID"
    and e: "e \<in> set (group_db C w)" "is_group self e" "gr_gid e \<noteq> getegid C"
      "gr_gid e \<notin> pw_gid ` set (passwd_db C w)"
    and self': "gd_group self' = gd_group (copy_group_prop e self)"
      "gd_gshadow self' = copy_gshadow_struct s (gd_gshadow self) False"
      "\<forall>x. s = Some x \<longrightarrow> sg_namp x = gr_name e"
  shows "group_delete_done C self w r w'"
proof (cases upd)
  case False
  with assms(1,2) show ?thesis by (simp add: group_delete_done_def group_file_done_def files_eq_on_def)
next
  case True
  from True assms(1) have ch: "group_change GUM_OPTYPE_DELETE (gd_group self') None (group_db C w) (group_db C w')"
    by (simp add: group_file_done_def)
  have gid: "gr_gid (gd_group self') = gr_gid e" by (simp add: self' copy_group_prop_simps)
  from group_deleted [OF ch assms(3)] gid
  have db: "group_db C w' = filter (\<lambda>x. gr_gid x \<noteq> gr_gid e) (group_db C w)" by metis
  have nm: "sg_namp (gd_gshadow self') \<in> {gr_name e, sg_namp (gd_gshadow self)}"
    using self'(2,3) by (auto simp: copy_gshadow_struct_def split: option.splits)
  have "\<exists>n\<in>{gr_name e, sg_namp (gd_gshadow self)}. gshadow_dropped C n w w'" if r
    using that True assms(2) nm
    by (intro bexI [OF _ nm])
      (auto simp: gshadow_done_def gshadow_dropped_def entry_change_def gshadow_acts_def eq_commute split: if_splits)
  moreover have "files w' (gshadow_path C) = files w (gshadow_path C)" if "\<not> r"
    using that True assms(2) by (simp add: gshadow_done_def)
  ultimately have "group_dropped C self w r w'"
    using e db unfolding group_dropped_def by (intro bexI [OF _ e(1)]) simp
  with assms(1) inv show ?thesis by (simp add: group_delete_done_def group_file_done_def)
qed

section \<open>Changing a group\<close>

definition gshadow_secret_set :: "ctx \<Rightarrow> daemon_group \<Rightarrow> pstr \<Rightarrow> world \<Rightarrow> world \<Rightarrow> bool" where
  "gshadow_secret_set C self n w w' \<longleftrightarrow>
     (if files w (gshadow_path C) = None then files w' (gshadow_path C) = None
      else (\<exists>s\<in>set (gshadow_db C w). sg_namp s = n) \<and>
           (\<exists>s' pw. sg_passwd s' = Some pw \<and> stored_secret C self pw \<and>
              gshadow_db C w' = subst_first (\<lambda>s. sg_namp s = n) [s'] (gshadow_db C w)))"

definition group_changed :: "ctx \<Rightarrow> daemon_group \<Rightarrow> world \<Rightarrow> bool \<Rightarrow> world \<Rightarrow> bool" where
  "group_changed C self w ok w' \<longleftrightarrow>
     (\<exists>e\<in>set (group_db C w). is_group self e \<and>
        (\<exists>e'. group_line e' = Some e' \<and> gr_gid e' = gr_gid e \<and> gr_name e' = gr_name e \<and> gr_passwd e' = Some ''x'' \<and>
           gr_mem e' = nnl (if gr_mem (gd_group self) = None then gr_mem e else gr_mem (gd_group self)) \<and>
           group_db C w' = map (\<lambda>x. if gr_gid x = gr_gid e then e' else x) (group_db C w)) \<and>
        (if ok then gshadow_secret_set C self (gr_name e) w w'
         else files w' (gshadow_path C) = files w (gshadow_path C)))"

definition group_update_done :: "ctx \<Rightarrow> daemon_group \<Rightarrow> world \<Rightarrow> bool \<Rightarrow> world \<Rightarrow> bool" where
  "group_update_done C self w ok w' \<longleftrightarrow>
     files_eq_on {passwd_path C, shadow_path C} w w' \<and>
     (\<not> ok \<and> files_eq_on {group_path C, gshadow_path C} w w' \<or>
      gr_gid (gd_group self) \<noteq> GUM_GROUP_INVALID_GID \<and>
      gr_passwd (gd_group self) \<notin> {None, Some ''x''} \<and> group_changed C self w ok w')"

lemma group_update_same: "files w' = files w \<Longrightarrow> group_update_done C self w False w'"
  by (simp add: group_update_done_def files_eq_on_def)

lemma merge_simps:
  "gr_gid (gd_group (group_merge_for_update self e s)) = gr_gid (gd_group self)"
  "gr_mem (gd_group (group_merge_for_update self e s)) =
     (if gr_mem (gd_group self) = None then gr_mem e else gr_mem (gd_group self))"
  "gr_passwd (gd_group (group_merge_for_update self e s)) = gr_passwd (gd_group self)"
  "gd_type (group_merge_for_update self e s) = gd_type self"
  "stored_secret C (group_merge_for_update self e s) = stored_secret C self"
  by (auto simp: group_merge_for_update_def Let_def set_groupname_property_def stored_secret_def
      cong: option.case_cong)

lemma merge_name:
  "is_group self e \<Longrightarrow> gr_name (gd_group (group_merge_for_update self e s)) \<noteq> None \<Longrightarrow>
   gr_name (gd_group (group_merge_for_update self e s)) = gr_name e"
  by (auto simp: group_merge_for_update_def Let_def set_groupname_property_def is_group_def split: if_splits)

lemma group_changed_by:
  assumes fd: "group_file_done C GUM_OPTYPE_MODIFY (gd_group self') (gr_name e) w upd w'"
    and gs: "if upd then gshadow_done C GUM_OPTYPE_MODIFY (gd_gshadow self') (gr_name e) w r w'
         else \<not> r \<and> files w' (gshadow_path C) = files w (gshadow_path C)"
    and ok: "group_ids_ok (group_db C w)"
    and e: "e \<in> set (group_db C w)" "is_group self e"
    and self: "gr_gid (gd_group self) \<noteq> GUM_GROUP_INVALID_GID"
      "gr_passwd (gd_group self) \<notin> {None, Some ''x''}"
    and self': "secret_stored C (group_merge_for_update self e s) self'"
  shows "group_update_done C self w r w'"
proof (cases upd)
  case False
  with fd gs show ?thesis by (simp add: group_update_done_def group_file_done_def files_eq_on_def)
next
  case True
  have d: "distinct (map gr_gid (group_db C w))" "gr_wf (group_db C w)"
    using ok by (simp_all add: group_ids_ok_def)
  have en: "gr_name e \<noteq> None" using d(2) e(1) by (auto simp: wf_entries_def group_line_def split: if_splits)
  let ?m = "group_merge_for_update self e s"
  have g: "gd_group self' = (gd_group ?m)\<lparr>gr_passwd := Some ''x''\<rparr>"
    using self' by (simp add: secret_stored_def)
  from True fd have "group_change GUM_OPTYPE_MODIFY (gd_group self') (gr_name e) (group_db C w) (group_db C w')"
    by (simp add: group_file_done_def)
  from group_modified [OF this d(1)] obtain e1 g' where e1: "e1 \<in> set (group_db C w)"
    "gr_gid e1 = gr_gid (gd_group self')" "group_line (gd_group self') = Some g'"
    "group_db C w' = map (\<lambda>x. if gr_gid x = gr_gid e1 then g' else x) (group_db C w)" by blast
  have gid: "gr_gid (gd_group self') = gr_gid e"
    using e(2) self(1) by (simp add: g merge_simps is_group_def GUM_GROUP_INVALID_GID_def)
  have eq: "e1 = e" using d(1) e(1) e1(1,2) gid by (auto simp: distinct_map inj_on_def)
  have "gr_name (gd_group self') \<noteq> None" using e1(3) by (auto simp: group_line_def split: if_splits)
  then have nm: "gr_name (gd_group self') = gr_name e" using merge_name [OF e(2)] by (simp add: g)
  have k: "group_line g' = Some g' \<and> gr_gid g' = gr_gid e \<and> gr_name g' = gr_name e \<and> gr_passwd g' = Some ''x'' \<and>
      gr_mem g' = nnl (if gr_mem (gd_group self) = None then gr_mem e else gr_mem (gd_group self))"
    using line_simps(3) [OF e1(3)] group_line_idem [OF e1(3)] gid nm by (simp add: g merge_simps)
  have db: "group_db C w' = map (\<lambda>x. if gr_gid x = gr_gid e then g' else x) (group_db C w)"
    using e1(4) eq by simp
  have sec: "gshadow_secret_set C self (gr_name e) w w'" if r
  proof (cases "files w (gshadow_path C) = None")
    case True
    with that \<open>upd\<close> gs show ?thesis by (simp add: gshadow_done_def gshadow_secret_set_def)
  next
    case False
    with that \<open>upd\<close> gs have "gshadow_change GUM_OPTYPE_MODIFY (gd_gshadow self') (gr_name e)
        (gshadow_db C w) (gshadow_db C w')" by (simp add: gshadow_done_def)
    then obtain s' where s': "sgrp_line (gd_gshadow self') = Some s'"
      "gshadow_db C w' = subst_first (\<lambda>s. sg_namp s = gr_name e) [s'] (gshadow_db C w)"
      "\<exists>s\<in>set (gshadow_db C w). sg_namp s = gr_name e"
      using en by (auto simp: entry_change_def gshadow_acts_def eq_commute)
    have "\<exists>pw. sg_passwd s' = Some pw \<and> stored_secret C self pw"
      using self' line_simps(4) [OF s'(1)] by (auto simp: secret_stored_def merge_simps)
    with s' False show ?thesis unfolding gshadow_secret_set_def by auto
  qed
  have "files w' (gshadow_path C) = files w (gshadow_path C)" if "\<not> r"
    using that True gs by (simp add: gshadow_done_def)
  with k sec have "group_changed C self w r w'"
    unfolding group_changed_def by (intro bexI [OF _ e(1)] conjI exI [of _ g'] e(2) db) simp_all
  with fd self show ?thesis by (simp add: group_update_done_def group_file_done_def)
qed

section \<open>Instances\<close>

text \<open>The reference context has distinct paths and reads that do not fail.\<close>

lemma ref_cfg:
  "cfg ref_ctx GUM_CONFIG_GENERAL_PASSWD_FILE = Some ''p''"
  "cfg ref_ctx GUM_CONFIG_GENERAL_SHADOW_FILE = Some ''s''"
  "cfg ref_ctx GUM_CONFIG_GENERAL_GROUP_FILE = Some ''g''"
  "cfg ref_ctx GUM_CONFIG_GENERAL_GSHADOW_FILE = Some ''gs''"
  by code_simp+

lemma ref_paths [simp]:
  "passwd_path ref_ctx = ''p''" "shadow_path ref_ctx = ''s''" "group_path ref_ctx = ''g''"
  "gshadow_path ref_ctx = ''gs''"
  by (simp_all add: path_defs ref_cfg)

lemma ref_reads_ok: "reads_ok ref_ctx"
  by (simp add: reads_ok_def ref_ctx_def)

lemma ref_paths_ok: "paths_ok ref_ctx"
  by code_simp

lemma ref_group_db: "group_ids_ok (group_db ref_ctx ref_world)" "gr_wf (group_db ref_ctx ref_world)"
  "sg_wf (gshadow_db ref_ctx ref_world)" "wf_entries passwd_line (passwd_db ref_ctx ref_world)"
  by code_simp+

definition ref_new_group :: daemon_group where
  "ref_new_group = group_set_property (group_set_property gumd_daemon_group_new
     (PROP_GROUPTYPE GUM_GROUPTYPE_USER)) (PROP_GROUPNAME (Some ''video''))"

definition ref_audio_group :: daemon_group where
  "ref_audio_group = group_set_property gumd_daemon_group_new (PROP_GID 1001)"

section \<open>Properties\<close>

lemma group_add_run:
  assumes "paths_ok C" and "reads_ok C" and "gr_wf (group_db C w)" and "sg_wf (gshadow_db C w)"
    and "snd (get_default_gid_range C self) < 0xFFFFFFFF"
  shows "wp (gumd_daemon_group_add C self pref)
           (\<lambda>(ok, self') w'. group_add_done C self pref w ok self' w') w"
proof -
  have keep: "group_add_done C self pref w False self' w'" if "files w' = files w" for self' w'
    using that by (simp add: group_add_done_def files_eq_on_def)
  have gid: "wp (set_gid C self pref) (\<lambda>(ok, self') w'. files w' = files w \<and>
    (ok \<longrightarrow> (\<exists>i. self' = map_group (\<lambda>g. g\<lparr>gr_gid := i\<rparr>) self \<and>
       valid (gum_validate_name (gr_name (gd_group self))) \<and>
       gr_name (gd_group self) \<notin> gr_name ` set (group_db C w) \<and>
       chosen_id (get_default_gid_range C self) pref (gr_gid ` set (group_db C w)) i))) w1"
    if "files w1 = files w" for w1
    using set_gid_spec [OF assms(1,2,5), of pref w1] that db_cong(3) [OF fun_cong [OF that]] by simp
  note tail = group_add_tail [OF assms(1-4)]
  show ?thesis
    unfolding gumd_daemon_group_add_def
    apply (rule wp_bind, rule group_files_kept(1), rule wp_if)
     apply (intro wp_return, simp add: keep)
    apply (rule wp_bind, rule files_kept(1), rule wp_if)
     apply (intro wp_bind wp_set_error wp_return, simp add: keep)
    apply (rule wp_step [OF gid], simp)
    apply (rule wp_case_prod, rule wp_if)
     apply (rule wp_unlock_ret, simp add: keep)
    apply (rule wp_step [OF set_gshadow_data_spec], rule wp_case_prod, rule wp_if)
     apply (rule wp_unlock_ret, simp add: keep)
    apply (rule tail)
     apply (auto simp: ready_to_add_def gshadow_of_def)
    done
qed

text \<open>
  C12. Adding a group. If it returns TRUE, the group file has one new entry, in the order
  of the ids, with the name and members asked for, a name that was not there and a valid
  one, and the id preferred if that is free and else the first free one of the range of
  the group's type; and the gshadow file, if there is one, has one new entry at its end,
  with a hash of the secret, or locked if no secret was given. If it returns FALSE, neither has changed, unless updating
  an existing gshadow file was what failed. The user databases are not touched.
\<close>

theorem gumd_daemon_group_add_spec:
  assumes "paths_ok C" and "reads_ok C" and "gr_wf (group_db C w)" and "sg_wf (gshadow_db C w)"
    and "snd (get_default_gid_range C self) < 0xFFFFFFFF"
  shows "wp (gumd_daemon_group_add C self pref)
           (\<lambda>(ok, self') w'. group_add_done C self pref w ok self' w') w"
  by (rule group_add_run [OF assms])

theorem gumd_daemon_group_add_spec_witness:
  "wp (gumd_daemon_group_add ref_ctx ref_new_group 0xFFFFFFFF)
     (\<lambda>(ok, self') w'. group_add_done ref_ctx ref_new_group 0xFFFFFFFF ref_world ok self' w') ref_world"
  by (rule gumd_daemon_group_add_spec [OF ref_paths_ok ref_reads_ok ref_group_db(2,3)]) code_simp

lemma add_member_run:
  assumes "paths_ok C" and "reads_ok C" and "group_ids_ok (group_db C w)"
    and "wf_entries passwd_line (passwd_db C w)"
  shows "wp (gumd_daemon_group_add_member C self uid add_as_admin)
           (\<lambda>(ok, _) w'. members_done C self uid join_members w ok w') w"
proof -
  have wf: "gr_wf (group_db C w)" using assms(3) by (simp add: group_ids_ok_def)
  note same = members_done_same
  show ?thesis
    unfolding gumd_daemon_group_add_member_def Let_def
    apply (rule wp_bind, rule files_kept(1), rule wp_if)
     apply (intro wp_bind wp_set_error wp_return, simp add: same)
    apply (rule wp_step [OF getpwuid_spec [OF assms(1), where w = w]], simp, rule wp_case_option)
     apply (rule wp_unlock_fail, simp add: same)
    apply (rule wp_step [OF get_group_at [OF assms(1), where w = w]], simp, rule wp_case_option)
     apply (rule wp_unlock_ret, simp add: same)
    apply (rule wp_if)
     apply (rule wp_unlock_fail, simp add: same)
    apply (rule wp_bind, rule files_kept(15))
    apply (rule wp_step [OF copy_group_data_spec [OF assms(1)]], rule wp_case_prod, rule wp_if)
     apply (rule wp_unlock_ret, simp add: same)
    apply (rule change_tail [OF assms(1,2) wf, where R = "\<lambda>_ _. True"])
    subgoal by simp
    subgoal unfolding simp_thms by (intro wp_if wp_return others_kept_refl gshadow_update_others [OF assms(1)])
    subgoal by simp
    subgoal premises prems for lk w1 rp w2 p rg w3 e sg w4 cp w5 ok self1 r upd w'
    proof -
      have upd: "r \<longrightarrow> upd" using prems by (auto split: if_splits)
      have p: "p \<in> set (passwd_db C w)" "pw_uid p = uid" "e \<in> set (group_db C w)" "is_group self e"
        using prems by auto
      obtain n where n: "pw_name p = Some n" using pw_name_Some [OF assms(4) p(1)] by blast
      have nm: "n \<notin> set (members e)" using prems n by (simp add: search_members)
      show ?thesis unfolding prod.case
        by (rule members_finish [OF assms(1,3) p(1,2) n p(3,4)])
          (use prems upd n nm in \<open>auto simp: join_members_def gd_group_admins with_member_group append_members\<close>)
    qed
    done
qed

text \<open>
  C24. Adding a member. If it returns TRUE, one entry of the group file, the one that the
  object names, has one more member at the end of its list, the name the passwd file has
  for the user id; no other entry and no other field of it has changed, the password field
  apart if it is not a valid one. If it returns FALSE, the group file is as it was or has
  so changed (then updating gshadow was what failed). passwd and shadow are not touched.
\<close>

theorem gumd_daemon_group_add_member_spec:
  assumes "paths_ok C" and "reads_ok C" and "group_ids_ok (group_db C w)"
    and "wf_entries passwd_line (passwd_db C w)"
  shows "wp (gumd_daemon_group_add_member C self uid add_as_admin)
           (\<lambda>(ok, _) w'. members_done C self uid join_members w ok w') w"
  by (rule add_member_run [OF assms])

theorem gumd_daemon_group_add_member_spec_witness:
  "wp (gumd_daemon_group_add_member ref_ctx ref_audio_group 1000 False)
     (\<lambda>(ok, _) w'. members_done ref_ctx ref_audio_group 1000 join_members ref_world ok w') ref_world"
  by (rule gumd_daemon_group_add_member_spec [OF ref_paths_ok ref_reads_ok ref_group_db(1,4)])

lemma delete_member_run:
  assumes "paths_ok C" and "reads_ok C" and "group_ids_ok (group_db C w)"
    and "wf_entries passwd_line (passwd_db C w)"
  shows "wp (gumd_daemon_group_delete_member C self uid)
           (\<lambda>(ok, _) w'. members_done C self uid leave_members w ok w') w"
proof -
  have wf: "gr_wf (group_db C w)" using assms(3) by (simp add: group_ids_ok_def)
  note same = members_done_same
  show ?thesis
    unfolding gumd_daemon_group_delete_member_def Let_def
    apply (rule wp_bind, rule files_kept(1), rule wp_if)
     apply (intro wp_bind wp_set_error wp_return, simp add: same)
    apply (rule wp_step [OF getpwuid_spec [OF assms(1), where w = w]], simp, rule wp_case_option)
     apply (rule wp_unlock_fail, simp add: same)
    apply (rule wp_step [OF get_group_at [OF assms(1), where w = w]], simp, rule wp_case_option)
     apply (rule wp_unlock_ret, simp add: same)
    apply (rule wp_if)
     apply (rule wp_unlock_fail, simp add: same)
    apply (rule wp_bind, rule files_kept(15))
    apply (rule wp_step [OF copy_group_data_spec [OF assms(1)]], rule wp_case_prod, rule wp_if)
     apply (rule wp_unlock_ret, simp add: same)
    apply (rule change_tail [OF assms(1,2) wf, where R = "\<lambda>_ _. True"])
    subgoal by simp
    subgoal unfolding simp_thms by (rule gshadow_if_exists_others [OF assms(1)])
    subgoal by simp
    subgoal premises prems for lk w1 rp w2 p rg w3 e sg w4 cp w5 ok self1 r upd w'
    proof -
      have upd: "r \<longrightarrow> upd" using prems by (auto split: if_splits)
      have p: "p \<in> set (passwd_db C w)" "pw_uid p = uid" "e \<in> set (group_db C w)" "is_group self e"
        using prems by auto
      obtain n where n: "pw_name p = Some n" using pw_name_Some [OF assms(4) p(1)] by blast
      have nm: "n \<in> set (members e)" using prems n by (simp add: search_members)
      show ?thesis unfolding prod.case
        by (rule members_finish [OF assms(1,3) p(1,2) n p(3,4)])
          (use prems upd n nm in \<open>auto simp: leave_members_def gd_group_admins with_member_group delete_members\<close>)
    qed
    done
qed

text \<open>
  C25. Removing a member. As for adding, except that the name must be among the members and
  that all its occurrences, and no other name, are taken out of the list.
\<close>

theorem gumd_daemon_group_delete_member_spec:
  assumes "paths_ok C" and "reads_ok C" and "group_ids_ok (group_db C w)"
    and "wf_entries passwd_line (passwd_db C w)"
  shows "wp (gumd_daemon_group_delete_member C self uid)
           (\<lambda>(ok, _) w'. members_done C self uid leave_members w ok w') w"
  by (rule delete_member_run [OF assms])

theorem gumd_daemon_group_delete_member_spec_witness:
  "wp (gumd_daemon_group_delete_member ref_ctx ref_audio_group 1000)
     (\<lambda>(ok, _) w'. members_done ref_ctx ref_audio_group 1000 leave_members ref_world ok w') ref_world"
  by (rule gumd_daemon_group_delete_member_spec [OF ref_paths_ok ref_reads_ok ref_group_db(1,4)])

lemma group_delete_run:
  assumes "paths_ok C" and "reads_ok C" and "group_ids_ok (group_db C w)" and "sg_wf (gshadow_db C w)"
  shows "wp (gumd_daemon_group_delete C self) (\<lambda>(ok, _) w'. group_delete_done C self w ok w') w"
proof -
  have wf: "gr_wf (group_db C w)" "distinct (map gr_gid (group_db C w))"
    using assms(3) by (simp_all add: group_ids_ok_def)
  note same = group_delete_same
  show ?thesis
    unfolding gumd_daemon_group_delete_def
    apply (rule wp_bind, rule files_kept(1), rule wp_if)
     apply (intro wp_bind wp_set_error wp_return, simp add: same)
    apply (rule wp_if)
     apply (rule wp_unlock_fail, simp add: same)
    apply (rule wp_step [OF copy_group_data_fresh [OF assms(1), where w = w]], simp,
        rule wp_case_prod, rule wp_if)
     apply (rule wp_unlock_ret, simp add: same)
    apply (rule wp_if)
     apply (rule wp_unlock_fail, simp add: same)
    subgoal premises prems for lk w1 cp w2 ok self'
    proof -
      from prems obtain e s where es: "gd_group self' = gd_group (copy_group_prop e self)"
        "gd_gshadow self' = copy_gshadow_struct s (gd_gshadow self) False"
        "e \<in> set (group_db C w)" "is_group self e" "\<forall>x. s = Some x \<longrightarrow> sg_namp x = gr_name e"
        and w2: "files w2 = files w" by auto
      have gid: "gr_gid (gd_group self') = gr_gid e" by (simp add: es copy_group_prop_simps)
      have ne: "gr_gid e \<noteq> GUM_GROUP_INVALID_GID" "gr_gid e \<noteq> getegid C"
          "gr_gid (gd_group self) \<noteq> GUM_GROUP_INVALID_GID"
        using prems es(4) gid by (auto simp: is_group_def GUM_GROUP_INVALID_GID_def)
      have primary: "group_delete_done C self w True w'"
        if "gr_gid e \<in> pw_gid ` set (passwd_db C w)" "files w' = files w" for w'
        using that es(3,4) ne(3) by (auto simp: group_delete_done_def files_eq_on_def)
      show ?thesis
        unfolding gid
        apply (rule wp_step [OF find_user_by_gid_none [OF assms(1,2) w2 ne(1)]], rule wp_if)
         apply (rule wp_unlock_ret, simp add: primary)
        apply (intro wp_bind wp_gets, rule files_kept(8))
        apply (rule change_tail [OF assms(1,2) wf(1) _ gshadow_tail [OF assms(1,2,4)] gshadow_done_cong])
        apply (simp_all)
        apply (rule group_dropped_by [OF _ _ wf(2) ne(3) es(3,4) ne(2) _ es(1,2,5)])
        apply auto
        done
    qed
    done
qed



lemma group_update_run:
  assumes "paths_ok C" and "reads_ok C" and "group_ids_ok (group_db C w)" and "sg_wf (gshadow_db C w)"
  shows "wp (gumd_daemon_group_update C self) (\<lambda>(ok, _) w'. group_update_done C self w ok w') w"
proof -
  have wf: "gr_wf (group_db C w)" using assms(3) by (simp add: group_ids_ok_def)
  note same = group_update_same
  show ?thesis
    unfolding gumd_daemon_group_update_def Let_def
    apply (rule wp_bind, rule files_kept(1), rule wp_if)
     apply (intro wp_bind wp_set_error wp_return, simp add: same)
    apply (rule wp_if)
     apply (rule wp_unlock_fail, simp add: same)
    apply (rule wp_step [OF get_group_at [OF assms(1), where w = w]], simp, rule wp_case_option)
     apply (rule wp_unlock_ret, simp add: same)
    apply (rule wp_bind, rule files_kept(15), rule wp_if)
     apply (rule wp_unlock_fail, simp add: same)
    apply (rule wp_step [OF group_set_secret_spec], rule wp_case_prod, rule wp_if)
     apply (rule wp_unlock_ret, simp add: same)
    apply (rule change_tail [OF assms(1,2) wf _ gshadow_tail [OF assms(1,2,4)] gshadow_done_cong])
       apply (simp_all)
    apply (rule group_changed_by [OF _ _ assms(3)])
          apply (auto simp: group_no_changes_def)
    done
qed

text \<open>
  C23. Changing a group. If it returns TRUE, a new secret was given; the entry that the object
  names keeps its id and name, refers to gshadow for its password and has the members of the
  object, or its old ones if the object has none; and the first entry of gshadow with its
  name is replaced by one with a hash of the secret. If it returns FALSE, nothing has changed
  or only the group file has, in this way.
\<close>

theorem gumd_daemon_group_update_spec:
  assumes "paths_ok C" and "reads_ok C" and "group_ids_ok (group_db C w)" and "sg_wf (gshadow_db C w)"
  shows "wp (gumd_daemon_group_update C self) (\<lambda>(ok, _) w'. group_update_done C self w ok w') w"
  by (rule group_update_run [OF assms])

theorem gumd_daemon_group_update_spec_witness:
  "wp (gumd_daemon_group_update ref_ctx (group_set_property ref_audio_group (PROP_SECRET (Some ''pw''))))
     (\<lambda>(ok, _) w'. group_update_done ref_ctx (group_set_property ref_audio_group (PROP_SECRET (Some ''pw'')))
        ref_world ok w') ref_world"
  by (rule gumd_daemon_group_update_spec [OF ref_paths_ok ref_reads_ok ref_group_db(1,3)])

end
