(* ===== verification/Gumd_Membership.thy ===== *)
theory Gumd_Membership
  imports Gumd_Group_Props
begin

text \<open>
  Removing a user from every group: the two passes of
  \<^verbatim>\<open>gumd_daemon_group_delete_user_membership\<close> as updates by a callback that reports
  a failure to write, what they make of the entries, and the property of the operation.
\<close>

section \<open>The passes\<close>

lemma keeps_error_pass [lock_rules]:
  "(\<And>ls path. keeps_error (wr ls path)) \<Longrightarrow> keeps_error (membership_pass C wr f)"
  unfolding membership_pass_def Let_def by (intro lock_rules)

text \<open>A pass is an update by a callback that reports the failure to write.\<close>

definition report :: "(line list \<Rightarrow> string \<Rightarrow> bool wm) \<Rightarrow> update_cb" where
  "report wr = (\<lambda>ls path. do { ok \<leftarrow> wr ls path; if ok then ret True else fail_with GUM_ERROR_FILE_WRITE })"

lemma membership_pass_update:
  "wp (gum_file_update C (Some (report wr)) p) Q w \<Longrightarrow>
   wp (membership_pass C wr p) (\<lambda>r w'. Q (r = Some True) w') w"
  by (auto simp: wp_def gum_file_update_def membership_pass_def Let_def report_def fail_with_def
      case_prod_beta split: option.splits if_splits)

interpretation pass_file: update_callback C
  "report (\<lambda>ls path. all_ok (\<lambda>e. put_line C path (enc e)) (ents ls))"
  "\<lambda>ls. lines_out enc (ents ls)" for C and enc :: "'e \<Rightarrow> line option" and ents
proof
  fix w :: world and path i ls
  assume i: "files w path = Some i" "i_lines i = []"
  show "wp (report (\<lambda>ls path. all_ok (\<lambda>e. put_line C path (enc e)) (ents ls)) ls path)
     (\<lambda>ok w'. others path w' = others path w \<and>
        (if ok then \<exists>xs. lines_out enc (ents ls) = Some xs \<and> files w' path = Some (i\<lparr>i_lines := xs\<rparr>)
         else gerror w' \<noteq> None)) w"
    unfolding report_def
    by (rule wp_step [OF all_ok_wrote])
      (auto simp: wrote_def appended_def i intro!: wp_rules)
next
  fix w :: world and path ls xs
  assume "healthy C" "lines_out enc (ents ls) = Some xs"
  then show "wp (report (\<lambda>ls path. all_ok (\<lambda>e. put_line C path (enc e)) (ents ls)) ls path) (\<lambda>ok _. ok) w"
    unfolding report_def by (intro wp_step [OF all_ok_healthy]) (auto intro: wp_rules)
qed

context entry_file
begin

lemma map_pass:
  assumes "paths_ok C" and "reads_ok C" and p: "p \<in> db_paths C"
    and h: "\<And>e e'. e \<in> set (db_entries ents p w) \<Longrightarrow> line_of (f e) = Some e' \<Longrightarrow> e' = h e"
  shows "wp (membership_pass C
            (\<lambda>ls path. all_ok (\<lambda>e. put_line C path (map_option mk (line_of (f e)))) (ents ls)) (Some p))
    (\<lambda>r w'. others_kept C p w w' \<and>
       (if r = Some True then db_entries ents p w' = map h (db_entries ents p w)
        else files w' p = files w p \<and> gerror w' \<noteq> None)) w"
proof (rule membership_pass_update, rule wp_mono [OF pass_file.update_spec])
  fix r w'
  assume u: "updated C p (\<lambda>ls. lines_out (\<lambda>e. map_option mk (line_of (f e))) (ents ls)) w r w'"
  note facts = updated_db_paths [OF assms(1) p u]
  have "db_entries ents p w' = map h (db_entries ents p w)" if r
  proof -
    from facts(3) [OF that assms(2)] obtain i j where ij: "files w p = Some i" "files w' p = Some j"
      and ls: "lines_out (\<lambda>e. map_option mk (line_of (f e))) (ents (i_lines i)) = Some (i_lines j)"
      by auto
    have "i_lines j = map mk (map h (ents (i_lines i)))"
      using lines_out_wf [OF ls] h ij by (auto simp: db_entries_def)
    with ij ents_map [of "map h (ents (i_lines i))"] show ?thesis by (simp add: db_entries_def)
  qed
  moreover have "gerror w' \<noteq> None" if "\<not> r" using u that by (simp add: updated_def)
  ultimately show "others_kept C p w w' \<and>
      (if r then db_entries ents p w' = map h (db_entries ents p w)
       else files w' p = files w p \<and> gerror w' \<noteq> None)"
    using facts(1,2) by (simp add: others_kept_def)
qed

end

text \<open>The entries without the user.\<close>

definition group_left :: "string \<Rightarrow> group_t \<Rightarrow> group_t" where
  "group_left u e = e\<lparr>gr_mem := map_option (removeAll u) (gr_mem e)\<rparr>"

definition gshadow_left :: "string \<Rightarrow> sgrp \<Rightarrow> sgrp" where
  "gshadow_left u s = s\<lparr>sg_adm := map_option (removeAll u) (sg_adm s), sg_mem := map_option (removeAll u) (sg_mem s)\<rparr>"

lemma group_without_line:
  assumes "group_line e = Some e" "group_line (group_without u e) = Some e'"
  shows "e' = group_left u e"
proof -
  have n: "nn (gr_passwd e) = gr_passwd e" "nnl (gr_mem e) = gr_mem e"
    using line_simps(3) [OF assms(1)] by (metis group_t.select_convs(2,4) group_t.surjective group_t.update_convs(2,4))+
  show ?thesis
    using line_simps(3) [OF assms(2)] n
    by (cases "gr_mem e") (auto simp: group_without_def group_left_def copy_group_struct_def)
qed

lemma gshadow_without_line:
  assumes "sgrp_line e = Some e" "sgrp_line (gshadow_without u e) = Some e'"
  shows "e' = gshadow_left u e"
proof -
  have n: "nn (sg_passwd e) = sg_passwd e" "nnl (sg_mem e) = sg_mem e" "nnl (sg_adm e) = sg_adm e"
    using line_simps(4) [OF assms(1)] by (metis sgrp.select_convs sgrp.surjective sgrp.update_convs)+
  show ?thesis
    using line_simps(4) [OF assms(2)] n
    by (cases "sg_mem e"; cases "sg_adm e") (auto simp: gshadow_without_def gshadow_left_def copy_gshadow_struct_def Let_def)
qed

lemma group_pass:
  assumes ok: "paths_ok C" "reads_ok C" "gr_wf (group_db C w)"
  shows "wp (membership_pass C (\<lambda>ls dup. all_ok (\<lambda>e. putgrent C (group_without u e) dup) (gr_entries ls))
               (cfg C GUM_CONFIG_GENERAL_GROUP_FILE))
    (\<lambda>r w'. others_kept C (group_path C) w w' \<and>
       (if r = Some True then group_db C w' = map (group_left u) (group_db C w)
        else files w' (group_path C) = files w (group_path C) \<and> gerror w' \<noteq> None)) w"
  unfolding putgrent_def paths_okD(3) [OF ok(1)] group_db_def
  by (rule gr_file.map_pass [OF ok(1,2)])
    (use ok(3) in \<open>auto simp: wf_entries_def group_db_def db_paths_def intro: group_without_line\<close>)

lemma gshadow_pass:
  assumes ok: "paths_ok C" "reads_ok C" "sg_wf (gshadow_db C w)"
  shows "wp (membership_pass C (\<lambda>ls dup. all_ok (\<lambda>e. putsgent C (gshadow_without u e) dup) (sg_entries ls))
               (cfg C GUM_CONFIG_GENERAL_GSHADOW_FILE))
    (\<lambda>r w'. others_kept C (gshadow_path C) w w' \<and>
       (if r = Some True then gshadow_db C w' = map (gshadow_left u) (gshadow_db C w)
        else files w' (gshadow_path C) = files w (gshadow_path C) \<and> gerror w' \<noteq> None)) w"
  unfolding putsgent_def paths_okD(4) [OF ok(1)] gshadow_db_def
  by (rule sg_file.map_pass [OF ok(1,2)])
    (use ok(3) in \<open>auto simp: wf_entries_def gshadow_db_def db_paths_def intro: gshadow_without_line\<close>)

definition user_left :: "ctx \<Rightarrow> string \<Rightarrow> world \<Rightarrow> bool \<Rightarrow> world \<Rightarrow> bool" where
  "user_left C u w ok w' \<longleftrightarrow>
     files_eq_on {passwd_path C, shadow_path C} w w' \<and>
     (files w' (group_path C) = files w (group_path C) \<or> group_db C w' = map (group_left u) (group_db C w)) \<and>
     (files w' (gshadow_path C) = files w (gshadow_path C) \<or> gshadow_db C w' = map (gshadow_left u) (gshadow_db C w)) \<and>
     (ok \<longrightarrow> gshadow_db C w' = map (gshadow_left u) (gshadow_db C w) \<and>
        (gerror w' \<noteq> None \<or> group_db C w' = map (group_left u) (group_db C w) \<and>
           (\<forall>e\<in>set (group_db C w'). \<forall>ms. gr_mem e = Some ms \<longrightarrow> u \<notin> set ms)))"

lemma group_left_not: "e \<in> group_left u ` A \<Longrightarrow> gr_mem e = Some ms \<Longrightarrow> u \<notin> set ms"
  by (auto simp: group_left_def)

lemma user_left_same: "files w' = files w \<Longrightarrow> user_left C u w False w'"
  by (simp add: user_left_def files_eq_on_def)

lemma gshadow_pass_err:
  assumes "paths_ok C" "reads_ok C" "sg_wf (gshadow_db C w)"
  shows "wp (membership_pass C (\<lambda>ls dup. all_ok (\<lambda>e. putsgent C (gshadow_without u e) dup) (sg_entries ls))
               (cfg C GUM_CONFIG_GENERAL_GSHADOW_FILE))
    (\<lambda>r w'. others_kept C (gshadow_path C) w w' \<and> (has_error w \<longrightarrow> has_error w') \<and>
       (if r = Some True then gshadow_db C w' = map (gshadow_left u) (gshadow_db C w)
        else files w' (gshadow_path C) = files w (gshadow_path C))) w"
proof -
  have "keeps_error (membership_pass C (\<lambda>ls dup. all_ok (\<lambda>e. putsgent C (gshadow_without u e) dup) (sg_entries ls))
      (cfg C GUM_CONFIG_GENERAL_GSHADOW_FILE))"
    unfolding putsgent_def by (intro lock_rules)
  then show ?thesis
    by (intro wp_mono [OF wp_conj [OF gshadow_pass [OF assms, of u]
        wp_of_run [where Q = "\<lambda>_ w'. has_error w \<longrightarrow> has_error w'"]]])
      (auto simp: balanced_def wp_def)
qed

lemma user_left_by:
  assumes pd: "paths_ok C"
    and g: "others_kept C (group_path C) w w2"
      "if r then group_db C w2 = map (group_left u) (group_db C w)
       else files w2 (group_path C) = files w (group_path C) \<and> gerror w2 \<noteq> None"
    and gs: "others_kept C (gshadow_path C) w2 w3" "has_error w2 \<longrightarrow> has_error w3"
      "if r' then gshadow_db C w3 = map (gshadow_left u) (gshadow_db C w)
       else files w3 (gshadow_path C) = files w (gshadow_path C) \<and> \<not> ok"
    and w': "files w' = files w3" "gerror w' = gerror w3"
  shows "user_left C u w ok w'"
proof -
  note pd = path_distinct [OF assms(1)]
  have grp: "files w' (group_path C) = files w2 (group_path C)"
    using gs(1) w' pd by (simp add: kept_defs)
  then have "group_db C w' = group_db C w2" by (rule db_cong)
  moreover have "gshadow_db C w' = gshadow_db C w3" using w' by (intro db_cong) simp
  moreover have "files_eq_on {passwd_path C, shadow_path C} w w'"
    using g(1) gs(1) w' pd by (simp add: kept_defs)
  ultimately show ?thesis
    using g(2) gs(2,3) w' grp
    by (cases r; cases r') (auto simp: user_left_def has_error_def group_left_not dest: group_left_not [rotated])
qed

lemma membership_run:
  assumes "paths_ok C" and "reads_ok C" and "gr_wf (group_db C w)" and "sg_wf (gshadow_db C w)"
  shows "wp (gumd_daemon_group_delete_user_membership C (Some u)) (user_left C u w) w"
proof -
  note same = user_left_same and pd = path_distinct [OF assms(1)]
  show ?thesis
    unfolding gumd_daemon_group_delete_user_membership_def option.case file_test_exists_def
    apply (rule wp_bind, rule files_kept(7), rule wp_if)
     apply (rule wp_return, simp add: same)
    apply (rule wp_bind, rule files_kept(1), rule wp_if)
     apply (rule wp_fail_with, simp add: same)
    subgoal premises prems for v w0 l w1
    proof -
      have w1: "files w1 = files w" using prems by simp
      note db = db_cong [OF fun_cong [OF w1]]
      have wf: "gr_wf (group_db C w1)" using assms(3) db by simp
      show ?thesis
        apply (rule wp_step [OF group_pass [OF assms(1,2) wf]], rule wp_case_option)
        apply (rule wp_unlock_err)
        subgoal using pd by (auto simp: user_left_def kept_defs w1)
        subgoal premises p2 for r w2 retval
        proof -
          have g: "others_kept C (group_path C) w w2"
              "if retval then group_db C w2 = map (group_left u) (group_db C w)
               else files w2 (group_path C) = files w (group_path C) \<and> gerror w2 \<noteq> None"
            using p2 db by (auto simp: kept_defs w1 split: if_splits)
          have gs: "files w2 (gshadow_path C) = files w (gshadow_path C)"
            using g(1) pd by (simp add: kept_defs)
          have wf2: "sg_wf (gshadow_db C w2)" using assms(4) db_cong(4) [OF gs] by simp
          note ends = user_left_by [OF assms(1) g]
          have none: "gshadow_db C w2 = map (gshadow_left u) (gshadow_db C w)"
            if "files w2 (gshadow_path C) = None"
            using that gs by (simp add: gshadow_db_def db_entries_def)
          show ?thesis
            apply (intro wp_bind wp_gets wp_if)
             apply (rule wp_unlock_err, rule ends [OF others_kept_refl, of True])
                apply (simp_all add: none paths_okD(4) [OF assms(1)])
            apply (rule wp_mono [OF gshadow_pass_err [OF assms(1,2) wf2, unfolded paths_okD(4) [OF assms(1)]]],
                rule wp_case_option)
             apply (rule wp_unlock_err, erule conjE, erule ends [of _ False])
                 apply (auto simp: gs)[4]
            apply (rule wp_unlock_err, erule conjE, erule ends [of _ "_ = Some True"])
               apply (auto simp: gs db_cong(4) [OF gs] split: if_splits)[4]
            done
        qed
        done
    qed
    done
qed

text \<open>
  C13. Removing a user from every group. If it returns TRUE, the gshadow entries are the old
  ones without the user among members and administrators; and unless an error has been
  reported on the way, so are the group entries, and the user is a member of no group. Each
  of the two files is as it was or so changed, whatever is returned. (When the group file
  could not be written and gshadow could, TRUE is returned with the error set.)
\<close>

theorem gumd_daemon_group_delete_user_membership_spec:
  assumes "paths_ok C" and "reads_ok C" and "gr_wf (group_db C w)" and "sg_wf (gshadow_db C w)"
  shows "wp (gumd_daemon_group_delete_user_membership C (Some u)) (user_left C u w) w"
  by (rule membership_run [OF assms])

theorem gumd_daemon_group_delete_user_membership_spec_witness:
  "wp (gumd_daemon_group_delete_user_membership ref_ctx (Some ''ann''))
     (user_left ref_ctx ''ann'' ref_world) ref_world"
  by (rule gumd_daemon_group_delete_user_membership_spec [OF ref_paths_ok ref_reads_ok ref_group_db(2,3)])

end
