(* ===== verification/Gumd_User_Lock.thy ===== *)
theory Gumd_User_Lock
  imports Gumd_User Gum_Home_Spec Gumd_Membership
begin

text \<open>
  The user object and the database lock, and the locking of an account: every operation of
  the user object gives back the lock it takes, and what the pass over the shadow file does
  that locks or unlocks an account.
\<close>

section \<open>Every operation gives back the lock\<close>

text \<open>The pass that locks an account is one of the common kind, for the operation it is used with.\<close>

lemma lock_shadow_entry_pass:
  "lock_shadow_entry C self GUM_OPTYPE_MODIFY (Some lock) =
     (\<lambda>ls dup. update_entries (\<lambda>e. putspent C e dup) (lock_switch GUM_OPTYPE_MODIFY (du_pw self) lock)
        GUM_OPTYPE_MODIFY new (sp_entries ls))"
  unfolding lock_shadow_entry_def update_entries_def option.case
  by (intro ext arg_cong [where f = "State_Monad.bind _"]) (simp split: option.split)

lemma home_indep_lock: "home_indep path lock_of" "node_indep lock_of"
  by (simp_all add: home_indep_def node_indep_def lock_of_def)

lemma lock_of_infos [simp]:
  "lock_of (w\<lparr>infos := i\<rparr>) = lock_of w" "lock_of (w\<lparr>sessions := ss\<rparr>) = lock_of w"
  by (simp_all add: lock_of_def)

lemma keeps_lock_user_callbacks [lock_rules]:
  "keeps_lock (update_passwd_entry C self op ud ls path)"
  "keeps_lock (update_shadow_entry C self op ud ls path)"
  "keeps_lock (lock_shadow_entry C self GUM_OPTYPE_MODIFY (Some lock) ls path)"
  unfolding update_passwd_entry_def update_shadow_entry_def
    lock_shadow_entry_pass [where new = "du_shadow self"] putpwent_def putspent_def
  by (intro lock_rules)+

lemma keeps_lock_userinfo [lock_rules]:
  "keeps_lock (delete_userinfo C self)" "keeps_lock (add_userinfo C self)"
  "keeps_lock (update_userinfo C self icon)" "keeps_lock (get_userinfo C self)"
  unfolding delete_userinfo_def add_userinfo_def update_userinfo_def get_userinfo_def
    save_userinfo_def load_userinfo_def
  by (intro keeps_lock_frame frame_rules; simp)+

lemma keeps_lock_sessions [lock_rules]: "keeps_lock (terminate_user C uid)"
  unfolding terminate_user_def is_user_logged_in_def
  by (intro keeps_lock_frame frame_rules; simp)

lemma keeps_lock_home [lock_rules]:
  "keeps_lock (create_home_dir C self)" "keeps_lock (delete_home_dir C self)"
  unfolding create_home_dir_def delete_home_dir_def
  by (intro keeps_lock_frame frame_rules frame_create_home_dir frame_delete_home_dir home_indep_lock)+

lemma keeps_lock_and_then [lock_rules]: "keeps_lock a \<Longrightarrow> keeps_lock b \<Longrightarrow> keeps_lock (and_then a b)"
  unfolding and_then_def by (intro lock_rules)

lemma keeps_lock_user_steps [lock_rules]:
  "keeps_lock (set_uid C self)" "keeps_lock (set_shadow_data C self)"
  "keeps_lock (user_set_secret C self)" "keeps_lock (user_set_group C self)"
  "keeps_lock (set_default_groups C self)" "keeps_lock (user_delete_group C self)"
  "keeps_lock (get_passwd C self)" "keeps_lock (copy_passwd_data C self)"
  "keeps_lock (update_passwd_shadow C self op ud)" "keeps_lock (lock_account C self lock)"
proof -
  have loop: "keeps_lock (find_uid_loop C n t m)" for n t m
    by (induction C n t m rule: find_uid_loop.induct)
      (subst find_uid_loop.simps, intro lock_rules, blast+)
  have name: "keeps_lock (set_daemon_user_name C self)" for self
    unfolding set_daemon_user_name_def
    by (cases "gum_validate_generate_username (c_env C) (nick_name self)") (auto intro!: lock_rules)
  show "keeps_lock (set_uid C self)"
    unfolding set_uid_def find_free_uid_def by (intro lock_rules loop name)
  show secret: "keeps_lock (user_set_secret C self)" for self
    unfolding user_set_secret_def by (intro lock_rules)
  show "keeps_lock (set_shadow_data C self)"
    unfolding set_shadow_data_def by (intro lock_rules secret)
  show "keeps_lock (user_set_group C self)"
    unfolding user_set_group_def by (intro lock_rules)
  have groups: "keeps_lock (default_groups_loop C uid gs b)" for uid gs b
    by (induction gs arbitrary: b) (auto intro!: lock_rules)
  show "keeps_lock (set_default_groups C self)"
    unfolding set_default_groups_def by (intro lock_rules groups)
  show "keeps_lock (user_delete_group C self)"
    unfolding user_delete_group_def by (intro lock_rules)
  show passwd: "keeps_lock (get_passwd C self)" for self
    unfolding get_passwd_def by (intro lock_rules)
  show "keeps_lock (copy_passwd_data C self)"
    unfolding copy_passwd_data_def by (intro lock_rules passwd)
  show "keeps_lock (update_passwd_shadow C self op ud)"
    unfolding update_passwd_shadow_def by (intro lock_rules)
  show "keeps_lock (lock_account C self lock)"
    unfolding lock_account_def by (intro lock_rules)
qed

lemma keeps_lock_user_ops [lock_rules]:
  "keeps_lock (gumd_daemon_user_new_by_uid C uid)"
  "keeps_lock (gumd_daemon_user_new_by_name C n)"
  "keeps_lock (gumd_daemon_user_add C self)"
  "keeps_lock (gumd_daemon_user_delete C self rem)"
  "keeps_lock (gumd_daemon_user_update C self)"
  "keeps_lock (gumd_daemon_user_get_uid_by_name C n)"
  "keeps_lock (gumd_daemon_user_get_user_list C types)"
  unfolding gumd_daemon_user_new_by_uid_def gumd_daemon_user_new_by_name_def gumd_daemon_user_add_def
    gumd_daemon_user_delete_def gumd_daemon_user_update_def gumd_daemon_user_get_uid_by_name_def
    gumd_daemon_user_get_user_list_def
  by (intro lock_rules; simp)+

section \<open>Locking an account\<close>

text \<open>An update of an entry file by any pass, in terms of what the pass makes of the entries.\<close>

context entry_file
begin

lemma pass_step:
  assumes "paths_ok C" and "reads_ok C" and p: "p \<in> db_paths C"
  shows "wp (gum_file_update C (Some (\<lambda>ls path.
            update_entries (\<lambda>e. put_line C path (map_option mk (line_of e))) body op new (ents ls)))
          (Some p))
    (\<lambda>ok w'. others_kept C p w w' \<and>
       (if ok then \<exists>xs. update_out body op new (db_entries ents p w) = Some xs \<and>
                      db_entries ents p w' = map (\<lambda>e. the (line_of e)) xs
        else files w' p = files w p \<and> gerror w' \<noteq> None)) w"
proof (rule wp_mono [OF update_callback.update_spec [OF update_entries_callback]])
  fix ok w'
  assume u: "updated C p (pass_out ents (\<lambda>e. map_option mk (line_of e)) body op new) w ok w'"
  note facts = updated_db_paths [OF assms(1) p u]
  have "\<exists>xs. update_out body op new (db_entries ents p w) = Some xs \<and>
      db_entries ents p w' = map (\<lambda>e. the (line_of e)) xs" if ok
  proof -
    from facts(3) [OF that assms(2)] obtain i j xs where
      ij: "files w p = Some i" "files w' p = Some j" and
      xs: "update_out body op new (ents (i_lines i)) = Some xs"
        "lines_out (\<lambda>e. map_option mk (line_of e)) xs = Some (i_lines j)"
      by (auto simp: pass_out_def split: option.splits)
    have "i_lines j = map mk (map (\<lambda>e. the (line_of e)) xs)"
      using lines_out_wf [OF xs(2)] by simp
    with ij xs(1) ents_map [of "map (\<lambda>e. the (line_of e)) xs"] show ?thesis
      by (simp add: db_entries_def)
  qed
  moreover have "gerror w' \<noteq> None" if "\<not> ok" using u that by (simp add: updated_def)
  ultimately show "others_kept C p w w' \<and>
      (if ok then \<exists>xs. update_out body op new (db_entries ents p w) = Some xs \<and>
                      db_entries ents p w' = map (\<lambda>e. the (line_of e)) xs
       else files w' p = files w p \<and> gerror w' \<noteq> None)"
    using facts(1,2) by (simp add: others_kept_def)
qed

end

fun map_first :: "('a \<Rightarrow> bool) \<Rightarrow> ('a \<Rightarrow> 'a) \<Rightarrow> 'a list \<Rightarrow> 'a list" where
  "map_first P f [] = []"
| "map_first P f (x # xs) = (if P x then f x # xs else x # map_first P f xs)"

lemma map_first_twice:
  "(\<And>x. P (f x) = P x) \<Longrightarrow> map_first P g (map_first P f xs) = map_first P (\<lambda>x. g (f x)) xs"
  by (induction xs) auto

lemma map_first_id:
  "(\<And>x. x \<in> set xs \<Longrightarrow> f x = x) \<Longrightarrow> map_first P f xs = xs"
  by (induction xs) auto

lemma map_first_cong:
  "(\<And>x. x \<in> set xs \<Longrightarrow> P x \<Longrightarrow> f x = g x) \<Longrightarrow> map_first P f xs = map_first P g xs"
  by (induction xs) auto

lemma map_first_subst:
  "List.find P xs = Some x \<Longrightarrow> map_first P f xs = subst_first P [f x] xs"
  by (induction xs) (auto split: if_splits)

lemma map_map_first:
  "(\<And>x. x \<in> set xs \<Longrightarrow> g x = x) \<Longrightarrow> map g (map_first P f xs) = map_first P (\<lambda>x. g (f x)) xs"
  by (induction xs) (auto intro: map_idI)

lemma find_map_first:
  "(\<And>x. P (f x) = P x) \<Longrightarrow> List.find P (map_first P f xs) = map_option f (List.find P xs)"
  by (induction xs) auto

lemma update_out_map_first:
  assumes "\<And>e. body e True = Write [e] True"
    and "\<And>e. body e False = (if P e then Write [f e] True else Write [e] False)"
    and "op \<noteq> GUM_OPTYPE_ADD"
  shows "update_out body op new es = (if \<exists>e\<in>set es. P e then Some (map_first P f es) else None)"
proof -
  have t: "entries_out body es True = Some (es, True)" for es
    by (induction es) (auto simp: assms)
  have "entries_out body es False = Some (map_first P f es, \<exists>e\<in>set es. P e)"
    by (induction es) (auto simp: assms t)
  then show ?thesis using assms(3) by (simp add: update_out_def)
qed

lemma lock_switch_out:
  "update_out (lock_switch GUM_OPTYPE_MODIFY pw lock) GUM_OPTYPE_MODIFY new es =
     (if \<exists>e\<in>set es. sp_namp e = pw_name pw
      then Some (map_first (\<lambda>e. sp_namp e = pw_name pw) (lock_copy lock) es) else None)"
  by (rule update_out_map_first) (auto simp: lock_switch_def)

text \<open>
  The entry of the account as it is written: with the mark put before the secret or taken
  off, and with no secret at all if it was already as asked for.
\<close>

definition relock :: "bool \<Rightarrow> spwd \<Rightarrow> spwd" where
  "relock lock e = e\<lparr>sp_pwdp := Some (
     if secret_locked (sp_pwdp e) = lock then []
     else if lock then CHR ''!'' # the (sp_pwdp e) else tl (the (sp_pwdp e)))\<rparr>"

abbreviation sp_wf :: "spwd list \<Rightarrow> bool" where
  "sp_wf \<equiv> wf_entries spwd_line"

lemma sp_wfD: "sp_wf es \<Longrightarrow> e \<in> set es \<Longrightarrow> spwd_line e = Some e"
  by (simp add: wf_entries_def)

lemma spwd_line_secret: "spwd_line e = Some e \<Longrightarrow> \<exists>s. sp_pwdp e = Some s"
  using arg_cong [OF line_simps(2) [of e e], of sp_pwdp] by (cases "sp_pwdp e") (auto simp: nn_def)

lemma lock_copy_line:
  assumes "spwd_line e = Some e"
  shows "spwd_line (lock_copy lock e) = Some (relock lock e)"
proof -
  from spwd_line_secret [OF assms] obtain s where s: "sp_pwdp e = Some s" ..
  from assms have "sp_namp e \<noteq> None" "valid_field (sp_namp e)" "valid_field (Some s)"
    by (simp_all add: spwd_line_def s split: if_splits)
  then show ?thesis
    by (cases s) (auto simp: lock_copy_def relock_def spwd_line_def valid_field_def s nn_def
        secret_locked_def strpbrk_def)
qed

lemma relock_name [simp]: "sp_namp (relock lock e) = sp_namp e"
  by (simp add: relock_def)

lemma sp_wf_relock: "sp_wf es \<Longrightarrow> sp_wf (map_first P (relock lock) es)"
proof (induction es)
  case (Cons e es)
  then have "spwd_line (relock lock e) = Some (relock lock e)"
    by (intro spwd_line_idem [OF lock_copy_line]) (simp add: wf_entries_def)
  with Cons show ?case by (auto simp: wf_entries_def)
qed simp

lemma lock_account_spec:
  assumes ok: "paths_ok C" "reads_ok C" "sp_wf (shadow_db C w)"
  shows "wp (lock_account C self lock) (\<lambda>ok w'. others_kept C (shadow_path C) w w' \<and> gerror w' = gerror w \<and>
     (if ok then (\<exists>e\<in>set (shadow_db C w). sp_namp e = pw_name (du_pw self)) \<and>
                 shadow_db C w' = map_first (\<lambda>e. sp_namp e = pw_name (du_pw self)) (relock lock) (shadow_db C w)
      else files w' (shadow_path C) = files w (shadow_path C))) w"
proof -
  let ?P = "\<lambda>e. sp_namp e = pw_name (du_pw self)"
  have id: "the (spwd_line e) = e" if "e \<in> set (shadow_db C w)" for e
    using sp_wfD [OF ok(3) that] by simp
  have "map (\<lambda>e. the (spwd_line e)) (map_first ?P (lock_copy lock) (shadow_db C w)) =
      map_first ?P (relock lock) (shadow_db C w)"
    by (subst map_map_first) (auto simp: id lock_copy_line sp_wfD [OF ok(3)] intro!: map_first_cong)
  then show ?thesis
    unfolding lock_account_def lock_shadow_entry_pass [where new = "du_shadow self"] putspent_def
      paths_okD(2) [OF ok(1)] shadow_db_def
    apply (intro wp_no_error)
    apply (rule wp_mono [OF sp_file.pass_step [OF ok(1,2)]])
     apply (auto simp: db_paths_def others_kept_def lock_switch_out db_entries_def split: if_splits)
    done
qed

section \<open>Property\<close>

text \<open>
  C14. Locking and then unlocking an account. Each step that returns TRUE has found an entry
  with the name of the user in the shadow file. If the account was not locked, both steps
  together give back the shadow entries as they were; if it was locked, they leave it with
  an empty secret. No error is reported and no other database changes.
\<close>

theorem lock_account_roundtrip:
  assumes "paths_ok C" and "reads_ok C" and "sp_wf (shadow_db C w)"
  shows "wp (do { a \<leftarrow> lock_account C self True; b \<leftarrow> lock_account C self False; ret (a, b) })
    (\<lambda>(a, b) w'. others_kept C (shadow_path C) w w' \<and> gerror w' = gerror w \<and>
       (a \<and> b \<longrightarrow> (case List.find (\<lambda>e. sp_namp e = pw_name (du_pw self)) (shadow_db C w) of
          None \<Rightarrow> False
        | Some e \<Rightarrow> shadow_db C w' =
            (if secret_locked (sp_pwdp e)
             then subst_first (\<lambda>e. sp_namp e = pw_name (du_pw self)) [e\<lparr>sp_pwdp := Some []\<rparr>] (shadow_db C w)
             else shadow_db C w)))) w"
proof (rule wp_step [OF lock_account_spec [OF assms]])
  let ?P = "\<lambda>e. sp_namp e = pw_name (du_pw self)"
  fix a w1
  assume w1: "others_kept C (shadow_path C) w w1 \<and> gerror w1 = gerror w \<and>
     (if a then (\<exists>e\<in>set (shadow_db C w). ?P e) \<and> shadow_db C w1 = map_first ?P (relock True) (shadow_db C w)
      else files w1 (shadow_path C) = files w (shadow_path C))"
  have wf: "sp_wf (shadow_db C w1)"
    using w1 assms(3) sp_wf_relock [OF assms(3), of ?P True] db_cong(2) [of w1 C w] by (cases a) auto
  show "wp (do { b \<leftarrow> lock_account C self False; ret (a, b) })
    (\<lambda>(a, b) w'. others_kept C (shadow_path C) w w' \<and> gerror w' = gerror w \<and>
       (a \<and> b \<longrightarrow> (case List.find ?P (shadow_db C w) of None \<Rightarrow> False
        | Some e \<Rightarrow> shadow_db C w' =
            (if secret_locked (sp_pwdp e) then subst_first ?P [e\<lparr>sp_pwdp := Some []\<rparr>] (shadow_db C w)
             else shadow_db C w)))) w1"
  proof (rule wp_step [OF lock_account_spec [OF assms(1,2) wf]], rule wp_return, clarify, intro conjI impI)
    fix b w2
    assume w2: "others_kept C (shadow_path C) w1 w2" "gerror w2 = gerror w1"
      "if b then (\<exists>e\<in>set (shadow_db C w1). ?P e) \<and> shadow_db C w2 = map_first ?P (relock False) (shadow_db C w1)
       else files w2 (shadow_path C) = files w1 (shadow_path C)"
    show "others_kept C (shadow_path C) w w2" "gerror w2 = gerror w"
      using w1 w2 by (auto intro: others_kept_trans)
    assume "a \<and> b"
    with w1 w2 have db: "shadow_db C w2 = map_first ?P (\<lambda>e. relock False (relock True e)) (shadow_db C w)"
      by (simp add: map_first_twice)
    from \<open>a \<and> b\<close> w1 obtain e where e: "List.find ?P (shadow_db C w) = Some e"
      using find_Some_iff_ex [of ?P "shadow_db C w"] by auto
    then have mem: "e \<in> set (shadow_db C w)" and P: "?P e" using find_SomeD by force+
    from spwd_line_secret [OF sp_wfD [OF assms(3) mem]] obtain s where s: "sp_pwdp e = Some s" ..
    have "relock False (relock True e) = (if secret_locked (sp_pwdp e) then e\<lparr>sp_pwdp := Some []\<rparr> else e)"
      by (cases e, cases s) (use s in \<open>auto simp: relock_def secret_locked_def\<close>)
    with db map_first_subst [OF e, of "\<lambda>e. relock False (relock True e)"]
      map_first_subst [OF e, of "\<lambda>e. e"] map_first_id [of "shadow_db C w" "\<lambda>e. e" ?P]
    show "case List.find ?P (shadow_db C w) of None \<Rightarrow> False
        | Some e \<Rightarrow> shadow_db C w2 =
            (if secret_locked (sp_pwdp e) then subst_first ?P [e\<lparr>sp_pwdp := Some []\<rparr>] (shadow_db C w)
             else shadow_db C w)"
      by (simp add: e)
  qed
qed

definition ref_user :: daemon_user where
  "ref_user = user_set_property (c_env ref_ctx) gumd_daemon_user_new (PROP_UID 1000)"

theorem lock_account_roundtrip_witness:
  "wp (do { a \<leftarrow> lock_account ref_ctx ref_user True; b \<leftarrow> lock_account ref_ctx ref_user False; ret (a, b) })
     (\<lambda>_ w'. others_kept ref_ctx ''s'' ref_world w' \<and> gerror w' = gerror ref_world) ref_world"
proof -
  have "sp_wf (shadow_db ref_ctx ref_world)" by code_simp
  from lock_account_roundtrip [OF ref_paths_ok ref_reads_ok this, of ref_user] show ?thesis
    by (rule wp_mono) auto
qed

end
