(* ===== verification/Gumd_Wf.thy ===== *)
theory Gumd_Wf
  imports Gumd_User_Lock
begin

text \<open>
  The four databases stay readable: whatever operation of the user or group object runs,
  and whatever calls fail in it, entries that are written as they are read stay so. The
  theory also holds what the two update callbacks of the user object do to the databases.
\<close>

section \<open>The callbacks of the user object\<close>

definition passwd_acts :: "GumOpType \<Rightarrow> passwd \<Rightarrow> pstr \<Rightarrow> passwd \<Rightarrow> bool" where
  "passwd_acts op p ud e \<longleftrightarrow> pw_uid p = pw_uid e \<and> pw_gid p = pw_gid e \<and>
     (if op = GUM_OPTYPE_MODIFY \<and> ud \<noteq> None then ud else pw_name p) = pw_name e"

definition shadow_acts :: "GumOpType \<Rightarrow> spwd \<Rightarrow> pstr \<Rightarrow> spwd \<Rightarrow> bool" where
  "shadow_acts op s ud e \<longleftrightarrow>
     (if op = GUM_OPTYPE_MODIFY \<and> ud \<noteq> None then ud else sp_namp s) = sp_namp e"

lemma passwd_switch_out:
  "update_out (passwd_switch op p ud) op p es =
   switch_out op p (\<lambda>e. pw_uid p < pw_uid e) (\<lambda>_. False) (passwd_acts op p ud) es"
proof (cases op)
  case GUM_OPTYPE_ADD
  have "update_out (passwd_switch GUM_OPTYPE_ADD p ud) GUM_OPTYPE_ADD p es =
      Some (insert_before (\<lambda>e. pw_uid p < pw_uid e) p es)"
    by (rule update_out_insert) (auto simp: passwd_switch_def)
  with GUM_OPTYPE_ADD show ?thesis by (simp add: switch_out_def)
next
  case GUM_OPTYPE_DELETE
  have "update_out (passwd_switch GUM_OPTYPE_DELETE p ud) GUM_OPTYPE_DELETE p es =
      (if \<exists>e\<in>set es. passwd_acts GUM_OPTYPE_DELETE p ud e
       then Some (subst_first (passwd_acts GUM_OPTYPE_DELETE p ud) [] es) else None)"
    by (rule update_out_subst) (auto simp: passwd_switch_def passwd_acts_def)
  with GUM_OPTYPE_DELETE show ?thesis by (simp add: switch_out_def)
next
  case GUM_OPTYPE_MODIFY
  have "update_out (passwd_switch GUM_OPTYPE_MODIFY p ud) GUM_OPTYPE_MODIFY p es =
      (if \<exists>e\<in>set es. passwd_acts GUM_OPTYPE_MODIFY p ud e
       then Some (subst_first (passwd_acts GUM_OPTYPE_MODIFY p ud) [p] es) else None)"
    by (rule update_out_subst) (auto simp: passwd_switch_def passwd_acts_def)
  with GUM_OPTYPE_MODIFY show ?thesis by (simp add: switch_out_def)
qed

lemma shadow_switch_out:
  "update_out (shadow_switch op s ud) op s es =
   switch_out op s (\<lambda>_. False) (\<lambda>e. sp_namp s = sp_namp e) (shadow_acts op s ud) es"
proof (cases op)
  case GUM_OPTYPE_ADD
  have "update_out (shadow_switch GUM_OPTYPE_ADD s ud) GUM_OPTYPE_ADD s es =
      (if \<exists>e\<in>set es. sp_namp s = sp_namp e then None else Some (es @ [s]))"
    by (rule update_out_append [where err = GUM_ERROR_USER_ALREADY_EXISTS]) (auto simp: shadow_switch_def)
  with GUM_OPTYPE_ADD show ?thesis by (simp add: switch_out_def insert_before_False)
next
  case GUM_OPTYPE_DELETE
  have "update_out (shadow_switch GUM_OPTYPE_DELETE s ud) GUM_OPTYPE_DELETE s es =
      (if \<exists>e\<in>set es. shadow_acts GUM_OPTYPE_DELETE s ud e
       then Some (subst_first (shadow_acts GUM_OPTYPE_DELETE s ud) [] es) else None)"
    by (rule update_out_subst) (auto simp: shadow_switch_def shadow_acts_def)
  with GUM_OPTYPE_DELETE show ?thesis by (simp add: switch_out_def)
next
  case GUM_OPTYPE_MODIFY
  have "update_out (shadow_switch GUM_OPTYPE_MODIFY s ud) GUM_OPTYPE_MODIFY s es =
      (if \<exists>e\<in>set es. shadow_acts GUM_OPTYPE_MODIFY s ud e
       then Some (subst_first (shadow_acts GUM_OPTYPE_MODIFY s ud) [s] es) else None)"
    by (rule update_out_subst) (auto simp: shadow_switch_def shadow_acts_def)
  with GUM_OPTYPE_MODIFY show ?thesis by (simp add: switch_out_def)
qed

abbreviation passwd_change :: "GumOpType \<Rightarrow> passwd \<Rightarrow> pstr \<Rightarrow> passwd list \<Rightarrow> passwd list \<Rightarrow> bool" where
  "passwd_change op p ud \<equiv>
     entry_change passwd_line op p (\<lambda>e. pw_uid p < pw_uid e) (\<lambda>_. False) (passwd_acts op p ud)"

abbreviation shadow_change :: "GumOpType \<Rightarrow> spwd \<Rightarrow> pstr \<Rightarrow> spwd list \<Rightarrow> spwd list \<Rightarrow> bool" where
  "shadow_change op s ud \<equiv>
     entry_change spwd_line op s (\<lambda>_. False) (\<lambda>e. sp_namp s = sp_namp e) (shadow_acts op s ud)"

abbreviation pw_wf :: "passwd list \<Rightarrow> bool" where
  "pw_wf \<equiv> wf_entries passwd_line"

text \<open>An update of one database, seen from all four.\<close>

definition db_updated ::
    "ctx \<Rightarrow> string \<Rightarrow> ('e list \<Rightarrow> 'e list \<Rightarrow> bool) \<Rightarrow> (world \<Rightarrow> 'e list) \<Rightarrow> world \<Rightarrow> bool \<Rightarrow> world \<Rightarrow> bool" where
  "db_updated C p change db w ok w' \<longleftrightarrow> others_kept C p w w' \<and>
     (if ok then change (db w) (db w') else files w' p = files w p \<and> gerror w' \<noteq> None)"

lemma passwd_update_step:
  assumes "paths_ok C" and "reads_ok C" and "pw_wf (passwd_db C w)"
  shows "wp (gum_file_update C (Some (update_passwd_entry C self op ud))
               (cfg C GUM_CONFIG_GENERAL_PASSWD_FILE))
    (db_updated C (passwd_path C) (passwd_change op (du_pw self) ud) (passwd_db C) w) w"
  using pw_file.update_step [OF assms(1,2) _ _ passwd_switch_out, of "passwd_path C" w op "du_pw self" ud] assms(3)
  unfolding paths_okD(1) [OF assms(1)] update_passwd_entry_def [abs_def] putpwent_def
    db_updated_def [abs_def] passwd_db_def
  by (simp add: db_paths_def)

lemma shadow_update_step:
  assumes "paths_ok C" and "reads_ok C" and "sp_wf (shadow_db C w)"
  shows "wp (gum_file_update C (Some (update_shadow_entry C self op ud))
               (cfg C GUM_CONFIG_GENERAL_SHADOW_FILE))
    (db_updated C (shadow_path C) (shadow_change op (du_shadow self) ud) (shadow_db C) w) w"
  using sp_file.update_step [OF assms(1,2) _ _ shadow_switch_out, of "shadow_path C" w op "du_shadow self" ud] assms(3)
  unfolding paths_okD(2) [OF assms(1)] update_shadow_entry_def [abs_def] putspent_def
    db_updated_def [abs_def] shadow_db_def
  by (simp add: db_paths_def)

section \<open>Well-formed databases\<close>

definition db_wf :: "ctx \<Rightarrow> world \<Rightarrow> bool" where
  "db_wf C w \<longleftrightarrow> pw_wf (passwd_db C w) \<and> sp_wf (shadow_db C w) \<and> gr_wf (group_db C w) \<and> sg_wf (gshadow_db C w)"

abbreviation keeps_wf :: "ctx \<Rightarrow> 'a wm \<Rightarrow> bool" where
  "keeps_wf C m \<equiv> balanced (db_wf C) (\<lambda>_. 0) m"

lemma db_wf_files: "files w' = files w \<Longrightarrow> db_wf C w' = db_wf C w"
  by (simp add: db_wf_def passwd_db_def shadow_db_def group_db_def gshadow_db_def db_entries_def)

lemma keeps_wf_frame: "frame files m \<Longrightarrow> keeps_wf C m"
  unfolding balanced_def frame_def wp_def using db_wf_files by blast

text \<open>A change of one database that leaves it well-formed.\<close>

lemma db_wf_kept:
  assumes "paths_ok C" "db_wf C w"
  shows "others_kept C (passwd_path C) w w' \<Longrightarrow> pw_wf (passwd_db C w') \<Longrightarrow> db_wf C w'"
    and "others_kept C (shadow_path C) w w' \<Longrightarrow> sp_wf (shadow_db C w') \<Longrightarrow> db_wf C w'"
    and "others_kept C (group_path C) w w' \<Longrightarrow> gr_wf (group_db C w') \<Longrightarrow> db_wf C w'"
    and "others_kept C (gshadow_path C) w w' \<Longrightarrow> sg_wf (gshadow_db C w') \<Longrightarrow> db_wf C w'"
  using assms(2) path_distinct [OF assms(1)] db_cong [of w' C w]
  by (auto simp: db_wf_def kept_defs)

lemma keeps_wf_update:
  assumes step: "\<And>w. W (db w) \<Longrightarrow> wp m (db_updated C p change db w) w"
    and change: "\<And>es es'. W es \<Longrightarrow> change es es' \<Longrightarrow> W es'"
    and cong: "\<And>w w'. files w' p = files w p \<Longrightarrow> db w' = db w"
    and part: "\<And>w. db_wf C w \<Longrightarrow> W (db w)"
    and whole: "\<And>w w'. db_wf C w \<Longrightarrow> others_kept C p w w' \<Longrightarrow> W (db w') \<Longrightarrow> db_wf C w'"
  shows "keeps_wf C m"
  unfolding balanced_def
proof (intro allI impI)
  fix w assume w: "db_wf C w"
  show "wp m (\<lambda>_ w'. db_wf C w' \<and> (0::int) = 0) w"
  proof (rule wp_mono [OF step [OF part [OF w]]])
    fix ok w' assume u: "db_updated C p change db w ok w'"
    have "W (db w')"
    proof (cases ok)
      case True
      with u change [OF part [OF w]] show ?thesis by (simp add: db_updated_def)
    next
      case False
      with u have "files w' p = files w p" by (simp add: db_updated_def)
      from cong [OF this] part [OF w] show ?thesis by simp
    qed
    moreover have "others_kept C p w w'" using u by (simp add: db_updated_def)
    ultimately show "db_wf C w' \<and> (0::int) = 0" using whole [OF w] by simp
  qed
qed

lemma db_wfD:
  "db_wf C w \<Longrightarrow> pw_wf (passwd_db C w)" "db_wf C w \<Longrightarrow> sp_wf (shadow_db C w)"
  "db_wf C w \<Longrightarrow> gr_wf (group_db C w)" "db_wf C w \<Longrightarrow> sg_wf (gshadow_db C w)"
  by (simp_all add: db_wf_def)

lemma group_updated_eq:
  "group_updated C op g ud = db_updated C (group_path C) (group_change op g ud) (group_db C)"
  "gshadow_updated C op s ud = db_updated C (gshadow_path C) (gshadow_change op s ud) (gshadow_db C)"
  by (simp_all add: fun_eq_iff group_updated_def gshadow_updated_def db_updated_def)

lemma keeps_wf_updates:
  assumes ok: "paths_ok C" "reads_ok C"
  shows "keeps_wf C (gum_file_update C (Some (update_passwd_entry C u op ud)) (cfg C GUM_CONFIG_GENERAL_PASSWD_FILE))"
    and "keeps_wf C (gum_file_update C (Some (update_shadow_entry C u op ud)) (cfg C GUM_CONFIG_GENERAL_SHADOW_FILE))"
    and "keeps_wf C (gum_file_update C (Some (update_daemon_group_entry C g op ud)) (cfg C GUM_CONFIG_GENERAL_GROUP_FILE))"
    and "keeps_wf C (gum_file_update C (Some (update_gshadow_entry C g op ud)) (cfg C GUM_CONFIG_GENERAL_GSHADOW_FILE))"
    and "keeps_wf C (lock_account C u lock)"
proof -
  note kept = db_wf_kept [OF ok(1)]
  show "keeps_wf C (gum_file_update C (Some (update_passwd_entry C u op ud)) (cfg C GUM_CONFIG_GENERAL_PASSWD_FILE))"
    by (rule keeps_wf_update [where W = pw_wf and db = "passwd_db C", OF passwd_update_step [OF ok] pw_file.wf_change db_cong(1) db_wfD(1) kept(1)])
  show "keeps_wf C (gum_file_update C (Some (update_shadow_entry C u op ud)) (cfg C GUM_CONFIG_GENERAL_SHADOW_FILE))"
    by (rule keeps_wf_update [where W = sp_wf and db = "shadow_db C", OF shadow_update_step [OF ok] sp_file.wf_change db_cong(2) db_wfD(2) kept(2)])
  show "keeps_wf C (gum_file_update C (Some (update_daemon_group_entry C g op ud)) (cfg C GUM_CONFIG_GENERAL_GROUP_FILE))"
    by (rule keeps_wf_update [where W = gr_wf and db = "group_db C", OF group_update_step [OF ok, unfolded group_updated_eq]
          gr_file.wf_change db_cong(3) db_wfD(3) kept(3)])
  show "keeps_wf C (gum_file_update C (Some (update_gshadow_entry C g op ud)) (cfg C GUM_CONFIG_GENERAL_GSHADOW_FILE))"
    by (rule keeps_wf_update [where W = sg_wf and db = "gshadow_db C", OF gshadow_update_step [OF ok, unfolded group_updated_eq]
          sg_file.wf_change db_cong(4) db_wfD(4) kept(4)])
  show "keeps_wf C (lock_account C u lock)"
    unfolding balanced_def
  proof (intro allI impI)
    fix w assume w: "db_wf C w"
    let ?f = "map_first (\<lambda>e. sp_namp e = pw_name (du_pw u)) (relock lock)"
    have wf: "sp_wf (?f (shadow_db C w))"
      by (rule sp_wf_relock [OF db_wfD(2) [OF w]])
    show "wp (lock_account C u lock) (\<lambda>_ w'. db_wf C w' \<and> (0::int) = 0) w"
    proof (rule wp_mono [OF lock_account_spec [OF ok db_wfD(2) [OF w]]])
      fix r w'
      assume "others_kept C (shadow_path C) w w' \<and> gerror w' = gerror w \<and>
        (if r then (\<exists>e\<in>set (shadow_db C w). sp_namp e = pw_name (du_pw u)) \<and> shadow_db C w' = ?f (shadow_db C w)
         else files w' (shadow_path C) = files w (shadow_path C))"
      moreover from this wf db_wfD(2) [OF w] have "sp_wf (shadow_db C w')"
        using db_cong(2) [of w' C w] by (cases r) auto
      ultimately show "db_wf C w' \<and> (0::int) = 0" using kept(2) [OF w] by simp
    qed
  qed
qed

section \<open>Every operation keeps them well-formed\<close>

lemma line_fields:
  assumes "group_line e = Some e"
  shows "gr_name e \<noteq> None" "valid_field (gr_name e)" "valid_field (gr_passwd e)"
    "valid_list_field (gr_mem e)" "nn (gr_passwd e) = gr_passwd e" "\<exists>ms. gr_mem e = Some ms"
  using assms arg_cong [OF line_simps(3) [OF assms], of gr_passwd, symmetric] arg_cong [OF line_simps(3) [OF assms], of gr_mem, symmetric]
  by (cases "gr_mem e"; auto simp: group_line_def nnl_def split: if_splits)+

lemma sgrp_line_fields:
  assumes "sgrp_line e = Some e"
  shows "sg_namp e \<noteq> None" "valid_field (sg_namp e)" "valid_field (sg_passwd e)"
    "valid_list_field (sg_adm e)" "valid_list_field (sg_mem e)" "nn (sg_passwd e) = sg_passwd e"
    "\<exists>ms. sg_mem e = Some ms" "\<exists>as. sg_adm e = Some as"
  using assms arg_cong [OF line_simps(4) [OF assms], of sg_passwd, symmetric] arg_cong [OF line_simps(4) [OF assms], of sg_mem, symmetric]
    arg_cong [OF line_simps(4) [OF assms], of sg_adm, symmetric]
  by (cases "sg_mem e"; cases "sg_adm e"; auto simp: sgrp_line_def nnl_def split: if_splits)+

lemma valid_removeAll: "valid_list_field f \<Longrightarrow> valid_list_field (map_option (removeAll u) f)"
  unfolding valid_list_field_def list_all_iff
  by (cases f) (simp_all only: option.case option.map set_removeAll Diff_iff simp_thms, blast)

lemma group_left_wf: "gr_wf es \<Longrightarrow> gr_wf (map (group_left u) es)"
proof -
  have "group_line (group_left u e) = Some (group_left u e)" if l: "group_line e = Some e" for e
  proof -
    from line_fields(6) [OF l] obtain ms where "gr_mem e = Some ms" ..
    with line_fields(1-5) [OF l] show ?thesis
      using valid_removeAll [OF line_fields(4) [OF l], of u] by (cases e) (simp add: group_line_def group_left_def)
  qed
  then show "gr_wf es \<Longrightarrow> gr_wf (map (group_left u) es)" by (auto simp: wf_entries_def)
qed

lemma gshadow_left_wf: "sg_wf es \<Longrightarrow> sg_wf (map (gshadow_left u) es)"
proof -
  have "sgrp_line (gshadow_left u e) = Some (gshadow_left u e)" if l: "sgrp_line e = Some e" for e
  proof -
    from sgrp_line_fields(7,8) [OF l] obtain ms as where "sg_mem e = Some ms" "sg_adm e = Some as" by auto
    with sgrp_line_fields(1-6) [OF l] show ?thesis
      using valid_removeAll [OF sgrp_line_fields(4) [OF l], of u] valid_removeAll [OF sgrp_line_fields(5) [OF l], of u]
      by (cases e) (simp add: sgrp_line_def gshadow_left_def)
  qed
  then show "sg_wf es \<Longrightarrow> sg_wf (map (gshadow_left u) es)" by (auto simp: wf_entries_def)
qed

lemma keeps_wf_passes:
  assumes ok: "paths_ok C" "reads_ok C"
  shows "keeps_wf C (membership_pass C (\<lambda>ls dup. all_ok (\<lambda>e. putgrent C (group_without u e) dup) (gr_entries ls))
           (cfg C GUM_CONFIG_GENERAL_GROUP_FILE))"
    and "keeps_wf C (membership_pass C (\<lambda>ls dup. all_ok (\<lambda>e. putsgent C (gshadow_without u e) dup) (sg_entries ls))
           (cfg C GUM_CONFIG_GENERAL_GSHADOW_FILE))"
proof -
  show "keeps_wf C (membership_pass C (\<lambda>ls dup. all_ok (\<lambda>e. putgrent C (group_without u e) dup) (gr_entries ls))
      (cfg C GUM_CONFIG_GENERAL_GROUP_FILE))"
    unfolding balanced_def
  proof (intro allI impI, rule wp_mono [OF group_pass [OF ok db_wfD(3)]])
    fix w r w' assume w: "db_wf C w"
      and g: "others_kept C (group_path C) w w' \<and> (if r = Some True then group_db C w' = map (group_left u) (group_db C w)
         else files w' (group_path C) = files w (group_path C) \<and> gerror w' \<noteq> None)"
    from g group_left_wf [OF db_wfD(3) [OF w]] db_wfD(3) [OF w] db_cong(3) [of w' C w]
    have "gr_wf (group_db C w')" by (cases "r = Some True") auto
    with db_wf_kept(3) [OF ok(1) w] g show "db_wf C w' \<and> (0::int) = 0" by simp
  qed
  show "keeps_wf C (membership_pass C (\<lambda>ls dup. all_ok (\<lambda>e. putsgent C (gshadow_without u e) dup) (sg_entries ls))
      (cfg C GUM_CONFIG_GENERAL_GSHADOW_FILE))"
    unfolding balanced_def
  proof (intro allI impI, rule wp_mono [OF gshadow_pass [OF ok db_wfD(4)]])
    fix w r w' assume w: "db_wf C w"
      and g: "others_kept C (gshadow_path C) w w' \<and> (if r = Some True then gshadow_db C w' = map (gshadow_left u) (gshadow_db C w)
         else files w' (gshadow_path C) = files w (gshadow_path C) \<and> gerror w' \<noteq> None)"
    from g gshadow_left_wf [OF db_wfD(4) [OF w]] db_wfD(4) [OF w] db_cong(4) [of w' C w]
    have "sg_wf (gshadow_db C w')" by (cases "r = Some True") auto
    with db_wf_kept(4) [OF ok(1) w] g show "db_wf C w' \<and> (0::int) = 0" by simp
  qed
qed

text \<open>What does not touch the files at all.\<close>

lemma node_indep_files: "home_indep path files" "node_indep files"
  by (simp_all add: home_indep_def node_indep_def)

lemma frame_user_steps:
  assumes g: "\<And>w x. g (w\<lparr>tick := x\<rparr>) = g w" "\<And>w x. g (w\<lparr>infos := x\<rparr>) = g w" "\<And>w x. g (w\<lparr>sessions := x\<rparr>) = g w"
  shows "frame g (delete_userinfo C self)" "frame g (add_userinfo C self)"
    "frame g (update_userinfo C self icon)" "frame g (get_userinfo C self)" "frame g (terminate_user C uid)"
  unfolding delete_userinfo_def add_userinfo_def update_userinfo_def get_userinfo_def
    save_userinfo_def load_userinfo_def terminate_user_def is_user_logged_in_def
  by (intro frame_rules; simp add: g)+

lemma frame_user_home:
  assumes "\<And>path. home_indep path g" "node_indep g"
  shows "frame g (create_home_dir C self)" "frame g (delete_home_dir C self)"
  unfolding create_home_dir_def delete_home_dir_def
  by (intro frame_rules frame_create_home_dir frame_delete_home_dir assms)+

lemma keeps_wf_basic:
  "keeps_wf C (gets f)" "keeps_wf C (sys D c)" "keeps_wf C (open_file_r D fn)" "keeps_wf C (file_test_exists fn)"
  by (intro keeps_wf_frame frame_rules; simp add: file_test_exists_def)+

lemmas wf_frames =
  frame_db [OF db_indep_files, THEN keeps_wf_frame]
  frame_db_group [OF db_indep_files, THEN keeps_wf_frame]
  frame_user_steps [of files, simplified, THEN keeps_wf_frame]
  frame_user_home [of files, OF node_indep_files, THEN keeps_wf_frame] keeps_wf_basic

lemma keeps_wf_no_error: "keeps_wf C m \<Longrightarrow> keeps_wf C (no_error m)"
proof -
  have "db_wf C (s\<lparr>gerror := e\<rparr>) = db_wf C s" for s e by (rule db_wf_files) simp
  then show "keeps_wf C m \<Longrightarrow> keeps_wf C (no_error m)"
    unfolding balanced_def by (auto intro!: wp_no_error elim!: wp_mono)
qed

lemmas wf_rules = lock_rules wf_frames keeps_wf_no_error

lemma keeps_wf_group_ops:
  assumes ok: "paths_ok C" "reads_ok C"
  shows "keeps_wf C (gumd_daemon_group_add C g pref)"
    and "keeps_wf C (gumd_daemon_group_delete C g)"
    and "keeps_wf C (gumd_daemon_group_update C g)"
    and "keeps_wf C (gumd_daemon_group_add_member C g uid a)"
    and "keeps_wf C (gumd_daemon_group_delete_member C g uid)"
    and "keeps_wf C (gumd_daemon_group_delete_user_membership C n)"
proof -
  note u = keeps_wf_updates [OF ok] keeps_wf_passes [OF ok]
  have e: "keeps_wf C (update_if_exists C (update_gshadow_entry C g op ud) (cfg C GUM_CONFIG_GENERAL_GSHADOW_FILE))" for g op ud
    unfolding update_if_exists_def by (intro wf_rules u)
  have loop: "keeps_wf C (find_gid_loop C n t m)" for n t m
    by (induction C n t m rule: find_gid_loop.induct)
      (subst find_gid_loop.simps, intro wf_rules, blast+)
  have gid: "keeps_wf C (set_gid C g pref)" for g pref
    unfolding set_gid_def find_free_gid_def by (intro wf_rules loop)
  show "keeps_wf C (gumd_daemon_group_add C g pref)"
    unfolding gumd_daemon_group_add_def by (intro wf_rules gid u e)
  show "keeps_wf C (gumd_daemon_group_delete C g)"
    unfolding gumd_daemon_group_delete_def by (intro wf_rules u e)
  show "keeps_wf C (gumd_daemon_group_update C g)"
    unfolding gumd_daemon_group_update_def by (intro wf_rules u e)
  show "keeps_wf C (gumd_daemon_group_add_member C g uid a)"
    unfolding gumd_daemon_group_add_member_def Let_def by (intro wf_rules u e)
  show "keeps_wf C (gumd_daemon_group_delete_member C g uid)"
    unfolding gumd_daemon_group_delete_member_def Let_def by (intro wf_rules u e)
  show "keeps_wf C (gumd_daemon_group_delete_user_membership C n)"
    unfolding gumd_daemon_group_delete_user_membership_def by (intro wf_rules u e)
qed

lemma keeps_wf_user_steps:
  assumes ok: "paths_ok C" "reads_ok C"
  shows "keeps_wf C (set_uid C self)" "keeps_wf C (user_set_group C self)"
    "keeps_wf C (user_set_secret C self)" "keeps_wf C (set_shadow_data C self)"
    "keeps_wf C (set_default_groups C self)" "keeps_wf C (user_delete_group C self)"
    "keeps_wf C (get_passwd C self)" "keeps_wf C (copy_passwd_data C self)"
    "keeps_wf C (update_passwd_shadow C self op ud)"
proof -
  note u = keeps_wf_updates [OF ok] and grp = keeps_wf_group_ops [OF ok]
  have loop: "keeps_wf C (find_uid_loop C n t m)" for n t m
    by (induction C n t m rule: find_uid_loop.induct)
      (subst find_uid_loop.simps, intro wf_rules, blast+)
  have name: "keeps_wf C (set_daemon_user_name C self)" for self
    unfolding set_daemon_user_name_def
    by (cases "gum_validate_generate_username (c_env C) (nick_name self)") (auto intro!: wf_rules)
  show "keeps_wf C (set_uid C self)"
    unfolding set_uid_def find_free_uid_def by (intro wf_rules loop name)
  show "keeps_wf C (user_set_group C self)" unfolding user_set_group_def by (intro wf_rules grp)
  show secret: "keeps_wf C (user_set_secret C self)" for self
    unfolding user_set_secret_def by (intro wf_rules)
  show "keeps_wf C (set_shadow_data C self)" unfolding set_shadow_data_def by (intro wf_rules secret)
  have groups: "keeps_wf C (default_groups_loop C uid gs b)" for uid gs b
    by (induction gs arbitrary: b) (auto intro!: wf_rules grp)
  show "keeps_wf C (set_default_groups C self)" unfolding set_default_groups_def by (intro wf_rules groups)
  show "keeps_wf C (user_delete_group C self)" unfolding user_delete_group_def by (intro wf_rules grp)
  show passwd: "keeps_wf C (get_passwd C self)" for self unfolding get_passwd_def by (intro wf_rules)
  show "keeps_wf C (copy_passwd_data C self)" unfolding copy_passwd_data_def by (intro wf_rules passwd)
  show "keeps_wf C (update_passwd_shadow C self op ud)"
    unfolding update_passwd_shadow_def and_then_def by (intro wf_rules u)
qed

lemma keeps_wf_user_ops:
  assumes ok: "paths_ok C" "reads_ok C"
  shows "keeps_wf C (gumd_daemon_user_add C self)" "keeps_wf C (gumd_daemon_user_delete C self rem)"
    "keeps_wf C (gumd_daemon_user_update C self)"
proof -
  note u = keeps_wf_updates [OF ok] keeps_wf_group_ops [OF ok] keeps_wf_user_steps [OF ok]
  show "keeps_wf C (gumd_daemon_user_add C self)"
    unfolding gumd_daemon_user_add_def by (intro wf_rules u)
  show "keeps_wf C (gumd_daemon_user_delete C self rem)"
    unfolding gumd_daemon_user_delete_def and_then_def by (intro wf_rules u)
  show "keeps_wf C (gumd_daemon_user_update C self)"
    unfolding gumd_daemon_user_update_def by (intro wf_rules u)
qed

end
