(* ===== verification/Gumd_Accounts.thy ===== *)
theory Gumd_Accounts
  imports Gumd_Wf "HOL-Library.Multiset"
begin

text \<open>
  The abstract specification of the daemon's databases: a collection of users, each with an
  id, a name and a primary group, and a collection of groups, each with an id and a name,
  changed by four kinds of step. The theory defines the abstraction of the files, the
  invariant of the abstract system, and shows that the operations on groups are sequences
  of abstract steps whatever fails in them.
\<close>

section \<open>The abstract system\<close>

type_synonym user_key = "uid_t \<times> pstr \<times> gid_t"
type_synonym group_key = "gid_t \<times> pstr"

record accounts =
  acc_users :: "user_key multiset"
  acc_groups :: "group_key multiset"

definition uids :: "accounts \<Rightarrow> uid_t set" where
  "uids a = fst ` set_mset (acc_users a)"

definition user_names :: "accounts \<Rightarrow> pstr set" where
  "user_names a = (fst \<circ> snd) ` set_mset (acc_users a)"

definition primary_gids :: "accounts \<Rightarrow> gid_t set" where
  "primary_gids a = (snd \<circ> snd) ` set_mset (acc_users a)"

definition gids :: "accounts \<Rightarrow> gid_t set" where
  "gids a = fst ` set_mset (acc_groups a)"

definition group_names :: "accounts \<Rightarrow> pstr set" where
  "group_names a = snd ` set_mset (acc_groups a)"

lemmas key_sets = uids_def user_names_def primary_gids_def gids_def group_names_def

text \<open>
  A new group or user has an id and a valid name of its own, and a user a group that is
  there; a group that goes is nobody's primary group.
\<close>

inductive acct_step :: "accounts \<Rightarrow> accounts \<Rightarrow> bool" where
  add_group: "g \<notin> gids a \<Longrightarrow> n \<notin> group_names a \<Longrightarrow> valid (gum_validate_name n) \<Longrightarrow>
    acct_step a (a\<lparr>acc_groups := add_mset (g, n) (acc_groups a)\<rparr>)"
| del_group: "(g, n) \<in># acc_groups a \<Longrightarrow> g \<notin> primary_gids a \<Longrightarrow>
    acct_step a (a\<lparr>acc_groups := acc_groups a - {#(g, n)#}\<rparr>)"
| add_user: "u \<notin> uids a \<Longrightarrow> n \<notin> user_names a \<Longrightarrow> valid (gum_validate_name n) \<Longrightarrow> g \<in> gids a \<Longrightarrow>
    acct_step a (a\<lparr>acc_users := add_mset (u, n, g) (acc_users a)\<rparr>)"
| del_user: "(u, n, g) \<in># acc_users a \<Longrightarrow>
    acct_step a (a\<lparr>acc_users := acc_users a - {#(u, n, g)#}\<rparr>)"

inductive_cases acct_stepE: "acct_step a b"

abbreviation acct_steps :: "accounts \<Rightarrow> accounts \<Rightarrow> bool" where
  "acct_steps \<equiv> acct_step\<^sup>*\<^sup>*"

text \<open>A field that tells the elements of a collection apart.\<close>

definition unique_in :: "('a \<Rightarrow> 'b) \<Rightarrow> 'a multiset \<Rightarrow> bool" where
  "unique_in f M \<longleftrightarrow> (\<forall>k. count (image_mset f M) k \<le> 1)"

lemma unique_in_add: "unique_in f (add_mset x M) \<longleftrightarrow> f x \<notin> f ` set_mset M \<and> unique_in f M"
proof -
  have z: "f x \<notin> f ` set_mset M \<longleftrightarrow> count (image_mset f M) (f x) = 0"
    by (metis count_eq_zero_iff set_image_mset)
  show ?thesis
  proof (intro iffI conjI)
    assume u: "unique_in f (add_mset x M)"
    then have k: "count (image_mset f (add_mset x M)) k \<le> 1" for k by (simp add: unique_in_def)
    from k [of "f x"] show "f x \<notin> f ` set_mset M" unfolding z by simp
    show "unique_in f M" unfolding unique_in_def
    proof
      fix j show "count (image_mset f M) j \<le> 1" using k [of j] by (simp split: if_splits)
    qed
  next
    assume "f x \<notin> f ` set_mset M \<and> unique_in f M"
    then show "unique_in f (add_mset x M)" unfolding z by (auto simp: unique_in_def)
  qed
qed

lemma unique_in_diff: "unique_in f M \<Longrightarrow> unique_in f (M - N)"
  unfolding unique_in_def
  by (meson diff_subset_eq_self image_mset_subseteq_mono le_trans mset_subset_eq_count)

lemma unique_in_mset: "unique_in f (mset xs) \<longleftrightarrow> distinct (map f xs)"
  by (induction xs) (auto simp: unique_in_add, simp add: unique_in_def)

definition groups_unique :: "accounts \<Rightarrow> bool" where
  "groups_unique a \<longleftrightarrow> unique_in fst (acc_groups a) \<and> unique_in snd (acc_groups a)"

definition users_unique :: "accounts \<Rightarrow> bool" where
  "users_unique a \<longleftrightarrow> unique_in fst (acc_users a) \<and> unique_in (fst \<circ> snd) (acc_users a)"

text \<open>The invariant: no id or name is taken twice, and every primary group is there.\<close>

definition acct_inv :: "accounts \<Rightarrow> bool" where
  "acct_inv a \<longleftrightarrow> groups_unique a \<and> users_unique a \<and> primary_gids a \<subseteq> gids a"

lemma acct_step_unique:
  "acct_step a b \<Longrightarrow> groups_unique a \<Longrightarrow> groups_unique b"
  "acct_step a b \<Longrightarrow> users_unique a \<Longrightarrow> users_unique b"
  by (induction rule: acct_step.induct)
    (simp_all add: groups_unique_def users_unique_def unique_in_add unique_in_diff key_sets)

lemma gids_del: "gids (a\<lparr>acc_groups := acc_groups a - {#(g, n)#}\<rparr>) \<supseteq> gids a - {g}"
proof
  fix x assume "x \<in> gids a - {g}"
  then obtain m where "(x, m) \<in># acc_groups a" "x \<noteq> g" by (auto simp: gids_def)
  then have "(x, m) \<in># acc_groups a - {#(g, n)#}" by (simp add: in_diff_count)
  then show "x \<in> gids (a\<lparr>acc_groups := acc_groups a - {#(g, n)#}\<rparr>)" by (force simp: gids_def)
qed

lemma primary_del: "primary_gids (a\<lparr>acc_users := acc_users a - N\<rparr>) \<subseteq> primary_gids a"
  by (auto simp: primary_gids_def dest: in_diffD)

lemma acct_step_inv: "acct_step a b \<Longrightarrow> acct_inv a \<Longrightarrow> acct_inv b"
proof (induction rule: acct_step.induct)
  case (add_group g a n)
  from acct_step_unique [OF acct_step.add_group [OF add_group(1-3)]] add_group(4) show ?case
    by (auto simp: acct_inv_def key_sets)
next
  case (del_group g n a)
  have "primary_gids a \<subseteq> gids (a\<lparr>acc_groups := acc_groups a - {#(g, n)#}\<rparr>)"
    using gids_del [of a g n] del_group(2,3) by (auto simp: acct_inv_def)
  with acct_step_unique [OF acct_step.del_group [OF del_group(1,2)]] del_group(3) show ?case
    by (simp add: acct_inv_def primary_gids_def)
next
  case (add_user u a n g)
  from acct_step_unique [OF acct_step.add_user [OF add_user(1-4)]] add_user(4,5) show ?case
    by (auto simp: acct_inv_def key_sets)
next
  case (del_user u n g a)
  have "primary_gids (a\<lparr>acc_users := acc_users a - {#(u, n, g)#}\<rparr>) \<subseteq> gids a"
    using primary_del [of a] del_user(2) by (auto simp: acct_inv_def)
  with acct_step_unique [OF acct_step.del_user [OF del_user(1)]] del_user(2) show ?case
    by (simp add: acct_inv_def gids_def)
qed

lemma acct_steps_keep:
  assumes "acct_steps a b"
  shows "groups_unique a \<Longrightarrow> groups_unique b" "acct_inv a \<Longrightarrow> acct_inv b"
  using assms by (induction rule: rtranclp_induct) (auto intro: acct_step_unique acct_step_inv)

section \<open>The abstraction\<close>

definition user_key_of :: "passwd \<Rightarrow> user_key" where
  "user_key_of p = (pw_uid p, pw_name p, pw_gid p)"

definition group_key_of :: "group_t \<Rightarrow> group_key" where
  "group_key_of g = (gr_gid g, gr_name g)"

definition accounts_of :: "ctx \<Rightarrow> world \<Rightarrow> accounts" where
  "accounts_of C w =
     \<lparr>acc_users = mset (map user_key_of (passwd_db C w)), acc_groups = mset (map group_key_of (group_db C w))\<rparr>"

lemma accounts_of_sel [simp]:
  "acc_users (accounts_of C w) = mset (map user_key_of (passwd_db C w))"
  "acc_groups (accounts_of C w) = mset (map group_key_of (group_db C w))"
  by (simp_all add: accounts_of_def)

lemma accounts_of_keys [simp]:
  "uids (accounts_of C w) = pw_uid ` set (passwd_db C w)"
  "user_names (accounts_of C w) = pw_name ` set (passwd_db C w)"
  "primary_gids (accounts_of C w) = pw_gid ` set (passwd_db C w)"
  "gids (accounts_of C w) = gr_gid ` set (group_db C w)"
  "group_names (accounts_of C w) = gr_name ` set (group_db C w)"
  by (simp_all add: key_sets user_key_of_def group_key_of_def image_image)

lemma accounts_unique:
  "groups_unique (accounts_of C w) \<longleftrightarrow> distinct (map gr_gid (group_db C w)) \<and> distinct (map gr_name (group_db C w))"
  "users_unique (accounts_of C w) \<longleftrightarrow> distinct (map pw_uid (passwd_db C w)) \<and> distinct (map pw_name (passwd_db C w))"
  by (simp_all only: groups_unique_def users_unique_def accounts_of_sel unique_in_mset map_map comp_def
      user_key_of_def group_key_of_def fst_conv snd_conv)

lemma group_ids_accounts:
  "group_ids_ok (group_db C w) \<longleftrightarrow> gr_wf (group_db C w) \<and> groups_unique (accounts_of C w)"
  by (simp add: group_ids_ok_def accounts_unique)

lemma accounts_cong:
  "passwd_db C w' = passwd_db C w \<Longrightarrow> map group_key_of (group_db C w') = map group_key_of (group_db C w) \<Longrightarrow>
   accounts_of C w' = accounts_of C w"
  by (simp add: accounts_of_def)

lemma accounts_files:
  "files_eq_on {passwd_path C, group_path C} w w' \<Longrightarrow> accounts_of C w' = accounts_of C w"
  using db_cong(1,3) [of w' C w] by (intro accounts_cong) (simp_all add: files_eq_on_def)

lemma passwd_files:
  "files_eq_on {passwd_path C, shadow_path C} w w' \<Longrightarrow> passwd_db C w' = passwd_db C w"
  using db_cong(1) [of w' C w] by (simp add: files_eq_on_def)

lemma same_keys_map: "same_keys es es' \<longleftrightarrow> map group_key_of es' = map group_key_of es"
  by (simp add: same_keys_def group_key_of_def [abs_def])

lemma accounts_same:
  "files w' = files w \<Longrightarrow> accounts_of C w' = accounts_of C w"
  by (rule accounts_files) (simp add: files_eq_on_def)

lemma accounts_members:
  "files_eq_on {passwd_path C, shadow_path C} w w' \<Longrightarrow> same_keys (group_db C w) (group_db C w') \<Longrightarrow>
   accounts_of C w' = accounts_of C w"
  by (rule accounts_cong [OF passwd_files]) (simp_all add: same_keys_map)

text \<open>The ids and names of the groups stay apart along the abstract steps.\<close>

lemma group_ids_keep:
  "acct_steps (accounts_of C w) (accounts_of C w') \<Longrightarrow> group_ids_ok (group_db C w) \<Longrightarrow> db_wf C w' \<Longrightarrow>
   group_ids_ok (group_db C w')"
  unfolding group_ids_accounts by (simp add: acct_steps_keep db_wfD)

text \<open>Steps that lose no group.\<close>

definition grown :: "accounts \<Rightarrow> accounts \<Rightarrow> bool" where
  "grown a b \<longleftrightarrow> acct_steps a b \<and> acc_groups a \<subseteq># acc_groups b"

lemma grown_refl [simp]: "grown a a"
  by (simp add: grown_def)

lemma grown_trans: "grown a b \<Longrightarrow> grown b c \<Longrightarrow> grown a c"
  unfolding grown_def by (meson rtranclp_trans subset_mset.order_trans)

lemma mset_filter_key:
  "distinct (map f es) \<Longrightarrow> e \<in> set es \<Longrightarrow> mset (filter (\<lambda>x. f x \<noteq> f e) es) = mset es - {#e#}"
proof (induction es)
  case (Cons a es)
  show ?case
  proof (cases "a = e")
    case True
    with Cons.prems have "filter (\<lambda>x. f x \<noteq> f e) es = es" by (intro filter_True) (auto simp: image_iff)
    with True show ?thesis by simp
  next
    case False
    with Cons.prems have "e \<in> set es" "f a \<noteq> f e" by auto
    with Cons False show ?thesis by (simp add: multiset_diff_union_assoc)
  qed
qed simp

text \<open>A change of one entry that keeps its key.\<close>

lemma map_one_key:
  assumes "distinct (map f es)" "e \<in> set es" "key e' = key e"
  shows "map key (map (\<lambda>x. if f x = f e then e' else x) es) = map key es"
proof -
  have "x = e" if "x \<in> set es" "f x = f e" for x
    using assms(1,2) that by (auto simp: distinct_map inj_on_def)
  then show ?thesis using assms(3) by (auto intro: map_cong)
qed

text \<open>A user more and a user less.\<close>

lemma add_user_grown:
  assumes p: "passwd_db C w' = insert_before P p (passwd_db C w)"
    "pw_uid p \<notin> pw_uid ` set (passwd_db C w)" "pw_name p \<notin> pw_name ` set (passwd_db C w)"
    "valid (gum_validate_name (pw_name p))" "pw_gid p \<in> gids (accounts_of C w)"
    and "map group_key_of (group_db C w') = map group_key_of (group_db C w)"
  shows "grown (accounts_of C w) (accounts_of C w')"
proof -
  have eq: "accounts_of C w' =
      (accounts_of C w)\<lparr>acc_users := add_mset (pw_uid p, pw_name p, pw_gid p) (acc_users (accounts_of C w))\<rparr>"
    by (simp only: accounts_of_def p(1) assms(6)) (simp add: mset_insert_before user_key_of_def)
  have "acct_step (accounts_of C w) (accounts_of C w')"
    unfolding eq by (rule acct_step.add_user) (use p in simp_all)
  then show ?thesis unfolding grown_def eq by auto
qed

lemma del_user_step:
  assumes "e \<in> set (passwd_db C w)" "distinct (map pw_uid (passwd_db C w))"
    and "passwd_db C w' = filter (\<lambda>x. pw_uid x \<noteq> pw_uid e) (passwd_db C w)" "group_db C w' = group_db C w"
  shows "acct_step (accounts_of C w) (accounts_of C w')"
proof -
  have "image_mset user_key_of (mset (passwd_db C w')) = image_mset user_key_of (mset (passwd_db C w)) - {#user_key_of e#}"
    unfolding assms(3) mset_filter_key [OF assms(2,1)] using assms(1) by (simp add: image_mset_Diff)
  then have eq: "accounts_of C w' =
      (accounts_of C w)\<lparr>acc_users := acc_users (accounts_of C w) - {#(pw_uid e, pw_name e, pw_gid e)#}\<rparr>"
    using assms(4) by (simp add: accounts_of_def user_key_of_def)
  show ?thesis
    unfolding eq by (rule acct_step.del_user) (use assms(1) in \<open>auto simp: user_key_of_def\<close>)
qed

section \<open>The operations on groups\<close>

lemma add_group_step:
  assumes "group_added C g pref (group_db C w) e (group_db C w')" "passwd_db C w' = passwd_db C w"
  shows "acct_step (accounts_of C w) (accounts_of C w')"
proof -
  have eq: "accounts_of C w' = (accounts_of C w)\<lparr>acc_groups := add_mset (gr_gid e, gr_name e) (acc_groups (accounts_of C w))\<rparr>"
    using assms by (simp add: accounts_of_def group_added_def mset_insert_before group_key_of_def)
  show ?thesis
    unfolding eq by (rule acct_step.add_group) (use assms(1) in \<open>auto simp: group_added_def chosen_id_def\<close>)
qed

lemma del_group_step:
  assumes "e \<in> set (group_db C w)" "distinct (map gr_gid (group_db C w))" "passwd_db C w' = passwd_db C w"
    and "gr_gid e \<notin> pw_gid ` set (passwd_db C w)"
    and "group_db C w' = filter (\<lambda>x. gr_gid x \<noteq> gr_gid e) (group_db C w)"
  shows "acct_step (accounts_of C w) (accounts_of C w')"
proof -
  have "image_mset group_key_of (mset (group_db C w')) = image_mset group_key_of (mset (group_db C w)) - {#group_key_of e#}"
    unfolding assms(5) mset_filter_key [OF assms(2,1)] using assms(1) by (simp add: image_mset_Diff)
  then have eq: "accounts_of C w' = (accounts_of C w)\<lparr>acc_groups := acc_groups (accounts_of C w) - {#(gr_gid e, gr_name e)#}\<rparr>"
    using assms(3) by (simp add: accounts_of_def group_key_of_def)
  show ?thesis
    unfolding eq by (rule acct_step.del_group) (use assms(1,4) in \<open>auto simp: group_key_of_def\<close>)
qed

lemma group_add_acct:
  assumes "group_add_done C g pref w ok g' w'"
  shows "acct_steps (accounts_of C w) (accounts_of C w')"
proof (cases "files w' (group_path C) = files w (group_path C)")
  case True
  with assms have "files_eq_on {passwd_path C, group_path C} w w'"
    by (simp add: group_add_done_def files_eq_on_def)
  then show ?thesis by (simp add: accounts_files)
next
  case False
  with assms obtain e where "group_added C g pref (group_db C w) e (group_db C w')"
    unfolding group_add_done_def by (metis (full_types))
  moreover have "passwd_db C w' = passwd_db C w" using assms by (intro passwd_files) (simp add: group_add_done_def)
  ultimately show ?thesis by (intro r_into_rtranclp add_group_step)
qed

lemma group_add_grown:
  assumes "group_add_done C g pref w ok g' w'"
  shows "grown (accounts_of C w) (accounts_of C w')"
proof -
  have "group_db C w' = group_db C w \<or> (\<exists>e. group_added C g pref (group_db C w) e (group_db C w'))"
    using assms db_cong(3) [of w' C w] unfolding group_add_done_def by metis
  then have "acc_groups (accounts_of C w) \<subseteq># acc_groups (accounts_of C w')"
    by (auto simp: group_added_def mset_insert_before)
  with group_add_acct [OF assms] show ?thesis by (simp add: grown_def)
qed

lemma group_delete_acct:
  assumes "group_delete_done C g w ok w'" "distinct (map gr_gid (group_db C w))"
  shows "acct_steps (accounts_of C w) (accounts_of C w')"
proof (cases "files_eq_on {group_path C, gshadow_path C} w w'")
  case True
  with assms have "files_eq_on {passwd_path C, group_path C} w w'"
    by (simp add: group_delete_done_def files_eq_on_def)
  then show ?thesis by (simp add: accounts_files)
next
  case False
  with assms(1) have "group_dropped C g w ok w'" "files_eq_on {passwd_path C, shadow_path C} w w'"
    by (auto simp: group_delete_done_def)
  with assms(2) passwd_files show ?thesis
    unfolding group_dropped_def by (blast intro: del_group_step)
qed

lemma group_update_acct:
  assumes "group_update_done C g w ok w'" "distinct (map gr_gid (group_db C w))"
  shows "accounts_of C w' = accounts_of C w"
proof (cases "files_eq_on {group_path C, gshadow_path C} w w'")
  case True
  with assms have "files_eq_on {passwd_path C, group_path C} w w'"
    by (simp add: group_update_done_def files_eq_on_def)
  then show ?thesis by (simp add: accounts_files)
next
  case False
  with assms(1) have ch: "group_changed C g w ok w'" and pw: "files_eq_on {passwd_path C, shadow_path C} w w'"
    by (auto simp: group_update_done_def)
  from ch obtain e e' where e: "e \<in> set (group_db C w)" "gr_gid e' = gr_gid e" "gr_name e' = gr_name e"
    "group_db C w' = map (\<lambda>x. if gr_gid x = gr_gid e then e' else x) (group_db C w)"
    by (auto simp: group_changed_def)
  show ?thesis
    by (rule accounts_cong [OF passwd_files [OF pw]], unfold e(4), rule map_one_key [OF assms(2) e(1)])
      (simp add: group_key_of_def e(2,3))
qed

lemma members_acct:
  assumes "members_done C g uid change w ok w'" "distinct (map gr_gid (group_db C w))"
  shows "accounts_of C w' = accounts_of C w"
proof (cases "files w' (group_path C) = files w (group_path C)")
  case True
  with assms have "files_eq_on {passwd_path C, group_path C} w w'"
    by (simp add: members_done_def files_eq_on_def)
  then show ?thesis by (simp add: accounts_files)
next
  case False
  with assms(1) obtain e e' where e: "e \<in> set (group_db C w)" "gr_gid e' = gr_gid e" "gr_name e' = gr_name e"
    "group_db C w' = map (\<lambda>x. if gr_gid x = gr_gid e then e' else x) (group_db C w)"
    by (auto simp: members_done_def members_changed_def)
  have pw: "files_eq_on {passwd_path C, shadow_path C} w w'" using assms(1) by (simp add: members_done_def)
  show ?thesis
    by (rule accounts_cong [OF passwd_files [OF pw]], unfold e(4), rule map_one_key [OF assms(2) e(1)])
      (simp add: group_key_of_def e(2,3))
qed

lemma membership_acct:
  assumes "user_left C u w ok w'"
  shows "accounts_of C w' = accounts_of C w"
proof -
  have "map group_key_of (map (group_left u) es) = map group_key_of es" for es
    by (simp add: group_key_of_def group_left_def)
  then show ?thesis
    using assms passwd_files [of C w w'] db_cong(3) [of w' C w]
    by (intro accounts_cong) (auto simp: user_left_def)
qed

end
