(* ===== verification/Gumd_User_Db.thy ===== *)
theory Gumd_User_Db
  imports Gumd_Accounts
begin

text \<open>
  The steps of the operations of the user object and what they do to the object and to the
  databases: the choice of name and id, the primary and the default groups, the secret, the
  copy of an entry into the object, and the update of the passwd and the shadow file.
\<close>

section \<open>What the setters leave alone\<close>

lemma set_gecos_keeps [simp]:
  "pw_name (du_pw (set_gecos_property E f self v)) = pw_name (du_pw self)"
  "pw_passwd (du_pw (set_gecos_property E f self v)) = pw_passwd (du_pw self)"
  "pw_uid (du_pw (set_gecos_property E f self v)) = pw_uid (du_pw self)"
  "pw_gid (du_pw (set_gecos_property E f self v)) = pw_gid (du_pw self)"
  "pw_dir (du_pw (set_gecos_property E f self v)) = pw_dir (du_pw self)"
  "pw_shell (du_pw (set_gecos_property E f self v)) = pw_shell (du_pw self)"
  "du_shadow (set_gecos_property E f self v) = du_shadow self"
  "du_icon (set_gecos_property E f self v) = du_icon self"
  by (simp_all add: set_gecos_property_def)

lemma set_usertype_keeps [simp]:
  "pw_name (du_pw (set_usertype_property E self t)) = pw_name (du_pw self)"
  "pw_passwd (du_pw (set_usertype_property E self t)) = pw_passwd (du_pw self)"
  "pw_uid (du_pw (set_usertype_property E self t)) = pw_uid (du_pw self)"
  "pw_gid (du_pw (set_usertype_property E self t)) = pw_gid (du_pw self)"
  "pw_dir (du_pw (set_usertype_property E self t)) = pw_dir (du_pw self)"
  "pw_shell (du_pw (set_usertype_property E self t)) = pw_shell (du_pw self)"
  "du_shadow (set_usertype_property E self t) = du_shadow self"
  "du_icon (set_usertype_property E self t) = du_icon self"
  by (simp_all add: set_usertype_property_def)

lemma set_homedir_keeps [simp]:
  "pw_name (du_pw (set_homedir_property self v)) = pw_name (du_pw self)"
  "pw_passwd (du_pw (set_homedir_property self v)) = pw_passwd (du_pw self)"
  "pw_uid (du_pw (set_homedir_property self v)) = pw_uid (du_pw self)"
  "pw_gid (du_pw (set_homedir_property self v)) = pw_gid (du_pw self)"
  "pw_gecos (du_pw (set_homedir_property self v)) = pw_gecos (du_pw self)"
  "pw_shell (du_pw (set_homedir_property self v)) = pw_shell (du_pw self)"
  "du_shadow (set_homedir_property self v) = du_shadow self"
  "du_icon (set_homedir_property self v) = du_icon self"
  by (simp_all add: set_homedir_property_def)

lemma set_shell_keeps [simp]:
  "pw_name (du_pw (set_shell_property self v)) = pw_name (du_pw self)"
  "pw_passwd (du_pw (set_shell_property self v)) = pw_passwd (du_pw self)"
  "pw_uid (du_pw (set_shell_property self v)) = pw_uid (du_pw self)"
  "pw_gid (du_pw (set_shell_property self v)) = pw_gid (du_pw self)"
  "pw_gecos (du_pw (set_shell_property self v)) = pw_gecos (du_pw self)"
  "pw_dir (du_pw (set_shell_property self v)) = pw_dir (du_pw self)"
  "du_shadow (set_shell_property self v) = du_shadow self"
  "du_icon (set_shell_property self v) = du_icon self"
  by (simp_all add: set_shell_property_def)

lemma set_username_keeps [simp]:
  "pw_passwd (du_pw (set_username_property self v)) = pw_passwd (du_pw self)"
  "pw_uid (du_pw (set_username_property self v)) = pw_uid (du_pw self)"
  "pw_gid (du_pw (set_username_property self v)) = pw_gid (du_pw self)"
  "pw_gecos (du_pw (set_username_property self v)) = pw_gecos (du_pw self)"
  "pw_dir (du_pw (set_username_property self v)) = pw_dir (du_pw self)"
  "pw_shell (du_pw (set_username_property self v)) = pw_shell (du_pw self)"
  "du_shadow (set_username_property self v) = du_shadow self"
  "du_icon (set_username_property self v) = du_icon self"
  by (simp_all add: set_username_property_def)

lemma user_set_secret_keeps [simp]:
  "pw_name (du_pw (user_set_secret_property self v)) = pw_name (du_pw self)"
  "pw_uid (du_pw (user_set_secret_property self v)) = pw_uid (du_pw self)"
  "pw_gid (du_pw (user_set_secret_property self v)) = pw_gid (du_pw self)"
  "pw_gecos (du_pw (user_set_secret_property self v)) = pw_gecos (du_pw self)"
  "pw_dir (du_pw (user_set_secret_property self v)) = pw_dir (du_pw self)"
  "pw_shell (du_pw (user_set_secret_property self v)) = pw_shell (du_pw self)"
  "du_shadow (user_set_secret_property self v) = du_shadow self"
  "du_icon (user_set_secret_property self v) = du_icon self"
  by (simp_all add: user_set_secret_property_def)

lemma set_icon_keeps [simp]:
  "du_pw (set_icon_property self v) = du_pw self"
  "du_shadow (set_icon_property self v) = du_shadow self"
  by (simp_all add: set_icon_property_def)

lemma user_set_ids_eq:
  "user_set_uid_property self u = map_pw (\<lambda>p. p\<lparr>pw_uid := u\<rparr>) self"
  "user_set_gid_property self g = map_pw (\<lambda>p. p\<lparr>pw_gid := g\<rparr>) self"
  by (cases self; simp add: user_set_uid_property_def user_set_gid_property_def)+

lemmas field_setters = set_realname_property_def set_office_property_def
  set_officephone_property_def set_homephone_property_def

lemma get_usertype_cong: "pw_gecos p = pw_gecos q \<Longrightarrow> get_usertype_from_gecos E p = get_usertype_from_gecos E q"
  by (simp add: get_usertype_from_gecos_def gecos_field_def)

section \<open>Choosing the name and the id\<close>

interpretation uid_search: id_search C
  "\<lambda>t. gum_file_getpwuid C t (cfg C GUM_CONFIG_GENERAL_PASSWD_FILE)" "find_uid_loop C"
  "used_ids pw_entries pw_uid (cfg C GUM_CONFIG_GENERAL_PASSWD_FILE)" for C
  by unfold_locales (rule find_uid_loop.simps, rule getpwuid_used, simp_all)

text \<open>No configured range reaches the last id, so that the search for a free one ends.\<close>

definition id_ranges_ok :: "ctx \<Rightarrow> bool" where
  "id_ranges_ok C \<longleftrightarrow>
     gum_config_get_uint (glob_config C) GUM_CONFIG_GENERAL_SYS_UID_MAX 0xFFFFFFFF < 0xFFFFFFFF \<and>
     gum_config_get_uint (glob_config C) GUM_CONFIG_GENERAL_SEC_UID_MAX 0xFFFFFFFF < 0xFFFFFFFF \<and>
     gum_config_get_uint (glob_config C) GUM_CONFIG_GENERAL_UID_MAX 0xFFFFFFFF < 0xFFFFFFFF \<and>
     gum_config_get_uint (glob_config C) GUM_CONFIG_GENERAL_SYS_GID_MAX 0xFFFFFFFF < 0xFFFFFFFF \<and>
     gum_config_get_uint (glob_config C) GUM_CONFIG_GENERAL_GID_MAX 0xFFFFFFFF < 0xFFFFFFFF"

lemma id_ranges_okD:
  assumes "id_ranges_ok C"
  shows "snd (get_default_uid_range C ut) < 0xFFFFFFFF" "snd (get_default_gid_range C g) < 0xFFFFFFFF"
  using assms by (simp_all add: id_ranges_ok_def get_default_uid_range_def get_default_gid_range_def
      GUM_USER_INVALID_UID_def Let_def)

lemma passwd_used:
  "paths_ok C \<Longrightarrow> used_ids pw_entries pw_uid (cfg C GUM_CONFIG_GENERAL_PASSWD_FILE) w =
     pw_uid ` set (passwd_db C w)"
  by (simp add: used_ids_def passwd_db_def paths_okD(1))

lemma find_free_uid_spec:
  assumes ok: "paths_ok C" "reads_ok C" "id_ranges_ok C" and w: "files w1 = files w"
  shows "wp (find_free_uid C self) (\<lambda>r w'. files w' = files w \<and> (\<forall>i. r = Some i \<longrightarrow>
     chosen_id (get_default_uid_range C (get_usertype_from_gecos (c_env C) (du_pw self))) 0xFFFFFFFF
       (pw_uid ` set (passwd_db C w)) i)) w1"
proof -
  obtain mn mx where rg: "get_default_uid_range C (get_usertype_from_gecos (c_env C) (du_pw self)) = (mn, mx)"
    by force
  have mx: "mx < 0xFFFFFFFF" using id_ranges_okD(1) [OF ok(3)] rg by (metis snd_conv)
  then have "unat mx + 1 \<le> unat mn + all_ids" by (simp add: all_ids_def word_less_nat_alt)
  from uid_search.loop_finds [OF ok(2) mx this]
  have loop: "wp (find_uid_loop C all_ids mn mx) (uid_search.found C mn mx w1) w1" .
  show ?thesis
    unfolding find_free_uid_def rg prod.case Let_def
    by (intro wp_if wp_return wp_mono [OF loop])
      (use w db_cong(1) [OF fun_cong [OF w], of C] in
        \<open>auto simp: uid_search.found_def chosen_id_def passwd_used [OF ok(1)]\<close>)
qed

text \<open>The object with a valid name of its own: given, or made from the nick name.\<close>

definition named :: "daemon_user \<Rightarrow> daemon_user \<Rightarrow> bool" where
  "named self self' \<longleftrightarrow>
     valid (gum_validate_name (pw_name (du_pw self'))) \<and>
     (pw_name (du_pw self) \<noteq> None \<longrightarrow> pw_name (du_pw self') = pw_name (du_pw self)) \<and>
     pw_passwd (du_pw self') = pw_passwd (du_pw self) \<and>
     du_shadow self' = du_shadow self \<and> du_icon self' = du_icon self"

lemma default_realname_keeps [simp]:
  "pw_name (du_pw (default_realname E self)) = pw_name (du_pw self)"
  "pw_passwd (du_pw (default_realname E self)) = pw_passwd (du_pw self)"
  "pw_shell (du_pw (default_realname E self)) = pw_shell (du_pw self)"
  "du_shadow (default_realname E self) = du_shadow self" "du_icon (default_realname E self) = du_icon self"
  by (simp_all add: default_realname_def field_setters)

lemma set_username_valid:
  "pw_name (du_pw (set_username_property self v)) = Some n \<Longrightarrow> pw_name (du_pw self) = None \<Longrightarrow>
   valid (gum_validate_name (Some n))"
  by (simp add: set_username_property_def split: if_splits)

lemma set_daemon_user_name_spec:
  "wp (set_daemon_user_name C self) (\<lambda>(ok, self') w'. files w' = files w \<and> (ok \<longrightarrow> named self self')) w"
proof (cases "gum_validate_generate_username (c_env C) (nick_name self)")
  case (Inl e)
  then show ?thesis
    unfolding set_daemon_user_name_def check_valid_def
    by (cases "gum_validate_name (pw_name (du_pw self))") (auto intro!: wp_rules simp: named_def)
next
  case (Inr n)
  then show ?thesis
    unfolding set_daemon_user_name_def check_valid_def
    by (cases "gum_validate_name (pw_name (du_pw self))")
      (auto intro!: wp_rules simp: named_def dest: set_username_valid)
qed

definition uid_ready :: "ctx \<Rightarrow> daemon_user \<Rightarrow> passwd list \<Rightarrow> daemon_user \<Rightarrow> bool" where
  "uid_ready C self db self' \<longleftrightarrow> named self self' \<and> pw_name (du_pw self') \<notin> pw_name ` set db \<and>
     chosen_id (get_default_uid_range C (get_usertype_from_gecos (c_env C) (du_pw self'))) 0xFFFFFFFF
       (pw_uid ` set db) (pw_uid (du_pw self'))"

lemma getpwnam_spec:
  assumes ok: "paths_ok C" and w: "files w1 = files w"
  shows "wp (gum_file_getpwnam C nm (cfg C GUM_CONFIG_GENERAL_PASSWD_FILE)) (\<lambda>r w'. files w' = files w \<and>
     (\<forall>p. r = Some p \<longrightarrow> p \<in> set (passwd_db C w) \<and> pw_name p = nm) \<and>
     (r = None \<longrightarrow> reads_ok C \<longrightarrow> nm \<noteq> None \<longrightarrow> nm \<notin> pw_name ` set (passwd_db C w))) w1"
proof (cases nm)
  case None
  then show ?thesis using w by (auto simp: gum_file_getpwnam_def intro: wp_return)
next
  case (Some n)
  have names: "List.find (\<lambda>p. pw_name p = Some n) es = None \<longleftrightarrow> Some n \<notin> pw_name ` set es" for es
    unfolding find_None_iff_all by force
  show ?thesis unfolding Some paths_okD(1) [OF ok]
    by (rule wp_mono [OF lookups(1)])
      (use w db_cong(1) [OF fun_cong [OF w], of C] names in \<open>auto simp: looked_up_def passwd_db_def\<close>)
qed

lemma set_uid_spec:
  assumes ok: "paths_ok C" "reads_ok C" "id_ranges_ok C" and w: "files w1 = files w"
  shows "wp (set_uid C self) (\<lambda>(ok, self') w'. files w' = files w \<and>
     (ok \<longrightarrow> uid_ready C self (passwd_db C w) self')) w1"
  unfolding set_uid_def
  apply (rule wp_step [OF set_daemon_user_name_spec], rule wp_case_prod, rule wp_if)
   apply (rule wp_return, simp add: w)
  subgoal premises prems for r w2 a self2
  proof -
    from prems have n: "named self self2" and w2: "files w2 = files w" by (auto simp: w)
    then have nn: "pw_name (du_pw self2) \<noteq> None"
      by (auto simp: named_def gum_validate_name_iff)
    show ?thesis
      apply (rule wp_step [OF getpwnam_spec [OF ok(1) w2]], rule wp_if)
       apply (intro wp_bind wp_set_error wp_return, simp)
      apply (rule wp_step [OF find_free_uid_spec [OF ok, where w = w]], simp, rule wp_case_option)
       apply (intro wp_bind wp_set_error wp_return, simp)
      apply (rule wp_let, rule wp_return)
      using n nn ok(2) by (auto simp: uid_ready_def named_def user_set_ids_eq cong: get_usertype_cong)
  qed
  done

section \<open>Groups\<close>

lemma keeps_wfD: "keeps_wf C m \<Longrightarrow> db_wf C w \<Longrightarrow> wp m (\<lambda>_ w'. db_wf C w') w"
  by (auto simp: balanced_def wp_def)

lemma users_eq_refl: "files w' = files w \<Longrightarrow> files_eq_on {passwd_path C, shadow_path C} w w'"
  by (simp add: files_eq_on_def)

text \<open>What adding a group means for a user.\<close>

definition group_gained :: "ctx \<Rightarrow> world \<Rightarrow> bool \<Rightarrow> gid_t \<Rightarrow> world \<Rightarrow> bool" where
  "group_gained C w ok gid w' \<longleftrightarrow>
     files_eq_on {passwd_path C, shadow_path C} w w' \<and> db_wf C w' \<and>
     grown (accounts_of C w) (accounts_of C w') \<and> (ok \<longrightarrow> gid \<in> gids (accounts_of C w'))"

lemma group_add_gained:
  assumes "group_add_done C g pref w ok g' w'" and "db_wf C w'"
  shows "group_gained C w ok (gr_gid (gd_group g')) w'"
proof -
  have "gr_gid (gd_group g') \<in> gr_gid ` set (group_db C w')" if ok
    using assms(1) that by (auto simp: group_add_done_def group_added_def)
  with group_add_grown [OF assms(1)] show ?thesis
    using assms by (simp add: group_gained_def group_add_done_def)
qed

lemma group_gained_files:
  assumes "files w' = files w1"
  shows "group_gained C w ok gid w' = group_gained C w ok gid w1"
  unfolding group_gained_def files_eq_on_def assms accounts_same [OF assms] db_wf_files [OF assms] ..

lemma user_set_group_spec:
  assumes ok: "paths_ok C" "reads_ok C" "id_ranges_ok C" and wf: "db_wf C w" and w: "files w1 = files w"
  shows "wp (user_set_group C self) (\<lambda>(ok, self') w'. \<exists>gid. group_gained C w ok gid w' \<and>
     (ok \<longrightarrow> self' = map_pw (\<lambda>p. p\<lparr>pw_gid := gid\<rparr>) self)) w1"
proof -
  have look: "wp (if nm \<noteq> None then gum_file_getgrnam C nm (cfg C GUM_CONFIG_GENERAL_GROUP_FILE) else ret None)
      (\<lambda>r w'. files w' = files w \<and> (\<forall>g. r = Some g \<longrightarrow> g \<in> set (group_db C w))) w1" for nm
    using lookup_group(2) [OF ok(1), of nm w1] w db_cong(3) [OF fun_cong [OF w], of C]
    by (auto intro!: wp_rules)
  have add: "wp (gumd_daemon_group_add C g pref) (\<lambda>(ok, g') w'. group_gained C w ok (gr_gid (gd_group g')) w') w2"
    if "files w2 = files w" for g pref w2
  proof -
    have wf2: "db_wf C w2" using wf db_wf_files [OF that] by simp
    have "group_gained C w2 = group_gained C w"
      unfolding fun_eq_iff group_gained_def files_eq_on_def that accounts_same [OF that] by (intro allI refl)
    with wp_conj [OF group_add_run [OF ok(1,2) db_wfD(3,4) [OF wf2] id_ranges_okD(2) [OF ok(3)], of g pref]
        keeps_wfD [OF keeps_wf_group_ops(1) [OF ok(1,2)] wf2, of g pref]]
    show ?thesis by (auto elim!: wp_mono dest: group_add_gained)
  qed
  show ?thesis
    unfolding user_set_group_def Let_def
    apply (rule wp_step [OF look], rule wp_case_option)
     apply (rule wp_step [OF add], simp, rule wp_case_prod, rule wp_if)
      apply (rule wp_return, auto simp: group_gained_def)[1]
     apply (rule wp_return, auto simp: user_set_ids_eq)[1]
    apply (rule wp_return)
    subgoal for r w2 g
      using wf db_wf_files [of w2 w C] accounts_same [of w2 w C] db_cong(3) [of w2 C w]
      by (auto simp: files_eq_on_def user_set_ids_eq group_gained_def intro!: bexI [of _ g])
    done
qed

lemma members_same_keys:
  assumes "members_done C g uid change w ok w'" and "distinct (map gr_gid (group_db C w))"
  shows "same_keys (group_db C w) (group_db C w')"
proof (cases "files w' (group_path C) = files w (group_path C)")
  case True
  then show ?thesis using db_cong(3) [OF True] by simp
next
  case False
  with assms(1) obtain e e' where e: "e \<in> set (group_db C w)" "gr_gid e' = gr_gid e" "gr_name e' = gr_name e"
    "group_db C w' = map (\<lambda>x. if gr_gid x = gr_gid e then e' else x) (group_db C w)"
    by (auto simp: members_done_def members_changed_def)
  have "x = e" if "x \<in> set (group_db C w)" "gr_gid x = gr_gid e" for x
    using assms(2) e(1) that by (auto simp: distinct_map inj_on_def)
  then show ?thesis unfolding same_keys_def e(4) by (auto simp: e(2,3))
qed

lemma default_groups_spec:
  assumes ok: "paths_ok C" "reads_ok C"
  shows "db_wf C w \<Longrightarrow> group_ids_ok (group_db C w) \<Longrightarrow> wp (default_groups_loop C uid gs b) (\<lambda>_ w'.
     files_eq_on {passwd_path C, shadow_path C} w w' \<and> db_wf C w' \<and>
     same_keys (group_db C w) (group_db C w')) w"
proof (induction gs arbitrary: b w)
  case Nil
  then show ?case by (auto intro!: wp_return simp: files_eq_on_def)
next
  case (Cons g gs)
  let ?g = "set_groupname_property gumd_daemon_group_new (Some g)"
  note run = wp_conj [OF add_member_run [OF ok Cons.prems(2) db_wfD(1) [OF Cons.prems(1)], of ?g uid False]
      keeps_wfD [OF keeps_wf_group_ops(4) [OF ok] Cons.prems(1), of ?g uid False]]
  show ?case
    unfolding default_groups_loop.simps
  proof (rule wp_step [OF run], rule wp_case_prod)
    fix r w1 added g'
    assume r: "(case r of (ok, _) \<Rightarrow> \<lambda>w'. members_done C ?g uid join_members w ok w') w1 \<and> db_wf C w1"
      "r = (added, g')"
    then have m: "members_done C ?g uid join_members w added w1" by simp
    have k: "same_keys (group_db C w) (group_db C w1)"
      using members_same_keys [OF m] Cons.prems(2) by (simp add: group_ids_ok_def)
    have eq: "files_eq_on {passwd_path C, shadow_path C} w w1"
      using m by (simp add: members_done_def)
    from k have "group_ids_ok (group_db C w1)"
      using Cons.prems(2) r(1) by (auto simp: group_ids_ok_def same_keysD db_wf_def)
    from Cons.IH [OF conjunct2 [OF r(1)] this] show "wp (default_groups_loop C uid gs added) (\<lambda>_ w'.
       files_eq_on {passwd_path C, shadow_path C} w w' \<and> db_wf C w' \<and>
       same_keys (group_db C w) (group_db C w')) w1"
      by (rule wp_mono) (use k eq in \<open>auto simp: files_eq_on_def same_keys_def\<close>)
  qed
qed

lemma set_default_groups_spec:
  assumes ok: "paths_ok C" "reads_ok C" and w: "db_wf C w" "group_ids_ok (group_db C w)"
  shows "wp (set_default_groups C self) (\<lambda>_ w'.
     files_eq_on {passwd_path C, shadow_path C} w w' \<and> db_wf C w' \<and>
     same_keys (group_db C w) (group_db C w')) w"
  unfolding set_default_groups_def Let_def
  by (intro wp_if wp_case_option wp_return default_groups_spec [OF ok w])
    (use w in \<open>auto simp: files_eq_on_def\<close>)

section \<open>Secrets\<close>

text \<open>The secret in the shadow entry: a hash of the one given, or a mark for the type of user.\<close>

definition user_secret_of :: "ctx \<Rightarrow> pstr \<Rightarrow> GumUserType \<Rightarrow> pstr \<Rightarrow> bool" where
  "user_secret_of C pw ut s \<longleftrightarrow>
     (case pw of
        None \<Rightarrow>
          s = Some (if ut = GUM_USERTYPE_SYSTEM then ''*'' else if ut = GUM_USERTYPE_GUEST then [] else ''!'')
      | Some p \<Rightarrow> \<exists>h. s = Some h \<and> hashed C (cfg C GUM_CONFIG_GENERAL_ENCRYPT_METHOD) p h)"

abbreviation secret_for :: "ctx \<Rightarrow> daemon_user \<Rightarrow> pstr \<Rightarrow> bool" where
  "secret_for C self \<equiv>
     user_secret_of C (pw_passwd (du_pw self)) (get_usertype_from_gecos (c_env C) (du_pw self))"

definition user_secret_stored :: "ctx \<Rightarrow> daemon_user \<Rightarrow> daemon_user \<Rightarrow> bool" where
  "user_secret_stored C self self' \<longleftrightarrow>
     du_pw self' = (du_pw self)\<lparr>pw_passwd := Some ''x''\<rparr> \<and> du_icon self' = du_icon self \<and>
     (\<exists>s. du_shadow self' = (du_shadow self)\<lparr>sp_pwdp := s\<rparr> \<and> secret_for C self s)"

lemma user_set_secret_x:
  "du_pw (user_set_secret_property self (Some ''x'')) = (du_pw self)\<lparr>pw_passwd := Some ''x''\<rparr>"
  using secret_x by (cases "du_pw self"; simp add: user_set_secret_property_def)

lemma user_set_secret_spec:
  "wp (user_set_secret C self) (\<lambda>(ok, self') w'. files w' = files w \<and> (ok \<longrightarrow> user_secret_stored C self self')) w"
  unfolding user_set_secret_def Let_def
  by (intro wp_case_option wp_step [OF encrypt_hashed] wp_rules)
    (auto simp: user_set_secret_x user_secret_stored_def user_secret_of_def Let_def intro!: wp_rules)

lemma set_shadow_data_spec:
  "wp (set_shadow_data C self) (\<lambda>(ok, self') w'. files w' = files w \<and>
     (ok \<longrightarrow> du_pw self' = (du_pw self)\<lparr>pw_passwd := Some ''x''\<rparr> \<and> du_icon self' = du_icon self \<and>
        sp_namp (du_shadow self') = pw_name (du_pw self) \<and> secret_for C self (sp_pwdp (du_shadow self')))) w"
  unfolding set_shadow_data_def Let_def
  by (rule wp_step [OF user_set_secret_spec])
    (auto intro!: wp_rules simp: user_secret_stored_def user_secret_of_def Let_def cong: option.case_cong)

section \<open>Updating passwd and shadow\<close>

definition user_files_done ::
    "ctx \<Rightarrow> GumOpType \<Rightarrow> daemon_user \<Rightarrow> pstr \<Rightarrow> world \<Rightarrow> bool \<Rightarrow> world \<Rightarrow> bool" where
  "user_files_done C op self ud w ok w' \<longleftrightarrow>
     files_eq_on {group_path C, gshadow_path C} w w' \<and>
     (if ok then passwd_change op (du_pw self) ud (passwd_db C w) (passwd_db C w') \<and>
                 shadow_change op (du_shadow self) ud (shadow_db C w) (shadow_db C w')
      else gerror w' \<noteq> None \<and> files w' (shadow_path C) = files w (shadow_path C) \<and>
           (files w' (passwd_path C) = files w (passwd_path C) \<or>
            passwd_change op (du_pw self) ud (passwd_db C w) (passwd_db C w')))"

lemma update_passwd_shadow_spec:
  assumes ok: "paths_ok C" "reads_ok C" and wf: "db_wf C w"
  shows "wp (update_passwd_shadow C self op ud) (\<lambda>r w'. user_files_done C op self ud w r w' \<and> db_wf C w') w"
proof (rule wp_conj [OF _ keeps_wfD [OF keeps_wf_user_steps(9) [OF ok] wf]])
  note pd = path_distinct [OF ok(1)]
  show "wp (update_passwd_shadow C self op ud) (user_files_done C op self ud w) w"
    unfolding update_passwd_shadow_def
  proof (rule wp_and_then, rule wp_mono [OF passwd_update_step [OF ok db_wfD(1) [OF wf]]], rule wp_if)
    fix a w1
    assume u: "db_updated C (passwd_path C) (passwd_change op (du_pw self) ud) (passwd_db C) w a w1"
    then have sh: "files w1 (shadow_path C) = files w (shadow_path C)"
      using pd by (simp add: db_updated_def kept_defs)
    show "wp (gum_file_update C (Some (update_shadow_entry C self op ud)) (cfg C GUM_CONFIG_GENERAL_SHADOW_FILE))
        (user_files_done C op self ud w) w1" if a
    proof (rule wp_mono [OF shadow_update_step [OF ok]])
      show "sp_wf (shadow_db C w1)" using db_cong(2) [OF sh] db_wfD(2) [OF wf] by simp
      fix r w2
      assume v: "db_updated C (shadow_path C) (shadow_change op (du_shadow self) ud) (shadow_db C) w1 r w2"
      then have pw: "passwd_db C w2 = passwd_db C w1"
        using pd by (intro db_cong) (simp add: db_updated_def kept_defs)
      show "user_files_done C op self ud w r w2"
        using that u v pw pd sh db_cong(2) [OF sh] by (auto simp: user_files_done_def db_updated_def kept_defs)
    qed
    show "wp (ret False) (user_files_done C op self ud w) w1" if "\<not> a"
      using u that pd sh by (intro wp_return) (simp add: user_files_done_def db_updated_def kept_defs)
  qed
qed

end
