(* ===== verification/Gumd_User_Add.thy ===== *)
theory Gumd_User_Add
  imports Gumd_User_Db
begin

text \<open>
  Adding a user: what becomes of the four databases in each outcome, and the property of the
  operation.
\<close>

section \<open>Adding a user\<close>

text \<open>The entries of a new user: of the object returned, with a new name and a free id.\<close>

definition new_user :: "ctx \<Rightarrow> daemon_user \<Rightarrow> daemon_user \<Rightarrow> passwd list \<Rightarrow> passwd \<Rightarrow> bool" where
  "new_user C self self' db p \<longleftrightarrow>
     passwd_line p = Some p \<and> pw_passwd p = Some ''x'' \<and>
     pw_uid p = pw_uid (du_pw self') \<and> pw_gid p = pw_gid (du_pw self') \<and> pw_name p = pw_name (du_pw self') \<and>
     (pw_name (du_pw self) \<noteq> None \<longrightarrow> pw_name p = pw_name (du_pw self)) \<and>
     valid (gum_validate_name (pw_name p)) \<and> pw_name p \<notin> pw_name ` set db \<and>
     chosen_id (get_default_uid_range C (get_usertype_from_gecos (c_env C) (du_pw self'))) 0xFFFFFFFF
       (pw_uid ` set db) (pw_uid p)"

definition passwd_gained :: "ctx \<Rightarrow> daemon_user \<Rightarrow> daemon_user \<Rightarrow> world \<Rightarrow> world \<Rightarrow> passwd \<Rightarrow> bool" where
  "passwd_gained C self self' w w' p \<longleftrightarrow> new_user C self self' (passwd_db C w) p \<and>
     pw_gid p \<in> gr_gid ` set (group_db C w') \<and>
     passwd_db C w' = insert_before (\<lambda>e. pw_uid p < pw_uid e) p (passwd_db C w)"

definition shadow_gained :: "ctx \<Rightarrow> daemon_user \<Rightarrow> daemon_user \<Rightarrow> world \<Rightarrow> world \<Rightarrow> bool" where
  "shadow_gained C self self' w w' \<longleftrightarrow>
     pw_name (du_pw self') \<notin> sp_namp ` set (shadow_db C w) \<and>
     (\<exists>s. spwd_line s = Some s \<and> sp_namp s = pw_name (du_pw self') \<and>
        user_secret_of C (pw_passwd (du_pw self)) (get_usertype_from_gecos (c_env C) (du_pw self')) (sp_pwdp s) \<and>
        shadow_db C w' = shadow_db C w @ [s])"

definition user_add_done :: "ctx \<Rightarrow> daemon_user \<Rightarrow> world \<Rightarrow> bool \<Rightarrow> daemon_user \<Rightarrow> world \<Rightarrow> bool" where
  "user_add_done C self w ok self' w' \<longleftrightarrow>
     db_wf C w' \<and> grown (accounts_of C w) (accounts_of C w') \<and>
     (if ok then (\<exists>p. passwd_gained C self self' w w' p) \<and> shadow_gained C self self' w w'
      else files_eq_on {passwd_path C, shadow_path C} w w' \<or>
           (\<exists>p. passwd_gained C self self' w w' p) \<and>
           (files w' (shadow_path C) = files w (shadow_path C) \<or> shadow_gained C self self' w w'))"

text \<open>The object when its entries are written.\<close>

definition ready_from :: "ctx \<Rightarrow> daemon_user \<Rightarrow> daemon_user \<Rightarrow> gid_t \<Rightarrow> daemon_user \<Rightarrow> bool" where
  "ready_from C self self2 gid self' \<longleftrightarrow>
     du_pw self' = (du_pw self2)\<lparr>pw_gid := gid, pw_passwd := Some ''x''\<rparr> \<and>
     sp_namp (du_shadow self') = pw_name (du_pw self2) \<and>
     user_secret_of C (pw_passwd (du_pw self)) (get_usertype_from_gecos (c_env C) (du_pw self2))
       (sp_pwdp (du_shadow self'))"

definition user_ready :: "ctx \<Rightarrow> daemon_user \<Rightarrow> world \<Rightarrow> daemon_user \<Rightarrow> bool" where
  "user_ready C self w self' \<longleftrightarrow>
     (\<exists>self2 gid. uid_ready C self (passwd_db C w) self2 \<and> ready_from C self self2 gid self')"

lemma user_ready_new:
  assumes "user_ready C self w self'" and "passwd_line (du_pw self') = Some p"
  shows "new_user C self self' (passwd_db C w) p"
proof -
  from assms(1) obtain self2 gid where s: "uid_ready C self (passwd_db C w) self2"
    "du_pw self' = (du_pw self2)\<lparr>pw_gid := gid, pw_passwd := Some ''x''\<rparr>"
    unfolding user_ready_def ready_from_def by auto
  have ut: "get_usertype_from_gecos (c_env C) (du_pw self') = get_usertype_from_gecos (c_env C) (du_pw self2)"
    by (rule get_usertype_cong) (simp add: s(2))
  show ?thesis
    using s line_keys(1) [OF assms(2)] passwd_line_idem [OF assms(2)] line_simps(1) [OF assms(2)]
    unfolding new_user_def uid_ready_def named_def ut by auto
qed

lemma passwd_gained_by:
  assumes "user_ready C self w self'"
    and "passwd_change GUM_OPTYPE_ADD (du_pw self') None (passwd_db C w) (passwd_db C w')"
    and "pw_gid (du_pw self') \<in> gr_gid ` set (group_db C w')"
  shows "\<exists>p. passwd_gained C self self' w w' p"
proof -
  from assms(2) obtain p where p: "passwd_line (du_pw self') = Some p"
    "passwd_db C w' = insert_before (\<lambda>e. pw_uid (du_pw self') < pw_uid e) p (passwd_db C w)"
    by (auto simp: entry_change_def)
  then show ?thesis
    using user_ready_new [OF assms(1) p(1)] line_keys(1) [OF p(1)] assms(3)
    by (auto simp: passwd_gained_def)
qed

lemma passwd_gained_grown:
  assumes "passwd_gained C self self' w w' p" and "passwd_db C w4 = passwd_db C w"
    and k: "map group_key_of (group_db C w') = map group_key_of (group_db C w4)"
  shows "grown (accounts_of C w4) (accounts_of C w')"
proof (rule add_user_grown [of C w' _ p])
  have "map fst (map group_key_of (group_db C w')) = map fst (map group_key_of (group_db C w4))"
    using k by simp
  then have "gr_gid ` set (group_db C w') = gr_gid ` set (group_db C w4)"
    unfolding map_map comp_def group_key_of_def fst_conv by (metis list.set_map)
  with assms(1) show "pw_gid p \<in> gids (accounts_of C w4)" by (simp add: passwd_gained_def)
qed (use assms in \<open>auto simp: passwd_gained_def new_user_def chosen_id_def\<close>)

lemma shadow_gained_by:
  assumes "user_ready C self w self'"
    and "shadow_change GUM_OPTYPE_ADD (du_shadow self') None (shadow_db C w) (shadow_db C w')"
  shows "shadow_gained C self self' w w'"
proof -
  from assms(2) obtain s where s: "spwd_line (du_shadow self') = Some s" "shadow_db C w' = shadow_db C w @ [s]"
    "sp_namp (du_shadow self') \<notin> sp_namp ` set (shadow_db C w)"
    by (auto simp: entry_change_def insert_before_False)
  from assms(1) obtain self2 gid where "ready_from C self self2 gid self'"
    unfolding user_ready_def by blast
  note r = this [unfolded ready_from_def, THEN conjunct1]
    this [unfolded ready_from_def, THEN conjunct2, THEN conjunct1]
    this [unfolded ready_from_def, THEN conjunct2, THEN conjunct2]
  have ut: "get_usertype_from_gecos (c_env C) (du_pw self') = get_usertype_from_gecos (c_env C) (du_pw self2)"
    by (rule get_usertype_cong) (simp add: r(1))
  have "nn (sp_pwdp (du_shadow self')) = sp_pwdp (du_shadow self')"
    using r(3) by (auto simp: user_secret_of_def split: option.splits)
  then show ?thesis
    using s r line_keys(2) [OF s(1)] spwd_line_idem [OF s(1)] line_simps(2) [OF s(1)]
    unfolding shadow_gained_def ut by (intro conjI exI [of _ s]) auto
qed

text \<open>The end of the handler, from the update of the files on.\<close>

lemma user_add_tail:
  assumes ok: "paths_ok C" "reads_ok C" and ids: "group_ids_ok (group_db C w)"
    and self: "user_ready C self w self'"
    and w4: "group_gained C w True (pw_gid (du_pw self')) w4"
  shows "wp (do {
      ok \<leftarrow> update_passwd_shadow C self' GUM_OPTYPE_ADD None;
      if \<not> ok then unlock_ret C (False, self')
      else do {
        add_userinfo C self';
        set_default_groups C self';
        ok \<leftarrow> create_home_dir C self';
        if \<not> ok then unlock_ret C (False, self')
        else do {
          gum_utils_run_user_scripts C (USERADD_SCRIPT_DIR C) (pw_name (du_pw self'))
            (pw_uid (du_pw self')) (pw_gid (du_pw self')) (pw_dir (du_pw self'))
            (gecos_field (c_env C) (du_pw self') GECOS_FIELD_USERTYPE);
          unlock_ret C (True, self') } } })
    (\<lambda>(ok, self') w'. user_add_done C self w ok self' w') w4"
proof -
  from w4 have w4: "files_eq_on {passwd_path C, shadow_path C} w w4" "db_wf C w4"
    "grown (accounts_of C w) (accounts_of C w4)" "pw_gid (du_pw self') \<in> gr_gid ` set (group_db C w4)"
    by (auto simp: group_gained_def)
  have db4: "passwd_db C w4 = passwd_db C w" "shadow_db C w4 = shadow_db C w"
    using w4(1) db_cong(1,2) [of w4 C w] by (simp_all add: files_eq_on_def)
  show ?thesis
  proof (rule wp_step [OF update_passwd_shadow_spec [OF ok w4(2)]], rule wp_if)
    fix r w5
    assume r: "user_files_done C GUM_OPTYPE_ADD self' None w4 r w5 \<and> db_wf C w5"
    then have g5: "group_db C w5 = group_db C w4"
      by (intro db_cong) (simp add: user_files_done_def files_eq_on_def)
    note pw = passwd_gained_by [OF self] and sp = shadow_gained_by [OF self]
    show "wp (unlock_ret C (False, self')) (\<lambda>(ok, self') w'. user_add_done C self w ok self' w') w5" if "\<not> r"
    proof (rule wp_unlock_ret)
      fix w6 :: world assume w6: "files w6 = files w5"
      note db6 = db_cong [OF fun_cong [OF w6], of C] db_wf_files [OF w6, of C]
      from r that have sh: "files w5 (shadow_path C) = files w (shadow_path C)"
        and p: "files w5 (passwd_path C) = files w (passwd_path C) \<or>
          passwd_change GUM_OPTYPE_ADD (du_pw self') None (passwd_db C w) (passwd_db C w5)"
        using w4(1) by (auto simp: user_files_done_def files_eq_on_def db4)
      from p pw [of w6] w4(4) have "files w5 (passwd_path C) = files w (passwd_path C) \<or>
          (\<exists>p. passwd_gained C self self' w w6 p)" by (auto simp: db6 g5)
      moreover from this have "grown (accounts_of C w) (accounts_of C w6)"
        using grown_trans [OF w4(3) passwd_gained_grown [OF _ db4(1), of self self' w6]]
          accounts_files [of C w4 w6] w4(1,3) r
        by (auto simp: db6 g5 files_eq_on_def w6 user_files_done_def)
      ultimately show "(case (False, self') of (ok, self') \<Rightarrow> \<lambda>w'. user_add_done C self w ok self' w') w6"
        using r sh by (auto simp: user_add_done_def db6 files_eq_on_def w6)
    qed
    assume "\<not> \<not> r"
    with r have ch: "passwd_change GUM_OPTYPE_ADD (du_pw self') None (passwd_db C w) (passwd_db C w5)"
      "shadow_change GUM_OPTYPE_ADD (du_shadow self') None (shadow_db C w) (shadow_db C w5)"
      by (simp_all add: user_files_done_def db4)
    have ids5: "group_ids_ok (group_db C w5)"
      unfolding g5 using w4(2,3) ids by (auto simp: grown_def intro: group_ids_keep)
    have done5: "user_add_done C self w ok self' w'"
      if k: "files_eq_on {passwd_path C, shadow_path C} w5 w7" "same_keys (group_db C w5) (group_db C w7)"
        "db_wf C w7" and w': "files w' = files w7" for w7 w' ok
    proof -
      note db = db_cong [OF fun_cong [OF w'], of C] db_wf_files [OF w', of C]
      have db7: "passwd_db C w7 = passwd_db C w5" "shadow_db C w7 = shadow_db C w5"
        using k(1) db_cong(1,2) [of w7 C w5] by (simp_all add: files_eq_on_def)
      have g: "pw_gid (du_pw self') \<in> gr_gid ` set (group_db C w7)"
        using w4(4) same_keysD(1) [OF k(2)] unfolding g5 by (metis list.set_map)
      from pw [of w'] sp [of w'] ch db db7 g obtain p where
        p: "passwd_gained C self self' w w' p" "shadow_gained C self self' w w'" by auto
      have "map group_key_of (group_db C w') = map group_key_of (group_db C w4)"
        using k(2) by (simp add: db g5 same_keys_map)
      from p grown_trans [OF w4(3) passwd_gained_grown [OF p(1) db4(1) this]] k(3) show ?thesis
        by (auto simp: user_add_done_def db)
    qed
    have groups: "wp (set_default_groups C self') (\<lambda>_ w7. files_eq_on {passwd_path C, shadow_path C} w5 w7 \<and> db_wf C w7 \<and>
        same_keys (group_db C w5) (group_db C w7)) w6" if w6: "files w6 = files w5" for w6
    proof -
      note db6 = db_cong [OF fun_cong [OF w6], of C] db_wf_files [OF w6, of C]
      from set_default_groups_spec [OF ok, of w6 self'] r ids5 show ?thesis
        by (auto elim!: wp_mono simp: db6 files_eq_on_def w6)
    qed
    show "wp (do {
        add_userinfo C self';
        set_default_groups C self';
        ok \<leftarrow> create_home_dir C self';
        if \<not> ok then unlock_ret C (False, self')
        else do {
          gum_utils_run_user_scripts C (USERADD_SCRIPT_DIR C) (pw_name (du_pw self'))
            (pw_uid (du_pw self')) (pw_gid (du_pw self')) (pw_dir (du_pw self'))
            (gecos_field (c_env C) (du_pw self') GECOS_FIELD_USERTYPE);
          unlock_ret C (True, self') } })
      (\<lambda>(ok, self') w'. user_add_done C self w ok self' w') w5"
      apply (rule wp_bind, rule frame_wp [OF frame_user_steps(2) [of files]], simp_all)
      apply (rule wp_step [OF groups], assumption)
      apply (rule wp_bind, rule frame_wp [OF frame_user_home(1) [of files, OF node_indep_files]], rule wp_if)
       apply (rule wp_unlock_ret, simp only: prod.case, elim conjE, rule done5, assumption+, simp)
      apply (rule wp_bind, rule files_kept(9))
      apply (rule wp_unlock_ret, clarsimp, erule (2) done5, simp)
      done
  qed
qed

section \<open>Properties\<close>

lemma user_add_run:
  assumes "paths_ok C" and "reads_ok C" and "id_ranges_ok C"
    and "db_wf C w" and "group_ids_ok (group_db C w)"
  shows "wp (gumd_daemon_user_add C self) (\<lambda>(ok, self') w'. user_add_done C self w ok self' w') w"
proof -
  note ok = assms(1-3)
  have same: "user_add_done C self w False self' w'" if "files w' = files w" for self' w'
    using that assms(4) db_wf_files [OF that, of C] accounts_same [OF that, of C]
    by (simp add: user_add_done_def files_eq_on_def)
  have early: "user_add_done C self w False self' w'"
    if "group_gained C w b gid w1" "files w' = files w1" for b gid self' w1 w'
    using that(1) unfolding group_gained_files [OF that(2), symmetric]
    by (simp add: user_add_done_def group_gained_def)
  have shell: "uid_ready C (default_shell C self) = uid_ready C self"
    by (simp add: fun_eq_iff uid_ready_def named_def default_shell_def)
  have ready: "user_ready C self w self' \<and> group_gained C w True (pw_gid (du_pw self')) w4"
    if "uid_ready C (default_shell C self) (passwd_db C w) self2"
      "group_gained C w True gid w3" "self3 = map_pw (\<lambda>p. p\<lparr>pw_gid := gid\<rparr>) self2" "files w4 = files w3"
      "du_pw self' = (du_pw self3)\<lparr>pw_passwd := Some ''x''\<rparr>"
      "sp_namp (du_shadow self') = pw_name (du_pw self3)"
      "user_secret_of C (pw_passwd (du_pw self3)) (get_usertype_from_gecos (c_env C) (du_pw self3)) (sp_pwdp (du_shadow self'))"
    for self2 self3 self' gid w3 w4
  proof -
    have "get_usertype_from_gecos (c_env C) (du_pw self3) = get_usertype_from_gecos (c_env C) (du_pw self2)"
      by (rule get_usertype_cong) (simp add: that(3))
    moreover have "pw_passwd (du_pw self2) = pw_passwd (du_pw self)"
      using that(1) unfolding shell by (simp add: uid_ready_def named_def)
    ultimately have "ready_from C self self2 gid self'"
      using that(3,5-7) by (simp add: ready_from_def)
    with that(1-5) group_gained_files [OF that(4)] show ?thesis
      unfolding shell by (auto simp: user_ready_def)
  qed
  note tail = user_add_tail [OF ok(1,2) assms(5)]
  show ?thesis
    unfolding gumd_daemon_user_add_def Let_def
    apply (rule wp_if)
     apply (intro wp_bind wp_set_error wp_return, simp add: same)
    apply (rule wp_bind, rule files_kept(1), rule wp_if)
     apply (intro wp_bind wp_set_error wp_return, simp add: same)
    apply (rule wp_step [OF set_uid_spec [OF ok, where w = w]], simp, rule wp_case_prod, rule wp_if)
     apply (rule wp_unlock_ret, simp add: same)
    apply (rule wp_step [OF user_set_group_spec [OF ok assms(4)]], simp, rule wp_case_prod, rule wp_if)
     apply (rule wp_unlock_ret, clarsimp, erule (1) early)
    apply (rule wp_step [OF set_shadow_data_spec], rule wp_case_prod, rule wp_if)
     apply (rule wp_unlock_ret, clarsimp, erule early, simp)
    subgoal premises prems for l w1 r2 w2 a2 self2 r3 w3 a3 self3 r4 w4 a4 self4
    proof -
      from prems obtain gid where "group_gained C w True gid w3" "self3 = map_pw (\<lambda>p. p\<lparr>pw_gid := gid\<rparr>) self2"
        by auto
      from ready [OF _ this, of w4 self4] prems show ?thesis
        by (intro tail) auto
    qed
    done
qed

text \<open>
  C4. Adding a user. If it returns TRUE, the passwd file has one new entry, in the order of
  the ids, with a valid name that was not there (the one asked for, if one was), the first
  free id of the range of the user's type and a primary group that exists in the group
  file; and the shadow file has one new entry at its end for that name, with a hash of the
  secret or the mark for the type of user if no secret was given. If it returns FALSE, both
  are as they were, or the passwd file or both have so changed (then updating shadow or
  creating the home directory was what failed). The group file has at most gained groups
  and members, and the entries of all four files stay well-formed.
\<close>

theorem gumd_daemon_user_add_spec:
  assumes "paths_ok C" and "reads_ok C" and "id_ranges_ok C"
    and "db_wf C w" and "group_ids_ok (group_db C w)"
  shows "wp (gumd_daemon_user_add C self) (\<lambda>(ok, self') w'. user_add_done C self w ok self' w') w"
  by (rule user_add_run [OF assms])

lemma ref_user_facts:
  "id_ranges_ok ref_ctx" "db_wf ref_ctx ref_world"
  by code_simp+

definition ref_new_user :: daemon_user where
  "ref_new_user = user_set_property (c_env ref_ctx)
     (user_set_property (c_env ref_ctx) gumd_daemon_user_new (PROP_USERTYPE GUM_USERTYPE_NORMAL))
     (PROP_USERNAME (Some ''bob''))"

theorem gumd_daemon_user_add_spec_witness:
  "wp (gumd_daemon_user_add ref_ctx ref_new_user)
     (\<lambda>(ok, self') w'. user_add_done ref_ctx ref_new_user ref_world ok self' w') ref_world"
  by (rule gumd_daemon_user_add_spec [OF ref_paths_ok ref_reads_ok ref_user_facts ref_group_db(1)])

end
