(* ===== verification/Gumd_User_Delete.thy ===== *)
theory Gumd_User_Delete
  imports Gumd_User_Add
begin

text \<open>
  Deleting a user: how the object is filled from the entry it names, what becomes of the
  four databases in each outcome, and the property of the operation.
\<close>

section \<open>The entry that the object names\<close>

definition is_user :: "daemon_user \<Rightarrow> passwd \<Rightarrow> bool" where
  "is_user self p \<longleftrightarrow>
     (pw_uid (du_pw self) = GUM_USER_INVALID_UID \<or> pw_uid p = pw_uid (du_pw self)) \<and>
     (pw_name (du_pw self) = None \<or> pw_name p = pw_name (du_pw self))"

lemma get_passwd_spec:
  assumes "paths_ok C" and "files w1 = files w"
  shows "wp (get_passwd C self) (\<lambda>r w'. files w' = files w \<and>
     (\<forall>p. r = Some p \<longrightarrow> p \<in> set (passwd_db C w) \<and> is_user self p)) w1"
  unfolding get_passwd_def Let_def
  apply (rule wp_step [where R = "\<lambda>r w'. files w' = files w \<and> (\<forall>p. r = Some p \<longrightarrow> p \<in> set (passwd_db C w))"])
   apply (intro wp_if wp_return wp_mono [OF getpwuid_spec [OF assms]])
    apply (use assms(2) in auto)[2]
  apply (rule wp_step [where R = "\<lambda>r w'. files w' = files w \<and> (\<forall>p. r = Some p \<longrightarrow> p \<in> set (passwd_db C w))"])
   apply (intro wp_if wp_return wp_mono [OF getpwnam_spec [OF assms(1), where w = w]])
     apply auto[3]
  apply (intro wp_case_option wp_if wp_bind wp_set_error wp_return)
    apply (auto simp: is_user_def)
  done

lemma getspnam_spec:
  assumes "paths_ok C" and w: "files w1 = files w"
  shows "wp (gum_file_getspnam C nm (cfg C GUM_CONFIG_GENERAL_SHADOW_FILE)) (\<lambda>r w'. files w' = files w \<and>
     (\<forall>s. r = Some s \<longrightarrow> s \<in> set (shadow_db C w) \<and> sp_namp s = nm)) w1"
proof (cases nm)
  case None
  then show ?thesis using w by (auto simp: gum_file_getspnam_def intro: wp_return)
next
  case (Some n)
  then show ?thesis unfolding Some paths_okD(2) [OF assms(1)]
    by (intro wp_mono [OF lookups(3)])
      (use w db_cong(2) [OF fun_cong [OF w], of C] in \<open>auto simp: looked_up_def shadow_db_def\<close>)
qed

text \<open>The object filled from an entry.\<close>

definition filled :: "passwd \<Rightarrow> daemon_user \<Rightarrow> bool" where
  "filled e self' \<longleftrightarrow> pw_uid (du_pw self') = pw_uid e \<and> pw_gid (du_pw self') = pw_gid e \<and>
     pw_name (du_pw self') \<in> {None, pw_name e} \<and> sp_namp (du_shadow self') = pw_name e"

lemma copy_passwd_struct_keys:
  "pw_uid (du_pw (copy_passwd_struct E src d)) = pw_uid src"
  "pw_gid (du_pw (copy_passwd_struct E src d)) = pw_gid src"
  "pw_name (du_pw (copy_passwd_struct E src d)) \<in> {pw_name (du_pw d), pw_name src}"
  by (simp_all add: copy_passwd_struct_def Let_def field_setters user_set_ids_eq set_username_property_def)

lemma copy_passwd_data_spec:
  assumes "paths_ok C" and "files w1 = files w"
  shows "wp (copy_passwd_data C self) (\<lambda>(ok, self') w'. files w' = files w \<and>
     (ok \<longrightarrow> (\<exists>e\<in>set (passwd_db C w). is_user self e \<and> filled e self'))) w1"
  unfolding copy_passwd_data_def Let_def
  apply (rule wp_step [OF get_passwd_spec [OF assms]], rule wp_case_option)
   apply (rule wp_return, simp)
  apply (rule wp_step [OF getspnam_spec [OF assms(1), where w = w]], simp, rule wp_case_option)
   apply (intro wp_bind wp_set_error wp_return, simp)
  apply (rule wp_bind, rule frame_wp [OF frame_user_steps(4) [of files]], simp_all)
  apply (rule wp_return)
  subgoal for r w2 pent r' w3 spent icon
    using copy_passwd_struct_keys(3) [of "c_env C" pent self]
    by (auto simp: filled_def copy_shadow_struct_def is_user_def copy_passwd_struct_keys(1,2) intro!: bexI [of _ pent])
  done

section \<open>What deleting does to the databases\<close>

definition user_dropped :: "ctx \<Rightarrow> passwd \<Rightarrow> world \<Rightarrow> world \<Rightarrow> bool" where
  "user_dropped C e w w' \<longleftrightarrow> passwd_db C w' = filter (\<lambda>x. pw_uid x \<noteq> pw_uid e) (passwd_db C w)"

definition shadow_dropped :: "ctx \<Rightarrow> pstr \<Rightarrow> world \<Rightarrow> world \<Rightarrow> bool" where
  "shadow_dropped C n w w' \<longleftrightarrow> (\<exists>s\<in>set (shadow_db C w). sp_namp s = n) \<and>
     shadow_db C w' = subst_first (\<lambda>s. sp_namp s = n) [] (shadow_db C w)"

text \<open>The account may have been locked, and unlocked again.\<close>

abbreviation lock_entry :: "pstr \<Rightarrow> bool \<Rightarrow> spwd list \<Rightarrow> spwd list" where
  "lock_entry n l \<equiv> map_first (\<lambda>e. sp_namp e = n) (relock l)"

definition relockings :: "pstr \<Rightarrow> spwd list \<Rightarrow> spwd list set" where
  "relockings n es = {es, lock_entry n True es, lock_entry n False (lock_entry n True es)}"

text \<open>
  The groups: the primary group goes unless another user has it, and the name goes from the
  members and administrators.
\<close>

definition listed :: "string \<Rightarrow> string list option \<Rightarrow> bool" where
  "listed n f \<longleftrightarrow> (\<exists>ms. f = Some ms \<and> n \<in> set ms)"

definition groups_after :: "ctx \<Rightarrow> passwd \<Rightarrow> world \<Rightarrow> bool \<Rightarrow> world \<Rightarrow> group_t list set" where
  "groups_after C e w ok w' =
     (if pw_gid e \<in> pw_gid ` set (passwd_db C w') then {group_db C w}
      else (if ok then {} else {group_db C w}) \<union> {filter (\<lambda>g. gr_gid g \<noteq> pw_gid e) (group_db C w)})"

definition groups_left :: "ctx \<Rightarrow> passwd \<Rightarrow> world \<Rightarrow> bool \<Rightarrow> world \<Rightarrow> bool" where
  "groups_left C e w ok w' \<longleftrightarrow> (\<exists>n G. pw_name e = Some n \<and> G \<in> groups_after C e w ok w' \<and>
     (group_db C w' = G \<or> group_db C w' = map (group_left n) G) \<and>
     (ok \<longrightarrow> (gerror w' \<noteq> None \<or> group_db C w' = map (group_left n) G) \<and>
       (\<forall>s\<in>set (gshadow_db C w'). \<not> listed n (sg_mem s) \<and> \<not> listed n (sg_adm s))))"

lemma gshadow_left_unlisted:
  "gshadow_db C w' = map (gshadow_left n) es \<Longrightarrow>
   \<forall>s\<in>set (gshadow_db C w'). \<not> listed n (sg_mem s) \<and> \<not> listed n (sg_adm s)"
  by (auto simp: gshadow_left_def listed_def)

lemma groups_step:
  assumes ok: "paths_ok C" "reads_ok C" and wf: "db_wf C w" "group_ids_ok (group_db C w)"
    and self: "pw_gid (du_pw self) = pw_gid e" "pw_name (du_pw self) = pw_name e" "pw_name e = Some n"
  shows "wp (and_then (user_delete_group C self)
           (gumd_daemon_group_delete_user_membership C (pw_name (du_pw self))))
    (\<lambda>r w'. files_eq_on {passwd_path C, shadow_path C} w w' \<and> db_wf C w' \<and>
       acct_steps (accounts_of C w) (accounts_of C w') \<and> groups_left C e w r w') w"
proof -
  let ?g = "set_gid_property gumd_daemon_group_new (pw_gid e)"
  have g: "gr_gid (gd_group ?g) = pw_gid e" by (simp add: set_gid_property_eq)
  have del: "wp (user_delete_group C self) (\<lambda>r w'. group_delete_done C ?g w r w' \<and> db_wf C w') w"
    unfolding user_delete_group_def self(1)
    apply (rule wp_step [OF wp_conj [OF group_delete_run [OF ok wf(2) db_wfD(4) [OF wf(1)], of ?g]
        keeps_wfD [OF keeps_wf_group_ops(2) [OF ok] wf(1), of ?g]]])
    apply (rule wp_case_prod, rule wp_return, simp)
    done
  have G: "group_db C w1 \<in> groups_after C e w r w1" if d: "group_delete_done C ?g w r w1" for r w1
  proof -
    have pw: "passwd_db C w1 = passwd_db C w"
      using d by (intro passwd_files) (simp add: group_delete_done_def)
    from d consider "\<not> r" "group_db C w1 = group_db C w"
      | "group_db C w1 = group_db C w" "pw_gid e \<in> pw_gid ` set (passwd_db C w)"
      | "group_dropped C ?g w r w1" "pw_gid e \<noteq> GUM_GROUP_INVALID_GID"
      using db_cong(3) [of w1 C w]
      by (auto simp: group_delete_done_def files_eq_on_def is_group_def GUM_GROUP_INVALID_GID_def g)
    then show ?thesis
    proof cases
      case 3
      then obtain x where "is_group ?g x" "gr_gid x \<notin> pw_gid ` set (passwd_db C w)"
        "group_db C w1 = filter (\<lambda>y. gr_gid y \<noteq> gr_gid x) (group_db C w)"
        unfolding group_dropped_def by blast
      moreover from this(1) 3(2) have "gr_gid x = pw_gid e"
        by (auto simp: is_group_def g GUM_GROUP_INVALID_GID_def)
      ultimately show ?thesis by (simp add: groups_after_def pw)
    qed (auto simp: groups_after_def pw)
  qed
  show ?thesis
  proof (rule wp_and_then, rule wp_mono [OF del], rule wp_if)
    fix r w1 assume d: "group_delete_done C ?g w r w1 \<and> db_wf C w1"
    have eq: "files_eq_on {passwd_path C, shadow_path C} w w1"
      using d by (simp add: group_delete_done_def)
    have st: "acct_steps (accounts_of C w) (accounts_of C w1)"
      using group_delete_acct [OF conjunct1 [OF d]] wf(2) by (simp add: group_ids_ok_def)
    show "wp (ret False) (\<lambda>r w'. files_eq_on {passwd_path C, shadow_path C} w w' \<and> db_wf C w' \<and>
        acct_steps (accounts_of C w) (accounts_of C w') \<and> groups_left C e w r w') w1" if "\<not> r"
      using d eq st G [of r w1] self(3) that by (intro wp_return) (auto simp: groups_left_def)
    assume r: r
    note mem = wp_conj [OF membership_run [OF ok db_wfD(3,4) [OF conjunct2 [OF d]], of n]
        keeps_wfD [OF keeps_wf_group_ops(6) [OF ok] conjunct2 [OF d], of "Some n"]]
    show "wp (gumd_daemon_group_delete_user_membership C (pw_name (du_pw self)))
      (\<lambda>r w'. files_eq_on {passwd_path C, shadow_path C} w w' \<and> db_wf C w' \<and>
        acct_steps (accounts_of C w) (accounts_of C w') \<and> groups_left C e w r w') w1"
      unfolding self(2,3)
    proof (rule wp_mono [OF mem], intro conjI)
      fix r' w2 assume m: "user_left C n w1 r' w2 \<and> db_wf C w2"
      have eq2: "files_eq_on {passwd_path C, shadow_path C} w1 w2"
        using m by (simp add: user_left_def)
      then show "files_eq_on {passwd_path C, shadow_path C} w w2"
        using eq by (simp add: files_eq_on_def)
      show "db_wf C w2" using m by simp
      show "acct_steps (accounts_of C w) (accounts_of C w2)"
        using st membership_acct [OF conjunct1 [OF m]] by simp
      have "passwd_db C w2 = passwd_db C w1" by (rule passwd_files [OF eq2])
      then have G2: "group_db C w1 \<in> groups_after C e w r' w2"
        using G [of r w1] d r by (auto simp: groups_after_def split: if_splits)
      show "groups_left C e w r' w2"
        unfolding groups_left_def
        using m db_cong(3) [of w2 C w1] gshadow_left_unlisted [of C w2 n]
        by (intro exI [of _ n] exI [of _ "group_db C w1"] conjI self(3) G2) (auto simp: user_left_def)
    qed
  qed
qed

definition user_delete_done :: "ctx \<Rightarrow> daemon_user \<Rightarrow> world \<Rightarrow> bool \<Rightarrow> world \<Rightarrow> bool" where
  "user_delete_done C self w ok w' \<longleftrightarrow>
     db_wf C w' \<and> acct_steps (accounts_of C w) (accounts_of C w') \<and>
     (\<not> ok \<and> files_eq_on (db_paths C) w w' \<or>
      (\<exists>e\<in>set (passwd_db C w). is_user self e \<and>
         (\<not> ok \<and> files_eq_on {group_path C, gshadow_path C} w w' \<and>
            (passwd_db C w' = passwd_db C w \<or> user_dropped C e w w') \<and>
            shadow_db C w' \<in> relockings (pw_name e) (shadow_db C w) \<or>
          user_dropped C e w w' \<and> shadow_dropped C (pw_name e) w w' \<and> groups_left C e w ok w')))"

section \<open>The handler\<close>

lemma wf_shadow_name: "sp_wf es \<Longrightarrow> s \<in> set es \<Longrightarrow> sp_namp s = n \<Longrightarrow> n \<noteq> None"
  by (auto simp: wf_entries_def spwd_line_def split: if_splits)

lemma lock_step:
  assumes ok: "paths_ok C" "reads_ok C" and wf: "db_wf C w"
  shows "wp (lock_account C self l) (\<lambda>r w'. db_wf C w' \<and>
      files_eq_on {passwd_path C, group_path C, gshadow_path C} w w' \<and>
      (if r then pw_name (du_pw self) \<noteq> None \<and> shadow_db C w' = lock_entry (pw_name (du_pw self)) l (shadow_db C w)
       else files w' (shadow_path C) = files w (shadow_path C))) w"
proof (rule wp_mono [OF wp_conj [OF lock_account_spec [OF ok db_wfD(2) [OF wf], of self l]
        keeps_wfD [OF keeps_wf_updates(5) [OF ok] wf, of self l]]])
  let ?n = "pw_name (du_pw self)"
  fix r w'
  assume a: "(others_kept C (shadow_path C) w w' \<and> gerror w' = gerror w \<and>
      (if r then (\<exists>e\<in>set (shadow_db C w). sp_namp e = ?n) \<and> shadow_db C w' = lock_entry ?n l (shadow_db C w)
       else files w' (shadow_path C) = files w (shadow_path C))) \<and> db_wf C w'"
  then have "?n \<noteq> None" if r using that wf_shadow_name [OF db_wfD(2) [OF wf]] by auto
  with a path_distinct [OF ok(1)] show "db_wf C w' \<and>
      files_eq_on {passwd_path C, group_path C, gshadow_path C} w w' \<and>
      (if r then ?n \<noteq> None \<and> shadow_db C w' = lock_entry ?n l (shadow_db C w)
       else files w' (shadow_path C) = files w (shadow_path C))"
    by (cases r) (simp_all add: kept_defs)
qed

lemma subst_first_map_first:
  "(\<And>x. P (f x) = P x) \<Longrightarrow> subst_first P ys (map_first P f xs) = subst_first P ys xs"
  by (induction xs) auto

lemma set_map_first: "(\<And>x. P (f x) = P x) \<Longrightarrow> (\<exists>x\<in>set (map_first P f xs). P x) = (\<exists>x\<in>set xs. P x)"
  by (induction xs) auto

lemma passwd_deleted:
  assumes "passwd_change GUM_OPTYPE_DELETE p ud es es'" and "distinct (map pw_uid es)"
  shows "es' = filter (\<lambda>x. pw_uid x \<noteq> pw_uid p) es"
proof -
  from assms(1) obtain e where e: "e \<in> set es" "passwd_acts GUM_OPTYPE_DELETE p ud e"
    "es' = subst_first (passwd_acts GUM_OPTYPE_DELETE p ud) [] es"
    by (auto simp: entry_change_def)
  then have "es' = filter (\<lambda>x. pw_uid x \<noteq> pw_uid e) es"
    unfolding e(3) by (intro subst_first_filter [OF assms(2)]) (auto simp: passwd_acts_def)
  with e(2) show ?thesis by (simp add: passwd_acts_def)
qed

lemma shadow_deleted:
  assumes "shadow_change GUM_OPTYPE_DELETE s ud (lock_entry (sp_namp s) l es) es'"
  shows "(\<exists>x\<in>set es. sp_namp x = sp_namp s) \<and> es' = subst_first (\<lambda>x. sp_namp x = sp_namp s) [] es"
proof -
  have eq: "shadow_acts GUM_OPTYPE_DELETE s ud = (\<lambda>x. sp_namp x = sp_namp s)"
    by (auto simp: shadow_acts_def)
  show ?thesis
    using assms set_map_first [of "\<lambda>x. sp_namp x = sp_namp s" "relock l" es]
    by (auto simp: entry_change_def eq subst_first_map_first)
qed

lemma relocked_done:
  assumes e: "e \<in> set (passwd_db C w)" "is_user self e" and u: "distinct (map pw_uid (passwd_db C w))"
    and w': "db_wf C w'" "files_eq_on {group_path C, gshadow_path C} w w'"
      "passwd_db C w' = passwd_db C w \<or> user_dropped C e w w'"
      "shadow_db C w' \<in> relockings (pw_name e) (shadow_db C w)"
  shows "user_delete_done C self w False w'"
proof -
  have g: "group_db C w' = group_db C w" using w'(2) by (intro db_cong) (simp add: files_eq_on_def)
  have "acct_steps (accounts_of C w) (accounts_of C w')"
  proof (cases "passwd_db C w' = passwd_db C w")
    case True
    then have "accounts_of C w' = accounts_of C w" by (rule accounts_cong) (simp add: g)
    then show ?thesis by simp
  next
    case False
    with w'(3) have "passwd_db C w' = filter (\<lambda>x. pw_uid x \<noteq> pw_uid e) (passwd_db C w)"
      by (simp add: user_dropped_def)
    from del_user_step [OF e(1) u this g] show ?thesis by (rule r_into_rtranclp)
  qed
  then show ?thesis
    unfolding user_delete_done_def
    by (intro conjI w'(1) disjI2 bexI [OF _ e(1)] e(2) disjI1 w'(2-4) simp_thms(8) [THEN iffD2]) simp_all
qed

lemma groups_left_cong:
  assumes "groups_left C e w5 ok6 w6" and "group_db C w5 = group_db C w" and "files w' = files w6"
    and "ok \<longrightarrow> ok6" and "ok \<longrightarrow> has_error w6 \<longrightarrow> has_error w'"
  shows "groups_left C e w ok w'"
proof -
  note db = db_cong [OF fun_cong [OF assms(3)], of C]
  have "groups_after C e w5 ok6 w6 \<subseteq> groups_after C e w ok w'"
    using assms(2,4) by (auto simp: groups_after_def db)
  moreover from assms(1) obtain n G where "pw_name e = Some n" "G \<in> groups_after C e w5 ok6 w6"
     "group_db C w6 = G \<or> group_db C w6 = map (group_left n) G"
     "ok6 \<longrightarrow> (gerror w6 \<noteq> None \<or> group_db C w6 = map (group_left n) G) \<and>
       (\<forall>s\<in>set (gshadow_db C w6). \<not> listed n (sg_mem s) \<and> \<not> listed n (sg_adm s))"
    unfolding groups_left_def by blast
  ultimately show ?thesis
    using assms(4,5) unfolding groups_left_def has_error_def
    by (intro exI [of _ n] exI [of _ G]) (auto simp: db subset_iff)
qed

lemma dropped_done:
  assumes e: "e \<in> set (passwd_db C w)" "is_user self e" and u: "distinct (map pw_uid (passwd_db C w))"
    and w5: "user_dropped C e w w5" "shadow_dropped C (pw_name e) w w5" "files_eq_on {group_path C, gshadow_path C} w w5"
    and w6: "files_eq_on {passwd_path C, shadow_path C} w5 w6" "db_wf C w6"
      "acct_steps (accounts_of C w5) (accounts_of C w6)" "groups_left C e w5 ok6 w6"
    and w': "files w' = files w6" "ok \<longrightarrow> ok6" "ok \<longrightarrow> has_error w6 \<longrightarrow> has_error w'"
  shows "user_delete_done C self w ok w'"
proof -
  have g: "group_db C w5 = group_db C w" using w5(3) by (intro db_cong) (simp add: files_eq_on_def)
  have pw: "passwd_db C w' = passwd_db C w5" "shadow_db C w' = shadow_db C w5"
    using w6(1) w'(1) by (intro db_cong; simp add: files_eq_on_def)+
  have "acct_step (accounts_of C w) (accounts_of C w5)"
    using w5(1) by (intro del_user_step [OF e(1) u _ g]) (simp add: user_dropped_def)
  from converse_rtranclp_into_rtranclp [OF this w6(3)] have "acct_steps (accounts_of C w) (accounts_of C w')"
    unfolding accounts_same [OF w'(1)] .
  moreover have "user_dropped C e w w'" "shadow_dropped C (pw_name e) w w'"
    using w5(1,2) by (simp_all add: user_dropped_def shadow_dropped_def pw)
  moreover have "groups_left C e w ok w'" by (rule groups_left_cong [OF w6(4) g w'])
  ultimately show ?thesis
    unfolding user_delete_done_def db_wf_files [OF w'(1)]
    by (intro conjI w6(2) disjI2 bexI [OF _ e(1)] e(2))
qed

text \<open>An error reported stays reported while the home directory is removed.\<close>

lemma balanced_case_htree:
  "(\<And>a es. t = HDir a es \<Longrightarrow> balanced J d (f a es)) \<Longrightarrow> (\<And>a c. t = HFile a c \<Longrightarrow> balanced J d (g a c)) \<Longrightarrow>
   (\<And>a s. t = HLink a s \<Longrightarrow> balanced J d (h a s)) \<Longrightarrow>
   balanced J d (case t of HDir a es \<Rightarrow> f a es | HFile a c \<Rightarrow> g a c | HLink a s \<Rightarrow> h a s)"
  by (cases t) auto

lemma keeps_error_home: "keeps_error (delete_home_dir C self)"
proof -
  have e: "keeps_error (log_event ev)" for ev
    by (auto simp: balanced_def has_error_def intro!: wp_rules)
  have entries: "keeps_error (delete_entries C es)" for es
  proof (induction C es rule: delete_entries.induct)
    case (2 C n e rest)
    then show ?case
      unfolding delete_entries.simps remove_dir_def
      by (intro lock_rules balanced_case_htree) auto
  qed (simp add: balanced_return)
  show ?thesis
    unfolding delete_home_dir_def gum_file_delete_home_dir_def on_tree_def remove_dir_def
    by (intro lock_rules balanced_case_htree entries e keeps_error_modify) simp_all
qed

text \<open>From the removal of the groups on.\<close>

lemma delete_groups_tail:
  assumes ok: "paths_ok C" "reads_ok C" and e: "e \<in> set (passwd_db C w)" "is_user self e"
    and u: "distinct (map pw_uid (passwd_db C w))" and ids: "group_ids_ok (group_db C w)"
    and f: "filled e self'" and n: "pw_name (du_pw self') \<noteq> None"
    and w5: "user_dropped C e w w5" "shadow_dropped C (pw_name e) w w5"
      "files_eq_on {group_path C, gshadow_path C} w w5" "db_wf C w5"
  shows "wp (do {
      ok \<leftarrow> and_then (user_delete_group C self')
             (gumd_daemon_group_delete_user_membership C (pw_name (du_pw self')));
      if \<not> ok then unlock_ret C (False, self')
      else do {
        ok \<leftarrow> (if rem then delete_home_dir C self' else ret True);
        unlock_ret C (ok, self') } }) (\<lambda>(ok, _) w'. user_delete_done C self w ok w') w5"
proof -
  from f n obtain nm where self: "pw_gid (du_pw self') = pw_gid e" "pw_name (du_pw self') = pw_name e"
    "pw_name e = Some nm" by (auto simp: filled_def)
  have "group_db C w5 = group_db C w" using w5(3) by (intro db_cong) (simp add: files_eq_on_def)
  then have ids5: "group_ids_ok (group_db C w5)" using ids by simp
  show ?thesis
  proof (rule wp_step [OF groups_step [OF ok w5(4) ids5 self]], rule wp_if)
    fix r6 w6
    assume w6: "files_eq_on {passwd_path C, shadow_path C} w5 w6 \<and> db_wf C w6 \<and>
      acct_steps (accounts_of C w5) (accounts_of C w6) \<and> groups_left C e w5 r6 w6"
    have fin: "user_delete_done C self w ok w'"
      if "files w' = files w6" "ok \<longrightarrow> r6" "ok \<longrightarrow> has_error w6 \<longrightarrow> has_error w'" for ok w'
      using w6 by (intro dropped_done [OF e u w5(1-3) _ _ _ _ that]) simp_all
    show "wp (unlock_ret C (False, self')) (\<lambda>(ok, _) w'. user_delete_done C self w ok w') w6"
      by (rule wp_unlock_ret) (simp add: fin)
    assume r6: "\<not> \<not> r6"
    have home: "wp (if rem then delete_home_dir C self' else ret True)
        (\<lambda>_ w'. files w' = files w6 \<and> (has_error w6 \<longrightarrow> has_error w')) w6"
    proof (rule wp_if)
      have "wp (delete_home_dir C self') (\<lambda>_ w'. has_error w6 \<longrightarrow> has_error w') w6"
        using keeps_error_home by (auto simp: balanced_def wp_def)
      moreover have "wp (delete_home_dir C self') (\<lambda>_ w'. files w' = files w6) w6"
        by (rule frame_wp [OF frame_user_home(2) [of files, OF node_indep_files]])
      ultimately show "wp (delete_home_dir C self') (\<lambda>_ w'. files w' = files w6 \<and> (has_error w6 \<longrightarrow> has_error w')) w6"
        by (intro wp_conj)
    qed (simp add: wp_return)
    show "wp (do { ok \<leftarrow> (if rem then delete_home_dir C self' else ret True); unlock_ret C (ok, self') })
        (\<lambda>(ok, _) w'. user_delete_done C self w ok w') w6"
      by (rule wp_step [OF home], rule wp_unlock_err) (use r6 in \<open>auto simp: has_error_def intro!: fin\<close>)
  qed
qed

text \<open>From the removal of the entries on, with the account locked.\<close>

lemma delete_entries_tail:
  assumes ok: "paths_ok C" "reads_ok C" and e: "e \<in> set (passwd_db C w)" "is_user self e"
    and u: "distinct (map pw_uid (passwd_db C w))" and ids: "group_ids_ok (group_db C w)"
    and f: "filled e self'" and n: "pw_name (du_pw self') \<noteq> None"
    and w4: "db_wf C w4" "files_eq_on {passwd_path C, group_path C, gshadow_path C} w w4"
      "shadow_db C w4 = lock_entry (pw_name e) True (shadow_db C w)"
  shows "wp (do {
      ok \<leftarrow> update_passwd_shadow C self' GUM_OPTYPE_DELETE None;
      if \<not> ok then do {
        lock_account C self' False;
        unlock_ret C (False, self') }
      else do {
        ok \<leftarrow> and_then (user_delete_group C self')
               (gumd_daemon_group_delete_user_membership C (pw_name (du_pw self')));
        if \<not> ok then unlock_ret C (False, self')
        else do {
          ok \<leftarrow> (if rem then delete_home_dir C self' else ret True);
          unlock_ret C (ok, self') } } }) (\<lambda>(ok, _) w'. user_delete_done C self w ok w') w4"
proof (rule wp_step [OF update_passwd_shadow_spec [OF ok w4(1)]], rule wp_if)
  fix r w5 assume w5: "user_files_done C GUM_OPTYPE_DELETE self' None w4 r w5 \<and> db_wf C w5"
  have pw4: "passwd_db C w4 = passwd_db C w" using w4(2) by (intro db_cong) (simp add: files_eq_on_def)
  have eq: "files_eq_on {group_path C, gshadow_path C} w w5"
    using w4(2) w5 by (auto simp: user_files_done_def files_eq_on_def)
  have dropped: "user_dropped C e w w5"
    if "passwd_change GUM_OPTYPE_DELETE (du_pw self') None (passwd_db C w4) (passwd_db C w5)"
    using passwd_deleted [OF that] u f by (simp add: user_dropped_def pw4 filled_def)
  have nm: "pw_name (du_pw self') = pw_name e" "sp_namp (du_shadow self') = pw_name e"
    using f n by (auto simp: filled_def)
  show "wp (do {
        ok \<leftarrow> and_then (user_delete_group C self')
               (gumd_daemon_group_delete_user_membership C (pw_name (du_pw self')));
        if \<not> ok then unlock_ret C (False, self')
        else do {
          ok \<leftarrow> (if rem then delete_home_dir C self' else ret True);
          unlock_ret C (ok, self') } }) (\<lambda>(ok, _) w'. user_delete_done C self w ok w') w5" if r: "\<not> \<not> r"
  proof (rule delete_groups_tail [OF ok e u ids f n _ _ eq])
    from r w5 have ch: "passwd_change GUM_OPTYPE_DELETE (du_pw self') None (passwd_db C w4) (passwd_db C w5)"
      "shadow_change GUM_OPTYPE_DELETE (du_shadow self') None (shadow_db C w4) (shadow_db C w5)"
      by (simp_all add: user_files_done_def)
    show "user_dropped C e w w5" by (rule dropped [OF ch(1)])
    from ch(2) show "shadow_dropped C (pw_name e) w w5"
      unfolding w4(3) nm(2) [symmetric] shadow_dropped_def by (rule shadow_deleted)
  qed (use w5 in simp)
  show "wp (do { lock_account C self' False; unlock_ret C (False, self') })
      (\<lambda>(ok, _) w'. user_delete_done C self w ok w') w5" if r: "\<not> r"
  proof (rule wp_step [OF lock_step [OF ok conjunct2 [OF w5]]], rule wp_unlock_ret)
    fix r6 and w6 w' :: world
    assume w6: "db_wf C w6 \<and> files_eq_on {passwd_path C, group_path C, gshadow_path C} w5 w6 \<and>
        (if r6 then pw_name (du_pw self') \<noteq> None \<and>
           shadow_db C w6 = lock_entry (pw_name (du_pw self')) False (shadow_db C w5)
         else files w6 (shadow_path C) = files w5 (shadow_path C))" and w': "files w' = files w6"
    note db' = db_cong [OF fun_cong [OF w'], of C] db_wf_files [OF w', of C]
    have pw: "passwd_db C w6 = passwd_db C w5" using w6 by (intro db_cong) (simp add: files_eq_on_def)
    have "shadow_db C w5 = lock_entry (pw_name e) True (shadow_db C w)"
      using r w5 db_cong(2) [of w5 C w4] w4(3) by (simp add: user_files_done_def)
    with w6 have "shadow_db C w6 \<in> relockings (pw_name e) (shadow_db C w)"
      using db_cong(2) [of w6 C w5] by (cases r6) (simp_all add: relockings_def nm)
    moreover have "passwd_db C w5 = passwd_db C w \<or> user_dropped C e w w5"
      using r w5 dropped db_cong(1) [of w5 C w4] pw4 by (auto simp: user_files_done_def)
    ultimately have "user_delete_done C self w False w'"
      using eq w6 by (intro relocked_done [OF e u]) (auto simp: db' pw user_dropped_def files_eq_on_def w')
    then show "(case (False, self') of (ok, _) \<Rightarrow> user_delete_done C self w ok) w'" by simp
  qed
qed

lemma unlock_failed_termination:
  assumes ok: "paths_ok C" "reads_ok C" and e: "e \<in> set (passwd_db C w)" "is_user self e"
    and u: "distinct (map pw_uid (passwd_db C w))" and nm: "pw_name (du_pw self') = pw_name e"
    and w3: "db_wf C w3" "files_eq_on {passwd_path C, group_path C, gshadow_path C} w w3"
      "shadow_db C w3 = lock_entry (pw_name e) True (shadow_db C w)"
  shows "wp (do { lock_account C self' False; unlock_fail C err self' })
    (\<lambda>(ok, _) w'. user_delete_done C self w ok w') w3"
proof (rule wp_step [OF lock_step [OF ok w3(1)]], rule wp_unlock_fail)
  fix r and w4 w' :: world
  assume w4: "db_wf C w4 \<and> files_eq_on {passwd_path C, group_path C, gshadow_path C} w3 w4 \<and>
      (if r then pw_name (du_pw self') \<noteq> None \<and>
         shadow_db C w4 = lock_entry (pw_name (du_pw self')) False (shadow_db C w3)
       else files w4 (shadow_path C) = files w3 (shadow_path C))" and w': "files w' = files w4"
  have pw: "passwd_db C w' = passwd_db C w"
    using w3(2) w4 by (intro db_cong) (simp add: files_eq_on_def w')
  have "shadow_db C w4 \<in> relockings (pw_name e) (shadow_db C w)"
    using w4 w3(3) db_cong(2) [of w4 C w3] by (cases r) (simp_all add: relockings_def nm)
  then have "user_delete_done C self w False w'"
    using w3(2) w4 pw db_cong(2) [OF fun_cong [OF w'], of C] db_wf_files [OF w', of C]
    by (intro relocked_done [OF e u]) (auto simp: files_eq_on_def w')
  then show "(case (False, self') of (ok, _) \<Rightarrow> user_delete_done C self w ok) w'" by simp
qed

section \<open>Property\<close>

lemma user_delete_run:
  assumes "paths_ok C" and "reads_ok C" and "db_wf C w" and "group_ids_ok (group_db C w)"
    and "distinct (map pw_uid (passwd_db C w))"
  shows "wp (gumd_daemon_user_delete C self rem) (\<lambda>(ok, _) w'. user_delete_done C self w ok w') w"
proof -
  note ok = assms(1,2) and steps = frame_user_steps [of files, simplified, THEN frame_wp]
  have same: "user_delete_done C self w False w'" if "files w' = files w" for w'
    using assms(3) db_wf_files [OF that, of C] accounts_same [OF that, of C]
    by (simp add: user_delete_done_def files_eq_on_def that)
  show ?thesis
    unfolding gumd_daemon_user_delete_def
    apply (rule wp_bind, rule files_kept(1), rule wp_if)
     apply (intro wp_bind wp_set_error wp_return, simp add: same)
    apply (rule wp_if)
     apply (rule wp_unlock_fail, simp add: same)
    apply (rule wp_step [OF copy_passwd_data_spec [OF ok(1), where w = w]], simp, rule wp_case_prod, rule wp_if)
     apply (rule wp_unlock_fail, simp add: same)
    apply (rule wp_bind, rule wp_gets, rule wp_if)
     apply (rule wp_unlock_fail, simp add: same)
    subgoal premises prems for lk w1 cp w2 found self'
    proof -
      have w2: "files w2 = files w" using prems by auto
      from prems obtain e where e: "e \<in> set (passwd_db C w)" "is_user self e" and f: "filled e self'" by auto
      note wf2 = iffD2 [OF arg_cong [OF db_wf_files [OF w2, of C], of "\<lambda>x. x"] assms(3)]
      note db2 = db_cong [OF fun_cong [OF w2], of C]
      show ?thesis
      proof (rule wp_step [OF lock_step [OF ok wf2]], rule wp_if)
        fix r and w3 :: world
        assume w3: "db_wf C w3 \<and> files_eq_on {passwd_path C, group_path C, gshadow_path C} w2 w3 \<and>
          (if r then pw_name (du_pw self') \<noteq> None \<and>
             shadow_db C w3 = lock_entry (pw_name (du_pw self')) True (shadow_db C w2)
           else files w3 (shadow_path C) = files w2 (shadow_path C))"
        show "wp (unlock_fail C GUM_ERROR_USER_LOCK_FAILURE self')
            (\<lambda>(ok, _) w'. user_delete_done C self w ok w') w3" if "\<not> r"
        proof (rule wp_unlock_fail)
          fix w' :: world assume w': "files w' = files w3"
          have "accounts_of C w' = accounts_of C w"
            using w3 by (intro accounts_files) (simp add: files_eq_on_def w' w2)
          then have "user_delete_done C self w False w'"
            using w3 that db_wf_files [OF w', of C]
            by (simp add: user_delete_done_def files_eq_on_def db_paths_def w' w2)
          then show "(case (False, self') of (ok, _) \<Rightarrow> user_delete_done C self w ok) w'" by simp
        qed
        assume r: "\<not> \<not> r"
        with w3 f have nm: "pw_name (du_pw self') \<noteq> None" "pw_name (du_pw self') = pw_name e"
          by (auto simp: filled_def)
        have S: "db_wf C w'" "files_eq_on {passwd_path C, group_path C, gshadow_path C} w w'"
          "shadow_db C w' = lock_entry (pw_name e) True (shadow_db C w)" if "files w' = files w3" for w'
          using w3 r nm(2) db_wf_files [OF that, of C] db_cong(2) [OF fun_cong [OF that], of C]
          by (simp_all add: files_eq_on_def w2 that db2)
        show "wp (do {
            ok \<leftarrow> terminate_user C (pw_uid (du_pw self'));
            if \<not> ok then do {
              lock_account C self' False;
              unlock_fail C GUM_ERROR_USER_SESSION_TERM_FAILURE self' }
            else do {
              gum_utils_run_user_scripts C (USERDEL_SCRIPT_DIR C) (pw_name (du_pw self'))
                (pw_uid (du_pw self')) (pw_gid (du_pw self')) (pw_dir (du_pw self')) None;
              delete_userinfo C self';
              ok \<leftarrow> update_passwd_shadow C self' GUM_OPTYPE_DELETE None;
              if \<not> ok then do { lock_account C self' False; unlock_ret C (False, self') }
              else do {
                ok \<leftarrow> and_then (user_delete_group C self')
                       (gumd_daemon_group_delete_user_membership C (pw_name (du_pw self')));
                if \<not> ok then unlock_ret C (False, self')
                else do {
                  ok \<leftarrow> (if rem then delete_home_dir C self' else ret True);
                  unlock_ret C (ok, self') } } } })
          (\<lambda>(ok, _) w'. user_delete_done C self w ok w') w3"
          apply (rule wp_bind, rule steps(5))
          apply (rule wp_if)
           apply (rule unlock_failed_termination [OF ok e assms(5) nm(2)]; erule S)
          apply (rule wp_bind, rule files_kept(9))
          apply (rule wp_bind, rule steps(1))
          apply (rule delete_entries_tail [OF ok e assms(5,4) f nm(1)]; rule S; simp)
          done
      qed
    qed
    done
qed



end
