(* ===== verification/Gumd_User_Update.thy ===== *)
theory Gumd_User_Update
  imports Gumd_User_Delete
begin

text \<open>
  Changing a user: what the object takes over from the entries, what becomes of the passwd
  and shadow files, and the property of the operation.
\<close>

section \<open>The merged object\<close>

lemma update_gecos_keeps [simp]:
  "pw_name (du_pw (update_gecos_field E src f d)) = pw_name (du_pw d)"
  "pw_passwd (du_pw (update_gecos_field E src f d)) = pw_passwd (du_pw d)"
  "pw_uid (du_pw (update_gecos_field E src f d)) = pw_uid (du_pw d)"
  "pw_gid (du_pw (update_gecos_field E src f d)) = pw_gid (du_pw d)"
  "pw_shell (du_pw (update_gecos_field E src f d)) = pw_shell (du_pw d)"
  "du_shadow (update_gecos_field E src f d) = du_shadow d"
  by (cases "gecos_field E (du_pw d) f" rule: option.exhaust; cases "the (gecos_field E (du_pw d) f)";
      simp add: update_gecos_field_def Let_def field_setters)+

lemma merge_user_simps:
  "pw_uid (du_pw (user_merge_for_update E self e s)) = pw_uid e"
  "pw_gid (du_pw (user_merge_for_update E self e s)) = pw_gid e"
  "pw_passwd (du_pw (user_merge_for_update E self e s)) = pw_passwd (du_pw self)"
  "pw_shell (du_pw (user_merge_for_update E self e s)) = pw_shell (du_pw self)"
  "du_shadow (user_merge_for_update E self e s) = copy_shadow_struct s (du_shadow self) True"
  by (simp_all add: user_merge_for_update_def Let_def user_set_ids_eq)

lemma merge_user_name:
  "is_user self e \<Longrightarrow> pw_name (du_pw (user_merge_for_update E self e s)) \<in> {None, pw_name e}"
  by (auto simp: user_merge_for_update_def Let_def user_set_ids_eq set_username_property_def is_user_def)

section \<open>What changing does to the databases\<close>

text \<open>The secret before: that of the shadow entry unless the object has one itself.\<close>

definition old_secret :: "daemon_user \<Rightarrow> spwd \<Rightarrow> pstr" where
  "old_secret self s = (if sp_pwdp (du_shadow self) = None then sp_pwdp s else sp_pwdp (du_shadow self))"

definition new_secret_given :: "ctx \<Rightarrow> daemon_user \<Rightarrow> spwd \<Rightarrow> bool" where
  "new_secret_given C self s \<longleftrightarrow> pw_passwd (du_pw self) \<notin> {None, Some ''x''} \<and>
     gum_crypt_cmp_secret (c_env C) (pw_passwd (du_pw self)) (old_secret self s) \<noteq> 0"

definition secret_after :: "ctx \<Rightarrow> daemon_user \<Rightarrow> spwd \<Rightarrow> pstr \<Rightarrow> bool" where
  "secret_after C self s v \<longleftrightarrow>
     (if new_secret_given C self s
      then \<exists>p h. pw_passwd (du_pw self) = Some p \<and> v = Some h \<and> hashed C (cfg C GUM_CONFIG_GENERAL_ENCRYPT_METHOD) p h
      else v = nn (old_secret self s))"

definition passwd_changed ::
    "ctx \<Rightarrow> daemon_user \<Rightarrow> daemon_user \<Rightarrow> passwd \<Rightarrow> spwd \<Rightarrow> world \<Rightarrow> world \<Rightarrow> bool" where
  "passwd_changed C self self' e s w w' \<longleftrightarrow>
     (\<exists>e'. passwd_line (du_pw self') = Some e' \<and> passwd_line e' = Some e' \<and>
        pw_uid e' = pw_uid e \<and> pw_gid e' = pw_gid e \<and> pw_name e' = pw_name e \<and>
        pw_shell e' = nn (pw_shell (du_pw self)) \<and>
        (new_secret_given C self s \<longrightarrow> pw_passwd e' = Some ''x'') \<and>
        (pw_gecos (du_pw self') = None \<or>
         gecos_field (c_env C) (du_pw self') GECOS_FIELD_USERTYPE = gecos_field (c_env C) e GECOS_FIELD_USERTYPE) \<and>
        passwd_db C w' = map (\<lambda>x. if pw_uid x = pw_uid e then e' else x) (passwd_db C w))"

definition shadow_changed :: "ctx \<Rightarrow> daemon_user \<Rightarrow> spwd \<Rightarrow> world \<Rightarrow> world \<Rightarrow> bool" where
  "shadow_changed C self s w w' \<longleftrightarrow>
     (\<exists>v. secret_after C self s v \<and>
        shadow_db C w' = subst_first (\<lambda>x. sp_namp x = sp_namp s)
          [s\<lparr>sp_namp := (if sp_namp (du_shadow self) = None then sp_namp s else sp_namp (du_shadow self)),
             sp_pwdp := v\<rparr>] (shadow_db C w))"

definition user_update_done :: "ctx \<Rightarrow> daemon_user \<Rightarrow> world \<Rightarrow> bool \<Rightarrow> daemon_user \<Rightarrow> world \<Rightarrow> bool" where
  "user_update_done C self w ok self' w' \<longleftrightarrow>
     db_wf C w' \<and> accounts_of C w' = accounts_of C w \<and> files_eq_on {group_path C, gshadow_path C} w w' \<and>
     (\<not> ok \<and> files_eq_on {passwd_path C, shadow_path C} w w' \<or>
      pw_uid (du_pw self) \<noteq> GUM_USER_INVALID_UID \<and>
      (\<exists>e\<in>set (passwd_db C w). \<exists>s\<in>set (shadow_db C w). is_user self e \<and> sp_namp s = pw_name e \<and>
         passwd_changed C self self' e s w w' \<and>
         (if ok then shadow_changed C self s w w'
          else files w' (shadow_path C) = files w (shadow_path C))))"

lemma passwd_modified:
  assumes "passwd_change GUM_OPTYPE_MODIFY p ud es es'" and "distinct (map pw_uid es)"
    and e: "e \<in> set es" "pw_uid p = pw_uid e"
  obtains e' where "passwd_line p = Some e'" "es' = map (\<lambda>x. if pw_uid x = pw_uid e then e' else x) es"
proof -
  from assms(1) obtain x e' where x: "x \<in> set es" "passwd_acts GUM_OPTYPE_MODIFY p ud x"
    "passwd_line p = Some e'" "es' = subst_first (passwd_acts GUM_OPTYPE_MODIFY p ud) [e'] es"
    by (auto simp: entry_change_def)
  then have "es' = map (\<lambda>y. if pw_uid y = pw_uid x then e' else y) es"
    unfolding x(4) by (intro subst_first_map [OF assms(2)]) (auto simp: passwd_acts_def)
  with x(2,3) e(2) show ?thesis using that by (simp add: passwd_acts_def)
qed

text \<open>The object when the files are updated.\<close>

definition ready_to_update :: "ctx \<Rightarrow> daemon_user \<Rightarrow> passwd \<Rightarrow> spwd \<Rightarrow> daemon_user \<Rightarrow> bool" where
  "ready_to_update C self e s self' \<longleftrightarrow>
     pw_uid (du_pw self') = pw_uid e \<and> pw_gid (du_pw self') = pw_gid e \<and>
     pw_name (du_pw self') \<in> {None, pw_name e} \<and> pw_shell (du_pw self') = pw_shell (du_pw self) \<and>
     (new_secret_given C self s \<longrightarrow> pw_passwd (du_pw self') = Some ''x'') \<and>
     (\<exists>v. du_shadow self' = s\<lparr>sp_namp := (if sp_namp (du_shadow self) = None then sp_namp s else sp_namp (du_shadow self)),
             sp_pwdp := v\<rparr> \<and> secret_after C self s (nn v))"

lemma secret_changes_given:
  "secret_changes (c_env C) (user_merge_for_update (c_env C) self e s) = new_secret_given C self s"
  by (auto simp: secret_changes_def new_secret_given_def merge_user_simps copy_shadow_struct_def old_secret_def)

lemma update_secret_spec:
  fixes C :: ctx and s :: spwd
  assumes "is_user self e"
  defines "m \<equiv> user_merge_for_update (c_env C) self e s"
  shows "wp (if secret_changes (c_env C) m then user_set_secret C m
             else ret (True, user_set_secret_property m (pw_passwd e)))
    (\<lambda>(ok, self') w'. files w' = files w \<and> (ok \<longrightarrow> ready_to_update C self e s self')) w"
proof (rule wp_if)
  note name = merge_user_name [OF assms(1), of "c_env C" s, folded m_def]
  note simps = merge_user_simps [of "c_env C" self e s, folded m_def]
  note sh = simps(5) [unfolded copy_shadow_struct_def]
  assume ch: "secret_changes (c_env C) m"
  then have given: "new_secret_given C self s" by (simp add: m_def secret_changes_given)
  show "wp (user_set_secret C m)
      (\<lambda>(ok, self') w'. files w' = files w \<and> (ok \<longrightarrow> ready_to_update C self e s self')) w"
  proof (rule wp_mono [OF user_set_secret_spec], clarsimp)
    fix self' assume "user_secret_stored C m self'"
    then obtain v where v: "du_pw self' = (du_pw m)\<lparr>pw_passwd := Some ''x''\<rparr>"
      "du_shadow self' = (du_shadow m)\<lparr>sp_pwdp := v\<rparr>" "secret_for C m v"
      by (auto simp: user_secret_stored_def)
    from v(3) given obtain p h where ph: "pw_passwd (du_pw self) = Some p" "v = Some h"
      "hashed C (cfg C GUM_CONFIG_GENERAL_ENCRYPT_METHOD) p h"
      by (auto simp: user_secret_of_def simps new_secret_given_def split: option.splits)
    with given have "secret_after C self s (nn v)" by (simp add: secret_after_def nn_def)
    with v(1,2) name given show "ready_to_update C self e s self'"
      by (auto simp: ready_to_update_def simps(1-4) sh intro!: exI [of _ v])
  qed
next
  note name = merge_user_name [OF assms(1), of "c_env C" s, folded m_def]
  note simps = merge_user_simps [of "c_env C" self e s, folded m_def]
  note sh = simps(5) [unfolded copy_shadow_struct_def]
  assume "\<not> secret_changes (c_env C) m"
  then have given: "\<not> new_secret_given C self s" by (simp add: m_def secret_changes_given)
  then have "secret_after C self s (nn (old_secret self s))" by (simp add: secret_after_def)
  with name given show "wp (ret (True, user_set_secret_property m (pw_passwd e)))
      (\<lambda>(ok, self') w'. files w' = files w \<and> (ok \<longrightarrow> ready_to_update C self e s self')) w"
    by (intro wp_return)
      (auto simp: ready_to_update_def simps(1-4) sh old_secret_def intro!: exI [of _ "old_secret self s"])
qed

section \<open>The handler\<close>

lemma passwd_changed_by:
  assumes "ready_to_update C self e s self'" and "e \<in> set (passwd_db C w)" and "distinct (map pw_uid (passwd_db C w))"
    and ch: "passwd_change GUM_OPTYPE_MODIFY (du_pw self') ud (passwd_db C w) (passwd_db C w')"
    and ty: "\<not> (gecos_changes self' e \<and> gecos_field (c_env C) (du_pw self') GECOS_FIELD_USERTYPE \<noteq>
               gecos_field (c_env C) e GECOS_FIELD_USERTYPE)"
  shows "passwd_changed C self self' e s w w'"
proof -
  from assms(1) have r: "pw_uid (du_pw self') = pw_uid e" "pw_gid (du_pw self') = pw_gid e"
    "pw_name (du_pw self') \<in> {None, pw_name e}" "pw_shell (du_pw self') = pw_shell (du_pw self)"
    "new_secret_given C self s \<longrightarrow> pw_passwd (du_pw self') = Some ''x''"
    by (auto simp: ready_to_update_def)
  obtain e' where e': "passwd_line (du_pw self') = Some e'"
    "passwd_db C w' = map (\<lambda>x. if pw_uid x = pw_uid e then e' else x) (passwd_db C w)"
    by (rule passwd_modified [OF ch assms(3,2) r(1)])
  have "pw_name (du_pw self') \<noteq> None" using e'(1) by (auto simp: passwd_line_def split: if_splits)
  then have n: "pw_name (du_pw self') = pw_name e" using r(3) by auto
  have g: "pw_gecos (du_pw self') = None \<or>
      gecos_field (c_env C) (du_pw self') GECOS_FIELD_USERTYPE = gecos_field (c_env C) e GECOS_FIELD_USERTYPE"
    using ty by (auto simp: gecos_changes_def gecos_field_def)
  show ?thesis
    unfolding passwd_changed_def
    by (rule exI [of _ e'], intro conjI e' g passwd_line_idem [OF e'(1)])
      (use r n line_simps(1) [OF e'(1)] in \<open>auto simp: nn_def\<close>)
qed

lemma shadow_changed_by:
  assumes "ready_to_update C self e s self'" and n: "sp_namp s = pw_name e" "pw_name e \<noteq> None"
    and ch: "shadow_change GUM_OPTYPE_MODIFY (du_shadow self') (pw_name e) (shadow_db C w) (shadow_db C w')"
  shows "shadow_changed C self s w w'"
proof -
  from assms(1) obtain v where v: "du_shadow self' = s\<lparr>sp_namp :=
      (if sp_namp (du_shadow self) = None then sp_namp s else sp_namp (du_shadow self)), sp_pwdp := v\<rparr>"
    "secret_after C self s (nn v)" unfolding ready_to_update_def by blast
  have acts: "shadow_acts GUM_OPTYPE_MODIFY (du_shadow self') (pw_name e) = (\<lambda>x. sp_namp x = sp_namp s)"
    using n by (auto simp: shadow_acts_def)
  from ch obtain s' where s': "spwd_line (du_shadow self') = Some s'"
    "shadow_db C w' = subst_first (\<lambda>x. sp_namp x = sp_namp s) [s'] (shadow_db C w)"
    by (auto simp: entry_change_def acts)
  from line_simps(2) [OF s'(1)] v(1) have "s' = s\<lparr>sp_namp :=
      (if sp_namp (du_shadow self) = None then sp_namp s else sp_namp (du_shadow self)), sp_pwdp := nn v\<rparr>"
    by simp
  with s'(2) v(2) show ?thesis unfolding shadow_changed_def by blast
qed

lemma user_update_tail:
  assumes ok: "paths_ok C" "reads_ok C" and wf: "db_wf C w" and u: "distinct (map pw_uid (passwd_db C w))"
    and inv: "pw_uid (du_pw self) \<noteq> GUM_USER_INVALID_UID"
    and e: "e \<in> set (passwd_db C w)" "is_user self e" "s \<in> set (shadow_db C w)" "sp_namp s = pw_name e"
    and r: "ready_to_update C self e s self'" and w1: "files w1 = files w"
    and ty: "\<not> (gecos_changes self' e \<and> gecos_field (c_env C) (du_pw self') GECOS_FIELD_USERTYPE \<noteq>
               gecos_field (c_env C) e GECOS_FIELD_USERTYPE)"
  shows "wp (do { ok \<leftarrow> update_passwd_shadow C self' GUM_OPTYPE_MODIFY (pw_name e); unlock_ret C (ok, self') })
    (\<lambda>(ok, self') w'. user_update_done C self w ok self' w') w1"
proof (rule wp_step [OF update_passwd_shadow_spec [OF ok]], simp add: wf db_wf_files [OF w1], rule wp_unlock_ret)
  fix a and w2 w' :: world
  assume w2: "user_files_done C GUM_OPTYPE_MODIFY self' (pw_name e) w1 a w2 \<and> db_wf C w2" and w': "files w' = files w2"
  note db' = db_cong [OF fun_cong [OF w'], of C] and db1 = db_cong [OF fun_cong [OF w1], of C]
  have g: "files_eq_on {group_path C, gshadow_path C} w w'"
    using w2 by (simp add: user_files_done_def files_eq_on_def w' w1)
  have n: "pw_name e \<noteq> None" using pw_name_Some [OF db_wfD(1) [OF wf] e(1)] by simp
  have pw: "passwd_changed C self self' e s w w'"
    if "passwd_change GUM_OPTYPE_MODIFY (du_pw self') (pw_name e) (passwd_db C w1) (passwd_db C w2)"
    using that by (intro passwd_changed_by [OF r e(1) u _ ty, of "pw_name e"]) (simp add: db' db1)
  have acc: "accounts_of C w' = accounts_of C w" if "passwd_changed C self self' e s w w'"
  proof -
    from that obtain e' where e': "user_key_of e' = user_key_of e"
      "passwd_db C w' = map (\<lambda>x. if pw_uid x = pw_uid e then e' else x) (passwd_db C w)"
      by (auto simp: passwd_changed_def user_key_of_def)
    have "map user_key_of (passwd_db C w') = map user_key_of (passwd_db C w)"
      unfolding e'(2) by (rule map_one_key [where e' = e', OF u e(1) e'(1)])
    moreover have "group_db C w' = group_db C w" using g by (intro db_cong) (simp add: files_eq_on_def)
    ultimately show ?thesis by (simp only: accounts_of_def)
  qed
  have same: "accounts_of C w' = accounts_of C w" if "files w2 (passwd_path C) = files w1 (passwd_path C)"
    using g that by (intro accounts_files) (simp add: files_eq_on_def w' w1)
  note wf' = db_wf_files [OF w', of C]
  have "user_update_done C self w a self' w'"
  proof (cases a)
    case True
    with w2 have p: "passwd_changed C self self' e s w w'" by (intro pw) (simp add: user_files_done_def)
    have "shadow_changed C self s w w'"
      using w2 True by (intro shadow_changed_by [OF r e(4) n]) (simp add: user_files_done_def db' db1)
    with True p w2 wf' acc g inv e show ?thesis unfolding user_update_done_def by auto
  next
    case False
    with w2 have sh: "files w' (shadow_path C) = files w (shadow_path C)"
      by (simp add: user_files_done_def w' w1)
    show ?thesis
    proof (cases "files w2 (passwd_path C) = files w1 (passwd_path C)")
      case True
      with False sh g wf' w2 same show ?thesis
        by (simp add: user_update_done_def files_eq_on_def w' w1)
    next
      case ch: False
      with w2 False have p: "passwd_changed C self self' e s w w'"
        by (intro pw) (simp add: user_files_done_def)
      with False sh g wf' w2 acc inv e show ?thesis unfolding user_update_done_def by auto
    qed
  qed
  then show "(case (a, self') of (ok, self') \<Rightarrow> user_update_done C self w ok self') w'" by simp
qed

lemma user_update_same:
  "db_wf C w \<Longrightarrow> files w' = files w \<Longrightarrow> user_update_done C self w False self' w'"
  using db_wf_files [of w' w C] accounts_same [of w' w C]
  by (simp add: user_update_done_def files_eq_on_def)

lemma user_update_merged:
  assumes ok: "paths_ok C" "reads_ok C" and wf: "db_wf C w" and u: "distinct (map pw_uid (passwd_db C w))"
    and inv: "pw_uid (du_pw self) \<noteq> GUM_USER_INVALID_UID"
    and e: "e \<in> set (passwd_db C w)" "is_user self e" "s \<in> set (shadow_db C w)" "sp_namp s = pw_name e"
    and w1: "files w1 = files w"
  defines "m \<equiv> user_merge_for_update (c_env C) self e s"
  shows "wp (do {
      (ok, self) \<leftarrow> (if secret_changes (c_env C) m then user_set_secret C m
                     else ret (True, user_set_secret_property m (pw_passwd e)));
      if \<not> ok then unlock_ret C (False, self)
      else if gecos_changes self e \<and>
              gecos_field (c_env C) (du_pw self) GECOS_FIELD_USERTYPE \<noteq>
              gecos_field (c_env C) e GECOS_FIELD_USERTYPE
      then unlock_fail C GUM_ERROR_USER_INVALID_USER_TYPE self
      else if \<not> (icon \<or> secret_changes (c_env C) m \<or> gecos_changes self e \<or> shell_changes self e)
      then unlock_fail C GUM_ERROR_USER_NO_CHANGES self
      else do {
        ok \<leftarrow> update_passwd_shadow C self GUM_OPTYPE_MODIFY (pw_name e);
        unlock_ret C (ok, self) } })
    (\<lambda>(ok, self') w'. user_update_done C self w ok self' w') w1"
  unfolding m_def
  apply (rule wp_step [OF update_secret_spec [OF e(2)]], rule wp_case_prod, rule wp_if)
   apply (rule wp_unlock_ret, simp add: user_update_same [OF wf] w1)
  apply (rule wp_if)
   apply (rule wp_unlock_fail, simp add: user_update_same [OF wf] w1)
  apply (rule wp_if)
   apply (rule wp_unlock_fail, simp add: user_update_same [OF wf] w1)
  apply (rule user_update_tail [OF ok wf u inv e])
    apply (simp_all add: w1)
  done

section \<open>Properties\<close>

lemma user_update_run:
  assumes "paths_ok C" and "reads_ok C" and "db_wf C w" and "distinct (map pw_uid (passwd_db C w))"
  shows "wp (gumd_daemon_user_update C self) (\<lambda>(ok, self') w'. user_update_done C self w ok self' w') w"
proof -
  note ok = assms(1,2) and steps = frame_user_steps [of files, simplified, THEN frame_wp]
  note same = user_update_same [OF assms(3)]
  show ?thesis
    unfolding gumd_daemon_user_update_def Let_def
    apply (rule wp_bind, rule files_kept(1), rule wp_if)
     apply (intro wp_bind wp_set_error wp_return, simp add: same)
    apply (rule wp_if)
     apply (rule wp_unlock_fail, simp add: same)
    apply (rule wp_step [OF get_passwd_spec [OF ok(1), where w = w]], simp, rule wp_case_option)
     apply (rule wp_unlock_ret, simp add: same)
    apply (rule wp_step [OF getspnam_spec [OF ok(1), where w = w]], simp, rule wp_case_option)
     apply (rule wp_unlock_fail, simp add: same)
    apply (rule wp_bind, rule steps(4))
    apply (rule wp_step [where R = "\<lambda>_ w'. files w' = files w"])
     apply (intro wp_if steps(3) wp_return; simp)
    apply (rule user_update_merged [OF ok assms(3,4)])
         apply auto
    done
qed



end
