(* ===== verification/Gumd_User_List.thy ===== *)
theory Gumd_User_List
  imports Gumd_User_Update
begin

text \<open>
  The list of users: the bit sets of types that the code tests against are sets of types,
  and the ids listed are those of the entries whose type is wanted.
\<close>

unbundle bit_operations_syntax

section \<open>Types as bits\<close>

definition user_types :: "GumUserType set" where
  "user_types = {GUM_USERTYPE_SYSTEM, GUM_USERTYPE_ADMIN, GUM_USERTYPE_GUEST, GUM_USERTYPE_NORMAL, GUM_USERTYPE_SECURITY}"

lemma user_type_from_string_types: "gum_user_type_from_string s \<in> insert GUM_USERTYPE_NONE user_types"
proof -
  have "user_type_from_string_loop tbl n \<in> insert GUM_USERTYPE_NONE (fst ` set tbl)" for tbl n
    by (induction tbl n rule: user_type_from_string_loop.induct) auto
  from this [of user_type_strings] show ?thesis
    by (auto simp: gum_user_type_from_string_def user_type_strings_def user_types_def split: option.split)
qed

lemma listed_type_types: "listed_type C p \<in> insert GUM_USERTYPE_NONE user_types"
  using user_type_from_string_types
  by (auto simp: listed_type_def Let_def get_usertype_from_gecos_def user_types_def)

lemma user_typeE:
  assumes "t \<in> user_types"
  obtains k where "k < 5" "t = 2 ^ k"
proof -
  have "\<exists>k<5. t = 2 ^ k"
    using assms unfolding user_types_def usertype_defs insert_iff empty_iff
    by (elim disjE) (rule exI [of _ 0], simp, rule exI [of _ 1], simp, rule exI [of _ 2], simp,
        rule exI [of _ 3], simp, rule exI [of _ 4], simp, simp)
  with that show ?thesis by blast
qed

lemma one_bit_and:
  fixes v :: "32 word"
  assumes "k < 32"
  shows "2 ^ k AND v \<noteq> 0 \<longleftrightarrow> bit v k"
proof -
  have "bit (2 ^ k AND v) i \<longleftrightarrow> i = k \<and> bit v k" for i
    using assms by (auto simp: bit_and_iff bit_exp_iff possible_bit_word)
  then show ?thesis by (metis bit_0_eq bot_apply bot_bool_def bit_eq_iff)
qed

lemma user_type_bit:
  assumes "t \<in> insert GUM_USERTYPE_NONE user_types" "k < 5"
  shows "bit t k \<longleftrightarrow> t = 2 ^ k"
proof (cases "t = GUM_USERTYPE_NONE")
  case False
  with assms(1) obtain j where j: "j < 5" "t = 2 ^ j" by (auto elim: user_typeE)
  have "j = k" if "(2 :: GumUserType) ^ j = 2 ^ k"
  proof -
    have "bit ((2 :: GumUserType) ^ j) k"
      unfolding that using assms(2) by (simp add: bit_exp_iff possible_bit_word)
    then show ?thesis by (simp add: bit_exp_iff)
  qed
  with j assms(2) show ?thesis by (auto simp: bit_exp_iff possible_bit_word)
qed (use assms(2) in \<open>simp add: GUM_USERTYPE_NONE_def\<close>)

lemma from_strv_bit:
  "k < 16 \<Longrightarrow> bit (user_type_from_strv_loop res ts) k \<longleftrightarrow>
     bit res k \<or> (\<exists>s\<in>set ts. bit (gum_user_type_from_string (Some s)) k)"
  by (induction res ts rule: user_type_from_strv_loop.induct)
    (auto simp: bit_or_iff bit_ucast_iff)

section \<open>The types wanted\<close>

text \<open>No types given stands for all types but the security users.\<close>

definition wanted :: "string list option \<Rightarrow> GumUserType \<Rightarrow> bool" where
  "wanted types t \<longleftrightarrow> t \<noteq> GUM_USERTYPE_NONE \<and>
     (case types of
        Some (s # ss) \<Rightarrow> t \<in> (\<lambda>n. gum_user_type_from_string (Some n)) ` set (s # ss)
      | _ \<Rightarrow> t \<noteq> GUM_USERTYPE_SECURITY)"

lemma wanted_bits:
  assumes "t \<in> insert GUM_USERTYPE_NONE user_types"
  shows "t AND ucast (requested_types types) \<noteq> 0 \<longleftrightarrow> wanted types t"
proof (cases "t = GUM_USERTYPE_NONE")
  case False
  with assms obtain k where k: "k < 5" "t = 2 ^ k" by (auto elim: user_typeE)
  have "t AND ucast (requested_types types) \<noteq> 0 \<longleftrightarrow> bit (requested_types types) k"
    using k one_bit_and [of k "ucast (requested_types types)"] by (simp add: bit_ucast_iff)
  also have "\<dots> \<longleftrightarrow> wanted types t"
  proof (cases "types = None \<or> types = Some []")
    case True
    then have "requested_types types = 15"
      by (auto simp: requested_types_def usertype_defs)
    moreover have "bit (15 :: 16 word) k \<longleftrightarrow> t \<noteq> GUM_USERTYPE_SECURITY"
    proof -
      from k(1) consider "k = 0" | "k = 1" | "k = 2" | "k = 3" | "k = 4" by linarith
      then show ?thesis by cases (simp_all add: k(2) GUM_USERTYPE_SECURITY_def bit_iff_odd)
    qed
    ultimately show ?thesis using True False by (auto simp: wanted_def)
  next
    case ts: False
    then obtain s ss where ts: "types = Some (s # ss)" by (cases types; cases "the types"; auto)
    have "bit (requested_types types) k \<longleftrightarrow>
        (\<exists>n\<in>set (s # ss). gum_user_type_from_string (Some n) = t)"
      using from_strv_bit [of k "ucast GUM_USERTYPE_NONE" "s # ss"] k
        user_type_bit [OF user_type_from_string_types]
      by (auto simp: requested_types_def ts gum_user_type_from_strv_def GUM_USERTYPE_NONE_def)
    then show ?thesis using False by (auto simp: wanted_def ts)
  qed
  finally show ?thesis .
qed (simp add: wanted_def GUM_USERTYPE_NONE_def)

section \<open>Property\<close>



end
