(* ===== verification/Gumd_Daemon.thy ===== *)
theory Gumd_Daemon
  imports Gumd_User_List
begin

text \<open>
  The daemon object of \<^verbatim>\<open>gumd-daemon.c\<close>: the tables of the user and group objects
  that are alive, weak references that take an object out of its table when it is disposed
  of, and the operations that the D-Bus adapters call, with the signals they emit.
\<close>

section \<open>Objects and their tables\<close>

text \<open>
  A table of objects under ids and the objects themselves with their reference counts. An
  object is known by a number. \<open>weak_refs\<close> counts the weak references that the daemon
  holds on an object: the notification of each removes the object from the table.
\<close>

type_synonym oref = nat

record ('k, 'o) objects =
  obj_table :: "('k \<times> oref) list"
  obj_heap :: "oref \<Rightarrow> ('o \<times> nat) option"
  weak_refs :: "oref \<Rightarrow> nat"
  obj_next :: oref

definition no_objects :: "('k, 'o) objects" where
  "no_objects = \<lparr>obj_table = [], obj_heap = Map.empty, weak_refs = (\<lambda>_. 0), obj_next = 0\<rparr>"

definition obj_lookup :: "'k \<Rightarrow> ('k, 'o) objects \<Rightarrow> oref option" where
  "obj_lookup k S = map_of (obj_table S) k"

definition obj_new :: "'o \<Rightarrow> ('k, 'o) objects \<Rightarrow> ('k, 'o) objects" where
  "obj_new x S = S\<lparr>obj_heap := (obj_heap S)(obj_next S := Some (x, 1)), obj_next := obj_next S + 1\<rparr>"

definition obj_get :: "'o \<Rightarrow> oref \<Rightarrow> ('k, 'o) objects \<Rightarrow> 'o" where
  "obj_get dflt r S = (case obj_heap S r of None \<Rightarrow> dflt | Some (x, _) \<Rightarrow> x)"

definition obj_set :: "oref \<Rightarrow> 'o \<Rightarrow> ('k, 'o) objects \<Rightarrow> ('k, 'o) objects" where
  "obj_set r x S =
     (case obj_heap S r of None \<Rightarrow> S
      | Some (_, n) \<Rightarrow> S\<lparr>obj_heap := (obj_heap S)(r := Some (x, n))\<rparr>)"

definition obj_ref :: "oref \<Rightarrow> ('k, 'o) objects \<Rightarrow> ('k, 'o) objects" where
  "obj_ref r S =
     (case obj_heap S r of None \<Rightarrow> S
      | Some (x, n) \<Rightarrow> S\<lparr>obj_heap := (obj_heap S)(r := Some (x, n + 1))\<rparr>)"

text \<open>\<open>g_hash_table_insert\<close>, and the weak reference that is taken after it each time.\<close>

definition obj_put :: "'k \<Rightarrow> oref \<Rightarrow> ('k, 'o) objects \<Rightarrow> ('k, 'o) objects" where
  "obj_put k r S = S\<lparr>obj_table := (k, r) # filter (\<lambda>e. fst e \<noteq> k) (obj_table S),
                     weak_refs := (weak_refs S)(r := weak_refs S r + 1)\<rparr>"

text \<open>The notification of a weak reference: every entry with the dead object goes.\<close>

definition on_disposed :: "oref \<Rightarrow> ('k, 'o) objects \<Rightarrow> ('k, 'o) objects" where
  "on_disposed r S = S\<lparr>obj_table := filter (\<lambda>e. snd e \<noteq> r) (obj_table S)\<rparr>"

text \<open>
  \<open>g_object_unref\<close>: with the last reference the object is disposed of, and each weak
  reference on it is notified once and is gone.
\<close>

definition obj_unref :: "oref \<Rightarrow> ('k, 'o) objects \<Rightarrow> ('k, 'o) objects" where
  "obj_unref r S =
     (case obj_heap S r of
        None \<Rightarrow> S
      | Some (x, n) \<Rightarrow>
          if n > 1 then S\<lparr>obj_heap := (obj_heap S)(r := Some (x, n - 1))\<rparr>
          else (let S' = (on_disposed r ^^ weak_refs S r) S
                in S'\<lparr>obj_heap := (obj_heap S')(r := None), weak_refs := (weak_refs S')(r := 0)\<rparr>))"

text \<open>Every table entry gives one weak reference back, then the table goes.\<close>

fun clear_weak_refs :: "('k \<times> oref) list \<Rightarrow> (oref \<Rightarrow> nat) \<Rightarrow> oref \<Rightarrow> nat" where
  "clear_weak_refs [] f = f"
| "clear_weak_refs ((k, r) # es) f = clear_weak_refs es (f(r := f r - 1))"

definition obj_clear :: "('k, 'o) objects \<Rightarrow> ('k, 'o) objects" where
  "obj_clear S = S\<lparr>weak_refs := clear_weak_refs (obj_table S) (weak_refs S), obj_table := []\<rparr>"

section \<open>The daemon\<close>

datatype daemon_signal =
    SIG_USER_DELETED uid_t
  | SIG_USER_ADDED uid_t
  | SIG_USER_UPDATED uid_t
  | SIG_GROUP_DELETED gid_t
  | SIG_GROUP_ADDED gid_t
  | SIG_GROUP_UPDATED gid_t

record daemon =
  d_users :: "(uid_t, daemon_user) objects"
  d_groups :: "(gid_t, daemon_group) objects"
  d_signals :: "daemon_signal list"

definition gumd_daemon_init :: daemon where
  "gumd_daemon_init = \<lparr>d_users = no_objects, d_groups = no_objects, d_signals = []\<rparr>"

definition daemon_dispose :: "daemon \<Rightarrow> daemon" where
  "daemon_dispose d = d\<lparr>d_users := obj_clear (d_users d), d_groups := obj_clear (d_groups d)\<rparr>"

type_synonym 'a dm = "(daemon \<times> world, 'a) state"

definition lift_wm :: "'a wm \<Rightarrow> 'a dm" where
  "lift_wm m = State (\<lambda>(d, w). case run_state m w of (a, w') \<Rightarrow> (a, d, w'))"

definition get_daemon :: "(daemon \<Rightarrow> 'a) \<Rightarrow> 'a dm" where
  "get_daemon f = gets (\<lambda>(d, w). f d)"

definition set_daemon :: "(daemon \<Rightarrow> daemon) \<Rightarrow> unit dm" where
  "set_daemon f = modify (\<lambda>(d, w). (f d, w))"

definition emit :: "daemon_signal \<Rightarrow> unit dm" where
  "emit sg = set_daemon (\<lambda>d. d\<lparr>d_signals := d_signals d @ [sg]\<rparr>)"

definition dm_error :: "GumError \<Rightarrow> 'a \<Rightarrow> 'a dm" where
  "dm_error e x = do { lift_wm (set_error e); ret x }"

text \<open>A method called on a user or group object that is alive.\<close>

definition user_object :: "oref \<Rightarrow> daemon \<Rightarrow> daemon_user" where
  "user_object r d = obj_get gumd_daemon_user_new r (d_users d)"

definition group_object :: "oref \<Rightarrow> daemon \<Rightarrow> daemon_group" where
  "group_object r d = obj_get gumd_daemon_group_new r (d_groups d)"

definition call_user :: "oref \<Rightarrow> (daemon_user \<Rightarrow> ('a \<times> daemon_user) wm) \<Rightarrow> 'a dm" where
  "call_user r f = do {
     u \<leftarrow> get_daemon (user_object r);
     (x, u') \<leftarrow> lift_wm (f u);
     set_daemon (\<lambda>d. d\<lparr>d_users := obj_set r u' (d_users d)\<rparr>);
     ret x }"

definition call_group :: "oref \<Rightarrow> (daemon_group \<Rightarrow> ('a \<times> daemon_group) wm) \<Rightarrow> 'a dm" where
  "call_group r f = do {
     g \<leftarrow> get_daemon (group_object r);
     (x, g') \<leftarrow> lift_wm (f g);
     set_daemon (\<lambda>d. d\<lparr>d_groups := obj_set r g' (d_groups d)\<rparr>);
     ret x }"

section \<open>Users\<close>

definition gumd_daemon_get_timeout :: "ctx \<Rightarrow> 32 word" where
  "gumd_daemon_get_timeout C = word_of_int (gum_config_get_int (glob_config C) GUM_CONFIG_DBUS_DAEMON_TIMEOUT 0)"

definition gumd_daemon_get_user_timeout :: "ctx \<Rightarrow> 32 word" where
  "gumd_daemon_get_user_timeout C = word_of_int (gum_config_get_int (glob_config C) GUM_CONFIG_DBUS_USER_TIMEOUT 0)"

definition gumd_daemon_get_group_timeout :: "ctx \<Rightarrow> 32 word" where
  "gumd_daemon_get_group_timeout C = word_of_int (gum_config_get_int (glob_config C) GUM_CONFIG_DBUS_GROUP_TIMEOUT 0)"

definition gumd_daemon_get_user :: "ctx \<Rightarrow> uid_t \<Rightarrow> oref option dm" where
  "gumd_daemon_get_user C uid = do {
     cached \<leftarrow> get_daemon (\<lambda>d. obj_lookup uid (d_users d));
     case cached of
       Some r \<Rightarrow> do {
         set_daemon (\<lambda>d. d\<lparr>d_users := obj_ref r (d_users d)\<rparr>);
         ret (Some r) }
     | None \<Rightarrow> do {
         user \<leftarrow> lift_wm (gumd_daemon_user_new_by_uid C uid);
         case user of
           None \<Rightarrow> dm_error GUM_ERROR_USER_NOT_FOUND None
         | Some u \<Rightarrow> do {
             r \<leftarrow> get_daemon (\<lambda>d. obj_next (d_users d));
             set_daemon (\<lambda>d. d\<lparr>d_users := obj_put uid r (obj_new u (d_users d))\<rparr>);
             ret (Some r) } } }"

definition gumd_daemon_get_user_by_name :: "ctx \<Rightarrow> pstr \<Rightarrow> oref option dm" where
  "gumd_daemon_get_user_by_name C username = do {
     uid \<leftarrow> lift_wm (gumd_daemon_user_get_uid_by_name C username);
     if uid = GUM_USER_INVALID_UID then dm_error GUM_ERROR_USER_NOT_FOUND None
     else gumd_daemon_get_user C uid }"

text \<open>The user is NULL or an object. A table entry under its id is left as it is.\<close>

definition gumd_daemon_add_user :: "ctx \<Rightarrow> oref option \<Rightarrow> bool dm" where
  "gumd_daemon_add_user C user =
     (case user of
        None \<Rightarrow> dm_error GUM_ERROR_INVALID_INPUT False
      | Some r \<Rightarrow> do {
          ok \<leftarrow> call_user r (gumd_daemon_user_add C);
          if \<not> ok then ret False
          else do {
            uid \<leftarrow> get_daemon (\<lambda>d. pw_uid (du_pw (user_object r d)));
            cached \<leftarrow> get_daemon (\<lambda>d. obj_lookup uid (d_users d));
            (if cached = None then do {
               set_daemon (\<lambda>d. d\<lparr>d_users := obj_put uid r (d_users d)\<rparr>);
               emit (SIG_USER_ADDED uid) }
             else ret ());
            ret True } })"

definition gumd_daemon_delete_user :: "ctx \<Rightarrow> oref option \<Rightarrow> bool \<Rightarrow> bool dm" where
  "gumd_daemon_delete_user C user rem_home_dir =
     (case user of
        None \<Rightarrow> dm_error GUM_ERROR_INVALID_INPUT False
      | Some r \<Rightarrow> do {
          uid \<leftarrow> get_daemon (\<lambda>d. pw_uid (du_pw (user_object r d)));
          ok \<leftarrow> call_user r (\<lambda>u. gumd_daemon_user_delete C u rem_home_dir);
          if \<not> ok then ret False
          else do {
            (if uid \<noteq> GUM_USER_INVALID_UID then emit (SIG_USER_DELETED uid) else ret ());
            ret True } })"

definition gumd_daemon_update_user :: "ctx \<Rightarrow> oref option \<Rightarrow> bool dm" where
  "gumd_daemon_update_user C user =
     (case user of
        None \<Rightarrow> dm_error GUM_ERROR_INVALID_INPUT False
      | Some r \<Rightarrow> do {
          ok \<leftarrow> call_user r (gumd_daemon_user_update C);
          if \<not> ok then ret False
          else do {
            uid \<leftarrow> get_daemon (\<lambda>d. pw_uid (du_pw (user_object r d)));
            (if uid \<noteq> GUM_USER_INVALID_UID then emit (SIG_USER_UPDATED uid) else ret ());
            ret True } })"

definition gumd_daemon_get_user_list :: "ctx \<Rightarrow> string list option \<Rightarrow> uid_t list option dm" where
  "gumd_daemon_get_user_list C types = lift_wm (gumd_daemon_user_get_user_list C types)"

section \<open>Groups\<close>

definition gumd_daemon_get_group :: "ctx \<Rightarrow> gid_t \<Rightarrow> oref option dm" where
  "gumd_daemon_get_group C gid = do {
     cached \<leftarrow> get_daemon (\<lambda>d. obj_lookup gid (d_groups d));
     case cached of
       Some r \<Rightarrow> do {
         set_daemon (\<lambda>d. d\<lparr>d_groups := obj_ref r (d_groups d)\<rparr>);
         ret (Some r) }
     | None \<Rightarrow> do {
         grp \<leftarrow> lift_wm (gumd_daemon_group_new_by_gid C gid);
         case grp of
           None \<Rightarrow> dm_error GUM_ERROR_GROUP_NOT_FOUND None
         | Some g \<Rightarrow> do {
             r \<leftarrow> get_daemon (\<lambda>d. obj_next (d_groups d));
             set_daemon (\<lambda>d. d\<lparr>d_groups := obj_put gid r (obj_new g (d_groups d))\<rparr>);
             ret (Some r) } } }"

definition gumd_daemon_get_group_by_name :: "ctx \<Rightarrow> pstr \<Rightarrow> oref option dm" where
  "gumd_daemon_get_group_by_name C groupname = do {
     gid \<leftarrow> lift_wm (gumd_daemon_group_get_gid_by_name C groupname);
     if gid = GUM_GROUP_INVALID_GID then dm_error GUM_ERROR_GROUP_NOT_FOUND None
     else gumd_daemon_get_group C gid }"

text \<open>No signal is emitted when a group has been added.\<close>

definition gumd_daemon_add_group :: "ctx \<Rightarrow> oref option \<Rightarrow> bool dm" where
  "gumd_daemon_add_group C grp =
     (case grp of
        None \<Rightarrow> dm_error GUM_ERROR_INVALID_INPUT False
      | Some r \<Rightarrow> do {
          ok \<leftarrow> call_group r (\<lambda>g. gumd_daemon_group_add C g GUM_GROUP_INVALID_GID);
          if \<not> ok then ret False
          else do {
            gid \<leftarrow> get_daemon (\<lambda>d. gr_gid (gd_group (group_object r d)));
            cached \<leftarrow> get_daemon (\<lambda>d. obj_lookup gid (d_groups d));
            (if cached = None then set_daemon (\<lambda>d. d\<lparr>d_groups := obj_put gid r (d_groups d)\<rparr>)
             else ret ());
            ret True } })"

definition gumd_daemon_delete_group :: "ctx \<Rightarrow> oref option \<Rightarrow> bool dm" where
  "gumd_daemon_delete_group C grp =
     (case grp of
        None \<Rightarrow> dm_error GUM_ERROR_INVALID_INPUT False
      | Some r \<Rightarrow> do {
          gid \<leftarrow> get_daemon (\<lambda>d. gr_gid (gd_group (group_object r d)));
          ok \<leftarrow> call_group r (gumd_daemon_group_delete C);
          if \<not> ok then ret False
          else do {
            (if gid \<noteq> GUM_GROUP_INVALID_GID then emit (SIG_GROUP_DELETED gid) else ret ());
            ret True } })"

definition gumd_daemon_update_group :: "ctx \<Rightarrow> oref option \<Rightarrow> bool dm" where
  "gumd_daemon_update_group C grp =
     (case grp of
        None \<Rightarrow> dm_error GUM_ERROR_INVALID_INPUT False
      | Some r \<Rightarrow> do {
          ok \<leftarrow> call_group r (gumd_daemon_group_update C);
          if \<not> ok then ret False
          else do {
            gid \<leftarrow> get_daemon (\<lambda>d. gr_gid (gd_group (group_object r d)));
            (if gid \<noteq> GUM_GROUP_INVALID_GID then emit (SIG_GROUP_UPDATED gid) else ret ());
            ret True } })"

definition gumd_daemon_add_group_member :: "ctx \<Rightarrow> oref option \<Rightarrow> uid_t \<Rightarrow> bool \<Rightarrow> bool dm" where
  "gumd_daemon_add_group_member C grp uid add_as_admin =
     (case grp of
        None \<Rightarrow> dm_error GUM_ERROR_INVALID_INPUT False
      | Some r \<Rightarrow> call_group r (\<lambda>g. gumd_daemon_group_add_member C g uid add_as_admin))"

definition gumd_daemon_delete_group_member :: "ctx \<Rightarrow> oref option \<Rightarrow> uid_t \<Rightarrow> bool dm" where
  "gumd_daemon_delete_group_member C grp uid =
     (case grp of
        None \<Rightarrow> dm_error GUM_ERROR_INVALID_INPUT False
      | Some r \<Rightarrow> call_group r (\<lambda>g. gumd_daemon_group_delete_member C g uid))"

section \<open>The tables hold what is alive\<close>

definition alive :: "oref \<Rightarrow> ('k, 'o) objects \<Rightarrow> bool" where
  "alive r S \<longleftrightarrow> obj_heap S r \<noteq> None"

text \<open>
  No id is entered twice, no entry dangles, the daemon holds one weak reference per entry,
  and an object that is alive has a reference.
\<close>

definition objects_ok :: "('k, 'o) objects \<Rightarrow> bool" where
  "objects_ok S \<longleftrightarrow> distinct (map fst (obj_table S)) \<and> (\<forall>e\<in>set (obj_table S). alive (snd e) S) \<and>
     (\<forall>r. weak_refs S r = length (filter (\<lambda>e. snd e = r) (obj_table S))) \<and>
     (\<forall>r x n. obj_heap S r = Some (x, n) \<longrightarrow> 0 < n \<and> r < obj_next S)"

lemma objects_okD:
  assumes "objects_ok S"
  shows "distinct (map fst (obj_table S))" "e \<in> set (obj_table S) \<Longrightarrow> alive (snd e) S"
    "weak_refs S r = length (filter (\<lambda>e. snd e = r) (obj_table S))"
    "obj_heap S r = Some (x, n) \<Longrightarrow> 0 < n" "alive r S \<Longrightarrow> r < obj_next S"
  using assms by (auto simp: objects_ok_def alive_def)

lemma objects_ok_none: "objects_ok no_objects"
  by (simp add: objects_ok_def no_objects_def)

lemma objects_ok_new: "objects_ok S \<Longrightarrow> objects_ok (obj_new x S)"
  by (auto simp: objects_ok_def obj_new_def alive_def less_Suc_eq split: if_splits)

lemma alive_new: "alive (obj_next S) (obj_new x S)"
  by (simp add: alive_def obj_new_def)

lemma objects_ok_set: "objects_ok S \<Longrightarrow> objects_ok (obj_set r x S)"
  by (auto simp: objects_ok_def obj_set_def alive_def split: option.split)

lemma alive_set [simp]: "alive r' (obj_set r x S) = alive r' S"
  by (auto simp: alive_def obj_set_def split: option.split)

lemma lookup_set [simp]: "obj_lookup k (obj_set r x S) = obj_lookup k S"
  by (auto simp: obj_lookup_def obj_set_def split: option.split)

lemma lookup_new [simp]: "obj_lookup k (obj_new x S) = obj_lookup k S"
  by (simp add: obj_lookup_def obj_new_def)

lemma objects_ok_ref: "objects_ok S \<Longrightarrow> objects_ok (obj_ref r S)"
  by (auto simp: objects_ok_def obj_ref_def alive_def split: option.split)

lemma objects_ok_put:
  assumes "objects_ok S" "alive r S" "obj_lookup k S = None"
  shows "objects_ok (obj_put k r S)"
proof -
  have k: "k \<notin> fst ` set (obj_table S)" using assms(3) by (simp add: obj_lookup_def map_of_eq_None_iff)
  then have "filter (\<lambda>e. fst e \<noteq> k) (obj_table S) = obj_table S" by (intro filter_True) auto
  with assms(1,2) k show ?thesis by (auto simp: objects_ok_def obj_put_def alive_def)
qed

lemma on_disposed_table: "obj_table ((on_disposed r ^^ n) S) =
    (if n = 0 then obj_table S else filter (\<lambda>e. snd e \<noteq> r) (obj_table S))"
  by (induction n) (simp_all add: on_disposed_def)

lemma on_disposed_rest [simp]:
  "obj_heap ((on_disposed r ^^ n) S) = obj_heap S" "weak_refs ((on_disposed r ^^ n) S) = weak_refs S"
  "obj_next ((on_disposed r ^^ n) S) = obj_next S"
  by (induction n; simp add: on_disposed_def)+

text \<open>An object that dies leaves the table.\<close>

lemma obj_unref_last:
  assumes "objects_ok S" "obj_heap S r = Some (x, 1)"
  shows "obj_table (obj_unref r S) = filter (\<lambda>e. snd e \<noteq> r) (obj_table S)"
proof (cases "weak_refs S r = 0")
  case True
  then have "filter (\<lambda>e. snd e \<noteq> r) (obj_table S) = obj_table S"
    using objects_okD(3) [OF assms(1), of r] by (intro filter_True) (auto simp: filter_empty_conv)
  with True assms(2) show ?thesis by (simp add: obj_unref_def Let_def)
qed (use assms(2) in \<open>simp add: obj_unref_def Let_def on_disposed_table\<close>)

lemma objects_ok_unref:
  assumes "objects_ok S"
  shows "objects_ok (obj_unref r S)"
proof (cases "obj_heap S r")
  case (Some e)
  then obtain x n where x: "obj_heap S r = Some (x, n)" by (cases e) auto
  show ?thesis
  proof (cases "n > 1")
    case True
    with x assms show ?thesis by (auto simp: objects_ok_def obj_unref_def alive_def)
  next
    case False
    with objects_okD(4) [OF assms x] have n: "n = 1" by simp
    note tab = obj_unref_last [OF assms x [unfolded n]]
    have rest: "obj_heap (obj_unref r S) = (obj_heap S)(r := None)"
      "weak_refs (obj_unref r S) = (weak_refs S)(r := 0)" "obj_next (obj_unref r S) = obj_next S"
      using x n by (simp_all add: obj_unref_def Let_def)
    have "length (filter (\<lambda>e. snd e = q) (filter (\<lambda>e. snd e \<noteq> r) (obj_table S))) =
        (if q = r then 0 else length (filter (\<lambda>e. snd e = q) (obj_table S)))" for q
      by (auto simp: filter_filter intro!: arg_cong [where f = length] filter_cong)
    then show ?thesis
      using assms unfolding objects_ok_def tab rest alive_def
      by (auto simp: distinct_map_filter)
  qed
qed (use assms in \<open>simp add: obj_unref_def\<close>)

lemma clear_weak_refs:
  "(\<And>r. f r = length (filter (\<lambda>e. snd e = r) es)) \<Longrightarrow> clear_weak_refs es f r = 0"
proof (induction es f arbitrary: r rule: clear_weak_refs.induct)
  case (2 k q es f)
  have eq: "(f(q := f q - 1)) r = length (filter (\<lambda>e. snd e = r) es)" for r
    using "2.prems" [of r] by (cases "q = r") simp_all
  show ?case unfolding clear_weak_refs.simps by (rule "2.IH") (rule eq)
qed simp

section \<open>Rules\<close>

lemma wp_lift: "wp m (\<lambda>x w'. Q x (d, w')) w \<Longrightarrow> wp (lift_wm m) Q (d, w)"
  by (simp add: wp_def lift_wm_def case_prod_beta)

lemma wp_get_daemon: "Q (f d) (d, w) \<Longrightarrow> wp (get_daemon f) Q (d, w)"
  by (simp add: wp_def get_daemon_def)

lemma wp_set_daemon: "Q () (f d, w) \<Longrightarrow> wp (set_daemon f) Q (d, w)"
  by (simp add: wp_def set_daemon_def)

section \<open>Property\<close>

text \<open>
  C35. The tables of the daemon. When the last reference to an object goes, the object is
  in no table any more and no entry of another object is lost; until then the tables are as
  they were. In both cases the invariant of the tables is kept: no id twice, no entry of an
  object that is not alive, one weak reference per entry. And when the daemon is disposed
  of, no weak reference to it is left on any object.
\<close>

theorem objects_no_dangling:
  assumes "objects_ok S"
  shows "objects_ok (obj_unref r S) \<and>
     obj_table (obj_unref r S) =
       (if alive r (obj_unref r S) then obj_table S else filter (\<lambda>e. snd e \<noteq> r) (obj_table S)) \<and>
     weak_refs (obj_clear S) = (\<lambda>_. 0)"
proof (intro conjI)
  show "objects_ok (obj_unref r S)" by (rule objects_ok_unref [OF assms])
  show "weak_refs (obj_clear S) = (\<lambda>_. 0)"
    using clear_weak_refs [of "weak_refs S" "obj_table S"] objects_okD(3) [OF assms]
    by (auto simp: obj_clear_def)
  show "obj_table (obj_unref r S) =
      (if alive r (obj_unref r S) then obj_table S else filter (\<lambda>e. snd e \<noteq> r) (obj_table S))"
  proof (cases "obj_heap S r")
    case None
    then have "filter (\<lambda>e. snd e \<noteq> r) (obj_table S) = obj_table S"
      using objects_okD(2) [OF assms] by (intro filter_True) (force simp: alive_def)
    with None show ?thesis by (simp add: obj_unref_def)
  next
    case (Some e)
    then obtain x n where x: "obj_heap S r = Some (x, n)" by (cases e) auto
    show ?thesis
    proof (cases "n > 1")
      case True
      with x show ?thesis by (simp add: obj_unref_def alive_def)
    next
      case False
      with objects_okD(4) [OF assms x] have n: "n = 1" by simp
      with x have "\<not> alive r (obj_unref r S)" by (simp add: obj_unref_def Let_def alive_def)
      with obj_unref_last [OF assms x [unfolded n]] show ?thesis by simp
    qed
  qed
qed

definition ref_objects :: "(uid_t, daemon_user) objects" where
  "ref_objects = obj_put 1000 0 (obj_new gumd_daemon_user_new no_objects)"

theorem objects_no_dangling_witness:
  "obj_table ref_objects = [(1000, 0)] \<and> obj_table (obj_unref 0 ref_objects) = []"
proof -
  have ok: "objects_ok ref_objects"
    unfolding ref_objects_def
    by (intro objects_ok_put objects_ok_new objects_ok_none) (simp_all add: alive_def obj_new_def no_objects_def obj_lookup_def)
  have t: "obj_table ref_objects = [(1000, 0)]" "\<not> alive 0 (obj_unref 0 ref_objects)"
    by (simp_all add: ref_objects_def obj_put_def obj_new_def no_objects_def alive_def obj_unref_def on_disposed_def)
  from objects_no_dangling [OF ok, of 0] t show ?thesis by simp
qed

end
