(* ===== verification/Gumd_System.thy ===== *)
theory Gumd_System
  imports Gumd_Daemon
begin

text \<open>
  The daemon as a whole: the requests that its clients make, one step per request, and what
  holds whatever the sequence of requests and whatever calls fail in them. The databases
  change as the abstract accounts do, their ids and names stay apart, every primary group
  stays there, and the lock is given back.
\<close>

section \<open>What every operation keeps\<close>

definition accounts_kept :: "ctx \<Rightarrow> accounts \<Rightarrow> world \<Rightarrow> bool" where
  "accounts_kept C a w \<longleftrightarrow> db_wf C w \<and> acct_inv (accounts_of C w) \<and> acct_steps a (accounts_of C w)"

abbreviation keeps_accounts :: "ctx \<Rightarrow> accounts \<Rightarrow> 'a wm \<Rightarrow> bool" where
  "keeps_accounts C a m \<equiv> balanced (accounts_kept C a) (\<lambda>_. 0) m"

lemma accounts_kept_files: "files w' = files w \<Longrightarrow> accounts_kept C a w' = accounts_kept C a w"
  using db_wf_files [of w' w C] accounts_same [of w' w C] by (simp add: accounts_kept_def)

lemma keeps_accounts_frame: "frame files m \<Longrightarrow> keeps_accounts C a m"
  unfolding balanced_def frame_def wp_def using accounts_kept_files by blast

lemma accounts_keptD:
  assumes "accounts_kept C a w"
  shows "db_wf C w" "group_ids_ok (group_db C w)" "distinct (map pw_uid (passwd_db C w))"
  using assms
  by (auto simp: accounts_kept_def acct_inv_def group_ids_accounts accounts_unique db_wfD group_ids_ok_def)

lemma keeps_accountsI:
  assumes "\<And>w. db_wf C w \<Longrightarrow> group_ids_ok (group_db C w) \<Longrightarrow> distinct (map pw_uid (passwd_db C w)) \<Longrightarrow>
    wp m (\<lambda>_ w'. acct_steps (accounts_of C w) (accounts_of C w') \<and> db_wf C w') w"
  shows "keeps_accounts C a m"
  unfolding balanced_def
proof (intro allI impI)
  fix w assume k: "accounts_kept C a w"
  from assms [OF accounts_keptD [OF k]] show "wp m (\<lambda>_ s'. accounts_kept C a s' \<and> (0 :: int) = 0) w"
  proof (rule wp_mono)
    fix x w' assume st: "acct_steps (accounts_of C w) (accounts_of C w') \<and> db_wf C w'"
    with k show "accounts_kept C a w' \<and> (0 :: int) = 0"
      using acct_steps_keep(2) [of "accounts_of C w" "accounts_of C w'"]
        rtranclp_trans [of acct_step a "accounts_of C w" "accounts_of C w'"]
      by (simp add: accounts_kept_def)
  qed
qed

lemma keeps_accounts_ops:
  assumes ok: "paths_ok C" "reads_ok C" "id_ranges_ok C"
  shows "keeps_accounts C a (gumd_daemon_user_add C u)"
    and "keeps_accounts C a (gumd_daemon_user_delete C u rem)"
    and "keeps_accounts C a (gumd_daemon_user_update C u)"
    and "keeps_accounts C a (gumd_daemon_group_add C g pref)"
    and "keeps_accounts C a (gumd_daemon_group_delete C g)"
    and "keeps_accounts C a (gumd_daemon_group_update C g)"
    and "keeps_accounts C a (gumd_daemon_group_add_member C g uid adm)"
    and "keeps_accounts C a (gumd_daemon_group_delete_member C g uid)"
proof -
  have d: "distinct (map gr_gid es)" if "group_ids_ok es" for es using that by (simp add: group_ids_ok_def)
  note grp = keeps_wfD [OF keeps_wf_group_ops(1) [OF ok(1,2)]] keeps_wfD [OF keeps_wf_group_ops(2) [OF ok(1,2)]]
    keeps_wfD [OF keeps_wf_group_ops(3) [OF ok(1,2)]] keeps_wfD [OF keeps_wf_group_ops(4) [OF ok(1,2)]]
    keeps_wfD [OF keeps_wf_group_ops(5) [OF ok(1,2)]]
  show "keeps_accounts C a (gumd_daemon_user_add C u)"
    by (rule keeps_accountsI, rule wp_mono [OF user_add_run [OF ok]])
      (auto simp: user_add_done_def grown_def)
  show "keeps_accounts C a (gumd_daemon_user_delete C u rem)"
    by (rule keeps_accountsI, rule wp_mono [OF user_delete_run [OF ok(1,2)]])
      (auto simp: user_delete_done_def)
  show "keeps_accounts C a (gumd_daemon_user_update C u)"
    by (rule keeps_accountsI, rule wp_mono [OF user_update_run [OF ok(1,2)]])
      (auto simp: user_update_done_def)
  show "keeps_accounts C a (gumd_daemon_group_add C g pref)"
    by (rule keeps_accountsI, rule wp_mono [OF wp_conj [OF group_add_run [OF ok(1,2) db_wfD(3,4) id_ranges_okD(2) [OF ok(3)]] grp(1)]])
      (auto intro: group_add_acct)
  show "keeps_accounts C a (gumd_daemon_group_delete C g)"
    by (rule keeps_accountsI, rule wp_mono [OF wp_conj [OF group_delete_run [OF ok(1,2) _ db_wfD(4)] grp(2)]])
      (auto intro: group_delete_acct d)
  show "keeps_accounts C a (gumd_daemon_group_update C g)"
    by (rule keeps_accountsI, rule wp_mono [OF wp_conj [OF group_update_run [OF ok(1,2) _ db_wfD(4)] grp(3)]])
      (auto dest: group_update_acct d)
  show "keeps_accounts C a (gumd_daemon_group_add_member C g uid adm)"
    by (rule keeps_accountsI, rule wp_mono [OF wp_conj [OF add_member_run [OF ok(1,2) _ db_wfD(1)] grp(4)]])
      (auto dest: members_acct d)
  show "keeps_accounts C a (gumd_daemon_group_delete_member C g uid)"
    by (rule keeps_accountsI, rule wp_mono [OF wp_conj [OF delete_member_run [OF ok(1,2) _ db_wfD(1)] grp(5)]])
      (auto dest: members_acct d)
qed

lemma frame_lookups:
  shows "frame files (gumd_daemon_user_new_by_uid C uid)" "frame files (gumd_daemon_user_get_uid_by_name C n)"
    "frame files (gumd_daemon_user_get_user_list C types)" "frame files (gumd_daemon_group_new_by_gid C gid)"
    "frame files (gumd_daemon_group_get_gid_by_name C n)"
proof -
  note fr = frame_rules frame_db [OF db_indep_files] frame_db_group [OF db_indep_files]
    frame_user_steps [of files, simplified]
  have pw: "frame files (get_passwd C self)" for self
    unfolding get_passwd_def by (intro fr; simp)
  have cp: "frame files (copy_passwd_data C self)" for self
    unfolding copy_passwd_data_def by (intro fr pw; simp)
  show "frame files (gumd_daemon_user_new_by_uid C uid)"
    unfolding gumd_daemon_user_new_by_uid_def by (intro fr cp; simp)
  show "frame files (gumd_daemon_user_get_uid_by_name C n)"
    unfolding gumd_daemon_user_get_uid_by_name_def by (intro fr; simp)
  show "frame files (gumd_daemon_user_get_user_list C types)"
    unfolding gumd_daemon_user_get_user_list_def by (intro fr; simp)
  show "frame files (gumd_daemon_group_new_by_gid C gid)"
    unfolding gumd_daemon_group_new_by_gid_def by (intro fr; simp)
  show "frame files (gumd_daemon_group_get_gid_by_name C n)"
    unfolding gumd_daemon_group_get_gid_by_name_def by (intro fr; simp)
qed

section \<open>Requests\<close>

text \<open>
  What a client makes the daemon do: get or make an object, write a property of it, call a
  method with it, and give it back. A client only uses objects that it holds.
\<close>

datatype request =
    GetUser uid_t
  | GetUserByName pstr
  | NewUser
  | SetUser oref user_prop
  | AddUser "oref option"
  | DeleteUser "oref option" bool
  | UpdateUser "oref option"
  | UnrefUser oref
  | ListUsers "string list option"
  | GetGroup gid_t
  | GetGroupByName pstr
  | NewGroup
  | SetGroup oref group_prop
  | AddGroup "oref option"
  | DeleteGroup "oref option"
  | UpdateGroup "oref option"
  | AddGroupMember "oref option" uid_t bool
  | DeleteGroupMember "oref option" uid_t
  | UnrefGroup oref

fun serve :: "ctx \<Rightarrow> request \<Rightarrow> unit dm" where
  "serve C (GetUser uid) = do { gumd_daemon_get_user C uid; ret () }"
| "serve C (GetUserByName n) = do { gumd_daemon_get_user_by_name C n; ret () }"
| "serve C NewUser = set_daemon (\<lambda>d. d\<lparr>d_users := obj_new gumd_daemon_user_new (d_users d)\<rparr>)"
| "serve C (SetUser r p) = call_user r (\<lambda>u. ret ((), user_set_property (c_env C) u p))"
| "serve C (AddUser u) = do { gumd_daemon_add_user C u; ret () }"
| "serve C (DeleteUser u rem) = do { gumd_daemon_delete_user C u rem; ret () }"
| "serve C (UpdateUser u) = do { gumd_daemon_update_user C u; ret () }"
| "serve C (UnrefUser r) = set_daemon (\<lambda>d. d\<lparr>d_users := obj_unref r (d_users d)\<rparr>)"
| "serve C (ListUsers ts) = do { gumd_daemon_get_user_list C ts; ret () }"
| "serve C (GetGroup gid) = do { gumd_daemon_get_group C gid; ret () }"
| "serve C (GetGroupByName n) = do { gumd_daemon_get_group_by_name C n; ret () }"
| "serve C NewGroup = set_daemon (\<lambda>d. d\<lparr>d_groups := obj_new gumd_daemon_group_new (d_groups d)\<rparr>)"
| "serve C (SetGroup r p) = call_group r (\<lambda>g. ret ((), group_set_property g p))"
| "serve C (AddGroup g) = do { gumd_daemon_add_group C g; ret () }"
| "serve C (DeleteGroup g) = do { gumd_daemon_delete_group C g; ret () }"
| "serve C (UpdateGroup g) = do { gumd_daemon_update_group C g; ret () }"
| "serve C (AddGroupMember g uid adm) = do { gumd_daemon_add_group_member C g uid adm; ret () }"
| "serve C (DeleteGroupMember g uid) = do { gumd_daemon_delete_group_member C g uid; ret () }"
| "serve C (UnrefGroup r) = set_daemon (\<lambda>d. d\<lparr>d_groups := obj_unref r (d_groups d)\<rparr>)"

text \<open>Adding is the one request that enters the object itself in a table.\<close>

fun held :: "request \<Rightarrow> daemon \<Rightarrow> bool" where
  "held (AddUser (Some r)) d = alive r (d_users d)"
| "held (AddGroup (Some r)) d = alive r (d_groups d)"
| "held _ d = True"

inductive daemon_step :: "ctx \<Rightarrow> daemon \<times> world \<Rightarrow> daemon \<times> world \<Rightarrow> bool" for C where
  request: "held q d \<Longrightarrow> run_state (serve C q) (d, w) = (x, s) \<Longrightarrow> daemon_step C (d, w) s"
| outside: "files w' = files w \<Longrightarrow> daemon_step C (d, w) (d, w')"

inductive_cases daemon_stepE: "daemon_step C s s'"

abbreviation daemon_steps :: "ctx \<Rightarrow> daemon \<times> world \<Rightarrow> daemon \<times> world \<Rightarrow> bool" where
  "daemon_steps C \<equiv> (daemon_step C)\<^sup>*\<^sup>*"

section \<open>What every request keeps\<close>

text \<open>
  The contract between the daemon and its user and group objects: their operations keep a
  property of the world and a depth, such as that of the lock. Then so does every request,
  and it keeps the tables in order.
\<close>

locale object_operations =
  fixes C :: ctx and J :: "world \<Rightarrow> bool" and depth :: "world \<Rightarrow> int"
  assumes user_ops: "balanced J depth (gumd_daemon_user_add C u)" "balanced J depth (gumd_daemon_user_delete C u rem)"
      "balanced J depth (gumd_daemon_user_update C u)"
    and user_lookups: "balanced J depth (gumd_daemon_user_new_by_uid C uid)"
      "balanced J depth (gumd_daemon_user_get_uid_by_name C n)"
      "balanced J depth (gumd_daemon_user_get_user_list C types)"
    and group_ops: "balanced J depth (gumd_daemon_group_add C g pref)" "balanced J depth (gumd_daemon_group_delete C g)"
      "balanced J depth (gumd_daemon_group_update C g)" "balanced J depth (gumd_daemon_group_add_member C g uid adm)"
      "balanced J depth (gumd_daemon_group_delete_member C g uid)"
    and group_lookups: "balanced J depth (gumd_daemon_group_new_by_gid C gid)"
      "balanced J depth (gumd_daemon_group_get_gid_by_name C n)"
    and error: "balanced J depth (set_error e)"
begin

definition daemon_ok :: "daemon \<times> world \<Rightarrow> bool" where
  "daemon_ok s \<longleftrightarrow> objects_ok (d_users (fst s)) \<and> objects_ok (d_groups (fst s)) \<and> J (snd s)"

abbreviation safe :: "'a dm \<Rightarrow> bool" where
  "safe m \<equiv> balanced daemon_ok (\<lambda>s. depth (snd s)) m"

lemma safe_basic: "safe (get_daemon h)" "safe (emit sg)"
  by (auto simp: balanced_def daemon_ok_def emit_def intro!: wp_get_daemon wp_set_daemon)

lemma safe_lift: "balanced J depth m \<Longrightarrow> safe (lift_wm m)"
  by (auto simp: balanced_def daemon_ok_def intro!: wp_lift elim!: wp_mono [rotated])

lemma safe_error: "safe (dm_error e x)"
  unfolding dm_error_def by (intro lock_rules safe_lift error)

lemma safe_set:
  "(\<And>S. objects_ok S \<Longrightarrow> objects_ok (f S)) \<Longrightarrow> safe (set_daemon (\<lambda>d. d\<lparr>d_users := f (d_users d)\<rparr>))"
  "(\<And>S. objects_ok S \<Longrightarrow> objects_ok (g S)) \<Longrightarrow> safe (set_daemon (\<lambda>d. d\<lparr>d_groups := g (d_groups d)\<rparr>))"
  by (auto simp: balanced_def daemon_ok_def intro!: wp_set_daemon)

lemma safe_call_user: "(\<And>u. balanced J depth (f u)) \<Longrightarrow> safe (call_user r f)"
  unfolding call_user_def by (intro lock_rules safe_basic safe_lift safe_set objects_ok_set)

lemma safe_call_group: "(\<And>g. balanced J depth (h g)) \<Longrightarrow> safe (call_group r h)"
  unfolding call_group_def by (intro lock_rules safe_basic safe_lift safe_set objects_ok_set)

lemmas safe_rules = lock_rules safe_basic safe_lift safe_error safe_call_user safe_call_group

lemma safeD: "safe m \<Longrightarrow> daemon_ok s \<Longrightarrow> wp m (\<lambda>_ s'. daemon_ok s' \<and> depth (snd s') = depth (snd s)) s"
  unfolding balanced_def by blast

text \<open>A computation on the world leaves the daemon as it is.\<close>

lemma wp_lift_kept:
  assumes "balanced J depth m" "daemon_ok (d, w)"
  shows "wp (lift_wm m) (\<lambda>_ s'. \<exists>w'. s' = (d, w') \<and> daemon_ok (d, w') \<and> depth w' = depth w) (d, w)"
  using assms by (auto simp: balanced_def daemon_ok_def intro!: wp_lift elim!: wp_mono [rotated])

lemma entered:
  assumes "daemon_ok (d, w)"
  shows "obj_lookup k (d_users d) = None \<Longrightarrow> alive r (d_users d) \<Longrightarrow>
      daemon_ok (d\<lparr>d_users := obj_put k r (d_users d)\<rparr>, w)"
    and "obj_lookup i (d_groups d) = None \<Longrightarrow> alive r (d_groups d) \<Longrightarrow>
      daemon_ok (d\<lparr>d_groups := obj_put i r (d_groups d)\<rparr>, w)"
    and "obj_lookup k (d_users d) = None \<Longrightarrow>
      daemon_ok (d\<lparr>d_users := obj_put k (obj_next (d_users d)) (obj_new u (d_users d))\<rparr>, w)"
    and "obj_lookup i (d_groups d) = None \<Longrightarrow>
      daemon_ok (d\<lparr>d_groups := obj_put i (obj_next (d_groups d)) (obj_new g (d_groups d))\<rparr>, w)"
  using assms by (auto simp: daemon_ok_def intro!: objects_ok_put objects_ok_new alive_new)

lemma safe_get_user: "safe (gumd_daemon_get_user C uid)"
  unfolding balanced_def
proof (intro allI impI)
  fix s assume ok: "daemon_ok s"
  obtain d w where s: "s = (d, w)" by (cases s)
  note new = wp_lift_kept [OF user_lookups(1) ok [unfolded s]]
  show "wp (gumd_daemon_get_user C uid) (\<lambda>_ s'. daemon_ok s' \<and> depth (snd s') = depth (snd s)) s"
    unfolding gumd_daemon_get_user_def s
  proof (rule wp_bind, rule wp_get_daemon, rule wp_case_option)
    fix r assume "obj_lookup uid (d_users d) = Some r"
    show "wp (do { set_daemon (\<lambda>d. d\<lparr>d_users := obj_ref r (d_users d)\<rparr>); ret (Some r) })
        (\<lambda>_ s'. daemon_ok s' \<and> depth (snd s') = depth (snd (d, w))) (d, w)"
      using ok s by (auto intro!: wp_bind wp_set_daemon wp_return simp: daemon_ok_def objects_ok_ref)
  next
    assume none: "obj_lookup uid (d_users d) = None"
    show "wp (do {
        user \<leftarrow> lift_wm (gumd_daemon_user_new_by_uid C uid);
        case user of None \<Rightarrow> dm_error GUM_ERROR_USER_NOT_FOUND None
        | Some u \<Rightarrow> do {
            r \<leftarrow> get_daemon (\<lambda>d. obj_next (d_users d));
            set_daemon (\<lambda>d. d\<lparr>d_users := obj_put uid r (obj_new u (d_users d))\<rparr>);
            ret (Some r) } })
        (\<lambda>_ s'. daemon_ok s' \<and> depth (snd s') = depth (snd (d, w))) (d, w)"
      apply (rule wp_step [OF new], elim exE conjE, rule wp_case_option)
       apply (rule wp_mono [OF safeD [OF safe_error]]; simp)
      apply (simp only:, intro wp_bind wp_get_daemon wp_set_daemon wp_return)
      apply (simp add: entered(3) none)
      done
  qed
qed

lemma safe_get_group: "safe (gumd_daemon_get_group C gid)"
  unfolding balanced_def
proof (intro allI impI)
  fix s assume ok: "daemon_ok s"
  obtain d w where s: "s = (d, w)" by (cases s)
  note new = wp_lift_kept [OF group_lookups(1) ok [unfolded s]]
  show "wp (gumd_daemon_get_group C gid) (\<lambda>_ s'. daemon_ok s' \<and> depth (snd s') = depth (snd s)) s"
    unfolding gumd_daemon_get_group_def s
  proof (rule wp_bind, rule wp_get_daemon, rule wp_case_option)
    fix r assume "obj_lookup gid (d_groups d) = Some r"
    show "wp (do { set_daemon (\<lambda>d. d\<lparr>d_groups := obj_ref r (d_groups d)\<rparr>); ret (Some r) })
        (\<lambda>_ s'. daemon_ok s' \<and> depth (snd s') = depth (snd (d, w))) (d, w)"
      using ok s by (auto intro!: wp_bind wp_set_daemon wp_return simp: daemon_ok_def objects_ok_ref)
  next
    assume none: "obj_lookup gid (d_groups d) = None"
    show "wp (do {
        grp \<leftarrow> lift_wm (gumd_daemon_group_new_by_gid C gid);
        case grp of None \<Rightarrow> dm_error GUM_ERROR_GROUP_NOT_FOUND None
        | Some g \<Rightarrow> do {
            r \<leftarrow> get_daemon (\<lambda>d. obj_next (d_groups d));
            set_daemon (\<lambda>d. d\<lparr>d_groups := obj_put gid r (obj_new g (d_groups d))\<rparr>);
            ret (Some r) } })
        (\<lambda>_ s'. daemon_ok s' \<and> depth (snd s') = depth (snd (d, w))) (d, w)"
      apply (rule wp_step [OF new], elim exE conjE, rule wp_case_option)
       apply (rule wp_mono [OF safeD [OF safe_error]]; simp)
      apply (simp only:, intro wp_bind wp_get_daemon wp_set_daemon wp_return)
      apply (simp add: entered(4) none)
      done
  qed
qed

text \<open>A method keeps alive what is alive.\<close>

lemma call_user_kept:
  assumes "\<And>u. balanced J depth (f u)" "daemon_ok (d, w)"
  shows "wp (call_user r f) (\<lambda>_ s'. daemon_ok s' \<and> depth (snd s') = depth w \<and>
     (\<forall>q. alive q (d_users (fst s')) = alive q (d_users d))) (d, w)"
  unfolding call_user_def
  apply (rule wp_bind, rule wp_get_daemon)
  apply (rule wp_step [OF wp_lift_kept [OF assms]], elim exE conjE, rule wp_case_prod)
  apply (simp only:, intro wp_bind wp_set_daemon wp_return)
  apply (simp add: daemon_ok_def objects_ok_set)
  done

lemma call_group_kept:
  assumes "\<And>g. balanced J depth (f g)" "daemon_ok (d, w)"
  shows "wp (call_group r f) (\<lambda>_ s'. daemon_ok s' \<and> depth (snd s') = depth w \<and>
     (\<forall>q. alive q (d_groups (fst s')) = alive q (d_groups d))) (d, w)"
  unfolding call_group_def
  apply (rule wp_bind, rule wp_get_daemon)
  apply (rule wp_step [OF wp_lift_kept [OF assms]], elim exE conjE, rule wp_case_prod)
  apply (simp only:, intro wp_bind wp_set_daemon wp_return)
  apply (simp add: daemon_ok_def objects_ok_set)
  done

lemma add_user_kept:
  assumes "daemon_ok (d, w)" "\<And>r. user = Some r \<Longrightarrow> alive r (d_users d)"
  shows "wp (gumd_daemon_add_user C user) (\<lambda>_ s'. daemon_ok s' \<and> depth (snd s') = depth w) (d, w)"
  unfolding gumd_daemon_add_user_def
  apply (rule wp_case_option)
   apply (rule wp_mono [OF safeD [OF safe_error assms(1)]]; simp)
  apply (rule wp_step [OF call_user_kept [OF user_ops(1) assms(1)]])
  subgoal for r' ok s'
    by (cases s')
      (auto intro!: wp_if wp_return wp_bind wp_get_daemon wp_set_daemon entered(1)
        simp: emit_def assms(2) daemon_ok_def objects_ok_put)
  done

lemma add_group_kept:
  assumes "daemon_ok (d, w)" "\<And>r. grp = Some r \<Longrightarrow> alive r (d_groups d)"
  shows "wp (gumd_daemon_add_group C grp) (\<lambda>_ s'. daemon_ok s' \<and> depth (snd s') = depth w) (d, w)"
  unfolding gumd_daemon_add_group_def
  apply (rule wp_case_option)
   apply (rule wp_mono [OF safeD [OF safe_error assms(1)]]; simp)
  apply (rule wp_step [OF call_group_kept [OF group_ops(1) assms(1)]])
  subgoal for r' ok s'
    by (cases s')
      (auto intro!: wp_if wp_return wp_bind wp_get_daemon wp_set_daemon entered(2)
        simp: assms(2) daemon_ok_def objects_ok_put)
  done

lemma safe_requests:
  "safe (serve C (GetUser uid))" "safe (serve C (GetUserByName n))" "safe (serve C (SetUser r p))"
  "safe (serve C (DeleteUser u rem))" "safe (serve C (UpdateUser u))" "safe (serve C (ListUsers ts))"
  "safe (serve C (GetGroup gid))" "safe (serve C (GetGroupByName n))" "safe (serve C (SetGroup r q))"
  "safe (serve C (DeleteGroup g))" "safe (serve C (UpdateGroup g))"
  "safe (serve C (AddGroupMember g uid adm))" "safe (serve C (DeleteGroupMember g uid))"
  unfolding serve.simps gumd_daemon_get_user_by_name_def gumd_daemon_delete_user_def gumd_daemon_update_user_def
    gumd_daemon_get_user_list_def gumd_daemon_get_group_by_name_def gumd_daemon_delete_group_def
    gumd_daemon_update_group_def gumd_daemon_add_group_member_def gumd_daemon_delete_group_member_def
  by (intro safe_rules safe_get_user safe_get_group user_ops user_lookups group_ops group_lookups)+

lemma request_kept:
  assumes "held q d" "daemon_ok (d, w)"
  shows "wp (serve C q) (\<lambda>_ s'. daemon_ok s' \<and> depth (snd s') = depth w) (d, w)"
proof (cases q)
  case (AddUser u)
  with assms have "\<And>r. u = Some r \<Longrightarrow> alive r (d_users d)" by simp
  from add_user_kept [OF assms(2) this] AddUser show ?thesis by (auto intro: wp_step wp_return)
next
  case (AddGroup g)
  with assms have "\<And>r. g = Some r \<Longrightarrow> alive r (d_groups d)" by simp
  from add_group_kept [OF assms(2) this] AddGroup show ?thesis by (auto intro: wp_step wp_return)
qed (use assms safe_requests [THEN safeD, OF assms(2)] in
    \<open>auto intro!: wp_set_daemon simp del: serve.simps simp: serve.simps(3,8,12,19) daemon_ok_def objects_ok_new objects_ok_unref\<close>)

end

section \<open>The two keepers\<close>

definition config_ok :: "ctx \<Rightarrow> bool" where
  "config_ok C \<longleftrightarrow> paths_ok C \<and> reads_ok C \<and> id_ranges_ok C"

lemma balanced_if: "(P \<Longrightarrow> balanced J d m) \<Longrightarrow> balanced (\<lambda>w. P \<and> J w) d m"
  by (auto simp: balanced_def)

lemma keeps_accounts_error: "keeps_accounts C a (set_error e)"
  by (rule keeps_accounts_frame) (intro frame_rules; simp)

interpretation account_keeper: object_operations C "\<lambda>w. config_ok C \<and> accounts_kept C a w" "\<lambda>_. 0" for C a
  by unfold_locales
    (rule balanced_if, (rule keeps_accounts_ops keeps_accounts_frame [OF frame_lookups(1)] keeps_accounts_frame [OF frame_lookups(2)]
      keeps_accounts_frame [OF frame_lookups(3)] keeps_accounts_frame [OF frame_lookups(4)]
      keeps_accounts_frame [OF frame_lookups(5)] keeps_accounts_error; simp add: config_ok_def))+

interpretation lock_keeper: object_operations C lock_ok lock_count for C
  by unfold_locales (intro lock_rules)+

section \<open>What every run keeps\<close>

lemma steps_kept:
  assumes "config_ok C" and "accounts_kept C a w" and "objects_ok (d_users d)" and "objects_ok (d_groups d)"
    and "daemon_steps C (d, w) s"
  shows "accounts_kept C a (snd s) \<and> objects_ok (d_users (fst s)) \<and> objects_ok (d_groups (fst s))"
  using assms(5)
proof (induction rule: rtranclp_induct)
  case (step s t)
  from step(2) show ?case
  proof (cases rule: daemon_step.cases)
    case (request q d w x)
    have "account_keeper.daemon_ok C a (d, w)"
      unfolding account_keeper.daemon_ok_def using step(3) assms(1) by (simp add: request(1))
    from account_keeper.request_kept [OF request(2) this] request(3) show ?thesis
      unfolding account_keeper.daemon_ok_def by (simp add: wp_def)
  next
    case (outside w' w d)
    with step(3) accounts_kept_files [OF outside(3), of C a] show ?thesis by simp
  qed
qed (use assms in simp)

end
