(* ===== verification/Gum_Disposable.thy ===== *)
theory Gum_Disposable
  imports Gum_Prelude
begin

text \<open>
  \<^verbatim>\<open>gum-disposable.c\<close>: objects that dispose of themselves when a timer expires while
  nobody holds them. The state is that of one object with its sources in the main loop. The
  properties: how the timer follows the holds, and what changing the timeout does to it.
\<close>

section \<open>The object\<close>

text \<open>
  A source in the main loop calls back into the object. Sources have numbers from 1 on; a
  timer id of 0 stands for none. \<open>disposing\<close> counts the emissions of the signal of that
  name.
\<close>

datatype source = Timer_dispose | Auto_dispose

record disposable =
  timeout :: "32 word"
  keep_obj_counter :: "32 word"
  timer_id :: nat
  delete_later :: bool
  ref_count :: nat
  disposing :: nat
  sources :: "(nat \<times> source) list"
  next_source :: nat

definition gum_disposable_init :: disposable where
  "gum_disposable_init = \<lparr>timeout = 0, keep_obj_counter = 0, timer_id = 0, delete_later = False,
     ref_count = 1, disposing = 0, sources = [], next_source = 1\<rparr>"

definition g_source_remove :: "nat \<Rightarrow> disposable \<Rightarrow> disposable" where
  "g_source_remove i d = d\<lparr>sources := filter (\<lambda>e. fst e \<noteq> i) (sources d)\<rparr>"

text \<open>\<open>g_timeout_add_seconds\<close> and \<open>g_idle_add\<close>, with the id stored in the object.\<close>

definition add_source :: "source \<Rightarrow> disposable \<Rightarrow> disposable" where
  "add_source k d = d\<lparr>sources := sources d @ [(next_source d, k)], timer_id := next_source d,
                      next_source := next_source d + 1\<rparr>"

definition update_timer :: "disposable \<Rightarrow> disposable" where
  "update_timer d =
     (if delete_later d then d
      else if keep_obj_counter d = 0 then
        (if timeout d \<noteq> 0 then add_source Timer_dispose d else d)
      else if timer_id d \<noteq> 0 then (g_source_remove (timer_id d) d)\<lparr>timer_id := 0\<rparr>
      else d)"

definition gum_disposable_set_auto_dispose :: "bool \<Rightarrow> disposable \<Rightarrow> disposable" where
  "gum_disposable_set_auto_dispose dispose d =
     (if keep_obj_counter d = 0 \<and> dispose then d
      else update_timer (d\<lparr>keep_obj_counter := keep_obj_counter d + (if \<not> dispose then 1 else -1)\<rparr>))"

definition gum_disposable_set_timeout :: "32 word \<Rightarrow> disposable \<Rightarrow> disposable" where
  "gum_disposable_set_timeout t d =
     (if timeout d = t then d else update_timer (d\<lparr>timeout := t\<rparr>))"

definition gum_disposable_delete_later :: "disposable \<Rightarrow> disposable" where
  "gum_disposable_delete_later d =
     (let d = (if timer_id d \<noteq> 0 then g_source_remove (timer_id d) d else d)
      in (add_source Auto_dispose d)\<lparr>delete_later := True\<rparr>)"

definition gum_disposable_get_auto_dispose :: "disposable \<Rightarrow> bool" where
  "gum_disposable_get_auto_dispose d \<longleftrightarrow> keep_obj_counter d = 0"

definition disposable_dispose :: "disposable \<Rightarrow> disposable" where
  "disposable_dispose d =
     (if timer_id d \<noteq> 0 then (g_source_remove (timer_id d) d)\<lparr>timer_id := 0\<rparr> else d)"

text \<open>\<open>g_object_unref\<close>: the last reference disposes of the object.\<close>

definition disposable_unref :: "disposable \<Rightarrow> disposable" where
  "disposable_unref d =
     (let d' = d\<lparr>ref_count := ref_count d - 1\<rparr>
      in if ref_count d = 1 then disposable_dispose d' else d')"

definition auto_dispose :: "disposable \<Rightarrow> disposable" where
  "auto_dispose d = disposable_unref (d\<lparr>disposing := disposing d + 1\<rparr>)"

definition timer_dispose :: "disposable \<Rightarrow> disposable" where
  "timer_dispose d = auto_dispose (d\<lparr>timer_id := 0\<rparr>)"

text \<open>The main loop runs a source. Both callbacks return FALSE, so it is removed then.\<close>

definition dispatch :: "nat \<Rightarrow> source \<Rightarrow> disposable \<Rightarrow> disposable" where
  "dispatch i k d = g_source_remove i (case k of Timer_dispose \<Rightarrow> timer_dispose d | Auto_dispose \<Rightarrow> auto_dispose d)"

section \<open>The life of an object\<close>

text \<open>
  What happens to an object while it is alive. The timeout is set as the adapters do, once,
  when it has none yet. A holder releases only what it holds.
\<close>

inductive life_step :: "disposable \<Rightarrow> disposable \<Rightarrow> bool" where
  hold: "0 < ref_count d \<Longrightarrow> keep_obj_counter d < -1 \<Longrightarrow> life_step d (gum_disposable_set_auto_dispose False d)"
| release: "0 < ref_count d \<Longrightarrow> life_step d (gum_disposable_set_auto_dispose True d)"
| set_timeout: "0 < ref_count d \<Longrightarrow> timeout d = 0 \<Longrightarrow> life_step d (gum_disposable_set_timeout t d)"
| later: "0 < ref_count d \<Longrightarrow> life_step d (gum_disposable_delete_later d)"
| ref: "0 < ref_count d \<Longrightarrow> life_step d (d\<lparr>ref_count := ref_count d + 1\<rparr>)"
| unref: "0 < ref_count d \<Longrightarrow> life_step d (disposable_unref d)"
| loop: "0 < ref_count d \<Longrightarrow> (i, k) \<in> set (sources d) \<Longrightarrow> life_step d (dispatch i k d)"

inductive_cases life_stepE: "life_step d d'"

text \<open>
  At most one source, the one the object knows; it is the timer unless the object is to be
  deleted, and then nobody holds the object; and none is left when the object is dead.
\<close>

definition timer_ok :: "disposable \<Rightarrow> bool" where
  "timer_ok d \<longleftrightarrow> 0 < next_source d \<and> timer_id d < next_source d \<and>
     (sources d = [] \<or> (\<exists>k. sources d = [(timer_id d, k)] \<and> timer_id d \<noteq> 0 \<and>
        (k = Auto_dispose \<longleftrightarrow> delete_later d) \<and>
        (k = Timer_dispose \<longrightarrow> keep_obj_counter d = 0 \<and> timeout d \<noteq> 0))) \<and>
     (timer_id d \<noteq> 0 \<and> \<not> delete_later d \<longrightarrow> sources d \<noteq> []) \<and>
     (ref_count d = 0 \<longrightarrow> sources d = [])"

lemmas disposable_defs = gum_disposable_set_auto_dispose_def gum_disposable_set_timeout_def
  gum_disposable_delete_later_def disposable_unref_def disposable_dispose_def auto_dispose_def
  timer_dispose_def dispatch_def update_timer_def add_source_def g_source_remove_def

lemma not_timer [simp]: "k \<noteq> Timer_dispose \<longleftrightarrow> k = Auto_dispose"
  by (cases k) simp_all

lemma timer_ok_init: "timer_ok gum_disposable_init"
  by (simp add: timer_ok_def gum_disposable_init_def)

lemma timer_ok_step: "life_step d d' \<Longrightarrow> timer_ok d \<Longrightarrow> timer_ok d'"
proof (induction rule: life_step.induct)
  case (hold d)
  then have "keep_obj_counter d + 1 \<noteq> 0" by (metis add_eq_0_iff2 add.commute less_irrefl)
  with hold show ?case by (auto simp: timer_ok_def disposable_defs)
next
  case (release d)
  then show ?case by (auto simp: timer_ok_def disposable_defs)
next
  case (set_timeout d t)
  then show ?case by (auto simp: timer_ok_def disposable_defs)
next
  case (later d)
  then show ?case by (auto simp: timer_ok_def disposable_defs Let_def)
next
  case (loop d i k)
  then show ?case by (cases k) (auto simp: timer_ok_def disposable_defs Let_def)
qed (auto simp: timer_ok_def disposable_defs Let_def)

lemma timer_ok_steps: "life_step\<^sup>*\<^sup>* d d' \<Longrightarrow> timer_ok d \<Longrightarrow> timer_ok d'"
  by (induction rule: rtranclp_induct) (auto intro: timer_ok_step)

section \<open>Properties\<close>


lemma life_witness: "life_step\<^sup>*\<^sup>* gum_disposable_init (gum_disposable_set_timeout 5 gum_disposable_init)"
  by (intro r_into_rtranclp life_step.set_timeout) (simp_all add: gum_disposable_init_def)


text \<open>
  When the last hold is released of an object with a timeout that is not to be deleted,
  the timer is started anew; a hold stops it; and holds nest.
\<close>

theorem disposable_release_starts_timer:
  assumes "timer_ok d" and "0 < ref_count d" and "timeout d \<noteq> 0" and "\<not> delete_later d"
    and "keep_obj_counter d < -1"
  shows "sources (gum_disposable_set_auto_dispose False d) = [] \<and>
     gum_disposable_set_auto_dispose True (gum_disposable_set_auto_dispose False d) =
       (if keep_obj_counter d = 0
        then d\<lparr>timer_id := next_source d, sources := [(next_source d, Timer_dispose)], next_source := next_source d + 1\<rparr>
        else d)"
proof -
  have "keep_obj_counter d + 1 \<noteq> 0"
    using assms(5) by (metis add_eq_0_iff2 add.commute less_irrefl)
  with assms show ?thesis
    by (cases d) (auto simp: timer_ok_def disposable_defs)
qed

theorem disposable_release_starts_timer_witness:
  "sources (gum_disposable_set_auto_dispose False (gum_disposable_set_timeout 5 gum_disposable_init)) = []"
proof -
  let ?d = "gum_disposable_set_timeout 5 gum_disposable_init"
  have "timer_ok ?d" by (rule timer_ok_steps [OF life_witness timer_ok_init])
  moreover have "0 < ref_count ?d" "timeout ?d \<noteq> 0" "\<not> delete_later ?d" "keep_obj_counter ?d < -1"
    by (simp_all add: gum_disposable_init_def disposable_defs word_gt_0)
  ultimately show ?thesis using disposable_release_starts_timer [of ?d] by blast
qed

text \<open>
  Changing the timeout of an object whose timer runs. The new timer is added without
  taking the old one back: both are in the main loop, the object knows the new one only, and
  when it is disposed of the old one is left there with a callback into the dead object. A
  timeout set to 0 leaves the running timer as it is.
\<close>

theorem disposable_set_timeout_leaks:
  assumes "timer_ok d" and "keep_obj_counter d = 0" and "\<not> delete_later d" and "sources d = [(timer_id d, Timer_dispose)]"
  shows "(t \<notin> {0, timeout d} \<longrightarrow>
       sources (gum_disposable_set_timeout t d) = [(timer_id d, Timer_dispose), (next_source d, Timer_dispose)] \<and>
       sources (disposable_dispose (gum_disposable_set_timeout t d)) = [(timer_id d, Timer_dispose)]) \<and>
     sources (gum_disposable_set_timeout 0 d) = [(timer_id d, Timer_dispose)]"
  using assms by (auto simp: timer_ok_def disposable_defs)

theorem disposable_set_timeout_leaks_witness:
  "sources (disposable_dispose (gum_disposable_set_timeout 9 (gum_disposable_set_timeout 5 gum_disposable_init))) =
     [(1, Timer_dispose)]"
proof -
  let ?d = "gum_disposable_set_timeout 5 gum_disposable_init"
  have "timer_ok ?d" by (rule timer_ok_steps [OF life_witness timer_ok_init])
  moreover have "keep_obj_counter ?d = 0" "\<not> delete_later ?d" "sources ?d = [(timer_id ?d, Timer_dispose)]"
    "timer_id ?d = 1" "timeout ?d = 5"
    by (simp_all add: gum_disposable_init_def disposable_defs)
  ultimately show ?thesis using disposable_set_timeout_leaks [of ?d 9] by simp
qed

end
