(* ===== verification/Gumd_Peers.thy ===== *)
theory Gumd_Peers
  imports Gumd_System Gum_Disposable
begin

text \<open>
  What the D-Bus services for users (\<^verbatim>\<open>gumd-dbus-user-service-adapter.c\<close>) and for groups
  (\<^verbatim>\<open>gumd-dbus-group-service-adapter.c\<close>) share: the list of the adapters that a service has
  made for its peers, the cache look-up in it, and how entries leave it. The two files are
  the same up to names, so the functions take the object type of the daemon as a parameter.
\<close>

section \<open>Adapters and services\<close>

text \<open>
  The list owns the one reference to each adapter, so adapters are modelled as its elements:
  an adapter that leaves it is disposed of. An adapter that could not be exported is NULL
  there. \<open>a_id\<close> stands for the address of the adapter; \<open>a_timer\<close> is its base object.
\<close>

record adapter =
  a_id :: nat
  a_object :: oref
  a_timer :: disposable
  a_path :: string

type_synonym peer = "string \<times> adapter option"

datatype reply =
    Reply_path "string option"
  | Reply_id "32 word"
  | Reply_ids "32 word list"
  | Reply_done
  | Reply_error GumError

record service =
  peers :: "peer list"
  caller_watchers :: "string list"
  msg_bus :: bool
  service_timer :: disposable
  next_adapter :: nat
  object_counter :: "32 word"
  replies :: "reply list"
  crashed :: bool

text \<open>
  What D-Bus brings into a call: the name of the sender (or its file descriptor), whether
  the export of an object succeeds, and the nonce for its path.
\<close>

record bus_call =
  sender :: string
  exported :: bool
  nonce :: string

text \<open>What a service asks of the daemon about the objects it serves.\<close>

record kind =
  k_path :: string
  k_timeout :: "32 word"
  k_not_found :: GumError
  k_id :: "oref \<Rightarrow> daemon \<Rightarrow> 32 word"
  k_new :: "daemon \<Rightarrow> oref \<times> daemon"
  k_get :: "32 word \<Rightarrow> oref option dm"
  k_by_name :: "pstr \<Rightarrow> 32 word wm"
  k_unref :: "oref \<Rightarrow> daemon \<Rightarrow> daemon"

definition set_auto_dispose :: "bool \<Rightarrow> service \<Rightarrow> service" where
  "set_auto_dispose b s = s\<lparr>service_timer := gum_disposable_set_auto_dispose b (service_timer s)\<rparr>"

definition adapter_dispose :: "kind \<Rightarrow> adapter \<Rightarrow> daemon \<Rightarrow> daemon" where
  "adapter_dispose K a d = k_unref K (a_object a) d"

text \<open>The entry goes with the reference it holds, if any.\<close>

definition dbus_peer_user_free :: "kind \<Rightarrow> peer \<Rightarrow> daemon \<Rightarrow> daemon" where
  "dbus_peer_user_free K e d = (case snd e of None \<Rightarrow> d | Some a \<Rightarrow> adapter_dispose K a d)"

section \<open>Entries that leave the list\<close>

text \<open>One step of \<open>g_list_foreach\<close> when a peer is gone.\<close>

definition clear_cache_for_peer_name :: "kind \<Rightarrow> string \<Rightarrow> peer \<Rightarrow> service \<times> daemon \<Rightarrow> service \<times> daemon" where
  "clear_cache_for_peer_name K name e sd =
     (if snd e \<noteq> None \<and> fst e = name
      then ((fst sd)\<lparr>peers := remove1 e (peers (fst sd))\<rparr>, dbus_peer_user_free K e (snd sd))
      else sd)"

definition auto_dispose_if_empty :: "service \<Rightarrow> service" where
  "auto_dispose_if_empty s = (if length (peers s) = 0 then set_auto_dispose True s else s)"

definition on_bus_name_lost :: "kind \<Rightarrow> string \<Rightarrow> service \<times> daemon \<Rightarrow> service \<times> daemon" where
  "on_bus_name_lost K name sd =
     (let (s, d) = fold (clear_cache_for_peer_name K name) (peers (fst sd)) sd;
          s = s\<lparr>caller_watchers := filter (\<lambda>n. n \<noteq> name) (caller_watchers s)\<rparr>
      in (auto_dispose_if_empty s, d))"

definition add_bus_name_watcher :: "string \<Rightarrow> service \<Rightarrow> service" where
  "add_bus_name_watcher name s =
     (if msg_bus s \<and> \<not> List.member (caller_watchers s) name
      then s\<lparr>caller_watchers := name # caller_watchers s\<rparr> else s)"

text \<open>
  The entry of an adapter that is being disposed of. Its pointer is cleared first, so
  nothing is given back for it here.
\<close>

definition clear_cache_for_user :: "adapter \<Rightarrow> peer \<Rightarrow> service \<Rightarrow> service" where
  "clear_cache_for_user dead e s =
     (case snd e of
        None \<Rightarrow> s
      | Some a \<Rightarrow> if a_id a = a_id dead then s\<lparr>peers := remove1 e (peers s)\<rparr> else s)"

definition on_dbus_user_adapter_disposed :: "adapter \<Rightarrow> service \<Rightarrow> service" where
  "on_dbus_user_adapter_disposed dead s =
     auto_dispose_if_empty (fold (clear_cache_for_user dead) (peers s) s)"

definition dbus_peer_user_remove :: "kind \<Rightarrow> peer \<Rightarrow> service \<times> daemon \<Rightarrow> service \<times> daemon" where
  "dbus_peer_user_remove K e sd =
     (if snd e \<noteq> None
      then ((fst sd)\<lparr>peers := remove1 e (peers (fst sd))\<rparr>, dbus_peer_user_free K e (snd sd))
      else sd)"

definition service_dispose :: "kind \<Rightarrow> service \<times> daemon \<Rightarrow> service \<times> daemon" where
  "service_dispose K sd =
     (let (s, d) = fold (dbus_peer_user_remove K) (peers (fst sd)) sd
      in (s\<lparr>caller_watchers := [], service_timer := disposable_dispose (service_timer s)\<rparr>, d))"

section \<open>The cache\<close>

text \<open>The search of the list: \<open>None\<close> if it reads through a NULL adapter of the peer.\<close>

fun adapter_from_list :: "kind \<Rightarrow> daemon \<Rightarrow> string \<Rightarrow> 32 word \<Rightarrow> peer list \<Rightarrow> adapter option option" where
  "adapter_from_list K d name i [] = Some None"
| "adapter_from_list K d name i ((peer_name, ad) # es) =
     (if name = peer_name then
        (case ad of
           None \<Rightarrow> None
         | Some a \<Rightarrow>
             if k_id K (a_object a) d = i \<and> \<not> delete_later (a_timer a) then Some (Some a)
             else adapter_from_list K d name i es)
      else adapter_from_list K d name i es)"

definition get_adapter_from_cache :: "kind \<Rightarrow> daemon \<Rightarrow> string \<Rightarrow> 32 word \<Rightarrow> service \<Rightarrow> adapter option option" where
  "get_adapter_from_cache K d name i s =
     (if i = 0xFFFFFFFF then Some None else adapter_from_list K d name i (peers s))"

text \<open>The object of an adapter, and its base object changed.\<close>

fun adapters :: "peer list \<Rightarrow> adapter list" where
  "adapters [] = []"
| "adapters ((n, None) # es) = adapters es"
| "adapters ((n, Some a) # es) = a # adapters es"

definition find_adapter :: "nat \<Rightarrow> service \<Rightarrow> adapter option" where
  "find_adapter i s = List.find (\<lambda>a. a_id a = i) (adapters (peers s))"

definition on_timer :: "nat \<Rightarrow> (disposable \<Rightarrow> disposable) \<Rightarrow> adapter \<Rightarrow> adapter" where
  "on_timer i f a = (if a_id a = i then a\<lparr>a_timer := f (a_timer a)\<rparr> else a)"

definition on_adapter :: "nat \<Rightarrow> (disposable \<Rightarrow> disposable) \<Rightarrow> service \<Rightarrow> service" where
  "on_adapter i f s = s\<lparr>peers := map (map_prod id (map_option (on_timer i f))) (peers s)\<rparr>"

text \<open>
  The main loop runs a source of an adapter. Should the adapter die in it, the reference to
  its object is given back and the service is notified.
\<close>

definition adapter_loop :: "kind \<Rightarrow> nat \<Rightarrow> nat \<Rightarrow> source \<Rightarrow> service \<times> daemon \<Rightarrow> service \<times> daemon" where
  "adapter_loop K i j k sd =
     (let (s, d) = sd;
          s' = on_adapter i (dispatch j k) s
      in case find_adapter i s' of
           None \<Rightarrow> (s', d)
         | Some a \<Rightarrow>
             if ref_count (a_timer a) = 0
             then (on_dbus_user_adapter_disposed a s', adapter_dispose K a d)
             else (s', d))"

text \<open>The main loop runs a source of the service itself.\<close>

definition service_loop :: "kind \<Rightarrow> nat \<Rightarrow> source \<Rightarrow> service \<times> daemon \<Rightarrow> service \<times> daemon" where
  "service_loop K j k sd =
     (let (s, d) = sd;
          s' = s\<lparr>service_timer := dispatch j k (service_timer s)\<rparr>
      in if ref_count (service_timer s') = 0 then service_dispose K (s', d) else (s', d))"

section \<open>References\<close>

text \<open>The reference count of an object, 0 once it is gone, and the adapters that hold it.\<close>

definition refs :: "oref \<Rightarrow> ('k, 'o) objects \<Rightarrow> nat" where
  "refs r S = (case obj_heap S r of None \<Rightarrow> 0 | Some (_, n) \<Rightarrow> n)"

definition holders :: "peer list \<Rightarrow> oref \<Rightarrow> nat" where
  "holders ps r = length (filter (\<lambda>a. a_object a = r) (adapters ps))"

lemma adapters_append [simp]: "adapters (xs @ ys) = adapters xs @ adapters ys"
  by (induction xs rule: adapters.induct) simp_all

lemma adapters_cons: "adapters (e # es) = (case snd e of None \<Rightarrow> [] | Some a \<Rightarrow> [a]) @ adapters es"
  by (cases e; cases "snd e") simp_all

lemma set_adapters: "a \<in> set (adapters ps) \<longleftrightarrow> (\<exists>n. (n, Some a) \<in> set ps)"
  by (induction ps rule: adapters.induct) auto

lemma holders_append [simp]: "holders (xs @ ys) r = holders xs r + holders ys r"
  by (simp add: holders_def)

lemma holders_nil [simp]: "holders [] r = 0"
  by (simp add: holders_def)

lemma holders_cons: "holders (e # es) r = (case snd e of None \<Rightarrow> 0 | Some a \<Rightarrow> if a_object a = r then 1 else 0) + holders es r"
  by (simp add: holders_def adapters_cons split: option.split)

lemma holders_filter: "holders ps r = holders (filter P ps) r + holders (filter (\<lambda>e. \<not> P e) ps) r"
  by (induction ps) (simp_all add: holders_cons)

lemma holders_pos: "a \<in> set (adapters ps) \<Longrightarrow> 0 < holders ps (a_object a)"
  by (auto simp: holders_def length_greater_0_conv filter_empty_conv)

lemma adapters_on_timer: "adapters (map (map_prod id (map_option (on_timer i f))) ps) = map (on_timer i f) (adapters ps)"
  by (induction ps rule: adapters.induct) simp_all

lemma on_timer_simps [simp]: "a_id (on_timer i f a) = a_id a" "a_object (on_timer i f a) = a_object a"
    "a_path (on_timer i f a) = a_path a"
  by (simp_all add: on_timer_def)

lemma adapters_on_adapter [simp]: "adapters (peers (on_adapter i f s)) = map (on_timer i f) (adapters (peers s))"
  by (simp add: on_adapter_def adapters_on_timer)

lemma holders_on_adapter [simp]: "holders (peers (on_adapter i f s)) r = holders (peers s) r"
  by (simp add: holders_def filter_map comp_def)

lemma on_adapter_fuse [simp]: "on_adapter i f (on_adapter i g s) = on_adapter i (\<lambda>d. f (g d)) s"
  by (cases s) (auto simp: on_adapter_def on_timer_def option.map_comp intro!: map_option_cong)

lemma on_adapter_rest [simp]:
  "service_timer (on_adapter i f s) = service_timer s" "next_adapter (on_adapter i f s) = next_adapter s"
  "crashed (on_adapter i f s) = crashed s" "peers (on_adapter i f s) = [] \<longleftrightarrow> peers s = []"
  "(n, None) \<in> set (peers (on_adapter i f s)) \<longleftrightarrow> (n, None) \<in> set (peers s)"
  by (auto simp: on_adapter_def map_prod_def image_iff intro: rev_bexI)

text \<open>A list from which every element with a property is taken while it is walked through.\<close>

lemma fold_purge:
  assumes "\<And>e s d. f e (s, d) = (if P e then (s\<lparr>peers := remove1 e (peers s)\<rparr>, g e d) else (s, d))"
  shows "fold f (peers s) (s, d) = (s\<lparr>peers := filter (\<lambda>e. \<not> P e) (peers s)\<rparr>, fold g (filter P (peers s)) d)"
proof -
  have "fold f es (s, d) = (s\<lparr>peers := zs @ filter (\<lambda>e. \<not> P e) es\<rparr>, fold g (filter P es) d)"
    if "peers s = zs @ es" "\<forall>z\<in>set zs. \<not> P z" for zs es s d
    using that
  proof (induction es arbitrary: zs s d)
    case (Cons e es)
    show ?case
    proof (cases "P e")
      case True
      with Cons.prems have "e \<notin> set zs" by auto
      with Cons.prems(1) have "remove1 e (peers s) = zs @ es" by (simp add: remove1_append)
      with Cons.IH [of "s\<lparr>peers := zs @ es\<rparr>" zs] Cons.prems(2) True show ?thesis by (simp add: assms)
    next
      case False
      with Cons.IH [of s "zs @ [e]"] Cons.prems show ?thesis by (simp add: assms)
    qed
  qed simp
  from this [of s "[]" "peers s"] show ?thesis by simp
qed

lemma peer_gone_fold:
  "fold (clear_cache_for_peer_name K name) (peers s) (s, d) =
     (s\<lparr>peers := filter (\<lambda>e. \<not> (snd e \<noteq> None \<and> fst e = name)) (peers s)\<rparr>,
      fold (dbus_peer_user_free K) (filter (\<lambda>e. snd e \<noteq> None \<and> fst e = name) (peers s)) d)"
  by (rule fold_purge) (simp add: clear_cache_for_peer_name_def)

lemma remove_fold:
  "fold (dbus_peer_user_remove K) (peers s) (s, d) =
     (s\<lparr>peers := filter (\<lambda>e. \<not> snd e \<noteq> None) (peers s)\<rparr>,
      fold (dbus_peer_user_free K) (filter (\<lambda>e. snd e \<noteq> None) (peers s)) d)"
  by (rule fold_purge) (simp add: dbus_peer_user_remove_def)

abbreviation entry_of :: "adapter \<Rightarrow> peer \<Rightarrow> bool" where
  "entry_of dead e \<equiv> case snd e of None \<Rightarrow> False | Some a \<Rightarrow> a_id a = a_id dead"

lemma disposed_fold:
  "fold (clear_cache_for_user dead) (peers s) s = s\<lparr>peers := filter (\<lambda>e. \<not> entry_of dead e) (peers s)\<rparr>"
proof -
  have "fold (\<lambda>e sd. (clear_cache_for_user dead e (fst sd), snd sd)) (peers s) (s, ()) =
      (s\<lparr>peers := filter (\<lambda>e. \<not> entry_of dead e) (peers s)\<rparr>, fold (\<lambda>e d. d) (filter (entry_of dead) (peers s)) ())"
    by (rule fold_purge) (simp add: clear_cache_for_user_def split: option.split)
  moreover have *: "fst (fold (\<lambda>e sd. (clear_cache_for_user dead e (fst sd), snd sd)) es (s, ())) =
      fold (clear_cache_for_user dead) es s" for es
    by (induction es arbitrary: s) simp_all
  ultimately show ?thesis unfolding * [symmetric] by simp
qed

end
