(* ===== verification/Gumd_Dbus.thy ===== *)
theory Gumd_Dbus
  imports Gumd_Peers
begin

text \<open>
  The methods of the D-Bus services and of the adapters
  (\<^verbatim>\<open>gumd-dbus-{user,group}-service-adapter.c\<close>, \<^verbatim>\<open>gumd-dbus-{user,group}-adapter.c\<close>) and
  what any sequence of calls, lost peers and timers keeps: the references, the timers and
  the holds.
\<close>

section \<open>State\<close>

type_synonym 'a sm = "(service \<times> daemon \<times> world, 'a) state"

definition lift_dm :: "'a dm \<Rightarrow> 'a sm" where
  "lift_dm m = State (\<lambda>(s, dw). case run_state m dw of (a, dw') \<Rightarrow> (a, s, dw'))"

definition get_service :: "(service \<Rightarrow> daemon \<Rightarrow> 'a) \<Rightarrow> 'a sm" where
  "get_service f = gets (\<lambda>(s, d, w). f s d)"

definition set_service :: "(service \<Rightarrow> service) \<Rightarrow> unit sm" where
  "set_service f = modify (\<lambda>(s, dw). (f s, dw))"

definition reply :: "reply \<Rightarrow> unit sm" where
  "reply r = set_service (\<lambda>s. s\<lparr>replies := replies s @ [r]\<rparr>)"

definition no_gerror :: "unit sm" where
  "no_gerror = lift_dm (lift_wm (modify (\<lambda>w. w\<lparr>gerror := None\<rparr>)))"

text \<open>The error reported is returned to the peer, or the given one if there is none.\<close>

definition reply_error :: "GumError \<Rightarrow> unit sm" where
  "reply_error dflt = do {
     e \<leftarrow> lift_dm (lift_wm (gets gerror));
     reply (Reply_error (case e of None \<Rightarrow> dflt | Some e \<Rightarrow> e)) }"

text \<open>Without an error there is nothing to return: GLib rejects the call.\<close>

definition reply_gerror :: "unit sm" where
  "reply_gerror = do {
     e \<leftarrow> lift_dm (lift_wm (gets gerror));
     (case e of None \<Rightarrow> ret () | Some e \<Rightarrow> reply (Reply_error e)) }"

section \<open>New adapters\<close>

text \<open>\<open>%d\<close> of a counter of 32 bits.\<close>

definition signed_digits :: "32 word \<Rightarrow> string" where
  "signed_digits n = (if sint n < 0 then ''-'' @ decimal_digits (nat (- sint n)) else decimal_digits (nat (sint n)))"

definition adapter_path :: "kind \<Rightarrow> bus_call \<Rightarrow> 32 word \<Rightarrow> string" where
  "adapter_path K c n = k_path K @ ''_'' @ nonce c @ ''_'' @ signed_digits n"

text \<open>An adapter that cannot be exported is dropped, and its object with it.\<close>

definition adapter_new_with_connection :: "kind \<Rightarrow> bus_call \<Rightarrow> oref \<Rightarrow> adapter option sm" where
  "adapter_new_with_connection K c r = do {
     a \<leftarrow> get_service (\<lambda>s d. \<lparr>a_id = next_adapter s, a_object = r, a_timer = gum_disposable_init,
                               a_path = adapter_path K c (object_counter s)\<rparr>);
     set_service (\<lambda>s. s\<lparr>next_adapter := next_adapter s + 1, object_counter := object_counter s + 1\<rparr>);
     if \<not> exported c then do {
       lift_dm (set_daemon (adapter_dispose K a));
       ret None }
     else ret (Some (if k_timeout K \<noteq> 0 then on_timer (a_id a) (gum_disposable_set_timeout (k_timeout K)) a else a)) }"

definition create_and_cache_adapter :: "kind \<Rightarrow> bus_call \<Rightarrow> oref \<Rightarrow> adapter option sm" where
  "create_and_cache_adapter K c r = do {
     adapter \<leftarrow> adapter_new_with_connection K c r;
     set_service (\<lambda>s. if length (peers s) = 0 then set_auto_dispose False s else s);
     set_service (\<lambda>s. s\<lparr>peers := peers s @ [(sender c, adapter)]\<rparr>);
     set_service (add_bus_name_watcher (sender c));
     ret adapter }"

section \<open>The methods of a service\<close>

definition handle_create_new :: "kind \<Rightarrow> bus_call \<Rightarrow> unit sm" where
  "handle_create_new K c = do {
     set_service (set_auto_dispose False);
     r \<leftarrow> get_service (\<lambda>s d. fst (k_new K d));
     lift_dm (set_daemon (\<lambda>d. snd (k_new K d)));
     adapter \<leftarrow> create_and_cache_adapter K c r;
     reply (Reply_path (map_option a_path adapter));
     set_service (set_auto_dispose True) }"

text \<open>The adapter for an id: the one the peer has, or a new one for the object of the daemon.\<close>

definition reply_adapter_for :: "kind \<Rightarrow> bus_call \<Rightarrow> 32 word \<Rightarrow> unit sm" where
  "reply_adapter_for K c i = do {
     cached \<leftarrow> get_service (\<lambda>s d. get_adapter_from_cache K d (sender c) i s);
     case cached of
       None \<Rightarrow> set_service (\<lambda>s. s\<lparr>crashed := True\<rparr>)
     | Some found \<Rightarrow> do {
         adapter \<leftarrow> (case found of
             Some a \<Rightarrow> ret (Some a)
           | None \<Rightarrow> do {
               obj \<leftarrow> lift_dm (k_get K i);
               case obj of None \<Rightarrow> ret None | Some r \<Rightarrow> create_and_cache_adapter K c r });
         (case adapter of
            Some a \<Rightarrow> reply (Reply_path (Some (a_path a)))
          | None \<Rightarrow> reply_error (k_not_found K));
         set_service (set_auto_dispose True) } }"

definition handle_get :: "kind \<Rightarrow> bus_call \<Rightarrow> 32 word \<Rightarrow> unit sm" where
  "handle_get K c i = do {
     set_service (set_auto_dispose False);
     no_gerror;
     reply_adapter_for K c i }"

definition handle_get_by_name :: "kind \<Rightarrow> bus_call \<Rightarrow> pstr \<Rightarrow> unit sm" where
  "handle_get_by_name K c n = do {
     set_service (set_auto_dispose False);
     no_gerror;
     i \<leftarrow> lift_dm (lift_wm (k_by_name K n));
     reply_adapter_for K c i }"

definition handle_get_user_list :: "ctx \<Rightarrow> string list option \<Rightarrow> unit sm" where
  "handle_get_user_list C types = do {
     set_service (set_auto_dispose False);
     no_gerror;
     users \<leftarrow> lift_dm (gumd_daemon_get_user_list C types);
     (case users of
        Some us \<Rightarrow> reply (Reply_ids us)
      | None \<Rightarrow> reply_error GUM_ERROR_USER_NOT_FOUND);
     set_service (set_auto_dispose True) }"

section \<open>The methods of an adapter\<close>

text \<open>The object of an adapter; there is one when a method is called on it.\<close>

definition object_of :: "nat \<Rightarrow> service \<Rightarrow> oref" where
  "object_of i s = (case find_adapter i s of None \<Rightarrow> 0 | Some a \<Rightarrow> a_object a)"

text \<open>The adapter is held while the daemon works with its object.\<close>

definition handle_call :: "nat \<Rightarrow> (oref \<Rightarrow> bool dm) \<Rightarrow> (oref \<Rightarrow> daemon \<Rightarrow> reply) \<Rightarrow> bool sm" where
  "handle_call i op done = do {
     set_service (on_adapter i (gum_disposable_set_auto_dispose False));
     no_gerror;
     r \<leftarrow> get_service (\<lambda>s d. object_of i s);
     rval \<leftarrow> lift_dm (op r);
     (if rval then do { a \<leftarrow> get_service (\<lambda>s d. done r d); reply a } else reply_gerror);
     set_service (on_adapter i (gum_disposable_set_auto_dispose True));
     ret rval }"

definition handle_delete :: "nat \<Rightarrow> (oref \<Rightarrow> bool dm) \<Rightarrow> unit sm" where
  "handle_delete i op = do {
     rval \<leftarrow> handle_call i op (\<lambda>r d. Reply_done);
     if rval then set_service (on_adapter i gum_disposable_delete_later) else ret () }"

section \<open>Users and groups\<close>

definition gumd_dbus_user_adapter_get_uid :: "oref \<Rightarrow> daemon \<Rightarrow> uid_t" where
  "gumd_dbus_user_adapter_get_uid r d = pw_uid (du_pw (user_object r d))"

definition gumd_dbus_group_adapter_get_gid :: "oref \<Rightarrow> daemon \<Rightarrow> gid_t" where
  "gumd_dbus_group_adapter_get_gid r d = gr_gid (gd_group (group_object r d))"

definition GUM_USER_SERVICE_OBJECTPATH :: string where
  "GUM_USER_SERVICE_OBJECTPATH = ''/org/O1/SecurityAccounts/gUserManagement/User''"

definition GUM_GROUP_SERVICE_OBJECTPATH :: string where
  "GUM_GROUP_SERVICE_OBJECTPATH = ''/org/O1/SecurityAccounts/gUserManagement/Group''"

definition user_kind :: "ctx \<Rightarrow> kind" where
  "user_kind C = \<lparr>
     k_path = GUM_USER_SERVICE_OBJECTPATH @ ''/User'',
     k_timeout = gumd_daemon_get_user_timeout C,
     k_not_found = GUM_ERROR_USER_NOT_FOUND,
     k_id = gumd_dbus_user_adapter_get_uid,
     k_new = (\<lambda>d. (obj_next (d_users d), d\<lparr>d_users := obj_new gumd_daemon_user_new (d_users d)\<rparr>)),
     k_get = gumd_daemon_get_user C,
     k_by_name = gumd_daemon_user_get_uid_by_name C,
     k_unref = (\<lambda>r d. d\<lparr>d_users := obj_unref r (d_users d)\<rparr>)\<rparr>"

definition group_kind :: "ctx \<Rightarrow> kind" where
  "group_kind C = \<lparr>
     k_path = GUM_GROUP_SERVICE_OBJECTPATH @ ''/Group'',
     k_timeout = gumd_daemon_get_group_timeout C,
     k_not_found = GUM_ERROR_GROUP_NOT_FOUND,
     k_id = gumd_dbus_group_adapter_get_gid,
     k_new = (\<lambda>d. (obj_next (d_groups d), d\<lparr>d_groups := obj_new gumd_daemon_group_new (d_groups d)\<rparr>)),
     k_get = gumd_daemon_get_group C,
     k_by_name = gumd_daemon_group_get_gid_by_name C,
     k_unref = (\<lambda>r d. d\<lparr>d_groups := obj_unref r (d_groups d)\<rparr>)\<rparr>"

definition handle_create_new_user :: "ctx \<Rightarrow> bus_call \<Rightarrow> unit sm" where
  "handle_create_new_user C c = handle_create_new (user_kind C) c"

definition handle_get_user :: "ctx \<Rightarrow> bus_call \<Rightarrow> uid_t \<Rightarrow> unit sm" where
  "handle_get_user C c uid = handle_get (user_kind C) c uid"

definition handle_get_user_by_name :: "ctx \<Rightarrow> bus_call \<Rightarrow> pstr \<Rightarrow> unit sm" where
  "handle_get_user_by_name C c username = handle_get_by_name (user_kind C) c username"

definition handle_create_new_group :: "ctx \<Rightarrow> bus_call \<Rightarrow> unit sm" where
  "handle_create_new_group C c = handle_create_new (group_kind C) c"

definition handle_get_group :: "ctx \<Rightarrow> bus_call \<Rightarrow> gid_t \<Rightarrow> unit sm" where
  "handle_get_group C c gid = handle_get (group_kind C) c gid"

definition handle_get_group_by_name :: "ctx \<Rightarrow> bus_call \<Rightarrow> pstr \<Rightarrow> unit sm" where
  "handle_get_group_by_name C c groupname = handle_get_by_name (group_kind C) c groupname"

definition handle_add_user :: "ctx \<Rightarrow> nat \<Rightarrow> unit sm" where
  "handle_add_user C i = do {
     handle_call i (\<lambda>r. gumd_daemon_add_user C (Some r)) (\<lambda>r d. Reply_id (pw_uid (du_pw (user_object r d))));
     ret () }"

definition handle_delete_user :: "ctx \<Rightarrow> nat \<Rightarrow> bool \<Rightarrow> unit sm" where
  "handle_delete_user C i rem_home_dir = handle_delete i (\<lambda>r. gumd_daemon_delete_user C (Some r) rem_home_dir)"

definition handle_update_user :: "ctx \<Rightarrow> nat \<Rightarrow> unit sm" where
  "handle_update_user C i = do {
     handle_call i (\<lambda>r. gumd_daemon_update_user C (Some r)) (\<lambda>r d. Reply_done);
     ret () }"

definition handle_add_group :: "ctx \<Rightarrow> nat \<Rightarrow> unit sm" where
  "handle_add_group C i = do {
     handle_call i (\<lambda>r. gumd_daemon_add_group C (Some r)) (\<lambda>r d. Reply_id (gr_gid (gd_group (group_object r d))));
     ret () }"

definition handle_delete_group :: "ctx \<Rightarrow> nat \<Rightarrow> unit sm" where
  "handle_delete_group C i = handle_delete i (\<lambda>r. gumd_daemon_delete_group C (Some r))"

definition handle_update_group :: "ctx \<Rightarrow> nat \<Rightarrow> unit sm" where
  "handle_update_group C i = do {
     handle_call i (\<lambda>r. gumd_daemon_update_group C (Some r)) (\<lambda>r d. Reply_done);
     ret () }"

definition handle_add_group_member :: "ctx \<Rightarrow> nat \<Rightarrow> uid_t \<Rightarrow> bool \<Rightarrow> unit sm" where
  "handle_add_group_member C i uid add_as_admin = do {
     handle_call i (\<lambda>r. gumd_daemon_add_group_member C (Some r) uid add_as_admin) (\<lambda>r d. Reply_done);
     ret () }"

definition handle_delete_group_member :: "ctx \<Rightarrow> nat \<Rightarrow> uid_t \<Rightarrow> unit sm" where
  "handle_delete_group_member C i uid = do {
     handle_call i (\<lambda>r. gumd_daemon_delete_group_member C (Some r) uid) (\<lambda>r d. Reply_done);
     ret () }"

text \<open>A property that a peer writes is written to the object; the echo of it is ignored.\<close>

definition write_user_property :: "ctx \<Rightarrow> nat \<Rightarrow> user_prop \<Rightarrow> unit sm" where
  "write_user_property C i p = do {
     r \<leftarrow> get_service (\<lambda>s d. object_of i s);
     lift_dm (call_user r (\<lambda>u. ret ((), user_set_property (c_env C) u p))) }"

definition write_group_property :: "nat \<Rightarrow> group_prop \<Rightarrow> unit sm" where
  "write_group_property i p = do {
     r \<leftarrow> get_service (\<lambda>s d. object_of i s);
     lift_dm (call_group r (\<lambda>g. ret ((), group_set_property g p))) }"

end
