(* ===== verification/Gumd_Dbus_Inv.thy ===== *)
theory Gumd_Dbus_Inv
  imports Gumd_Dbus
begin

text \<open>
  The invariant of a D-Bus service and what its methods, its adapters and the main loop do to
  it: the locale \<open>served_objects\<close> states what the service relies on in the daemon, and its
  lemmas hold for users and groups alike.
\<close>

section \<open>Holds\<close>

lemma small_word: "k < 5 \<Longrightarrow> (of_nat k :: 32 word) < -1" "k < 5 \<Longrightarrow> (of_nat (Suc k) :: 32 word) \<noteq> 0"
proof -
  assume k: "k < 5"
  then have u: "unat (of_nat k :: 32 word) = k" "unat (of_nat (Suc k) :: 32 word) = Suc k"
    by (simp_all add: unat_of_nat del: of_nat_Suc)
  show nz: "(of_nat (Suc k) :: 32 word) \<noteq> 0" using u(2) by (metis nat.distinct(1) unat_0)
  then have "(of_nat k :: 32 word) \<noteq> -1" by auto
  then show "(of_nat k :: 32 word) < -1" by (simp add: word_order.not_eq_extremum)
qed

definition used :: "nat \<Rightarrow> disposable \<Rightarrow> bool" where
  "used k d \<longleftrightarrow> timer_ok d \<and> ref_count d = 1 \<and> keep_obj_counter d = of_nat k"

lemma dispose_rest [simp]:
  "ref_count (gum_disposable_set_auto_dispose b d) = ref_count d"
  "keep_obj_counter (gum_disposable_set_auto_dispose b d) =
     (if b then if keep_obj_counter d = 0 then 0 else keep_obj_counter d - 1 else keep_obj_counter d + 1)"
  by (simp_all add: disposable_defs)

lemma used_hold:
  assumes "used k d" "k < 5"
  shows "used (Suc k) (gum_disposable_set_auto_dispose False d)"
proof -
  have "timer_ok (gum_disposable_set_auto_dispose False d)"
    using assms small_word(1) [OF assms(2)] by (intro timer_ok_step [OF life_step.hold]) (simp_all add: used_def)
  with assms show ?thesis by (simp add: used_def add.commute)
qed

lemma used_release:
  assumes "used (Suc k) d" "k < 5"
  shows "used k (gum_disposable_set_auto_dispose True d)"
proof -
  have "timer_ok (gum_disposable_set_auto_dispose True d)"
    using assms by (intro timer_ok_step [OF life_step.release]) (simp_all add: used_def)
  with assms small_word(2) [OF assms(2)] show ?thesis by (simp add: used_def)
qed

lemma used_init: "used 0 gum_disposable_init"
  by (simp add: used_def timer_ok_init) (simp add: gum_disposable_init_def)

lemma used_set_timeout: "used k d \<Longrightarrow> timeout d = 0 \<Longrightarrow> used k (gum_disposable_set_timeout t d)"
  using timer_ok_step [OF life_step.set_timeout, of d t] by (auto simp: used_def disposable_defs)

lemma used_delete_later: "used k d \<Longrightarrow> used k (gum_disposable_delete_later d)"
  using timer_ok_step [OF life_step.later, of d] by (auto simp: used_def disposable_defs Let_def)

text \<open>A source that runs takes the one reference to the object.\<close>

lemma dispatch_dead: "ref_count d = 1 \<Longrightarrow> ref_count (dispatch j k d) = 0"
  by (cases k) (simp_all add: disposable_defs Let_def)

section \<open>The invariant of a service\<close>

definition tables_ok :: "daemon \<Rightarrow> bool" where
  "tables_ok d \<longleftrightarrow> objects_ok (d_users d) \<and> objects_ok (d_groups d)"

text \<open>
  Held \<open>n\<close> times, and once more while it has entries; \<open>x\<close> is an object whose reference is
  not with an adapter yet.
\<close>

definition service_held :: "nat \<Rightarrow> oref option \<Rightarrow> (oref \<Rightarrow> nat) \<Rightarrow> service \<Rightarrow> bool" where
  "service_held n x R s \<longleftrightarrow>
     (\<forall>a\<in>set (adapters (peers s)). used 0 (a_timer a) \<and> a_id a < next_adapter s) \<and>
     distinct (map a_id (adapters (peers s))) \<and>
     used (n + (if peers s = [] then 0 else 1)) (service_timer s) \<and>
     R = (\<lambda>r. holders (peers s) r + (if x = Some r then 1 else 0))"

abbreviation service_ok :: "(oref \<Rightarrow> nat) \<Rightarrow> service \<Rightarrow> bool" where
  "service_ok \<equiv> service_held 0 None"

text \<open>No entry without adapter.\<close>

definition no_null :: "service \<Rightarrow> bool" where
  "no_null s \<longleftrightarrow> \<not> crashed s \<and> (\<forall>e\<in>set (peers s). snd e \<noteq> None)"

lemma service_heldD:
  assumes "service_held n x R s"
  shows "a \<in> set (adapters (peers s)) \<Longrightarrow> used 0 (a_timer a)" "a \<in> set (adapters (peers s)) \<Longrightarrow> a_id a < next_adapter s"
    "distinct (map a_id (adapters (peers s)))" "used (n + (if peers s = [] then 0 else 1)) (service_timer s)"
    "R r = holders (peers s) r + (if x = Some r then 1 else 0)"
  using assms by (auto simp: service_held_def)

lemma held_hold: "service_held n x R s \<Longrightarrow> n < 3 \<Longrightarrow> service_held (Suc n) x R (set_auto_dispose False s)"
  using used_hold [of "n + (if peers s = [] then 0 else 1)" "service_timer s"]
  by (auto simp: service_held_def set_auto_dispose_def)

lemma held_release: "service_held (Suc n) x R s \<Longrightarrow> n < 3 \<Longrightarrow> service_held n x R (set_auto_dispose True s)"
  using used_release [of "n + (if peers s = [] then 0 else 1)" "service_timer s"]
  by (auto simp: service_held_def set_auto_dispose_def split: if_splits)

lemma held_same:
  "service_held n x R s \<Longrightarrow> peers s' = peers s \<Longrightarrow> next_adapter s' = next_adapter s \<Longrightarrow>
   service_timer s' = service_timer s \<Longrightarrow> service_held n x R s'"
  by (simp add: service_held_def)

text \<open>Entries leave the list with their references; when the last is gone the service is free.\<close>

lemma held_filter:
  assumes h: "service_ok R s" and p: "\<And>e. \<not> P e \<Longrightarrow> snd e \<noteq> None"
  shows "service_ok (\<lambda>r. holders (filter P (peers s)) r)
     (auto_dispose_if_empty (s\<lparr>peers := filter P (peers s)\<rparr>))"
proof -
  have sub: "set (adapters (filter P es)) \<subseteq> set (adapters es)" for es by (auto simp: set_adapters)
  have dist: "distinct (map a_id (adapters es)) \<Longrightarrow> distinct (map a_id (adapters (filter P es)))" for es
    using sub by (induction es rule: adapters.induct) (auto simp: subset_iff)
  have rel: "used 1 d \<Longrightarrow> used 0 (gum_disposable_set_auto_dispose True d)" for d
    using used_release [of 0 d] by simp
  have zero: "used 0 d \<Longrightarrow> used 0 (gum_disposable_set_auto_dispose True d)" for d
    by (auto simp: used_def disposable_defs)
  from h sub [of "peers s"] dist [of "peers s"] show ?thesis
    by (auto simp: service_held_def auto_dispose_if_empty_def set_auto_dispose_def rel zero split: if_splits)
qed

lemma used_on_timer: "used 0 (a_timer a) \<Longrightarrow> (\<And>d. used 0 d \<Longrightarrow> used 0 (f d)) \<Longrightarrow> used 0 (a_timer (on_timer i f a))"
  by (simp add: on_timer_def)

lemma held_on_adapter:
  assumes "service_held n x R s" "\<And>d. used 0 d \<Longrightarrow> used 0 (f d)"
  shows "service_held n x R (on_adapter i f s)"
  using assms by (auto simp: service_held_def used_on_timer comp_def)

lemma no_null_simps [simp]:
  "no_null (set_auto_dispose b s) = no_null s" "no_null (on_adapter i f s) = no_null s"
  "no_null (s\<lparr>replies := rs\<rparr>) = no_null s"
  by (auto simp: no_null_def set_auto_dispose_def on_adapter_def)

lemma set_auto_dispose_rest [simp]: "peers (set_auto_dispose b s) = peers s" "replies (set_auto_dispose b s) = replies s"
    "crashed (set_auto_dispose b s) = crashed s"
  by (simp_all add: set_auto_dispose_def)

text \<open>An entry that joins the list.\<close>

abbreviation joins :: "oref option \<Rightarrow> service \<Rightarrow> adapter option \<Rightarrow> bool" where
  "joins x s ad \<equiv> case ad of None \<Rightarrow> x = None
     | Some a \<Rightarrow> x = Some (a_object a) \<and> used 0 (a_timer a) \<and> a_id a < next_adapter s \<and>
         a_id a \<notin> a_id ` set (adapters (peers s))"

definition cached :: "string \<Rightarrow> adapter option \<Rightarrow> service \<Rightarrow> service" where
  "cached name ad s = add_bus_name_watcher name
     ((if length (peers s) = 0 then set_auto_dispose False s else s)\<lparr>peers := peers s @ [(name, ad)]\<rparr>)"

lemma cached_rest [simp]: "peers (cached name ad s) = peers s @ [(name, ad)]" "replies (cached name ad s) = replies s"
    "crashed (cached name ad s) = crashed s" "next_adapter (cached name ad s) = next_adapter s"
  by (simp_all add: cached_def add_bus_name_watcher_def set_auto_dispose_def)

lemma cached_eq:
  "(let s' = (if length (peers s) = 0 then set_auto_dispose False s else s)
    in add_bus_name_watcher name (s'\<lparr>peers := peers s' @ [(name, ad)]\<rparr>)) = cached name ad s"
  by (simp add: cached_def set_auto_dispose_def)

lemma held_cached:
  assumes h: "service_held n x R s" and n: "n < 3" and j: "joins x s ad"
  shows "service_held n None R (cached name ad s)"
proof -
  have t: "service_timer (cached name ad s) =
      (if peers s = [] then gum_disposable_set_auto_dispose False (service_timer s) else service_timer s)"
    by (simp add: cached_def add_bus_name_watcher_def set_auto_dispose_def)
  have u: "used (Suc n) (service_timer (cached name ad s))"
    using used_hold [of n "service_timer s"] service_heldD(4) [OF h] n by (auto simp: t split: if_splits)
  from h j u show ?thesis
    by (auto simp: service_held_def adapters_cons holders_cons split: option.splits)
qed

text \<open>What the cache finds, and what a look-up answers.\<close>

lemma adapter_from_list_found:
  "adapter_from_list K d name i ps = Some (Some a) \<Longrightarrow>
     (name, Some a) \<in> set ps \<and> k_id K (a_object a) d = i \<and> \<not> delete_later (a_timer a)"
  by (induction K d name i ps rule: adapter_from_list.induct) (auto split: if_splits option.splits)

lemma adapter_from_list_null: "adapter_from_list K d name i ps = None \<Longrightarrow> (name, None) \<in> set ps"
  by (induction K d name i ps rule: adapter_from_list.induct) (auto split: if_splits option.splits)

lemma adapter_from_list_hit:
  "(n, Some a) \<in> set ps \<Longrightarrow> k_id K (a_object a) d = i \<Longrightarrow> \<not> delete_later (a_timer a) \<Longrightarrow>
     adapter_from_list K d n i ps \<noteq> Some None"
  by (induction K d n i ps rule: adapter_from_list.induct) (auto split: option.splits)

lemma adapter_from_list_stuck:
  "(n, None) \<in> set ps \<Longrightarrow> \<forall>a. (n, Some a) \<in> set ps \<longrightarrow> k_id K (a_object a) d \<noteq> i \<Longrightarrow>
     adapter_from_list K d n i ps = None"
  by (induction K d n i ps rule: adapter_from_list.induct) (auto split: option.splits)

definition error_reply :: "reply \<Rightarrow> bool" where
  "error_reply rp \<longleftrightarrow> (case rp of Reply_error _ \<Rightarrow> True | _ \<Rightarrow> False)"

definition answered :: "bus_call \<Rightarrow> adapter option option \<Rightarrow> service \<Rightarrow> service \<Rightarrow> bool" where
  "answered c found s s' \<longleftrightarrow> (\<exists>rp. replies s' = replies s @ [rp] \<and>
     (case found of
        None \<Rightarrow> False
      | Some (Some a) \<Rightarrow> peers s' = peers s \<and> rp = Reply_path (Some (a_path a))
      | Some None \<Rightarrow>
          peers s' = peers s \<and> error_reply rp \<or>
          peers s' = peers s @ [(sender c, None)] \<and> error_reply rp \<or>
          (\<exists>a. peers s' = peers s @ [(sender c, Some a)] \<and> rp = Reply_path (Some (a_path a)))))"

text \<open>One entry taken out by its number.\<close>

lemma filter_key: "distinct (map f xs) \<Longrightarrow> x \<in> set xs \<Longrightarrow> filter (\<lambda>y. f y = f x) xs = [x]"
  by (induction xs) (auto simp: filter_empty_conv image_iff)

abbreviation other_than :: "nat \<Rightarrow> peer \<Rightarrow> bool" where
  "other_than i e \<equiv> case snd e of None \<Rightarrow> True | Some a \<Rightarrow> a_id a \<noteq> i"

lemma adapters_not_other: "adapters (filter (\<lambda>e. \<not> other_than i e) ps) = filter (\<lambda>a. a_id a = i) (adapters ps)"
  by (induction ps rule: adapters.induct) simp_all

lemma peers_other:
  "a_id dead = i \<Longrightarrow> filter (\<lambda>e. \<not> entry_of dead e) (peers (on_adapter i f s)) = filter (other_than i) (peers s)"
proof -
  assume i: "a_id dead = i"
  have "filter (\<lambda>e. \<not> entry_of dead e) (map (map_prod id (map_option (on_timer i f))) es) = filter (other_than i) es" for es
    by (induction es rule: adapters.induct) (auto simp: i on_timer_def)
  then show ?thesis by (simp add: on_adapter_def)
qed

lemma holders_other:
  assumes "service_held n x R s" "a \<in> set (adapters (peers s))"
  shows "holders (peers s) r = holders (filter (other_than (a_id a)) (peers s)) r + (if a_object a = r then 1 else 0)"
proof -
  have "holders (filter (\<lambda>e. \<not> other_than (a_id a) e) (peers s)) r = (if a_object a = r then 1 else 0)"
    unfolding holders_def adapters_not_other
    by (simp add: filter_key [OF service_heldD(3) [OF assms(1)] assms(2)])
  with holders_filter [of "peers s" r "other_than (a_id a)"] show ?thesis by simp
qed

lemma find_adapter_iff:
  "find_adapter i s = Some a \<Longrightarrow> a \<in> set (adapters (peers s)) \<and> a_id a = i"
  by (auto simp: find_adapter_def find_Some_iff)

lemma find_on_adapter: "find_adapter i (on_adapter i f s) = map_option (on_timer i f) (find_adapter i s)"
proof -
  have "List.find (\<lambda>a. a_id a = i) (map (on_timer i f) as) = map_option (on_timer i f) (List.find (\<lambda>a. a_id a = i) as)" for as
    by (induction as) simp_all
  then show ?thesis by (simp add: find_adapter_def)
qed

lemma on_adapter_replies [simp]: "on_adapter i f (s\<lparr>replies := rs\<rparr>) = (on_adapter i f s)\<lparr>replies := rs\<rparr>"
  by (simp add: on_adapter_def)

lemma find_replies [simp]: "find_adapter i (s\<lparr>replies := rs\<rparr>) = find_adapter i s"
  by (simp add: find_adapter_def)

lemma object_of_on_adapter [simp]: "object_of i (on_adapter i f s) = object_of i s"
  by (auto simp: object_of_def find_on_adapter split: option.split)

lemma auto_dispose_if_empty_rest [simp]:
  "no_null (auto_dispose_if_empty s) = no_null s" "crashed (auto_dispose_if_empty s) = crashed s"
  "peers (auto_dispose_if_empty s) = peers s"
  by (simp_all add: auto_dispose_if_empty_def)

section \<open>Rules\<close>

lemma wp_set_service: "Q () (f s, dw) \<Longrightarrow> wp (set_service f) Q (s, dw)"
  by (simp add: wp_def set_service_def)

lemma wp_get_service: "Q (f s d) (s, d, w) \<Longrightarrow> wp (get_service f) Q (s, d, w)"
  by (simp add: wp_def get_service_def)

lemma wp_lift_dm: "wp m (\<lambda>x dw. Q x (s, dw)) dw \<Longrightarrow> wp (lift_dm m) Q (s, dw)"
  by (simp add: wp_def lift_dm_def case_prod_beta)

lemma wp_reply: "Q () (s\<lparr>replies := replies s @ [r]\<rparr>, dw) \<Longrightarrow> wp (reply r) Q (s, dw)"
  by (simp add: reply_def wp_set_service)

lemma wp_reply_error:
  "(\<And>e. Q () (s\<lparr>replies := replies s @ [Reply_error e]\<rparr>, d, w)) \<Longrightarrow> wp (reply_error dflt) Q (s, d, w)"
  by (simp add: reply_error_def wp_def reply_def set_service_def lift_dm_def lift_wm_def)

lemma wp_reply_gerror:
  "(\<And>rs. Q () (s\<lparr>replies := rs\<rparr>, d, w)) \<Longrightarrow> wp reply_gerror Q (s, d, w)"
  by (auto simp: reply_gerror_def wp_def reply_def set_service_def lift_dm_def lift_wm_def split: option.split)
    (metis service.surjective service.update_convs(7))

lemma wp_no_gerror: "Q () (s, d, w\<lparr>gerror := None\<rparr>) \<Longrightarrow> wp no_gerror Q (s, d, w)"
  by (simp add: no_gerror_def wp_def lift_dm_def lift_wm_def)

section \<open>A service over its objects\<close>

text \<open>
  What a service relies on: an object it is given carries a reference of its own, giving it
  back takes one, and neither touches the objects of the other kind nor does more to the
  files than the daemon does. \<open>R\<close> reads the references, \<open>T\<close> the other kind.
\<close>

locale served_objects =
  fixes C :: ctx and K :: kind and R :: "daemon \<Rightarrow> oref \<Rightarrow> nat" and T :: "daemon \<Rightarrow> 'x"
  assumes new: "tables_ok d \<Longrightarrow> k_new K d = (r, d') \<Longrightarrow>
        tables_ok d' \<and> T d' = T d \<and> R d' = (\<lambda>q. R d q + (if q = r then 1 else 0)) \<and> daemon_steps C (d, w) (d', w)"
    and get: "tables_ok d \<Longrightarrow> wp (k_get K i) (\<lambda>x (d', w'). tables_ok d' \<and> T d' = T d \<and>
        R d' = (\<lambda>q. R d q + (if x = Some q then 1 else 0)) \<and> daemon_steps C (d, w) (d', w')) (d, w)"
    and unref: "tables_ok d \<Longrightarrow> tables_ok (k_unref K r d) \<and> T (k_unref K r d) = T d \<and>
        R (k_unref K r d) = (\<lambda>q. R d q - (if q = r then 1 else 0)) \<and> daemon_steps C (d, w) (k_unref K r d, w)"
    and by_name: "frame files (k_by_name K n)"
begin

text \<open>
  The state is in order and was reached by steps of the daemon. Under \<open>E\<close>, that exports
  succeed, the list has no NULL adapter.
\<close>

definition good :: "bool \<Rightarrow> nat \<Rightarrow> oref option \<Rightarrow> daemon \<times> world \<Rightarrow> service \<Rightarrow> daemon \<Rightarrow> world \<Rightarrow> bool" where
  "good E n x a s d w \<longleftrightarrow> tables_ok d \<and> T d = T (fst a) \<and> daemon_steps C a (d, w) \<and> \<not> crashed s \<and>
     (E \<longrightarrow> no_null s) \<and> service_held n x (R d) s"

definition done_or_crashed :: "bool \<Rightarrow> daemon \<times> world \<Rightarrow> service \<Rightarrow> daemon \<Rightarrow> world \<Rightarrow> bool" where
  "done_or_crashed E a s d w \<longleftrightarrow> good E 0 None a s d w \<or>
     crashed s \<and> \<not> E \<and> daemon_steps C a (d, w)"

lemma good_hold: "good E n x a s d w \<Longrightarrow> n < 3 \<Longrightarrow> good E (Suc n) x a (set_auto_dispose False s) d w"
  by (simp add: good_def held_hold)

lemma good_release: "good E (Suc n) x a s d w \<Longrightarrow> n < 3 \<Longrightarrow> good E n x a (set_auto_dispose True s) d w"
  by (simp add: good_def held_release)

lemma good_replies: "good E n x a s d w \<Longrightarrow> good E n x a (s\<lparr>replies := rs\<rparr>) d w"
  by (auto simp: good_def elim: held_same)

lemma good_outside: "good E n x a s d w \<Longrightarrow> files w' = files w \<Longrightarrow> good E n x a s d w'"
  unfolding good_def by (meson daemon_step.outside rtranclp.rtrancl_into_rtrancl)

lemma good_gerror: "good E n x a s d w \<Longrightarrow> good E n x a s d (w\<lparr>gerror := e\<rparr>)"
  by (rule good_outside) simp_all

lemma good_new:
  assumes "good E n None a s d w" "k_new K d = (r, d')"
  shows "good E n (Some r) a s d' w"
proof -
  from assms(1) have "tables_ok d" by (simp add: good_def)
  from new [OF this assms(2), of w] assms(1) show ?thesis
    unfolding good_def service_held_def by (auto intro: rtranclp_trans)
qed

lemma good_get:
  assumes "good E n None a s d w"
  shows "wp (k_get K i) (\<lambda>x (d', w'). good E n x a s d' w') (d, w)"
proof -
  from assms have "tables_ok d" by (simp add: good_def)
  from get [OF this, of i w] show ?thesis
    by (rule wp_mono) (use assms in \<open>auto simp: good_def service_held_def intro: rtranclp_trans\<close>)
qed

lemma good_unref:
  assumes "good E n (Some r) a s d w"
  shows "good E n None a s (k_unref K r d) w"
proof -
  from assms have "tables_ok d" by (simp add: good_def)
  from unref [OF this, of r w] assms show ?thesis
    unfolding good_def service_held_def by (auto intro: rtranclp_trans)
qed

text \<open>Every entry that is freed gives its reference back.\<close>

lemma frees:
  assumes "tables_ok d" "R d = (\<lambda>r. holders es r + N r)"
  shows "tables_ok (fold (dbus_peer_user_free K) es d) \<and> T (fold (dbus_peer_user_free K) es d) = T d \<and>
    R (fold (dbus_peer_user_free K) es d) = N \<and> daemon_steps C (d, w) (fold (dbus_peer_user_free K) es d, w)"
  using assms
proof (induction es arbitrary: d)
  case (Cons e es)
  show ?case
  proof (cases "snd e")
    case None
    with Cons.IH [OF Cons.prems(1)] Cons.prems(2) show ?thesis by (simp add: holders_cons dbus_peer_user_free_def)
  next
    case (Some ad)
    let ?d = "k_unref K (a_object ad) d"
    from Some Cons.prems(2) have "R d = (\<lambda>r. (if a_object ad = r then 1 else 0) + holders es r + N r)"
      by (simp add: holders_cons)
    with unref [OF Cons.prems(1), of "a_object ad" w]
    have "tables_ok ?d" "R ?d = (\<lambda>r. holders es r + N r)" "T ?d = T d" "daemon_steps C (d, w) (?d, w)" by auto
    with Cons.IH [of ?d] Some show ?thesis
      by (auto simp: dbus_peer_user_free_def adapter_dispose_def intro: rtranclp_trans)
  qed
qed simp

lemma good_counted:
  assumes "good E n x a s d w"
  shows "good E n x a (s\<lparr>next_adapter := next_adapter s + 1, object_counter := m\<rparr>) d w"
  using assms by (auto simp: good_def service_held_def no_null_def)

lemma create:
  assumes g: "good E n (Some r) a s d w" and n: "n < 3" and ex: "E \<Longrightarrow> exported c"
  shows "wp (create_and_cache_adapter K c r) (\<lambda>ad (s', d', w'). good E n None a s' d' w' \<and>
     peers s' = peers s @ [(sender c, ad)] \<and> (ad = None \<longleftrightarrow> \<not> exported c) \<and> replies s' = replies s) (s, d, w)"
proof -
  let ?ad = "\<lparr>a_id = next_adapter s, a_object = r, a_timer = gum_disposable_init,
      a_path = adapter_path K c (object_counter s)\<rparr>"
  let ?s = "s\<lparr>next_adapter := next_adapter s + 1, object_counter := object_counter s + 1\<rparr>"
  let ?to = "if k_timeout K \<noteq> 0 then on_timer (a_id ?ad) (gum_disposable_set_timeout (k_timeout K)) ?ad else ?ad"
  have g': "good E n (Some r) a ?s d w" by (rule good_counted [OF g])
  have fresh: "next_adapter s \<notin> a_id ` set (adapters (peers s))"
    using g by (auto simp: good_def dest!: service_heldD(2))
  have to: "used 0 (a_timer ?to)"
    using used_set_timeout [OF used_init] by (simp add: on_timer_def used_init) (simp add: gum_disposable_init_def)
  have final: "good E n None a (cached (sender c) ad ?s) d' w"
    if "good E n x a ?s d' w" "joins x ?s ad" "E \<longrightarrow> ad \<noteq> None" for x ad d'
    using that n held_cached [of n x "R d'" ?s ad "sender c"] by (auto simp: good_def no_null_def)
  have new: "wp (adapter_new_with_connection K c r) (\<lambda>ad (s', d', w'). s' = ?s \<and> w' = w \<and> (ad = None \<longleftrightarrow> \<not> exported c) \<and>
      (\<exists>x. good E n x a ?s d' w \<and> joins x ?s ad)) (s, d, w)"
    unfolding adapter_new_with_connection_def
    apply (rule wp_bind, rule wp_get_service, rule wp_bind, rule wp_set_service, rule wp_if)
     apply (intro wp_bind wp_lift_dm wp_set_daemon wp_return)
    using good_unref [OF g'] ex
     apply (auto simp: adapter_dispose_def) [1]
    apply (rule wp_return)
    using g' to fresh
    apply (auto intro!: exI [of _ "Some r"])
    done
  show ?thesis
    unfolding create_and_cache_adapter_def
    apply (rule wp_step [OF new])
    subgoal for ad st
      apply (cases st)
      apply (simp only: prod.case)
      apply (elim conjE exE)
      apply (intro wp_bind wp_set_service wp_return)
      subgoal for s' d' w' x
        unfolding cached_eq [unfolded Let_def] prod.case using final [of x d' ad] ex by simp
      done
    done
qed

lemma lifted_get:
  "good E n None a s d w \<Longrightarrow>
     wp (lift_dm (k_get K i)) (\<lambda>x (s', d', w'). s' = s \<and> good E n x a s d' w') (s, d, w)"
  by (rule wp_lift_dm, rule wp_mono [OF good_get]) auto

lemma reply_adapter:
  assumes g: "good E 1 None a s d w" and ex: "E \<Longrightarrow> exported c"
  shows "wp (reply_adapter_for K c i) (\<lambda>_ (s', d', w'). done_or_crashed E a s' d' w' \<and>
     (crashed s' \<or> answered c (get_adapter_from_cache K d (sender c) i s) s s')) (s, d, w)"
    (is "wp _ ?Q _")
proof -
  let ?cached = "get_adapter_from_cache K d (sender c) i s"
  let ?tail = "\<lambda>adapter. do {
      (case adapter of Some a \<Rightarrow> reply (Reply_path (Some (a_path a))) | None \<Rightarrow> reply_error (k_not_found K));
      set_service (set_auto_dispose True) }"
  have tail: "wp (?tail ad) (\<lambda>_ (s2, d2, w2). good E 0 None a s2 d2 w2 \<and> peers s2 = peers s1 \<and>
      (\<exists>rp. replies s2 = replies s1 @ [rp] \<and> (case ad of None \<Rightarrow> error_reply rp | Some b \<Rightarrow> rp = Reply_path (Some (a_path b)))))
      (s1, d1, w1)"
    if "good E 1 None a s1 d1 w1" for ad s1 d1 w1
    by (rule wp_bind, rule wp_case_option)
      (auto intro!: wp_reply_error wp_reply wp_set_service good_release [of E 0, simplified] good_replies that [simplified]
        simp: error_reply_def)
  have none: "wp (do { obj \<leftarrow> lift_dm (k_get K i);
        case obj of None \<Rightarrow> ret None | Some r \<Rightarrow> create_and_cache_adapter K c r })
      (\<lambda>ad (s1, d1, w1). good E 1 None a s1 d1 w1 \<and> replies s1 = replies s \<and>
        (peers s1 = peers s \<and> ad = None \<or> peers s1 = peers s @ [(sender c, ad)])) (s, d, w)"
    apply (rule wp_step [OF lifted_get [OF g]])
    subgoal for x st
      apply (cases st)
      apply (simp only: prod.case)
      apply (elim conjE)
      apply (rule wp_case_option)
       apply (auto intro!: wp_return) [1]
      apply (simp only:)
      apply (rule wp_mono [OF create [of E 1]])
         apply (use ex in auto)
      done
    done
  show ?thesis
    unfolding reply_adapter_for_def
    apply (rule wp_bind, rule wp_get_service, rule wp_case_option)
    subgoal
      apply (rule wp_set_service)
      using g ex adapter_from_list_null [of K d "sender c" i "peers s"]
      apply (auto simp: done_or_crashed_def good_def no_null_def get_adapter_from_cache_def split: if_splits)
      done
    subgoal for found
      apply (simp only:)
      apply (rule wp_step [where R = "\<lambda>ad (s1, d1, w1). good E 1 None a s1 d1 w1 \<and> replies s1 = replies s \<and>
          (case found of Some b \<Rightarrow> peers s1 = peers s \<and> ad = Some b
           | None \<Rightarrow> peers s1 = peers s \<and> ad = None \<or> peers s1 = peers s @ [(sender c, ad)])"])
       apply (rule wp_case_option)
        apply (simp only: option.case, rule none)
       apply (use g in \<open>auto intro!: wp_return\<close>) [1]
      subgoal for ad st
        apply (cases st)
        apply (simp only: prod.case, elim conjE)
        apply (rule wp_mono [OF tail], assumption)
        apply (auto simp: done_or_crashed_def answered_def split: option.splits)
        done
      done
    done
qed

text \<open>A method that works with an object that is held, and a look-up in the files.\<close>

definition works_with :: "oref \<Rightarrow> 'a dm \<Rightarrow> bool" where
  "works_with r m \<longleftrightarrow> (\<forall>d w. tables_ok d \<and> 0 < R d r \<longrightarrow>
     wp m (\<lambda>_ (d', w'). tables_ok d' \<and> T d' = T d \<and> R d' = R d \<and> daemon_steps C (d, w) (d', w')) (d, w))"

lemma good_method:
  assumes "good E n x a s d w" "0 < R d r" "works_with r m"
  shows "wp m (\<lambda>_ (d', w'). good E n x a s d' w') (d, w)"
proof -
  from assms have "wp m (\<lambda>_ (d', w'). tables_ok d' \<and> T d' = T d \<and> R d' = R d \<and> daemon_steps C (d, w) (d', w')) (d, w)"
    unfolding works_with_def good_def by blast
  then show ?thesis by (rule wp_mono) (use assms(1) in \<open>auto simp: good_def intro: rtranclp_trans\<close>)
qed

lemma good_lookup:
  assumes "good E n x a s d w" "frame files m"
  shows "wp (lift_dm (lift_wm m)) (\<lambda>_ (s', d', w'). s' = s \<and> d' = d \<and> good E n x a s d w') (s, d, w)"
  by (rule wp_lift_dm, rule wp_lift, rule frame_wp [OF assms(2)]) (auto intro: good_outside [OF assms(1)])

lemma held_object:
  assumes "good E n x a s d w" "find_adapter i s \<noteq> None"
  shows "0 < R d (object_of i s)"
proof -
  from assms(2) obtain ad where "find_adapter i s = Some ad" by auto
  with find_adapter_iff [OF this] holders_pos [of ad "peers s"] assms(1) show ?thesis
    by (simp add: object_of_def good_def service_held_def)
qed

lemma good_on_adapter:
  assumes "good E n x a s d w" "\<And>t. used 0 t \<Longrightarrow> used 0 (f t)"
  shows "good E n x a (on_adapter i f s) d w"
  using assms held_on_adapter [of n x "R d" s f i] by (simp add: good_def)

lemma hold_release: "used 0 t \<Longrightarrow> used 0 (gum_disposable_set_auto_dispose True (gum_disposable_set_auto_dispose False t))"
  using used_release [of 0] used_hold [of 0 t] by simp

lemma call_good:
  assumes g: "good E n None a s d w" and i: "find_adapter i s \<noteq> None" and m: "\<And>r. works_with r (op r)"
  shows "wp (handle_call i op done) (\<lambda>_ (s', d', w'). good E n None a s' d' w' \<and> find_adapter i s' \<noteq> None) (s, d, w)"
proof -
  let ?s = "on_adapter i (gum_disposable_set_auto_dispose False) s"
  have after: "wp (do { set_service (on_adapter i (gum_disposable_set_auto_dispose True)); ret rval })
      (\<lambda>_ (s', d', w'). good E n None a s' d' w' \<and> find_adapter i s' \<noteq> None) (?s\<lparr>replies := rs\<rparr>, d', w')"
    if "good E n None a s d' w'" for rs d' w' rval
  proof -
    have "good E n None a (on_adapter i (\<lambda>t. gum_disposable_set_auto_dispose True (gum_disposable_set_auto_dispose False t)) s) d' w'"
      by (rule good_on_adapter [OF that]) (rule hold_release)
    with i show ?thesis
      by (auto intro!: wp_bind wp_set_service wp_return good_replies simp: find_on_adapter)
  qed
  have g0: "good E n None a s d (w\<lparr>gerror := None\<rparr>)" by (rule good_gerror [OF g])
  have op: "wp (lift_dm (op (object_of i s))) (\<lambda>_ (s', d', w'). s' = ?s \<and> good E n None a s d' w')
      (?s, d, w\<lparr>gerror := None\<rparr>)"
    by (rule wp_lift_dm, rule wp_mono [OF good_method [OF g0 held_object [OF g0 i] m]]) auto
  show ?thesis
    unfolding handle_call_def
    apply (rule wp_bind, rule wp_set_service, rule wp_bind, rule wp_no_gerror, rule wp_bind, rule wp_get_service)
    unfolding object_of_on_adapter
    apply (rule wp_step [OF op])
    subgoal for rval st
      apply (cases st)
      apply (simp only: prod.case, elim conjE)
      apply (rule wp_bind, rule wp_if)
       apply (rule wp_bind, rule wp_get_service, rule wp_reply, rule after, assumption)
      apply (rule wp_reply_gerror, rule after, assumption)
      done
    done
qed

text \<open>The methods.\<close>

lemma delete_good:
  assumes "good E 0 None a s d w" "find_adapter i s \<noteq> None" "\<And>r. works_with r (op r)"
  shows "wp (handle_delete i op) (\<lambda>_ (s', d', w'). good E 0 None a s' d' w') (s, d, w)"
  unfolding handle_delete_def
  by (rule wp_step [OF call_good [OF assms]])
    (auto intro!: wp_if wp_set_service wp_return good_on_adapter used_delete_later)

lemma write_good:
  assumes "good E 0 None a s d w" "find_adapter i s \<noteq> None" "\<And>r. works_with r (op r)"
  shows "wp (do { r \<leftarrow> get_service (\<lambda>s d. object_of i s); lift_dm (op r) })
     (\<lambda>_ (s', d', w'). good E 0 None a s' d' w') (s, d, w)"
  by (rule wp_bind, rule wp_get_service, rule wp_lift_dm,
      rule wp_mono [OF good_method [OF assms(1) held_object [OF assms(1,2)] assms(3)]]) auto

lemma create_new_good:
  assumes g: "good E 0 None a s d w" and ex: "E \<Longrightarrow> exported c"
  shows "wp (handle_create_new K c) (\<lambda>_ (s', d', w'). good E 0 None a s' d' w' \<and>
     (\<exists>ad. peers s' = peers s @ [(sender c, ad)] \<and> (ad = None \<longleftrightarrow> \<not> exported c))) (s, d, w)"
proof -
  let ?s = "set_auto_dispose False s"
  obtain r d' where r: "k_new K d = (r, d')" by (cases "k_new K d")
  have g1: "good E 1 (Some r) a ?s d' w" using good_new [OF good_hold [OF g] r] by simp
  show ?thesis
    unfolding handle_create_new_def
    apply (rule wp_bind, rule wp_set_service, rule wp_bind, rule wp_get_service, rule wp_bind,
        rule wp_lift_dm, rule wp_set_daemon)
    unfolding r fst_conv snd_conv
    apply (rule wp_step [OF create [OF g1 _ ex]], simp, assumption)
    subgoal for ad st
      by (cases st) (auto intro!: wp_bind wp_reply wp_set_service good_release [of E 0, simplified] good_replies)
    done
qed

lemma get_good:
  assumes g: "good E 0 None a s d w" and ex: "E \<Longrightarrow> exported c"
  shows "wp (handle_get K c i) (\<lambda>_ (s', d', w'). done_or_crashed E a s' d' w' \<and>
     (crashed s' \<or> answered c (get_adapter_from_cache K d (sender c) i s) s s')) (s, d, w)"
proof -
  let ?s = "set_auto_dispose False s"
  have g1: "good E 1 None a ?s d (w\<lparr>gerror := None\<rparr>)"
    using good_hold [OF good_gerror [OF g]] by simp
  have same: "get_adapter_from_cache K d n i ?s = get_adapter_from_cache K d n i s"
    "answered c f ?s s' = answered c f s s'" for n f s'
    by (simp_all only: get_adapter_from_cache_def answered_def set_auto_dispose_rest)
  show ?thesis
    unfolding handle_get_def
    by (rule wp_bind, rule wp_set_service, rule wp_bind, rule wp_no_gerror,
        rule wp_mono [OF reply_adapter [OF g1 ex]]) (simp_all only: same)
qed

lemma get_by_name_good:
  assumes g: "good E 0 None a s d w" and ex: "E \<Longrightarrow> exported c"
  shows "wp (handle_get_by_name K c n) (\<lambda>_ (s', d', w'). done_or_crashed E a s' d' w') (s, d, w)"
proof -
  let ?s = "set_auto_dispose False s"
  have g1: "good E 1 None a ?s d (w\<lparr>gerror := None\<rparr>)"
    using good_hold [OF good_gerror [OF g]] by simp
  show ?thesis
    unfolding handle_get_by_name_def
    apply (rule wp_bind, rule wp_set_service, rule wp_bind, rule wp_no_gerror, rule wp_step [OF good_lookup [OF g1 by_name]])
    subgoal for i st
      apply (cases st)
      apply (simp only: prod.case, elim conjE)
      apply (rule wp_mono [OF reply_adapter [OF _ ex]], assumption)
       apply auto
      done
    done
qed

lemma list_good:
  assumes g: "good E 0 None a s d w"
  shows "wp (handle_get_user_list C' types) (\<lambda>_ (s', d', w'). good E 0 None a s' d' w') (s, d, w)"
proof -
  have g1: "good E 1 None a (set_auto_dispose False s) d (w\<lparr>gerror := None\<rparr>)"
    using good_hold [OF good_gerror [OF g]] by simp
  show ?thesis
    unfolding handle_get_user_list_def gumd_daemon_get_user_list_def
    apply (rule wp_bind, rule wp_set_service, rule wp_bind, rule wp_no_gerror, rule wp_step [OF good_lookup [OF g1 frame_lookups(3)]])
    subgoal for us st
      by (cases st)
        (auto intro!: wp_bind wp_case_option wp_reply wp_reply_error wp_set_service good_release [of E 0, simplified] good_replies)
    done
qed

text \<open>A peer that is gone, and the main loop.\<close>

lemma name_lost_good:
  assumes g: "good E 0 None a s d w" and l: "on_bus_name_lost K name (s, d) = (s', d')"
  shows "good E 0 None a s' d' w \<and> peers s' = filter (\<lambda>e. snd e = None \<or> fst e \<noteq> name) (peers s)"
proof -
  let ?P = "\<lambda>e. snd e \<noteq> None \<and> fst e = name"
  let ?s = "s\<lparr>peers := filter (\<lambda>e. \<not> ?P e) (peers s)\<rparr>"
  from g have h: "service_ok (R d) s" and t: "tables_ok d" by (simp_all add: good_def)
  have d': "d' = fold (dbus_peer_user_free K) (filter ?P (peers s)) d"
    and s': "s' = auto_dispose_if_empty (?s\<lparr>caller_watchers := filter (\<lambda>n. n \<noteq> name) (caller_watchers s)\<rparr>)"
    using l by (simp_all add: on_bus_name_lost_def peer_gone_fold)
  have "R d = (\<lambda>r. holders (filter ?P (peers s)) r + holders (filter (\<lambda>e. \<not> ?P e) (peers s)) r)"
    using h holders_filter [of "peers s" _ ?P] by (simp add: service_held_def)
  from frees [OF t this, of w] have f: "tables_ok d'" "T d' = T d" "R d' = holders (filter (\<lambda>e. \<not> ?P e) (peers s))"
    "daemon_steps C (d, w) (d', w)" by (simp_all add: d')
  have "service_ok (R d') (auto_dispose_if_empty ?s)"
    unfolding f(3) by (rule held_filter [OF h]) auto
  then have "service_ok (R d') s'"
    by (rule held_same) (simp_all add: s' auto_dispose_if_empty_def set_auto_dispose_def)
  moreover have "no_null s' = no_null ?s" "crashed s' = crashed s" "peers s' = peers ?s"
    unfolding s' auto_dispose_if_empty_rest by (simp_all add: no_null_def)
  ultimately show ?thesis
    using g f by (auto simp: good_def no_null_def intro: rtranclp_trans)
qed

lemma adapter_loop_good:
  assumes g: "good E 0 None a s d w" and l: "adapter_loop K i j k (s, d) = (s', d')" and i: "find_adapter i s \<noteq> None"
  shows "good E 0 None a s' d' w"
proof -
  obtain ad where ad: "find_adapter i s = Some ad" using i by auto
  note ad' = find_adapter_iff [OF ad]
  from g have h: "service_ok (R d) s" and t: "tables_ok d" by (simp_all add: good_def)
  let ?ad = "on_timer i (dispatch j k) ad" and ?s = "s\<lparr>peers := filter (other_than i) (peers s)\<rparr>"
  have "ref_count (a_timer ?ad) = 0"
    using service_heldD(1) [OF h, of ad] ad' by (simp add: on_timer_def dispatch_dead used_def)
  then have l': "s' = on_dbus_user_adapter_disposed ?ad (on_adapter i (dispatch j k) s)" "d' = k_unref K (a_object ad) d"
    using l ad by (simp_all add: adapter_loop_def find_on_adapter adapter_dispose_def)
  have s': "s' = auto_dispose_if_empty ?s"
    unfolding l' on_dbus_user_adapter_disposed_def disposed_fold
    by (subst peers_other) (simp_all add: ad' on_adapter_def)
  from unref [OF t, of "a_object ad" w]
  have f: "tables_ok d'" "T d' = T d" "daemon_steps C (d, w) (d', w)"
    "R d' = (\<lambda>q. R d q - (if q = a_object ad then 1 else 0))" by (simp_all add: l')
  have "R d' = holders (filter (other_than i) (peers s))"
    using holders_other [OF h, of ad] ad' h by (auto simp: f(4) service_held_def)
  moreover have nn: "snd e \<noteq> None" if "\<not> other_than i e" for e using that by (cases "snd e") simp_all
  have "service_ok (holders (filter (other_than i) (peers s))) s'"
    unfolding s' by (rule held_filter [OF h nn])
  ultimately have "service_ok (R d') s'" by simp
  moreover have "no_null s' = no_null ?s" "crashed s' = crashed s"
    unfolding s' auto_dispose_if_empty_rest by (simp_all add: no_null_def)
  ultimately show ?thesis using g f by (auto simp: good_def no_null_def intro: rtranclp_trans)
qed

lemma service_dispose_good:
  assumes g: "good E 0 None a s d w" and l: "service_dispose K (s\<lparr>service_timer := timer\<rparr>, d) = (s', d')" and r: "ref_count timer = 0"
  shows "tables_ok d' \<and> T d' = T (fst a) \<and> daemon_steps C a (d', w) \<and> R d' = (\<lambda>_. 0) \<and> crashed s' = crashed s \<and>
    ref_count (service_timer s') = 0 \<and> adapters (peers s') = []"
proof -
  from g have h: "service_ok (R d) s" and t: "tables_ok d" by (simp_all add: good_def)
  let ?s = "s\<lparr>service_timer := timer\<rparr>" and ?P = "\<lambda>e. snd e \<noteq> None"
  have none: "adapters (filter (\<lambda>e. \<not> ?P e) es) = []" for es by (induction es rule: adapters.induct) simp_all
  have zero: "holders (filter (\<lambda>e. \<not> ?P e) es) q = 0" for es q unfolding holders_def none by simp
  have d': "d' = fold (dbus_peer_user_free K) (filter ?P (peers s)) d"
    and s': "peers s' = filter (\<lambda>e. \<not> ?P e) (peers s)" "crashed s' = crashed s"
      "ref_count (service_timer s') = 0"
    using l r remove_fold [of K ?s d]
    by (auto simp: service_dispose_def disposable_dispose_def g_source_remove_def Let_def)
  have "R d = (\<lambda>r. holders (filter ?P (peers s)) r + 0)"
    using h holders_filter [of "peers s" _ ?P] unfolding zero by (simp add: service_held_def)
  from frees [OF t this, of w] g s' none [of "peers s"] show ?thesis
    by (auto simp: d' good_def intro: rtranclp_trans)
qed

lemma service_loop_good:
  assumes g: "good E 0 None a s d w" and l: "service_loop K j k (s, d) = (s', d')"
  shows "tables_ok d' \<and> T d' = T (fst a) \<and> daemon_steps C a (d', w) \<and> R d' = (\<lambda>_. 0) \<and> crashed s' = crashed s \<and>
    ref_count (service_timer s') = 0 \<and> adapters (peers s') = []"
proof -
  have "ref_count (dispatch j k (service_timer s)) = 0"
    using g service_heldD(4) [of 0 None "R d" s] by (simp add: good_def dispatch_dead used_def)
  with l service_dispose_good [OF g, of "dispatch j k (service_timer s)"] show ?thesis
    by (simp add: service_loop_def)
qed

end

end
