(* ===== verification/Gumd_Bus.thy ===== *)
theory Gumd_Bus
  imports Gumd_Dbus_Inv
begin

text \<open>
  The daemon on the bus: its two services with their adapters over one daemon, and the
  events that reach them. Whatever their order, an object of the daemon has exactly the
  references of its adapters, no adapter or service is disposed of while it is in use, and
  the accounts change only as the abstract system of accounts does.
\<close>

section \<open>What the daemon provides\<close>

interpretation tables_keeper: object_operations C "\<lambda>_. True" "\<lambda>_. 0" for C
  by unfold_locales (simp_all add: balanced_def wp_def)

text \<open>A request that is served is a step of the daemon and keeps the tables.\<close>

lemma serve_step:
  assumes "tables_ok d" "held q d" "serve C q = do { m; ret () }"
  shows "wp m (\<lambda>_ (d', w'). tables_ok d' \<and> daemon_steps C (d, w) (d', w')) (d, w)"
proof -
  have "tables_keeper.daemon_ok (d, w)" using assms(1) by (simp add: tables_keeper.daemon_ok_def tables_ok_def)
  from tables_keeper.request_kept [OF assms(2) this, of C] have
    t: "wp (serve C q) (\<lambda>_ (d', w'). tables_ok d') (d, w)"
    by (rule wp_mono) (auto simp: tables_keeper.daemon_ok_def tables_ok_def)
  have "wp (serve C q) (\<lambda>_ s'. daemon_steps C (d, w) s') (d, w)"
    unfolding wp_def by (intro r_into_rtranclp daemon_step.request [OF assms(2)]) (rule prod.collapse [symmetric])
  with t have "wp (serve C q) (\<lambda>_ (d', w'). tables_ok d' \<and> daemon_steps C (d, w) (d', w')) (d, w)"
    by (auto simp: wp_def)
  then show ?thesis unfolding assms(3) by (simp add: wp_def case_prod_beta)
qed

text \<open>References, as the operations of the daemon change them.\<close>

definition user_refs :: "daemon \<Rightarrow> oref \<Rightarrow> nat" where
  "user_refs d r = refs r (d_users d)"

definition group_refs :: "daemon \<Rightarrow> oref \<Rightarrow> nat" where
  "group_refs d r = refs r (d_groups d)"

lemma refs_simps [simp]: "refs q (obj_set r x S) = refs q S" "refs q (obj_put k r S) = refs q S"
  by (auto simp: refs_def obj_set_def obj_put_def split: option.split)

lemma refs_new: "objects_ok S \<Longrightarrow> refs q (obj_new x S) = refs q S + (if q = obj_next S then 1 else 0)"
proof -
  assume "objects_ok S"
  then have "obj_heap S (obj_next S) = None" by (metis alive_def less_irrefl objects_okD(5))
  then show ?thesis by (simp add: refs_def obj_new_def)
qed

lemma refs_ref: "alive r S \<Longrightarrow> refs q (obj_ref r S) = refs q S + (if q = r then 1 else 0)"
  by (auto simp: refs_def obj_ref_def alive_def)

lemma refs_unref: "objects_ok S \<Longrightarrow> refs q (obj_unref r S) = refs q S - (if q = r then 1 else 0)"
  by (auto simp: refs_def obj_unref_def Let_def split: option.split)

lemma refs_alive: "0 < refs r S \<Longrightarrow> alive r S"
  by (auto simp: refs_def alive_def split: option.splits)

abbreviation both_refs :: "daemon \<times> world \<Rightarrow> (oref \<Rightarrow> nat) \<times> (oref \<Rightarrow> nat)" where
  "both_refs s \<equiv> (user_refs (fst s), group_refs (fst s))"

lemma frame_lift: "frame both_refs (lift_wm m)"
  by (rule frameI) (simp add: wp_def lift_wm_def case_prod_beta)

lemma frame_get_daemon: "frame both_refs (get_daemon f)"
  by (rule frameI) (simp add: wp_def get_daemon_def case_prod_beta)

lemma frame_set:
  "(\<And>d. (user_refs (f d), group_refs (f d)) = (user_refs d, group_refs d)) \<Longrightarrow> frame both_refs (set_daemon f)"
  by (rule frameI) (simp add: wp_def set_daemon_def case_prod_beta)

lemma frame_emit: "frame both_refs (emit sg)"
  unfolding emit_def by (rule frame_set) (simp add: user_refs_def group_refs_def fun_eq_iff)

lemma frame_dm_error: "frame both_refs (dm_error e x)"
  unfolding dm_error_def by (intro frame_bind frame_lift frame_return)

lemma frame_calls: "frame both_refs (call_user r f)" "frame both_refs (call_group r g)"
  unfolding call_user_def call_group_def
  by (intro frame_rules frame_lift frame_get_daemon frame_set; simp add: user_refs_def group_refs_def fun_eq_iff)+

lemma frame_operations:
  "frame both_refs (gumd_daemon_add_user C u)" "frame both_refs (gumd_daemon_delete_user C u rem)"
  "frame both_refs (gumd_daemon_update_user C u)" "frame both_refs (gumd_daemon_add_group C g)"
  "frame both_refs (gumd_daemon_delete_group C g)" "frame both_refs (gumd_daemon_update_group C g)"
  "frame both_refs (gumd_daemon_add_group_member C g uid adm)" "frame both_refs (gumd_daemon_delete_group_member C g uid)"
  unfolding gumd_daemon_add_user_def gumd_daemon_delete_user_def gumd_daemon_update_user_def gumd_daemon_add_group_def
    gumd_daemon_delete_group_def gumd_daemon_update_group_def gumd_daemon_add_group_member_def
    gumd_daemon_delete_group_member_def
  by (intro frame_rules frame_lift frame_get_daemon frame_set frame_emit frame_dm_error frame_calls;
      simp add: user_refs_def group_refs_def fun_eq_iff)+

lemma lookup_alive: "objects_ok S \<Longrightarrow> obj_lookup k S = Some r \<Longrightarrow> alive r S"
  unfolding obj_lookup_def using map_of_SomeD objects_okD(2) by fastforce

lemma get_user_refs:
  assumes "tables_ok d"
  shows "wp (gumd_daemon_get_user C uid) (\<lambda>x (d', w'). group_refs d' = group_refs d \<and>
     user_refs d' = (\<lambda>q. user_refs d q + (if x = Some q then 1 else 0))) (d, w)"
  using assms unfolding gumd_daemon_get_user_def dm_error_def
  by (intro wp_bind wp_get_daemon wp_case_option wp_lift wp_set_daemon wp_return wp_of_run)
    (auto simp: tables_ok_def user_refs_def group_refs_def fun_eq_iff refs_ref refs_new dest: lookup_alive)

lemma get_group_refs:
  assumes "tables_ok d"
  shows "wp (gumd_daemon_get_group C gid) (\<lambda>x (d', w'). user_refs d' = user_refs d \<and>
     group_refs d' = (\<lambda>q. group_refs d q + (if x = Some q then 1 else 0))) (d, w)"
  using assms unfolding gumd_daemon_get_group_def dm_error_def
  by (intro wp_bind wp_get_daemon wp_case_option wp_lift wp_set_daemon wp_return wp_of_run)
    (auto simp: tables_ok_def user_refs_def group_refs_def fun_eq_iff refs_ref refs_new dest: lookup_alive)

text \<open>What makes and drops objects, as requests to the daemon.\<close>

lemma set_step:
  assumes "serve C q = set_daemon f" "\<And>d. held q d"
  shows "daemon_steps C (d, w) (f d, w)"
  using daemon_step.request [of q d C w "()" "(f d, w)"] assms(2)
  by (simp add: assms(1) set_daemon_def r_into_rtranclp)

interpretation users: served_objects C "user_kind C" user_refs group_refs for C
proof
  fix d r d' w assume t: "tables_ok d"
  { assume "k_new (user_kind C) d = (r, d')"
    then have "r = obj_next (d_users d)" "d' = d\<lparr>d_users := obj_new gumd_daemon_user_new (d_users d)\<rparr>"
      by (simp_all add: user_kind_def)
    with t set_step [of C NewUser "\<lambda>d. d\<lparr>d_users := obj_new gumd_daemon_user_new (d_users d)\<rparr>" d w]
    show "tables_ok d' \<and> group_refs d' = group_refs d \<and> user_refs d' = (\<lambda>q. user_refs d q + (if q = r then 1 else 0)) \<and>
        daemon_steps C (d, w) (d', w)"
      by (simp add: tables_ok_def objects_ok_new user_refs_def group_refs_def fun_eq_iff refs_new) }
  from t set_step [of C "UnrefUser r" "\<lambda>d. d\<lparr>d_users := obj_unref r (d_users d)\<rparr>" d w]
  show "tables_ok (k_unref (user_kind C) r d) \<and> group_refs (k_unref (user_kind C) r d) = group_refs d \<and>
      user_refs (k_unref (user_kind C) r d) = (\<lambda>q. user_refs d q - (if q = r then 1 else 0)) \<and>
      daemon_steps C (d, w) (k_unref (user_kind C) r d, w)"
    by (simp add: user_kind_def tables_ok_def objects_ok_unref user_refs_def group_refs_def fun_eq_iff refs_unref)
next
  fix d i w assume t: "tables_ok d"
  have "serve C (GetUser i) = do { gumd_daemon_get_user C i; ret () }" by simp
  note wp_conj [OF serve_step [OF t _ this] get_user_refs [OF t]]
  then have "wp (k_get (user_kind C) i) (\<lambda>x s'. (case s' of (d', w') \<Rightarrow> tables_ok d' \<and> daemon_steps C (d, w) (d', w')) \<and>
      (case s' of (d', w') \<Rightarrow> group_refs d' = group_refs d \<and> user_refs d' = (\<lambda>q. user_refs d q + (if x = Some q then 1 else 0)))) (d, w)"
    by (simp add: user_kind_def)
  then show "wp (k_get (user_kind C) i) (\<lambda>x (d', w'). tables_ok d' \<and> group_refs d' = group_refs d \<and>
      user_refs d' = (\<lambda>q. user_refs d q + (if x = Some q then 1 else 0)) \<and> daemon_steps C (d, w) (d', w')) (d, w)"
    by (rule wp_mono) auto
next
  show "frame files (k_by_name (user_kind C) n)" for n
    by (simp add: user_kind_def frame_lookups)
qed

interpretation groups: served_objects C "group_kind C" group_refs user_refs for C
proof
  fix d r d' w assume t: "tables_ok d"
  { assume "k_new (group_kind C) d = (r, d')"
    then have "r = obj_next (d_groups d)" "d' = d\<lparr>d_groups := obj_new gumd_daemon_group_new (d_groups d)\<rparr>"
      by (simp_all add: group_kind_def)
    with t set_step [of C NewGroup "\<lambda>d. d\<lparr>d_groups := obj_new gumd_daemon_group_new (d_groups d)\<rparr>" d w]
    show "tables_ok d' \<and> user_refs d' = user_refs d \<and> group_refs d' = (\<lambda>q. group_refs d q + (if q = r then 1 else 0)) \<and>
        daemon_steps C (d, w) (d', w)"
      by (simp add: tables_ok_def objects_ok_new user_refs_def group_refs_def fun_eq_iff refs_new) }
  from t set_step [of C "UnrefGroup r" "\<lambda>d. d\<lparr>d_groups := obj_unref r (d_groups d)\<rparr>" d w]
  show "tables_ok (k_unref (group_kind C) r d) \<and> user_refs (k_unref (group_kind C) r d) = user_refs d \<and>
      group_refs (k_unref (group_kind C) r d) = (\<lambda>q. group_refs d q - (if q = r then 1 else 0)) \<and>
      daemon_steps C (d, w) (k_unref (group_kind C) r d, w)"
    by (simp add: group_kind_def tables_ok_def objects_ok_unref user_refs_def group_refs_def fun_eq_iff refs_unref)
next
  fix d i w assume t: "tables_ok d"
  have "serve C (GetGroup i) = do { gumd_daemon_get_group C i; ret () }" by simp
  note wp_conj [OF serve_step [OF t _ this] get_group_refs [OF t]]
  then have "wp (k_get (group_kind C) i) (\<lambda>x s'. (case s' of (d', w') \<Rightarrow> tables_ok d' \<and> daemon_steps C (d, w) (d', w')) \<and>
      (case s' of (d', w') \<Rightarrow> user_refs d' = user_refs d \<and> group_refs d' = (\<lambda>q. group_refs d q + (if x = Some q then 1 else 0)))) (d, w)"
    by (simp add: group_kind_def)
  then show "wp (k_get (group_kind C) i) (\<lambda>x (d', w'). tables_ok d' \<and> user_refs d' = user_refs d \<and>
      group_refs d' = (\<lambda>q. group_refs d q + (if x = Some q then 1 else 0)) \<and> daemon_steps C (d, w) (d', w')) (d, w)"
    by (rule wp_mono) auto
next
  show "frame files (k_by_name (group_kind C) n)" for n
    by (simp add: group_kind_def frame_lookups)
qed

text \<open>The methods of an adapter work with the object it holds.\<close>

lemma op_wp:
  assumes "tables_ok d" "held q d" "serve C q = do { m; ret () }" "frame both_refs m"
  shows "wp m (\<lambda>_ (d', w'). tables_ok d' \<and> user_refs d' = user_refs d \<and> group_refs d' = group_refs d \<and>
     daemon_steps C (d, w) (d', w')) (d, w)"
proof -
  have "wp m (\<lambda>_ s'. both_refs s' = both_refs (d, w)) (d, w)" by (rule frame_wp [OF assms(4)])
  from wp_conj [OF serve_step [OF assms(1-3)] this] show ?thesis by (rule wp_mono) auto
qed

lemma user_method:
  assumes "serve C q = do { m; ret () }" "frame both_refs m" "\<And>d. 0 < user_refs d r \<Longrightarrow> held q d"
  shows "users.works_with C r m"
  unfolding users.works_with_def
proof (intro allI impI)
  fix d w assume "tables_ok d \<and> 0 < user_refs d r"
  with op_wp [OF _ assms(3) assms(1,2), of d w]
  show "wp m (\<lambda>_ (d', w'). tables_ok d' \<and> group_refs d' = group_refs d \<and> user_refs d' = user_refs d \<and>
      daemon_steps C (d, w) (d', w')) (d, w)" by (auto simp: wp_def)
qed

lemma group_method:
  assumes "serve C q = do { m; ret () }" "frame both_refs m" "\<And>d. 0 < group_refs d r \<Longrightarrow> held q d"
  shows "groups.works_with C r m"
  unfolding groups.works_with_def
proof (intro allI impI)
  fix d w assume "tables_ok d \<and> 0 < group_refs d r"
  with op_wp [OF _ assms(3) assms(1,2), of d w]
  show "wp m (\<lambda>_ (d', w'). tables_ok d' \<and> user_refs d' = user_refs d \<and> group_refs d' = group_refs d \<and>
      daemon_steps C (d, w) (d', w')) (d, w)" by (auto simp: wp_def)
qed

lemma wp_unit: "do { m; ret () } = m" for m :: "('s, unit) state"
  by (cases m) (simp add: State_Monad.bind_def State_Monad.return_def case_prod_beta)

lemma user_methods:
  "users.works_with C r (gumd_daemon_add_user C (Some r))" "users.works_with C r (gumd_daemon_delete_user C (Some r) rem)"
  "users.works_with C r (gumd_daemon_update_user C (Some r))"
  "users.works_with C r (call_user r (\<lambda>u. ret ((), user_set_property (c_env C) u p)))"
     apply (rule user_method [where q = "AddUser (Some r)"], simp, rule frame_operations)
     apply (simp add: user_refs_def refs_alive)
    apply (rule user_method [where q = "DeleteUser (Some r) rem"], simp, rule frame_operations, simp)
   apply (rule user_method [where q = "UpdateUser (Some r)"], simp, rule frame_operations, simp)
  apply (rule user_method [where q = "SetUser r p"], simp add: wp_unit, rule frame_calls, simp)
  done

lemma group_methods:
  "groups.works_with C r (gumd_daemon_add_group C (Some r))" "groups.works_with C r (gumd_daemon_delete_group C (Some r))"
  "groups.works_with C r (gumd_daemon_update_group C (Some r))"
  "groups.works_with C r (gumd_daemon_add_group_member C (Some r) uid adm)"
  "groups.works_with C r (gumd_daemon_delete_group_member C (Some r) uid)"
  "groups.works_with C r (call_group r (\<lambda>g. ret ((), group_set_property g p)))"
       apply (rule group_method [where q = "AddGroup (Some r)"], simp, rule frame_operations)
       apply (simp add: group_refs_def refs_alive)
      apply (rule group_method [where q = "DeleteGroup (Some r)"], simp, rule frame_operations, simp)
     apply (rule group_method [where q = "UpdateGroup (Some r)"], simp, rule frame_operations, simp)
    apply (rule group_method [where q = "AddGroupMember (Some r) uid adm"], simp, rule frame_operations, simp)
   apply (rule group_method [where q = "DeleteGroupMember (Some r) uid"], simp, rule frame_operations, simp)
  apply (rule group_method [where q = "SetGroup r p"], simp add: wp_unit, rule frame_calls, simp)
  done

section \<open>The bus\<close>

text \<open>
  A service that is made anew. On a peer-to-peer connection it has no timeout. It is NULL if
  its interface cannot be exported.
\<close>

definition service_new :: "32 word \<Rightarrow> bool \<Rightarrow> bool \<Rightarrow> service option" where
  "service_new to bus ex =
     (if \<not> ex then None
      else Some \<lparr>peers = [], caller_watchers = [], msg_bus = bus,
                 service_timer = (if to \<noteq> 0 \<and> bus then gum_disposable_set_timeout to gum_disposable_init else gum_disposable_init),
                 next_adapter = 0, object_counter = 0, replies = [], crashed = False\<rparr>)"

definition gumd_dbus_user_service_adapter_new_with_connection :: "ctx \<Rightarrow> bool \<Rightarrow> bool \<Rightarrow> service option" where
  "gumd_dbus_user_service_adapter_new_with_connection C bus ex = service_new (gumd_daemon_get_timeout C) bus ex"

definition gumd_dbus_group_service_adapter_new_with_connection :: "ctx \<Rightarrow> bool \<Rightarrow> bool \<Rightarrow> service option" where
  "gumd_dbus_group_service_adapter_new_with_connection C bus ex = service_new (gumd_daemon_get_timeout C) bus ex"

record bus =
  users_at :: service
  groups_at :: service
  bus_daemon :: daemon
  bus_world :: world

definition at_users :: "unit sm \<Rightarrow> bus \<Rightarrow> bus" where
  "at_users m b =
     (case run_state m (users_at b, bus_daemon b, bus_world b) of
        (_, s, d, w) \<Rightarrow> b\<lparr>users_at := s, bus_daemon := d, bus_world := w\<rparr>)"

definition at_groups :: "unit sm \<Rightarrow> bus \<Rightarrow> bus" where
  "at_groups m b =
     (case run_state m (groups_at b, bus_daemon b, bus_world b) of
        (_, s, d, w) \<Rightarrow> b\<lparr>groups_at := s, bus_daemon := d, bus_world := w\<rparr>)"

definition loop_users :: "(service \<times> daemon \<Rightarrow> service \<times> daemon) \<Rightarrow> bus \<Rightarrow> bus" where
  "loop_users f b = (case f (users_at b, bus_daemon b) of (s, d) \<Rightarrow> b\<lparr>users_at := s, bus_daemon := d\<rparr>)"

definition loop_groups :: "(service \<times> daemon \<Rightarrow> service \<times> daemon) \<Rightarrow> bus \<Rightarrow> bus" where
  "loop_groups f b = (case f (groups_at b, bus_daemon b) of (s, d) \<Rightarrow> b\<lparr>groups_at := s, bus_daemon := d\<rparr>)"

text \<open>What peers call.\<close>

datatype user_service_call = Create_new_user | Get_user uid_t | Get_user_by_name pstr | Get_user_list "string list option"

datatype group_service_call = Create_new_group | Get_group gid_t | Get_group_by_name pstr

datatype user_call = Add_user | Delete_user bool | Update_user | Write_user user_prop

datatype group_call = Add_group | Delete_group | Update_group | Add_member uid_t bool | Delete_member uid_t
  | Write_group group_prop

fun user_service :: "ctx \<Rightarrow> bus_call \<Rightarrow> user_service_call \<Rightarrow> unit sm" where
  "user_service C c Create_new_user = handle_create_new_user C c"
| "user_service C c (Get_user uid) = handle_get_user C c uid"
| "user_service C c (Get_user_by_name n) = handle_get_user_by_name C c n"
| "user_service C c (Get_user_list types) = handle_get_user_list C types"

fun group_service :: "ctx \<Rightarrow> bus_call \<Rightarrow> group_service_call \<Rightarrow> unit sm" where
  "group_service C c Create_new_group = handle_create_new_group C c"
| "group_service C c (Get_group gid) = handle_get_group C c gid"
| "group_service C c (Get_group_by_name n) = handle_get_group_by_name C c n"

fun user_adapter :: "ctx \<Rightarrow> nat \<Rightarrow> user_call \<Rightarrow> unit sm" where
  "user_adapter C i Add_user = handle_add_user C i"
| "user_adapter C i (Delete_user rem) = handle_delete_user C i rem"
| "user_adapter C i Update_user = handle_update_user C i"
| "user_adapter C i (Write_user p) = write_user_property C i p"

fun group_adapter :: "ctx \<Rightarrow> nat \<Rightarrow> group_call \<Rightarrow> unit sm" where
  "group_adapter C i Add_group = handle_add_group C i"
| "group_adapter C i Delete_group = handle_delete_group C i"
| "group_adapter C i Update_group = handle_update_group C i"
| "group_adapter C i (Add_member uid adm) = handle_add_group_member C i uid adm"
| "group_adapter C i (Delete_member uid) = handle_delete_group_member C i uid"
| "group_adapter C i (Write_group p) = write_group_property i p"

definition running :: "(bus \<Rightarrow> service) \<Rightarrow> bus \<Rightarrow> bool" where
  "running at b \<longleftrightarrow> \<not> crashed (users_at b) \<and> \<not> crashed (groups_at b) \<and> 0 < ref_count (service_timer (at b))"

text \<open>
  The events: a call to a service, a call to an adapter that is there, a peer that is gone,
  a source of an adapter or of the service that runs, and what others do on the machine.
  With \<open>E\<close>, only those in which exports succeed. A service that is gone is not made again.
\<close>

inductive bus_step :: "ctx \<Rightarrow> bool \<Rightarrow> bus \<Rightarrow> bus \<Rightarrow> bool" for C E where
  user_service: "running users_at b \<Longrightarrow> E \<longrightarrow> exported c \<Longrightarrow> bus_step C E b (at_users (user_service C c q) b)"
| user_adapter: "running users_at b \<Longrightarrow> find_adapter i (users_at b) \<noteq> None \<Longrightarrow>
    bus_step C E b (at_users (user_adapter C i uq) b)"
| user_peer: "running users_at b \<Longrightarrow> bus_step C E b (loop_users (on_bus_name_lost (user_kind C) name) b)"
| user_timer: "running users_at b \<Longrightarrow> find_adapter i (users_at b) = Some a \<Longrightarrow> (j, k) \<in> set (sources (a_timer a)) \<Longrightarrow>
    bus_step C E b (loop_users (adapter_loop (user_kind C) i j k) b)"
| user_service_timer: "running users_at b \<Longrightarrow> (j, k) \<in> set (sources (service_timer (users_at b))) \<Longrightarrow>
    bus_step C E b (loop_users (service_loop (user_kind C) j k) b)"
| group_service: "running groups_at b \<Longrightarrow> E \<longrightarrow> exported c \<Longrightarrow> bus_step C E b (at_groups (group_service C c gq) b)"
| group_adapter: "running groups_at b \<Longrightarrow> find_adapter i (groups_at b) \<noteq> None \<Longrightarrow>
    bus_step C E b (at_groups (group_adapter C i gc) b)"
| group_peer: "running groups_at b \<Longrightarrow> bus_step C E b (loop_groups (on_bus_name_lost (group_kind C) name) b)"
| group_timer: "running groups_at b \<Longrightarrow> find_adapter i (groups_at b) = Some a \<Longrightarrow> (j, k) \<in> set (sources (a_timer a)) \<Longrightarrow>
    bus_step C E b (loop_groups (adapter_loop (group_kind C) i j k) b)"
| group_service_timer: "running groups_at b \<Longrightarrow> (j, k) \<in> set (sources (service_timer (groups_at b))) \<Longrightarrow>
    bus_step C E b (loop_groups (service_loop (group_kind C) j k) b)"
| others: "files w = files (bus_world b) \<Longrightarrow> bus_step C E b (b\<lparr>bus_world := w\<rparr>)"

abbreviation bus_steps :: "ctx \<Rightarrow> bool \<Rightarrow> bus \<Rightarrow> bus \<Rightarrow> bool" where
  "bus_steps C E \<equiv> (bus_step C E)\<^sup>*\<^sup>*"

section \<open>The invariant of the bus\<close>

text \<open>A service that is gone has no adapter left and no object a reference from it.\<close>

definition side_ok :: "bool \<Rightarrow> (oref \<Rightarrow> nat) \<Rightarrow> service \<Rightarrow> bool" where
  "side_ok E R s \<longleftrightarrow> \<not> crashed s \<and>
     (if ref_count (service_timer s) = 0 then R = (\<lambda>_. 0) \<and> adapters (peers s) = []
      else service_ok R s \<and> (E \<longrightarrow> no_null s))"

definition bus_ok :: "bool \<Rightarrow> bus \<Rightarrow> bool" where
  "bus_ok E b \<longleftrightarrow> tables_ok (bus_daemon b) \<and> side_ok E (user_refs (bus_daemon b)) (users_at b) \<and>
     side_ok E (group_refs (bus_daemon b)) (groups_at b)"

definition bus_crashed :: "bus \<Rightarrow> bool" where
  "bus_crashed b \<longleftrightarrow> crashed (users_at b) \<or> crashed (groups_at b)"

text \<open>What one event does: the daemon makes its steps, and the invariant stays or the process is dead.\<close>

definition bus_next :: "ctx \<Rightarrow> bool \<Rightarrow> bus \<Rightarrow> bus \<Rightarrow> bool" where
  "bus_next C E b b' \<longleftrightarrow> daemon_steps C (bus_daemon b, bus_world b) (bus_daemon b', bus_world b') \<and>
     (bus_ok E b' \<or> \<not> E \<and> bus_crashed b')"

lemma users_good:
  assumes "bus_ok E b" "running users_at b"
  shows "users.good C E 0 None (bus_daemon b, bus_world b) (users_at b) (bus_daemon b) (bus_world b)"
  using assms by (simp add: bus_ok_def side_ok_def users.good_def running_def)

lemma groups_good:
  assumes "bus_ok E b" "running groups_at b"
  shows "groups.good C E 0 None (bus_daemon b, bus_world b) (groups_at b) (bus_daemon b) (bus_world b)"
  using assms by (simp add: bus_ok_def side_ok_def groups.good_def running_def)

lemma running_ref: "service_ok R s \<Longrightarrow> ref_count (service_timer s) = 1"
  using service_heldD(4) by (auto simp: used_def)

lemma users_next:
  assumes "bus_ok E b" "users.done_or_crashed C E (bus_daemon b, bus_world b) s d w"
  shows "bus_next C E b (b\<lparr>users_at := s, bus_daemon := d, bus_world := w\<rparr>)"
  using assms running_ref [of "user_refs d" s]
  by (auto simp: bus_next_def bus_ok_def side_ok_def bus_crashed_def users.done_or_crashed_def users.good_def)

lemma groups_next:
  assumes "bus_ok E b" "groups.done_or_crashed C E (bus_daemon b, bus_world b) s d w"
  shows "bus_next C E b (b\<lparr>groups_at := s, bus_daemon := d, bus_world := w\<rparr>)"
  using assms running_ref [of "group_refs d" s]
  by (auto simp: bus_next_def bus_ok_def side_ok_def bus_crashed_def groups.done_or_crashed_def groups.good_def)

lemma at_users_next:
  assumes "bus_ok E b" "wp m (\<lambda>_ (s, d, w). users.done_or_crashed C E (bus_daemon b, bus_world b) s d w)
      (users_at b, bus_daemon b, bus_world b)"
  shows "bus_next C E b (at_users m b)"
  using users_next [OF assms(1)] assms(2) by (auto simp: at_users_def wp_def split: prod.splits)

lemma at_groups_next:
  assumes "bus_ok E b" "wp m (\<lambda>_ (s, d, w). groups.done_or_crashed C E (bus_daemon b, bus_world b) s d w)
      (groups_at b, bus_daemon b, bus_world b)"
  shows "bus_next C E b (at_groups m b)"
  using groups_next [OF assms(1)] assms(2) by (auto simp: at_groups_def wp_def split: prod.splits)

lemma user_service_next:
  assumes "bus_ok E b" "running users_at b" "E \<longrightarrow> exported c"
  shows "bus_next C E b (at_users (user_service C c q) b)"
proof (rule at_users_next [OF assms(1)])
  note g = users_good [OF assms(1,2), of C]
  have ex: "E \<Longrightarrow> exported c" using assms(3) by simp
  note fin = users.done_or_crashed_def
  show "wp (user_service C c q) (\<lambda>_ (s, d, w). users.done_or_crashed C E (bus_daemon b, bus_world b) s d w)
      (users_at b, bus_daemon b, bus_world b)"
  proof (cases q)
    case Create_new_user
    with users.create_new_good [OF g ex] show ?thesis
      by (auto simp: handle_create_new_user_def fin elim: wp_mono)
  next
    case (Get_user uid)
    with users.get_good [OF g ex, of uid] show ?thesis by (auto simp: handle_get_user_def elim: wp_mono)
  next
    case (Get_user_by_name n)
    with users.get_by_name_good [OF g ex, of n] show ?thesis by (auto simp: handle_get_user_by_name_def elim: wp_mono)
  next
    case (Get_user_list types)
    with users.list_good [OF g, of C types] show ?thesis by (auto simp: fin elim: wp_mono)
  qed
qed

lemma group_service_next:
  assumes "bus_ok E b" "running groups_at b" "E \<longrightarrow> exported c"
  shows "bus_next C E b (at_groups (group_service C c q) b)"
proof (rule at_groups_next [OF assms(1)])
  note g = groups_good [OF assms(1,2), of C]
  have ex: "E \<Longrightarrow> exported c" using assms(3) by simp
  note fin = groups.done_or_crashed_def
  show "wp (group_service C c q) (\<lambda>_ (s, d, w). groups.done_or_crashed C E (bus_daemon b, bus_world b) s d w)
      (groups_at b, bus_daemon b, bus_world b)"
  proof (cases q)
    case Create_new_group
    with groups.create_new_good [OF g ex] show ?thesis
      by (auto simp: handle_create_new_group_def fin elim: wp_mono)
  next
    case (Get_group gid)
    with groups.get_good [OF g ex, of gid] show ?thesis by (auto simp: handle_get_group_def elim: wp_mono)
  next
    case (Get_group_by_name n)
    with groups.get_by_name_good [OF g ex, of n] show ?thesis by (auto simp: handle_get_group_by_name_def elim: wp_mono)
  qed
qed

lemma user_adapter_next:
  assumes "bus_ok E b" "running users_at b" "find_adapter i (users_at b) \<noteq> None"
  shows "bus_next C E b (at_users (user_adapter C i q) b)"
proof (rule at_users_next [OF assms(1)])
  note g = users_good [OF assms(1,2), of C]
  note call = wp_step [OF users.call_good [OF g assms(3) user_methods(1)], OF wp_return]
    wp_step [OF users.call_good [OF g assms(3) user_methods(3)], OF wp_return]
  show "wp (user_adapter C i q) (\<lambda>_ (s, d, w). users.done_or_crashed C E (bus_daemon b, bus_world b) s d w)
      (users_at b, bus_daemon b, bus_world b)"
    by (cases q)
      (auto simp: handle_add_user_def handle_delete_user_def handle_update_user_def write_user_property_def
        users.done_or_crashed_def intro!: call wp_mono [OF users.delete_good [OF g assms(3) user_methods(2)]]
        wp_mono [OF users.write_good [OF g assms(3) user_methods(4)]])
qed

lemma group_adapter_next:
  assumes "bus_ok E b" "running groups_at b" "find_adapter i (groups_at b) \<noteq> None"
  shows "bus_next C E b (at_groups (group_adapter C i q) b)"
proof (rule at_groups_next [OF assms(1)])
  note g = groups_good [OF assms(1,2), of C]
  note call = wp_step [OF groups.call_good [OF g assms(3) group_methods(1)], OF wp_return]
    wp_step [OF groups.call_good [OF g assms(3) group_methods(3)], OF wp_return]
    wp_step [OF groups.call_good [OF g assms(3) group_methods(4)], OF wp_return]
    wp_step [OF groups.call_good [OF g assms(3) group_methods(5)], OF wp_return]
  show "wp (group_adapter C i q) (\<lambda>_ (s, d, w). groups.done_or_crashed C E (bus_daemon b, bus_world b) s d w)
      (groups_at b, bus_daemon b, bus_world b)"
    by (cases q)
      (auto simp: handle_add_group_def handle_delete_group_def handle_update_group_def write_group_property_def
        handle_add_group_member_def handle_delete_group_member_def
        groups.done_or_crashed_def intro!: call wp_mono [OF groups.delete_good [OF g assms(3) group_methods(2)]]
        wp_mono [OF groups.write_good [OF g assms(3) group_methods(6)]])
qed

lemma loop_users_next:
  assumes "bus_ok E b" "\<And>s d. f (users_at b, bus_daemon b) = (s, d) \<Longrightarrow>
      users.good C E 0 None (bus_daemon b, bus_world b) s d (bus_world b)"
  shows "bus_next C E b (loop_users f b)"
proof -
  obtain s d where f: "f (users_at b, bus_daemon b) = (s, d)" by (cases "f (users_at b, bus_daemon b)")
  with users_next [OF assms(1), of C s d "bus_world b"] assms(2) show ?thesis
    by (simp add: loop_users_def users.done_or_crashed_def)
qed

lemma loop_groups_next:
  assumes "bus_ok E b" "\<And>s d. f (groups_at b, bus_daemon b) = (s, d) \<Longrightarrow>
      groups.good C E 0 None (bus_daemon b, bus_world b) s d (bus_world b)"
  shows "bus_next C E b (loop_groups f b)"
proof -
  obtain s d where f: "f (groups_at b, bus_daemon b) = (s, d)" by (cases "f (groups_at b, bus_daemon b)")
  with groups_next [OF assms(1), of C s d "bus_world b"] assms(2) show ?thesis
    by (simp add: loop_groups_def groups.done_or_crashed_def)
qed

lemma user_service_timer_next:
  assumes "bus_ok E b" "running users_at b"
  shows "bus_next C E b (loop_users (service_loop (user_kind C) j k) b)"
proof -
  obtain s d where f: "service_loop (user_kind C) j k (users_at b, bus_daemon b) = (s, d)"
    by (cases "service_loop (user_kind C) j k (users_at b, bus_daemon b)")
  from users.service_loop_good [OF users_good [OF assms, of C] f] assms show ?thesis
    by (auto simp: loop_users_def f bus_next_def bus_ok_def side_ok_def)
qed

lemma group_service_timer_next:
  assumes "bus_ok E b" "running groups_at b"
  shows "bus_next C E b (loop_groups (service_loop (group_kind C) j k) b)"
proof -
  obtain s d where f: "service_loop (group_kind C) j k (groups_at b, bus_daemon b) = (s, d)"
    by (cases "service_loop (group_kind C) j k (groups_at b, bus_daemon b)")
  from groups.service_loop_good [OF groups_good [OF assms, of C] f] assms show ?thesis
    by (auto simp: loop_groups_def f bus_next_def bus_ok_def side_ok_def)
qed

lemma bus_step_next:
  assumes "bus_step C E b b'" "bus_ok E b"
  shows "bus_next C E b b'"
  using assms(1)
proof cases
  case (user_timer i a j k)
  with users.adapter_loop_good [OF users_good [OF assms(2) user_timer(2), of C], of i j k] show ?thesis
    by (auto intro: loop_users_next [OF assms(2)])
next
  case (group_timer i a j k)
  with groups.adapter_loop_good [OF groups_good [OF assms(2) group_timer(2), of C], of i j k] show ?thesis
    by (auto intro: loop_groups_next [OF assms(2)])
next
  case (user_peer name)
  with users.name_lost_good [OF users_good [OF assms(2) user_peer(2), of C]] show ?thesis
    by (auto intro: loop_users_next [OF assms(2)])
next
  case (group_peer name)
  with groups.name_lost_good [OF groups_good [OF assms(2) group_peer(2), of C]] show ?thesis
    by (auto intro: loop_groups_next [OF assms(2)])
next
  case (others w)
  with assms(2) daemon_step.outside [of w "bus_world b" C "bus_daemon b"] show ?thesis
    by (auto simp: bus_next_def bus_ok_def)
qed (use assms(2) user_service_next group_service_next user_adapter_next group_adapter_next
    user_service_timer_next group_service_timer_next in auto)

lemma bus_steps_next: "bus_steps C E b b' \<Longrightarrow> bus_ok E b \<Longrightarrow> bus_next C E b b'"
proof (induction rule: rtranclp_induct)
  case base
  then show ?case by (simp add: bus_next_def)
next
  case (step b' b'')
  show ?case
  proof (cases "bus_ok E b'")
    case True
    with bus_step_next [OF step(2) True] step show ?thesis by (auto simp: bus_next_def intro: rtranclp_trans)
  next
    case False
    with step have cr: "bus_crashed b'" "\<not> E" by (auto simp: bus_next_def)
    from step(2) cr obtain w where "files w = files (bus_world b')" "b'' = b'\<lparr>bus_world := w\<rparr>"
      by cases (auto simp: running_def bus_crashed_def)
    with step cr daemon_step.outside [of w "bus_world b'" C "bus_daemon b'"] show ?thesis
      by (auto simp: bus_next_def bus_crashed_def intro: rtranclp.rtrancl_into_rtrancl)
  qed
qed

section \<open>Every state reached\<close>

text \<open>The bus when the two services have been made over a new daemon.\<close>

definition bus_start :: "ctx \<Rightarrow> bool \<Rightarrow> world \<Rightarrow> bus" where
  "bus_start C bus w =
     \<lparr>users_at = the (gumd_dbus_user_service_adapter_new_with_connection C bus True),
      groups_at = the (gumd_dbus_group_service_adapter_new_with_connection C bus True),
      bus_daemon = gumd_daemon_init, bus_world = w\<rparr>"

lemma service_new_ok: "service_ok (\<lambda>_. 0) (the (service_new to bus True))"
  using used_init used_set_timeout [OF used_init, of to]
  by (auto simp: service_held_def service_new_def fun_eq_iff) (simp_all add: gum_disposable_init_def)

lemma bus_start_ok: "bus_ok E (bus_start C bus w)"
proof -
  have r0: "refs r no_objects = 0" for r by (simp add: refs_def no_objects_def)
  have z: "user_refs gumd_daemon_init = (\<lambda>_. 0)" "group_refs gumd_daemon_init = (\<lambda>_. 0)"
    by (simp_all add: user_refs_def group_refs_def gumd_daemon_init_def fun_eq_iff r0)
  have t: "tables_ok gumd_daemon_init"
    by (simp add: tables_ok_def gumd_daemon_init_def objects_ok_none)
  have "side_ok E (\<lambda>_. 0) (the (service_new to bus True))" for to
    using service_new_ok [of to bus] running_ref [OF service_new_ok [of to bus]]
    by (simp add: side_ok_def no_null_def) (simp add: service_new_def)
  then show ?thesis
    by (simp add: bus_ok_def bus_start_def z t gumd_dbus_user_service_adapter_new_with_connection_def
        gumd_dbus_group_service_adapter_new_with_connection_def)
qed

lemma bus_reach_ok: "bus_steps C E (bus_start C bus w) b \<Longrightarrow> E \<or> \<not> bus_crashed b \<Longrightarrow> bus_ok E b"
  using bus_steps_next [of C E "bus_start C bus w" b] bus_start_ok [of E C bus w] by (auto simp: bus_next_def)

lemma side_okD:
  assumes "side_ok E R s"
  shows "\<not> crashed s" "R r = holders (peers s) r" "a \<in> set (adapters (peers s)) \<Longrightarrow> used 0 (a_timer a)"
    "0 < ref_count (service_timer s) \<Longrightarrow> gum_disposable_get_auto_dispose (service_timer s) \<longleftrightarrow> peers s = []"
  using assms
  by (auto simp: side_ok_def service_held_def holders_def used_def gum_disposable_get_auto_dispose_def split: if_splits)

lemma at_once:
  assumes "bus_steps C E (bus_start C bus w) b" "running at b"
  shows "bus_ok False b"
  using bus_reach_ok [OF assms(1)] assms(2) by (auto simp: running_def bus_crashed_def bus_ok_def side_ok_def)

text \<open>A look-up answers, or the daemon crashes in it.\<close>

abbreviation in_cache :: "ctx \<Rightarrow> bus_call \<Rightarrow> uid_t \<Rightarrow> bus \<Rightarrow> adapter option option" where
  "in_cache C c uid b \<equiv> get_adapter_from_cache (user_kind C) (bus_daemon b) (sender c) uid (users_at b)"

lemma get_user_answered:
  assumes "bus_ok False b" "running users_at b" "b' = at_users (handle_get_user C c uid) b"
  shows "bus_crashed b' \<or> answered c (in_cache C c uid b) (users_at b) (users_at b')"
proof -
  have "wp (handle_get_user C c uid) (\<lambda>_ (s', d', w'). crashed s' \<or> answered c (in_cache C c uid b) (users_at b) s')
      (users_at b, bus_daemon b, bus_world b)"
    unfolding handle_get_user_def
    by (rule wp_mono [OF users.get_good [OF users_good [OF assms(1,2)]]]) auto
  with assms(3) show ?thesis by (auto simp: at_users_def wp_def bus_crashed_def split: prod.splits)
qed

lemma user_id_of_kind: "k_id (user_kind C) = gumd_dbus_user_adapter_get_uid"
  by (simp add: user_kind_def)

lemma lost_peer:
  assumes "bus_ok False b" "running users_at b" "b' = loop_users (on_bus_name_lost (user_kind C) name) b"
  shows "bus_ok False b' \<and> running users_at b' \<and> bus_world b' = bus_world b \<and> groups_at b' = groups_at b \<and>
    group_refs (bus_daemon b') = group_refs (bus_daemon b) \<and>
    peers (users_at b') = filter (\<lambda>e. snd e = None \<or> fst e \<noteq> name) (peers (users_at b))"
proof -
  obtain s d where f: "on_bus_name_lost (user_kind C) name (users_at b, bus_daemon b) = (s, d)"
    by (cases "on_bus_name_lost (user_kind C) name (users_at b, bus_daemon b)")
  then have b': "b' = b\<lparr>users_at := s, bus_daemon := d\<rparr>" by (simp add: assms(3) loop_users_def)
  note g = users.name_lost_good [OF users_good [OF assms(1,2), of C] f]
  then have h: "service_ok (user_refs d) s" "tables_ok d" "group_refs d = group_refs (bus_daemon b)" "\<not> crashed s"
    by (simp_all add: users.good_def)
  show ?thesis
    using g h running_ref [OF h(1)] assms(1,2) by (simp add: b' bus_ok_def side_ok_def running_def)
qed

section \<open>Instances\<close>

text \<open>The bus over the machine of the instances, with the adapter of a new user.\<close>

definition ref_call :: "bool \<Rightarrow> bus_call" where
  "ref_call ex = \<lparr>sender = '':1.7'', exported = ex, nonce = ''0f3a''\<rparr>"

definition ref_bus :: bus where
  "ref_bus = bus_start ref_ctx True ref_world"

definition ref_bus_user :: bus where
  "ref_bus_user = at_users (handle_create_new_user ref_ctx (ref_call True)) ref_bus"

lemma ref_bus_running: "running users_at ref_bus"
  by (simp add: ref_bus_def bus_start_def running_def service_new_def gumd_dbus_user_service_adapter_new_with_connection_def
      gumd_dbus_group_service_adapter_new_with_connection_def disposable_defs)
    (simp add: gum_disposable_init_def)

lemma ref_bus_step: "bus_steps ref_ctx True ref_bus ref_bus_user"
  using bus_step.user_service [OF ref_bus_running, of True "ref_call True" ref_ctx Create_new_user]
  by (simp add: ref_bus_user_def ref_call_def r_into_rtranclp)

definition ref_bus_null :: bus where
  "ref_bus_null = at_users (handle_create_new_user ref_ctx (ref_call False)) ref_bus"

lemma ref_bus_null:
  "running users_at ref_bus_null" "peers (users_at ref_bus_null) = [('':1.7'', None)]"
  "bus_steps ref_ctx False ref_bus ref_bus_null"
proof -
  have "running users_at ref_bus_null \<and> peers (users_at ref_bus_null) = [('':1.7'', None)]" by code_simp
  then show "running users_at ref_bus_null" "peers (users_at ref_bus_null) = [('':1.7'', None)]" by simp_all
  show "bus_steps ref_ctx False ref_bus ref_bus_null"
    using bus_step.user_service [OF ref_bus_running, of False "ref_call False" ref_ctx Create_new_user]
    by (simp add: ref_bus_null_def r_into_rtranclp)
qed

end
