(* ===== verification/Gum_Client_Op.thy ===== *)
theory Gum_Client_Op
  imports Gum_Types
begin

text \<open>
  The asynchronous calls of the client library (\<^verbatim>\<open>gum-user.c\<close>, \<^verbatim>\<open>gum-group.c\<close>): an object
  keeps one operation, the callback of its caller with the error to hand to it; a call sets
  it up, the answer from the bus adds a source to the main loop, and that source calls back.
  The properties: one call at a time is called back once with its own result; and what goes
  wrong otherwise.
\<close>

section \<open>The operation of an object\<close>

datatype client_error = Remote_error GumError | Transport_error

text \<open>A callback is known by a number, for the call that it was given to.\<close>

record user_op =
  op_callback :: "nat option"
  op_error :: "client_error option"
  cb_id :: nat

text \<open>
  The object with the sources of its main loop (numbers from 1 on), the calls not answered
  yet and the callbacks made. \<open>proxy_there\<close>: it has a proxy of a remote object.
  \<open>cancelled\<close>: it was disposed of, which cancels its calls. \<open>crashed_client\<close>: an operation
  was read that is not there.
\<close>

record client_object =
  priv_op :: "user_op option"
  proxy_there :: bool
  idles :: "nat list"
  next_idle :: nat
  unanswered :: "nat list"
  called :: "(nat \<times> client_error option) list"
  cancelled :: bool
  crashed_client :: bool

definition gum_user_init :: client_object where
  "gum_user_init = \<lparr>priv_op = None, proxy_there = False, idles = [], next_idle = 1, unanswered = [], called = [],
     cancelled = False, crashed_client = False\<rparr>"

definition source_remove :: "nat \<Rightarrow> client_object \<Rightarrow> client_object" where
  "source_remove i u = u\<lparr>idles := filter (\<lambda>j. j \<noteq> i) (idles u)\<rparr>"

definition free_op :: "client_object \<Rightarrow> client_object" where
  "free_op u =
     (case priv_op u of
        None \<Rightarrow> u
      | Some op \<Rightarrow> (if cb_id op > 0 then source_remove (cb_id op) u else u)\<lparr>priv_op := None\<rparr>)"

definition create_op :: "nat option \<Rightarrow> client_object \<Rightarrow> client_object" where
  "create_op callback u = (free_op u)\<lparr>priv_op := Some \<lparr>op_callback = callback, op_error = None, cb_id = 0\<rparr>\<rparr>"

definition setup_idle_callback :: "client_error option \<Rightarrow> client_object \<Rightarrow> client_object" where
  "setup_idle_callback error u =
     (case priv_op u of
        None \<Rightarrow> u\<lparr>crashed_client := True\<rparr>
      | Some op \<Rightarrow>
          if op_callback op = None then u
          else (let op = (if error \<noteq> None then op\<lparr>op_error := error\<rparr> else op)
                in u\<lparr>priv_op := Some (op\<lparr>cb_id := next_idle u\<rparr>), idles := idles u @ [next_idle u],
                     next_idle := next_idle u + 1\<rparr>))"

text \<open>\<open>f\<close> is what the callback of the caller does to the object.\<close>

definition trigger_callback :: "(nat \<Rightarrow> client_object \<Rightarrow> client_object) \<Rightarrow> client_object \<Rightarrow> client_object" where
  "trigger_callback f u =
     (case priv_op u of
        None \<Rightarrow> u\<lparr>crashed_client := True\<rparr>
      | Some op \<Rightarrow>
          (let u = (case op_callback op of None \<Rightarrow> u
                    | Some k \<Rightarrow> f k (u\<lparr>called := called u @ [(k, op_error op)]\<rparr>))
           in case priv_op u of
                None \<Rightarrow> u\<lparr>crashed_client := True\<rparr>
              | Some op \<Rightarrow> u\<lparr>priv_op := Some (op\<lparr>cb_id := 0\<rparr>)\<rparr>))"

text \<open>A source that returns FALSE is removed.\<close>

definition run_idle :: "(nat \<Rightarrow> client_object \<Rightarrow> client_object) \<Rightarrow> nat \<Rightarrow> client_object \<Rightarrow> client_object" where
  "run_idle f i u = source_remove i (trigger_callback f u)"

text \<open>
  A call over the bus, and what its answer does: \<open>gum_user_add\<close> and its like need a remote
  object, and are refused without; \<open>gum_user_create\<close> and its like make the object, and the
  answer its proxy, if that succeeds (\<open>proxied\<close>); nobody is told of a proxy that fails.
\<close>

definition start_call :: "nat \<Rightarrow> client_object \<Rightarrow> client_object" where
  "start_call k u = (create_op (Some k) u)\<lparr>unanswered := unanswered u @ [k]\<rparr>"

definition gum_user_add :: "nat \<Rightarrow> client_object \<Rightarrow> bool \<times> client_object" where
  "gum_user_add k u = (if proxy_there u then (True, start_call k u) else (False, u))"

definition gum_user_create :: "nat \<Rightarrow> client_object" where
  "gum_user_create k = start_call k gum_user_init"

definition gum_user_get_by_name :: "nat \<Rightarrow> pstr \<Rightarrow> client_object option" where
  "gum_user_get_by_name k username = (if username = None then None else Some (start_call k gum_user_init))"

definition on_user_cb :: "client_error option \<Rightarrow> client_object \<Rightarrow> client_object" where
  "on_user_cb error u = (if cancelled u then u else setup_idle_callback error u)"

definition on_new_user_cb :: "bool \<Rightarrow> client_error option \<Rightarrow> client_object \<Rightarrow> client_object" where
  "on_new_user_cb proxied error u =
     (if cancelled u then u
      else setup_idle_callback error (if error = None then u\<lparr>proxy_there := proxied\<rparr> else u))"

definition answer_call :: "nat \<Rightarrow> client_error option \<Rightarrow> client_object \<Rightarrow> client_object" where
  "answer_call k error u = (on_user_cb error u)\<lparr>unanswered := remove1 k (unanswered u)\<rparr>"

definition answer_new_call :: "bool \<Rightarrow> nat \<Rightarrow> client_error option \<Rightarrow> client_object \<Rightarrow> client_object" where
  "answer_new_call proxied k error u = (on_new_user_cb proxied error u)\<lparr>unanswered := remove1 k (unanswered u)\<rparr>"

text \<open>The adapter of the object tells that it is gone; the end of the object itself.\<close>

definition on_user_remote_object_destroyed :: "client_object \<Rightarrow> client_object" where
  "on_user_remote_object_destroyed u = u\<lparr>proxy_there := False\<rparr>"

definition client_dispose :: "client_object \<Rightarrow> client_object" where
  "client_dispose u = (free_op u)\<lparr>proxy_there := False, cancelled := True\<rparr>"

text \<open>In \<^verbatim>\<open>gum-group.c\<close> the operation is freed without its source.\<close>

definition group_free_op :: "client_object \<Rightarrow> client_object" where
  "group_free_op u = u\<lparr>priv_op := None\<rparr>"

definition group_create_op :: "nat option \<Rightarrow> client_object \<Rightarrow> client_object" where
  "group_create_op callback u =
     (group_free_op u)\<lparr>priv_op := Some \<lparr>op_callback = callback, op_error = None, cb_id = 0\<rparr>\<rparr>"

definition group_start_call :: "nat \<Rightarrow> client_object \<Rightarrow> client_object" where
  "group_start_call k u = (group_create_op (Some k) u)\<lparr>unanswered := unanswered u @ [k]\<rparr>"

definition gum_group_add :: "nat \<Rightarrow> client_object \<Rightarrow> bool \<times> client_object" where
  "gum_group_add k u = (if proxy_there u then (True, group_start_call k u) else (False, u))"

definition gum_group_create :: "nat \<Rightarrow> client_object" where
  "gum_group_create k = group_start_call k gum_user_init"

definition gum_group_get_by_name :: "nat \<Rightarrow> pstr \<Rightarrow> client_object option" where
  "gum_group_get_by_name k groupname = (if groupname = None then None else Some (group_start_call k gum_user_init))"

definition group_client_dispose :: "client_object \<Rightarrow> client_object" where
  "group_client_dispose u =
     (let u = (case priv_op u of
                 None \<Rightarrow> u
               | Some op \<Rightarrow> if cb_id op > 0
                           then (source_remove (cb_id op) u)\<lparr>priv_op := Some (op\<lparr>cb_id := 0\<rparr>)\<rparr> else u)
      in u\<lparr>proxy_there := False, cancelled := True\<rparr>)"

section \<open>One call at a time\<close>

text \<open>
  The use that the library can serve: a call is made only when the one before has been called
  back, and callbacks leave the object alone. A call that is refused changes nothing and is
  no step. The last argument collects the results that the bus gave while the object was
  there.
\<close>

inductive client_step :: "client_object \<times> (nat \<times> client_error option) list \<Rightarrow>
    client_object \<times> (nat \<times> client_error option) list \<Rightarrow> bool" where
  create: "client_step (gum_user_init, []) (gum_user_create k, [])"
| get_by_name: "gum_user_get_by_name k name = Some u \<Longrightarrow> client_step (gum_user_init, []) (u, [])"
| group_create: "client_step (gum_user_init, []) (gum_group_create k, [])"
| group_get_by_name: "gum_group_get_by_name k name = Some u \<Longrightarrow> client_step (gum_user_init, []) (u, [])"
| call: "unanswered u = [] \<Longrightarrow> idles u = [] \<Longrightarrow> \<not> cancelled u \<Longrightarrow> gum_user_add k u = (True, u') \<Longrightarrow>
    client_step (u, rs) (u', rs)"
| group_call: "unanswered u = [] \<Longrightarrow> idles u = [] \<Longrightarrow> \<not> cancelled u \<Longrightarrow> gum_group_add k u = (True, u') \<Longrightarrow>
    client_step (u, rs) (u', rs)"
| answer_new: "k \<in> set (unanswered u) \<Longrightarrow>
    client_step (u, rs) (answer_new_call proxied k e u, if cancelled u then rs else rs @ [(k, e)])"
| destroyed: "client_step (u, rs) (on_user_remote_object_destroyed u, rs)"
| answer: "k \<in> set (unanswered u) \<Longrightarrow>
    client_step (u, rs) (answer_call k e u, if cancelled u then rs else rs @ [(k, e)])"
| idle: "i \<in> set (idles u) \<Longrightarrow> client_step (u, rs) (run_idle (\<lambda>k u. u) i u, rs)"
| dispose: "client_step (u, rs) (client_dispose u, rs)"
| group_dispose: "client_step (u, rs) (group_client_dispose u, rs)"

inductive_cases client_stepE: "client_step s s'"

text \<open>
  A call is waiting for its answer, or its source is in the loop with its result, or neither;
  the results called back are those given, up to the one that is in the loop.
\<close>

definition client_ok :: "client_object \<times> (nat \<times> client_error option) list \<Rightarrow> bool" where
  "client_ok s \<longleftrightarrow> (case s of (u, rs) \<Rightarrow> \<not> crashed_client u \<and> 0 < next_idle u \<and>
     (if cancelled u then idles u = [] \<and> (\<exists>p. rs = called u @ p \<and> length p \<le> 1)
      else (idles u = [] \<and> called u = rs \<and>
              (unanswered u = [] \<or> (\<exists>k. unanswered u = [k] \<and>
                 priv_op u = Some \<lparr>op_callback = Some k, op_error = None, cb_id = 0\<rparr>)) \<or>
            (\<exists>k e i. idles u = [i] \<and> 0 < i \<and> unanswered u = [] \<and> rs = called u @ [(k, e)] \<and>
               priv_op u = Some \<lparr>op_callback = Some k, op_error = e, cb_id = i\<rparr>))))"

lemmas client_defs = gum_user_add_def gum_group_add_def gum_user_create_def gum_group_create_def
  gum_user_get_by_name_def gum_group_get_by_name_def answer_new_call_def on_new_user_cb_def
  on_user_remote_object_destroyed_def start_call_def create_op_def free_op_def source_remove_def group_start_call_def
  group_create_op_def group_free_op_def answer_call_def on_user_cb_def setup_idle_callback_def run_idle_def
  trigger_callback_def client_dispose_def group_client_dispose_def

lemma client_step_ok: "client_step s s' \<Longrightarrow> client_ok s \<Longrightarrow> client_ok s'"
proof (induction rule: client_step.induct)
  case (call u k u' rs)
  then show ?case by (auto simp: client_ok_def client_defs split: option.splits if_splits)
next
  case (group_call u k u' rs)
  then show ?case by (auto simp: client_ok_def client_defs split: option.splits if_splits)
next
  case (answer k u rs e)
  then show ?case by (cases "cancelled u") (auto simp: client_ok_def client_defs Let_def)
next
  case (answer_new k u rs proxied e)
  then show ?case by (cases "cancelled u") (auto simp: client_ok_def client_defs Let_def)
next
  case (idle i u rs)
  then show ?case by (auto simp: client_ok_def client_defs split: option.splits if_splits)
next
  case (dispose u rs)
  then show ?case by (auto simp: client_ok_def client_defs split: option.splits if_splits)
next
  case (group_dispose u rs)
  then show ?case by (auto simp: client_ok_def client_defs Let_def split: option.splits if_splits)
qed (auto simp: client_ok_def client_defs gum_user_init_def split: if_splits)

lemma client_steps_ok: "client_step\<^sup>*\<^sup>* s s' \<Longrightarrow> client_ok s \<Longrightarrow> client_ok s'"
  by (induction rule: rtranclp_induct) (auto intro: client_step_ok)

lemma client_init_ok: "client_ok (gum_user_init, [])"
  by (simp add: client_ok_def gum_user_init_def)

section \<open>Properties\<close>

text \<open>
  C30. Calls of the client library, made one at a time, with callbacks that leave the object
  alone. The library does not read an operation that is not there. While the object is alive
  the callbacks made are those of the calls answered, each once, in order and with its own
  result; the last may still be in the main loop, in one source. If no answer is awaited and
  no source is left, all have been made. Once the object is disposed of, no source is left
  that could call back, and at most the last answer was not handed on.
\<close>

theorem client_calls_back_once:
  assumes "client_step\<^sup>*\<^sup>* (gum_user_init, []) (u, rs)"
  shows "\<not> crashed_client u \<and> length (idles u) \<le> 1 \<and>
     (\<exists>rest. rs = called u @ rest \<and> length rest \<le> 1 \<and> (\<not> cancelled u \<longrightarrow> length rest = length (idles u))) \<and>
     (cancelled u \<longrightarrow> idles u = [])"
  using client_steps_ok [OF assms client_init_ok]
  by (cases "cancelled u") (auto simp: client_ok_def)

definition ref_call_made :: client_object where
  "ref_call_made = run_idle (\<lambda>k u. u) 1 (answer_new_call True 7 (Some Transport_error) (gum_user_create 7))"

lemma ref_call_steps: "client_step\<^sup>*\<^sup>* (gum_user_init, []) (ref_call_made, [(7, Some Transport_error)])"
proof -
  let ?u1 = "gum_user_create 7" and ?u2 = "answer_new_call True 7 (Some Transport_error) (gum_user_create 7)"
  have "client_step (gum_user_init, []) (?u1, [])"
    by (rule client_step.create)
  moreover have "client_step (?u1, []) (?u2, [(7, Some Transport_error)])"
    using client_step.answer_new [of 7 ?u1 "[]" True "Some Transport_error"] by (simp add: gum_user_init_def client_defs)
  moreover have "client_step (?u2, [(7, Some Transport_error)]) (ref_call_made, [(7, Some Transport_error)])"
    unfolding ref_call_made_def by (rule client_step.idle) (simp add: gum_user_init_def client_defs)
  ultimately show ?thesis by (meson converse_rtranclp_into_rtranclp rtranclp.rtrancl_refl)
qed

theorem client_calls_back_once_witness:
  "called ref_call_made = [(7, Some Transport_error)] \<and> idles ref_call_made = [] \<and> \<not> crashed_client ref_call_made"
  using client_calls_back_once [OF ref_call_steps]
  by (simp add: ref_call_made_def gum_user_init_def client_defs)

text \<open>
  C31. What the library does otherwise, with an object whose first call awaits its answer. A
  second call takes over the operation: the answers of both go to the second callback, which
  is called twice, and the first never is; if both answers come before the main loop runs,
  the first source is forgotten and is still there after the object is disposed of. A
  callback that disposes of its object makes the library read an operation that is gone. A
  group object that is called again before its source has run calls the new callback at once,
  without a result.
\<close>

theorem client_overlapping_calls:
  assumes "priv_op u = Some \<lparr>op_callback = Some k, op_error = None, cb_id = 0\<rparr>"
    and "unanswered u = [k]" and "idles u = []" and "0 < next_idle u" and "\<not> cancelled u" and "k \<noteq> m"
  shows "(let i = next_idle u;
         u1 = run_idle (\<lambda>k u. u) i (answer_call k e1 (start_call m u));
         u2 = run_idle (\<lambda>k u. u) (next_idle u1) (answer_call m e2 u1)
     in called u1 = called u @ [(m, e1)] \<and> called u2 = called u @ [(m, e1), (m, if e2 \<noteq> None then e2 else e1)]) \<and>
     idles (client_dispose (answer_call m e2 (answer_call k e1 (start_call m u)))) = [next_idle u] \<and>
     crashed_client (run_idle (\<lambda>k. client_dispose) (next_idle u) (answer_call k e1 u)) \<and>
     called (run_idle (\<lambda>k u. u) (next_idle u) (group_start_call m (answer_call k e1 u))) = called u @ [(m, None)]"
  using assms by (auto simp: client_defs Let_def)

theorem client_overlapping_calls_witness:
  "crashed_client (run_idle (\<lambda>k. client_dispose) 1 (answer_call 7 None (start_call 7 gum_user_init)))"
proof -
  let ?u = "start_call 7 gum_user_init"
  have "priv_op ?u = Some \<lparr>op_callback = Some 7, op_error = None, cb_id = 0\<rparr>" "unanswered ?u = [7]" "idles ?u = []"
    "0 < next_idle ?u" "\<not> cancelled ?u" "next_idle ?u = 1"
    by (simp_all add: gum_user_init_def client_defs)
  from client_overlapping_calls [OF this(1-5), of 8] this(6) show ?thesis by simp
qed

end
