(* ===== verification/Gum_Client.thy ===== *)
theory Gum_Client
  imports Gumd_Bus Gum_Client_Op
begin

text \<open>
  The synchronous calls of the client library (\<^verbatim>\<open>gum-user.c\<close>, \<^verbatim>\<open>gum-group.c\<close>). A client
  object works in one of two ways: offline, with a daemon in its own process, or over the bus
  with the adapter at an object path. The property: the two come to the same.
\<close>

section \<open>The client\<close>

text \<open>
  A client process: the daemon it may have itself, the bus with the remote one on the same
  machine, what D-Bus supplies for its calls, whether it has a proxy of the services
  (\<open>connected\<close>) and whether proxies of objects can be made.
\<close>

record client =
  remote :: bus
  local_daemon :: daemon
  client_call :: bus_call
  connected :: bool
  proxies :: bool

type_synonym 'a cm = "(client, 'a) state"

record gum_object =
  is_offline :: bool
  offline_object :: "oref option"
  dbus_object :: "string option"

text \<open>\<open>GUser *error = NULL\<close> before a call of the daemon in the process.\<close>

definition on_local :: "'a dm \<Rightarrow> 'a cm" where
  "on_local m = State (\<lambda>c.
     (case run_state m (local_daemon c, (bus_world (remote c))\<lparr>gerror := None\<rparr>) of
        (x, d, w) \<Rightarrow> (x, c\<lparr>local_daemon := d, remote := (remote c)\<lparr>bus_world := w\<rparr>\<rparr>)))"

text \<open>
  A call over the bus returns the reply that it got, an error if the daemon is not there or
  never replies, and nothing at all without a proxy.
\<close>

datatype answer = Replied reply | No_reply | No_proxy

definition answer_of :: "service \<Rightarrow> service \<Rightarrow> answer" where
  "answer_of s s' = (if length (replies s') = length (replies s) then No_reply else Replied (last (replies s')))"

definition call_users :: "(bus_call \<Rightarrow> unit sm) \<Rightarrow> answer cm" where
  "call_users m = State (\<lambda>c.
     if \<not> connected c then (No_proxy, c)
     else if \<not> running users_at (remote c) then (No_reply, c)
     else (let b = at_users (m (client_call c)) (remote c)
           in (answer_of (users_at (remote c)) (users_at b), c\<lparr>remote := b\<rparr>)))"

definition call_groups :: "(bus_call \<Rightarrow> unit sm) \<Rightarrow> answer cm" where
  "call_groups m = State (\<lambda>c.
     if \<not> connected c then (No_proxy, c)
     else if \<not> running groups_at (remote c) then (No_reply, c)
     else (let b = at_groups (m (client_call c)) (remote c)
           in (answer_of (groups_at (remote c)) (groups_at b), c\<lparr>remote := b\<rparr>)))"

text \<open>The adapter at an object path; the bus answers for a path that is not there.\<close>

definition adapter_at :: "string \<Rightarrow> service \<Rightarrow> nat option" where
  "adapter_at path s = map_option a_id (List.find (\<lambda>a. a_path a = path) (adapters (peers s)))"

definition call_user_object :: "string \<Rightarrow> (nat \<Rightarrow> unit sm) \<Rightarrow> answer cm" where
  "call_user_object path m = do {
     i \<leftarrow> gets (\<lambda>c. adapter_at path (users_at (remote c)));
     case i of None \<Rightarrow> ret No_reply | Some i \<Rightarrow> call_users (\<lambda>_. m i) }"

definition call_group_object :: "string \<Rightarrow> (nat \<Rightarrow> unit sm) \<Rightarrow> answer cm" where
  "call_group_object path m = do {
     i \<leftarrow> gets (\<lambda>c. adapter_at path (groups_at (remote c)));
     case i of None \<Rightarrow> ret No_reply | Some i \<Rightarrow> call_groups (\<lambda>_. m i) }"

section \<open>Making and getting objects\<close>

definition new_object :: "bool \<Rightarrow> gum_object" where
  "new_object offline = \<lparr>is_offline = offline, offline_object = None, dbus_object = None\<rparr>"

text \<open>
  What the answer with an object path makes of the object: the proxy is tried, and its failure
  is not seen by the caller; an error gives up the object; with neither the object stays
  without a remote one.
\<close>

definition with_dbus_object :: "gum_object \<Rightarrow> answer \<Rightarrow> gum_object option cm" where
  "with_dbus_object u a = do {
     ok \<leftarrow> gets proxies;
     ret (case a of
            Replied (Reply_path (Some p)) \<Rightarrow> Some (if ok then u\<lparr>dbus_object := Some p\<rparr> else u)
          | No_proxy \<Rightarrow> Some u
          | _ \<Rightarrow> None) }"

text \<open>The object that the daemon in the process found, if any: without one there is an error.\<close>

definition with_offline_object :: "gum_object \<Rightarrow> oref option \<Rightarrow> gum_object option cm" where
  "with_offline_object u r = do {
     e \<leftarrow> gets (\<lambda>c. gerror (bus_world (remote c)));
     ret (if e \<noteq> None then None else Some (u\<lparr>offline_object := r\<rparr>)) }"

definition gum_user_create_sync :: "ctx \<Rightarrow> bool \<Rightarrow> gum_object option cm" where
  "gum_user_create_sync C offline =
     (let u = new_object offline
      in if is_offline u then do {
           r \<leftarrow> on_local (get_daemon (\<lambda>d. obj_next (d_users d)));
           on_local (set_daemon (\<lambda>d. d\<lparr>d_users := obj_new gumd_daemon_user_new (d_users d)\<rparr>));
           ret (Some (u\<lparr>offline_object := Some r\<rparr>)) }
         else do {
           a \<leftarrow> call_users (handle_create_new_user C);
           with_dbus_object u a })"

definition gum_user_get_sync :: "ctx \<Rightarrow> uid_t \<Rightarrow> bool \<Rightarrow> gum_object option cm" where
  "gum_user_get_sync C uid offline =
     (let u = new_object offline
      in if is_offline u then do {
           r \<leftarrow> on_local (gumd_daemon_get_user C uid);
           with_offline_object u r }
         else do {
           a \<leftarrow> call_users (\<lambda>c. handle_get_user C c uid);
           with_dbus_object u a })"

definition gum_user_get_by_name_sync :: "ctx \<Rightarrow> pstr \<Rightarrow> bool \<Rightarrow> gum_object option cm" where
  "gum_user_get_by_name_sync C username offline =
     (if username = None then ret None
      else (let u = new_object offline
            in if is_offline u then do {
                 r \<leftarrow> on_local (gumd_daemon_get_user_by_name C username);
                 with_offline_object u r }
               else do {
                 a \<leftarrow> call_users (\<lambda>c. handle_get_user_by_name C c username);
                 with_dbus_object u a }))"

definition gum_group_create_sync :: "ctx \<Rightarrow> bool \<Rightarrow> gum_object option cm" where
  "gum_group_create_sync C offline =
     (let g = new_object offline
      in if is_offline g then do {
           r \<leftarrow> on_local (get_daemon (\<lambda>d. obj_next (d_groups d)));
           on_local (set_daemon (\<lambda>d. d\<lparr>d_groups := obj_new gumd_daemon_group_new (d_groups d)\<rparr>));
           ret (Some (g\<lparr>offline_object := Some r\<rparr>)) }
         else do {
           ok \<leftarrow> gets connected;
           if \<not> ok then ret None
           else do {
             a \<leftarrow> call_groups (handle_create_new_group C);
             with_dbus_object g a } })"

definition gum_group_get_sync :: "ctx \<Rightarrow> gid_t \<Rightarrow> bool \<Rightarrow> gum_object option cm" where
  "gum_group_get_sync C gid offline =
     (let g = new_object offline
      in if is_offline g then do {
           r \<leftarrow> on_local (gumd_daemon_get_group C gid);
           with_offline_object g r }
         else do {
           a \<leftarrow> call_groups (\<lambda>c. handle_get_group C c gid);
           with_dbus_object g a })"

definition gum_group_get_by_name_sync :: "ctx \<Rightarrow> pstr \<Rightarrow> bool \<Rightarrow> gum_object option cm" where
  "gum_group_get_by_name_sync C groupname offline =
     (if groupname = None then ret None
      else (let g = new_object offline
            in if is_offline g then do {
                 r \<leftarrow> on_local (gumd_daemon_get_group_by_name C groupname);
                 with_offline_object g r }
               else do {
                 a \<leftarrow> call_groups (\<lambda>c. handle_get_group_by_name C c groupname);
                 with_dbus_object g a }))"

section \<open>Operations on an object\<close>

text \<open>The shape they share: the daemon of the process, or the adapter, or neither.\<close>

definition answer_ok :: "answer \<Rightarrow> bool" where
  "answer_ok a = (case a of Replied (Reply_error _) \<Rightarrow> False | Replied _ \<Rightarrow> True | _ \<Rightarrow> False)"

definition object_call :: "gum_object \<Rightarrow> (oref \<Rightarrow> bool dm) \<Rightarrow> (string \<Rightarrow> answer cm) \<Rightarrow> bool cm" where
  "object_call u op m =
     (case offline_object u of
        Some r \<Rightarrow> on_local (op r)
      | None \<Rightarrow>
          (case dbus_object u of
             None \<Rightarrow> ret False
           | Some path \<Rightarrow> do { a \<leftarrow> m path; ret (answer_ok a) }))"

definition gum_user_add_sync :: "ctx \<Rightarrow> gum_object \<Rightarrow> bool cm" where
  "gum_user_add_sync C u = object_call u (\<lambda>r. gumd_daemon_add_user C (Some r))
     (\<lambda>path. call_user_object path (handle_add_user C))"

definition gum_user_delete_sync :: "ctx \<Rightarrow> gum_object \<Rightarrow> bool \<Rightarrow> bool cm" where
  "gum_user_delete_sync C u rem_home_dir = object_call u (\<lambda>r. gumd_daemon_delete_user C (Some r) rem_home_dir)
     (\<lambda>path. call_user_object path (\<lambda>i. handle_delete_user C i rem_home_dir))"

definition gum_user_update_sync :: "ctx \<Rightarrow> gum_object \<Rightarrow> bool cm" where
  "gum_user_update_sync C u = object_call u (\<lambda>r. gumd_daemon_update_user C (Some r))
     (\<lambda>path. call_user_object path (handle_update_user C))"

definition gum_group_add_sync :: "ctx \<Rightarrow> gum_object \<Rightarrow> bool cm" where
  "gum_group_add_sync C g = object_call g (\<lambda>r. gumd_daemon_add_group C (Some r))
     (\<lambda>path. call_group_object path (handle_add_group C))"

definition gum_group_delete_sync :: "ctx \<Rightarrow> gum_object \<Rightarrow> bool cm" where
  "gum_group_delete_sync C g = object_call g (\<lambda>r. gumd_daemon_delete_group C (Some r))
     (\<lambda>path. call_group_object path (handle_delete_group C))"

definition gum_group_update_sync :: "ctx \<Rightarrow> gum_object \<Rightarrow> bool cm" where
  "gum_group_update_sync C g = object_call g (\<lambda>r. gumd_daemon_update_group C (Some r))
     (\<lambda>path. call_group_object path (handle_update_group C))"

definition gum_group_add_member_sync :: "ctx \<Rightarrow> gum_object \<Rightarrow> uid_t \<Rightarrow> bool \<Rightarrow> bool cm" where
  "gum_group_add_member_sync C g uid add_as_admin =
     object_call g (\<lambda>r. gumd_daemon_add_group_member C (Some r) uid add_as_admin)
       (\<lambda>path. call_group_object path (\<lambda>i. handle_add_group_member C i uid add_as_admin))"

definition gum_group_delete_member_sync :: "ctx \<Rightarrow> gum_object \<Rightarrow> uid_t \<Rightarrow> bool cm" where
  "gum_group_delete_member_sync C g uid = object_call g (\<lambda>r. gumd_daemon_delete_group_member C (Some r) uid)
     (\<lambda>path. call_group_object path (\<lambda>i. handle_delete_group_member C i uid))"

text \<open>Properties are written through to the object, wherever it is.\<close>

definition gum_user_set_property :: "ctx \<Rightarrow> gum_object \<Rightarrow> user_prop \<Rightarrow> unit cm" where
  "gum_user_set_property C u p =
     (case offline_object u of
        Some r \<Rightarrow> on_local (call_user r (\<lambda>x. ret ((), user_set_property (c_env C) x p)))
      | None \<Rightarrow>
          (case dbus_object u of
             None \<Rightarrow> ret ()
           | Some path \<Rightarrow> do { call_user_object path (\<lambda>i. write_user_property C i p); ret () }))"

definition gum_group_set_property :: "gum_object \<Rightarrow> group_prop \<Rightarrow> unit cm" where
  "gum_group_set_property g p =
     (case offline_object g of
        Some r \<Rightarrow> on_local (call_group r (\<lambda>x. ret ((), group_set_property x p)))
      | None \<Rightarrow>
          (case dbus_object g of
             None \<Rightarrow> ret ()
           | Some path \<Rightarrow> do { call_group_object path (\<lambda>i. write_group_property i p); ret () }))"

section \<open>An operation of the daemon on an object\<close>

text \<open>
  What an operation of the daemon returns, and what it makes of the object and the machine,
  depends on the object and the machine only.
\<close>

definition on_user :: "(oref \<Rightarrow> bool dm) \<Rightarrow> (daemon_user \<Rightarrow> (bool \<times> daemon_user) wm) \<Rightarrow> bool" where
  "on_user op f \<longleftrightarrow> (\<forall>r d w. alive r (d_users d) \<longrightarrow>
     wp (op r) (\<lambda>x (d', w'). run_state (f (user_object r d)) w = ((x, user_object r d'), w')) (d, w))"

definition on_group :: "(oref \<Rightarrow> bool dm) \<Rightarrow> (daemon_group \<Rightarrow> (bool \<times> daemon_group) wm) \<Rightarrow> bool" where
  "on_group op f \<longleftrightarrow> (\<forall>r d w. alive r (d_groups d) \<longrightarrow>
     wp (op r) (\<lambda>x (d', w'). run_state (f (group_object r d)) w = ((x, group_object r d'), w')) (d, w))"

lemma object_set: "alive r S \<Longrightarrow> obj_get dflt r (obj_set r x S) = x"
  by (auto simp: alive_def obj_get_def obj_set_def)

lemma object_put [simp]: "obj_get dflt r (obj_put k q S) = obj_get dflt r S"
  by (simp add: obj_get_def obj_put_def)

lemma call_user_run:
  "alive r (d_users d) \<Longrightarrow> wp (call_user r f)
     (\<lambda>x (d', w'). run_state (f (user_object r d)) w = ((x, user_object r d'), w')) (d, w)"
  by (simp add: wp_def call_user_def get_daemon_def set_daemon_def lift_wm_def case_prod_beta user_object_def object_set)

lemma call_group_run:
  "alive r (d_groups d) \<Longrightarrow> wp (call_group r f)
     (\<lambda>x (d', w'). run_state (f (group_object r d)) w = ((x, group_object r d'), w')) (d, w)"
  by (simp add: wp_def call_group_def get_daemon_def set_daemon_def lift_wm_def case_prod_beta group_object_def object_set)

text \<open>What follows the call in the daemon keeps the result, the object and the machine.\<close>

lemma call_user_then:
  assumes "alive r (d_users d)" "\<And>x d w. wp (rest x) (\<lambda>y (d', w'). y = x \<and> user_object r d' = user_object r d \<and> w' = w) (d, w)"
  shows "wp (call_user r f \<bind> rest) (\<lambda>x (d', w'). run_state (f (user_object r d)) w = ((x, user_object r d'), w')) (d, w)"
  apply (rule wp_step [OF call_user_run [OF assms(1)]])
  subgoal for x s' by (cases s') (auto intro!: wp_mono [OF assms(2)])
  done

lemma call_group_then:
  assumes "alive r (d_groups d)" "\<And>x d w. wp (rest x) (\<lambda>y (d', w'). y = x \<and> group_object r d' = group_object r d \<and> w' = w) (d, w)"
  shows "wp (call_group r f \<bind> rest) (\<lambda>x (d', w'). run_state (f (group_object r d)) w = ((x, group_object r d'), w')) (d, w)"
  apply (rule wp_step [OF call_group_run [OF assms(1)]])
  subgoal for x s' by (cases s') (auto intro!: wp_mono [OF assms(2)])
  done

lemmas object_kept = wp_if wp_return wp_bind wp_get_daemon wp_set_daemon

lemma user_operations:
  "on_user (\<lambda>r. gumd_daemon_add_user C (Some r)) (gumd_daemon_user_add C)"
  "on_user (\<lambda>r. gumd_daemon_delete_user C (Some r) rem) (\<lambda>u. gumd_daemon_user_delete C u rem)"
  "on_user (\<lambda>r. gumd_daemon_update_user C (Some r)) (gumd_daemon_user_update C)"
  unfolding on_user_def gumd_daemon_add_user_def gumd_daemon_delete_user_def gumd_daemon_update_user_def emit_def
    option.case
    apply (intro allI impI, rule call_user_then, assumption)
    apply (auto intro!: object_kept simp: user_object_def) [1]
   apply (intro allI impI, rule wp_bind, rule wp_get_daemon, rule call_user_then, assumption)
   apply (auto intro!: object_kept simp: user_object_def) [1]
  apply (intro allI impI, rule call_user_then, assumption)
  apply (auto intro!: object_kept simp: user_object_def) [1]
  done

lemma group_operations:
  "on_group (\<lambda>r. gumd_daemon_add_group C (Some r)) (\<lambda>g. gumd_daemon_group_add C g GUM_GROUP_INVALID_GID)"
  "on_group (\<lambda>r. gumd_daemon_delete_group C (Some r)) (gumd_daemon_group_delete C)"
  "on_group (\<lambda>r. gumd_daemon_update_group C (Some r)) (gumd_daemon_group_update C)"
  "on_group (\<lambda>r. gumd_daemon_add_group_member C (Some r) uid adm) (\<lambda>g. gumd_daemon_group_add_member C g uid adm)"
  "on_group (\<lambda>r. gumd_daemon_delete_group_member C (Some r) uid) (\<lambda>g. gumd_daemon_group_delete_member C g uid)"
  unfolding on_group_def gumd_daemon_add_group_def gumd_daemon_delete_group_def gumd_daemon_update_group_def emit_def
    gumd_daemon_add_group_member_def gumd_daemon_delete_group_member_def option.case
      apply (intro allI impI, rule call_group_then, assumption)
      apply (auto intro!: object_kept simp: group_object_def) [1]
     apply (intro allI impI, rule wp_bind, rule wp_get_daemon, rule call_group_then, assumption)
     apply (auto intro!: object_kept simp: group_object_def) [1]
    apply (intro allI impI, rule call_group_then, assumption)
    apply (auto intro!: object_kept simp: group_object_def) [1]
   apply (intro allI impI, rule call_group_run, assumption)+
  done

section \<open>The adapter does what the daemon does\<close>

definition replied :: "bool \<Rightarrow> service \<Rightarrow> service \<Rightarrow> bool" where
  "replied x s s' \<longleftrightarrow> (if x then \<exists>rp. replies s' = replies s @ [rp] \<and> \<not> error_reply rp
     else replies s' = replies s \<or> (\<exists>e. replies s' = replies s @ [Reply_error e]))"

lemma answer_ok_replied [simp]: "answer_ok (Replied rp) = (\<not> error_reply rp)"
  by (cases rp) (simp_all add: answer_ok_def error_reply_def)

lemma replied_answer: "replied x s s' \<Longrightarrow> answer_ok (answer_of s s') = x"
  by (auto simp: replied_def answer_of_def split: if_splits) (simp_all add: answer_ok_def error_reply_def)

lemma replies_on_adapter [simp]: "replies (on_adapter i f s) = replies s"
  by (simp add: on_adapter_def)

lemma wp_reply_gerror_replies:
  "Q () (s, d, w) \<Longrightarrow> (\<And>e. Q () (s\<lparr>replies := replies s @ [Reply_error e]\<rparr>, d, w)) \<Longrightarrow> wp reply_gerror Q (s, d, w)"
  by (auto simp: reply_gerror_def wp_def reply_def set_service_def lift_dm_def lift_wm_def split: option.split)

lemma call_runs:
  assumes "wp (op (object_of i s)) (\<lambda>x (d', w'). P x d' w') (d, w\<lparr>gerror := None\<rparr>)" "\<And>r d. \<not> error_reply (done r d)"
  shows "wp (handle_call i op done) (\<lambda>x (s', d', w'). P x d' w' \<and> replied x s s') (s, d, w)"
proof -
  let ?s = "on_adapter i (gum_disposable_set_auto_dispose False) s"
  have op: "wp (lift_dm (op (object_of i s))) (\<lambda>x (s', d', w'). s' = ?s \<and> P x d' w') (?s, d, w\<lparr>gerror := None\<rparr>)"
    by (rule wp_lift_dm, rule wp_mono [OF assms(1)]) auto
  show ?thesis
    unfolding handle_call_def
    apply (rule wp_bind, rule wp_set_service, rule wp_bind, rule wp_no_gerror, rule wp_bind, rule wp_get_service)
    unfolding object_of_on_adapter
    apply (rule wp_step [OF op])
    subgoal for x st
      by (cases st)
        (auto intro!: wp_bind wp_if wp_get_service wp_reply wp_reply_gerror_replies wp_set_service wp_return
          simp: replied_def assms(2))
    done
qed

lemma delete_runs:
  assumes "wp (op (object_of i s)) (\<lambda>x (d', w'). P x d' w') (d, w\<lparr>gerror := None\<rparr>)"
  shows "wp (handle_delete i op) (\<lambda>_ (s', d', w'). \<exists>x. P x d' w' \<and> replied x s s') (s, d, w)"
proof -
  have "\<not> error_reply Reply_done" by (simp add: error_reply_def)
  note call = call_runs [of op i s P d w "\<lambda>r d. Reply_done", OF assms this]
  show ?thesis
    unfolding handle_delete_def
    apply (rule wp_step [OF call])
    subgoal for x st
      apply (cases st)
      apply (simp only: prod.case, elim conjE)
      apply (rule wp_if)
       apply (rule wp_set_service, simp only: prod.case, rule exI [of _ x], simp add: replied_def)
      apply (rule wp_return, simp only: prod.case, rule exI [of _ x], simp)
      done
    done
qed

lemma call_runs_unit:
  assumes "wp (op (object_of i s)) (\<lambda>x (d', w'). P x d' w') (d, w\<lparr>gerror := None\<rparr>)" "\<And>r d. \<not> error_reply (done r d)"
  shows "wp (do { handle_call i op done; ret () }) (\<lambda>_ (s', d', w'). \<exists>x. P x d' w' \<and> replied x s s') (s, d, w)"
  by (rule wp_step [OF call_runs [of op i s P d w "done", OF assms]]) (auto intro!: wp_return)

section \<open>Offline and over the bus\<close>

lemma offline_runs:
  assumes "wp m (\<lambda>x (d', w'). P x d' w') (local_daemon c, (bus_world (remote c))\<lparr>gerror := None\<rparr>)"
  shows "wp (on_local m) (\<lambda>x c'. P x (local_daemon c') (bus_world (remote c'))) c"
  using assms by (auto simp: wp_def on_local_def case_prod_beta)

lemma user_online_runs:
  assumes "connected c" "running users_at (remote c)" "adapter_at p (users_at (remote c)) = Some i"
    and "wp (m i) (\<lambda>_ (s', d', w'). \<exists>x. P x d' w' \<and> replied x (users_at (remote c)) s')
      (users_at (remote c), bus_daemon (remote c), bus_world (remote c))"
  shows "wp (do { a \<leftarrow> call_user_object p m; ret (answer_ok a) })
     (\<lambda>x c'. P x (bus_daemon (remote c')) (bus_world (remote c'))) c"
  using assms
  by (auto simp: wp_def call_user_object_def call_users_def at_users_def Let_def replied_answer split: prod.splits)

lemma group_online_runs:
  assumes "connected c" "running groups_at (remote c)" "adapter_at p (groups_at (remote c)) = Some i"
    and "wp (m i) (\<lambda>_ (s', d', w'). \<exists>x. P x d' w' \<and> replied x (groups_at (remote c)) s')
      (groups_at (remote c), bus_daemon (remote c), bus_world (remote c))"
  shows "wp (do { a \<leftarrow> call_group_object p m; ret (answer_ok a) })
     (\<lambda>x c'. P x (bus_daemon (remote c')) (bus_world (remote c'))) c"
  using assms
  by (auto simp: wp_def call_group_object_def call_groups_def at_groups_def Let_def replied_answer split: prod.splits)

text \<open>Two computations return the same, and leave the machine and two objects the same.\<close>

definition come_to_same :: "(client \<Rightarrow> 'o) \<Rightarrow> (client \<Rightarrow> 'o) \<Rightarrow> bool cm \<Rightarrow> bool cm \<Rightarrow> client \<Rightarrow> bool" where
  "come_to_same A B m n c \<longleftrightarrow>
     (case (run_state m c, run_state n c) of
        ((x, c1), (y, c2)) \<Rightarrow> x = y \<and> bus_world (remote c1) = bus_world (remote c2) \<and> A c1 = B c2)"

lemma come_to_sameI:
  assumes "wp m (\<lambda>x c'. F = ((x, A c'), bus_world (remote c'))) c" "wp n (\<lambda>x c'. F = ((x, B c'), bus_world (remote c'))) c"
  shows "come_to_same A B m n c"
  using assms by (auto simp: come_to_same_def wp_def split: prod.splits)

text \<open>A user object in the process and one behind an adapter, with the same contents.\<close>

definition twin_users :: "client \<Rightarrow> gum_object \<Rightarrow> oref \<Rightarrow> gum_object \<Rightarrow> oref \<Rightarrow> bool" where
  "twin_users c u r v q \<longleftrightarrow> offline_object u = Some r \<and> alive r (d_users (local_daemon c)) \<and>
     offline_object v = None \<and> connected c \<and> running users_at (remote c) \<and> alive q (d_users (bus_daemon (remote c))) \<and>
     (\<exists>p i. dbus_object v = Some p \<and> adapter_at p (users_at (remote c)) = Some i \<and> object_of i (users_at (remote c)) = q) \<and>
     user_object r (local_daemon c) = user_object q (bus_daemon (remote c))"

definition twin_groups :: "client \<Rightarrow> gum_object \<Rightarrow> oref \<Rightarrow> gum_object \<Rightarrow> oref \<Rightarrow> bool" where
  "twin_groups c u r v q \<longleftrightarrow> offline_object u = Some r \<and> alive r (d_groups (local_daemon c)) \<and>
     offline_object v = None \<and> connected c \<and> running groups_at (remote c) \<and> alive q (d_groups (bus_daemon (remote c))) \<and>
     (\<exists>p i. dbus_object v = Some p \<and> adapter_at p (groups_at (remote c)) = Some i \<and> object_of i (groups_at (remote c)) = q) \<and>
     group_object r (local_daemon c) = group_object q (bus_daemon (remote c))"

abbreviation same_user :: "oref \<Rightarrow> oref \<Rightarrow> bool cm \<Rightarrow> bool cm \<Rightarrow> client \<Rightarrow> bool" where
  "same_user r q \<equiv> come_to_same (\<lambda>c. user_object r (local_daemon c)) (\<lambda>c. user_object q (bus_daemon (remote c)))"

abbreviation same_group :: "oref \<Rightarrow> oref \<Rightarrow> bool cm \<Rightarrow> bool cm \<Rightarrow> client \<Rightarrow> bool" where
  "same_group r q \<equiv> come_to_same (\<lambda>c. group_object r (local_daemon c)) (\<lambda>c. group_object q (bus_daemon (remote c)))"

lemma user_agrees:
  assumes t: "twin_users c u r v q" and f: "on_user op f"
    and h: "\<And>i P s d w. wp (op (object_of i s)) (\<lambda>x (d', w'). P x d' w') (d, w\<lparr>gerror := None\<rparr>) \<Longrightarrow>
      wp (m i) (\<lambda>_ (s', d', w'). \<exists>x. P x d' w' \<and> replied x s s') (s, d, w)"
  shows "same_user r q (object_call u op (\<lambda>p. call_user_object p m)) (object_call v op (\<lambda>p. call_user_object p m)) c"
proof -
  let ?w = "(bus_world (remote c))\<lparr>gerror := None\<rparr>"
  let ?F = "run_state (f (user_object q (bus_daemon (remote c)))) ?w"
  from t obtain p i where v: "offline_object u = Some r" "offline_object v = None" "dbus_object v = Some p"
      "adapter_at p (users_at (remote c)) = Some i" "object_of i (users_at (remote c)) = q"
    and on: "connected c" "running users_at (remote c)"
    and al: "alive r (d_users (local_daemon c))" "alive q (d_users (bus_daemon (remote c)))"
    and eq: "user_object r (local_daemon c) = user_object q (bus_daemon (remote c))"
    by (auto simp: twin_users_def)
  have loc: "wp (op r) (\<lambda>x (d', w'). ?F = ((x, user_object r d'), w')) (local_daemon c, ?w)"
    using f al(1) unfolding on_user_def eq [symmetric] by blast
  have rem: "wp (op (object_of i (users_at (remote c)))) (\<lambda>x (d', w'). ?F = ((x, user_object q d'), w')) (bus_daemon (remote c), ?w)"
    using f al(2) unfolding on_user_def v(5) by blast
  have "wp (m i) (\<lambda>_ (s', d', w'). \<exists>x. ?F = ((x, user_object q d'), w') \<and> replied x (users_at (remote c)) s')
      (users_at (remote c), bus_daemon (remote c), bus_world (remote c))"
    by (rule h [where P = "\<lambda>x d' w'. ?F = ((x, user_object q d'), w')"]) (rule rem)
  note far = user_online_runs [where m = m and P = "\<lambda>x d' w'. ?F = ((x, user_object q d'), w')", OF on v(4) this]
  note near = offline_runs [where m = "op r" and P = "\<lambda>x d' w'. ?F = ((x, user_object r d'), w')", OF loc]
  show ?thesis
    unfolding object_call_def v option.case
    by (rule come_to_sameI [where F = ?F, OF near far])
qed

lemma group_agrees:
  assumes t: "twin_groups c u r v q" and f: "on_group op f"
    and h: "\<And>i P s d w. wp (op (object_of i s)) (\<lambda>x (d', w'). P x d' w') (d, w\<lparr>gerror := None\<rparr>) \<Longrightarrow>
      wp (m i) (\<lambda>_ (s', d', w'). \<exists>x. P x d' w' \<and> replied x s s') (s, d, w)"
  shows "same_group r q (object_call u op (\<lambda>p. call_group_object p m)) (object_call v op (\<lambda>p. call_group_object p m)) c"
proof -
  let ?w = "(bus_world (remote c))\<lparr>gerror := None\<rparr>"
  let ?F = "run_state (f (group_object q (bus_daemon (remote c)))) ?w"
  from t obtain p i where v: "offline_object u = Some r" "offline_object v = None" "dbus_object v = Some p"
      "adapter_at p (groups_at (remote c)) = Some i" "object_of i (groups_at (remote c)) = q"
    and on: "connected c" "running groups_at (remote c)"
    and al: "alive r (d_groups (local_daemon c))" "alive q (d_groups (bus_daemon (remote c)))"
    and eq: "group_object r (local_daemon c) = group_object q (bus_daemon (remote c))"
    by (auto simp: twin_groups_def)
  have loc: "wp (op r) (\<lambda>x (d', w'). ?F = ((x, group_object r d'), w')) (local_daemon c, ?w)"
    using f al(1) unfolding on_group_def eq [symmetric] by blast
  have rem: "wp (op (object_of i (groups_at (remote c)))) (\<lambda>x (d', w'). ?F = ((x, group_object q d'), w')) (bus_daemon (remote c), ?w)"
    using f al(2) unfolding on_group_def v(5) by blast
  have "wp (m i) (\<lambda>_ (s', d', w'). \<exists>x. ?F = ((x, group_object q d'), w') \<and> replied x (groups_at (remote c)) s')
      (groups_at (remote c), bus_daemon (remote c), bus_world (remote c))"
    by (rule h [where P = "\<lambda>x d' w'. ?F = ((x, group_object q d'), w')"]) (rule rem)
  note far = group_online_runs [where m = m and P = "\<lambda>x d' w'. ?F = ((x, group_object q d'), w')", OF on v(4) this]
  note near = offline_runs [where m = "op r" and P = "\<lambda>x d' w'. ?F = ((x, group_object r d'), w')", OF loc]
  show ?thesis
    unfolding object_call_def v option.case
    by (rule come_to_sameI [where F = ?F, OF near far])
qed

lemma not_error_reply [simp]: "\<not> error_reply (Reply_id n)" "\<not> error_reply Reply_done"
  by (simp_all add: error_reply_def)

lemma user_call_agrees:
  assumes "twin_users c u r v q" "on_user op f" "\<And>r d. \<not> error_reply (done r d)"
  shows "same_user r q (object_call u op (\<lambda>p. call_user_object p (\<lambda>i. do { handle_call i op done; ret () })))
    (object_call v op (\<lambda>p. call_user_object p (\<lambda>i. do { handle_call i op done; ret () }))) c"
  by (rule user_agrees [OF assms(1,2)], rule call_runs_unit [OF _ assms(3)])

lemma group_call_agrees:
  assumes "twin_groups c g r h q" "on_group op f" "\<And>r d. \<not> error_reply (done r d)"
  shows "same_group r q (object_call g op (\<lambda>p. call_group_object p (\<lambda>i. do { handle_call i op done; ret () })))
    (object_call h op (\<lambda>p. call_group_object p (\<lambda>i. do { handle_call i op done; ret () }))) c"
  by (rule group_agrees [OF assms(1,2)], rule call_runs_unit [OF _ assms(3)])

section \<open>Instances\<close>

text \<open>A client that has made a user and a group of either kind.\<close>

definition ref_client :: client where
  "ref_client = snd (run_state (do {
     gum_user_create_sync ref_ctx True;
     gum_user_create_sync ref_ctx False;
     gum_group_create_sync ref_ctx True;
     gum_group_create_sync ref_ctx False })
     \<lparr>remote = ref_bus, local_daemon = gumd_daemon_init, client_call = ref_call True, connected = True, proxies = True\<rparr>)"

definition ref_near :: gum_object where
  "ref_near = (new_object True)\<lparr>offline_object := Some 0\<rparr>"

definition ref_user_path :: string where
  "ref_user_path = ''/org/O1/SecurityAccounts/gUserManagement/User/User_0f3a_0''"

definition ref_group_path :: string where
  "ref_group_path = ''/org/O1/SecurityAccounts/gUserManagement/Group/Group_0f3a_0''"

definition ref_far :: "string \<Rightarrow> gum_object" where
  "ref_far path = (new_object False)\<lparr>dbus_object := Some path\<rparr>"

lemma ref_twin_users: "twin_users ref_client ref_near 0 (ref_far ref_user_path) 0"
proof -
  have "connected ref_client \<and> running users_at (remote ref_client) \<and> alive 0 (d_users (local_daemon ref_client)) \<and>
      alive 0 (d_users (bus_daemon (remote ref_client))) \<and> adapter_at ref_user_path (users_at (remote ref_client)) = Some 0 \<and>
      object_of 0 (users_at (remote ref_client)) = 0" by code_simp
  moreover have "user_object 0 (local_daemon ref_client) = user_object 0 (bus_daemon (remote ref_client))" by code_simp
  ultimately show ?thesis
    by (simp add: twin_users_def ref_near_def ref_far_def new_object_def)
qed

lemma ref_twin_groups: "twin_groups ref_client ref_near 0 (ref_far ref_group_path) 0"
proof -
  have "connected ref_client \<and> running groups_at (remote ref_client) \<and> alive 0 (d_groups (local_daemon ref_client)) \<and>
      alive 0 (d_groups (bus_daemon (remote ref_client))) \<and> adapter_at ref_group_path (groups_at (remote ref_client)) = Some 0 \<and>
      object_of 0 (groups_at (remote ref_client)) = 0" by code_simp
  moreover have "group_object 0 (local_daemon ref_client) = group_object 0 (bus_daemon (remote ref_client))" by code_simp
  ultimately show ?thesis
    by (simp add: twin_groups_def ref_near_def ref_far_def new_object_def)
qed

section \<open>Property\<close>

text \<open>
  C16. Offline and over the bus. For a user object in the process and one behind an adapter
  of a daemon that runs, with the same contents: adding, deleting and updating return the
  same, and leave the machine and the contents the same, whatever calls fail in them. So do
  they for groups, with the members.
\<close>

theorem client_offline_agrees:
  assumes "twin_users c u r v q" and "twin_groups c g a h b"
  shows "same_user r q (gum_user_add_sync C u) (gum_user_add_sync C v) c \<and>
     same_user r q (gum_user_delete_sync C u rem) (gum_user_delete_sync C v rem) c \<and>
     same_user r q (gum_user_update_sync C u) (gum_user_update_sync C v) c \<and>
     same_group a b (gum_group_add_sync C g) (gum_group_add_sync C h) c \<and>
     same_group a b (gum_group_delete_sync C g) (gum_group_delete_sync C h) c \<and>
     same_group a b (gum_group_update_sync C g) (gum_group_update_sync C h) c \<and>
     same_group a b (gum_group_add_member_sync C g uid adm) (gum_group_add_member_sync C h uid adm) c \<and>
     same_group a b (gum_group_delete_member_sync C g uid) (gum_group_delete_member_sync C h uid) c"
proof (intro conjI)
  note user = user_call_agrees [OF assms(1)] and group = group_call_agrees [OF assms(2)]
  show "same_user r q (gum_user_add_sync C u) (gum_user_add_sync C v) c"
    unfolding gum_user_add_sync_def handle_add_user_def [abs_def] by (rule user [OF user_operations(1)]) simp
  show "same_user r q (gum_user_delete_sync C u rem) (gum_user_delete_sync C v rem) c"
    unfolding gum_user_delete_sync_def handle_delete_user_def
    by (rule user_agrees [OF assms(1) user_operations(2)], rule delete_runs)
  show "same_user r q (gum_user_update_sync C u) (gum_user_update_sync C v) c"
    unfolding gum_user_update_sync_def handle_update_user_def [abs_def] by (rule user [OF user_operations(3)]) simp
  show "same_group a b (gum_group_add_sync C g) (gum_group_add_sync C h) c"
    unfolding gum_group_add_sync_def handle_add_group_def [abs_def] by (rule group [OF group_operations(1)]) simp
  show "same_group a b (gum_group_delete_sync C g) (gum_group_delete_sync C h) c"
    unfolding gum_group_delete_sync_def handle_delete_group_def [abs_def]
    by (rule group_agrees [OF assms(2) group_operations(2)], rule delete_runs)
  show "same_group a b (gum_group_update_sync C g) (gum_group_update_sync C h) c"
    unfolding gum_group_update_sync_def handle_update_group_def [abs_def] by (rule group [OF group_operations(3)]) simp
  show "same_group a b (gum_group_add_member_sync C g uid adm) (gum_group_add_member_sync C h uid adm) c"
    unfolding gum_group_add_member_sync_def handle_add_group_member_def
    by (rule group [OF group_operations(4)]) simp
  show "same_group a b (gum_group_delete_member_sync C g uid) (gum_group_delete_member_sync C h uid) c"
    unfolding gum_group_delete_member_sync_def handle_delete_group_member_def
    by (rule group [OF group_operations(5)]) simp
qed

theorem client_offline_agrees_witness:
  "same_user 0 0 (gum_user_add_sync ref_ctx ref_near) (gum_user_add_sync ref_ctx (ref_far ref_user_path)) ref_client"
  using client_offline_agrees [OF ref_twin_users ref_twin_groups] by blast

end
