(* ===== verification/Gum_Client_Keeps.thy ===== *)
theory Gum_Client_Keeps
  imports Gum_Client
begin

text \<open>
  Lists of users, and what the calls of the client keep whatever way they go: the accounts
  change by steps of the abstract system only, the tables of both daemons stay in order, and
  the objects that the client has stay alive; the calls that only read leave the files alone.
\<close>

section \<open>Lists of users\<close>

text \<open>
  \<^verbatim>\<open>gum_user_service_get_user_list_sync\<close>, for a service in the given mode with or without a
  proxy (\<open>Gum_User_Service\<close> says what becomes of the service itself).
\<close>

fun uids_to_user_list :: "ctx \<Rightarrow> uid_t list \<Rightarrow> bool \<Rightarrow> gum_object list cm" where
  "uids_to_user_list C [] offline = ret []"
| "uids_to_user_list C (uid # ids) offline = do {
     u \<leftarrow> (if uid = GUM_USER_INVALID_UID then ret None else gum_user_get_sync C uid offline);
     us \<leftarrow> uids_to_user_list C ids offline;
     ret (case u of None \<Rightarrow> us | Some u \<Rightarrow> u # us) }"

definition gum_user_service_get_user_list_sync :: "ctx \<Rightarrow> bool \<Rightarrow> bool \<Rightarrow> string list option \<Rightarrow> gum_object list cm" where
  "gum_user_service_get_user_list_sync C offline_service dbus_service types =
     (if offline_service then do {
        ids \<leftarrow> on_local (gumd_daemon_get_user_list C types);
        (case ids of None \<Rightarrow> ret [] | Some ids \<Rightarrow> uids_to_user_list C ids True) }
      else if dbus_service then do {
        a \<leftarrow> call_users (\<lambda>_. handle_get_user_list C types);
        (case a of Replied (Reply_ids ids) \<Rightarrow> uids_to_user_list C ids False | _ \<Rightarrow> ret []) }
      else ret [])"

section \<open>What the client keeps\<close>

definition client_safe :: "ctx \<Rightarrow> accounts \<Rightarrow> client \<Rightarrow> bool" where
  "client_safe C a c \<longleftrightarrow> accounts_kept C a (bus_world (remote c)) \<and> tables_ok (local_daemon c) \<and>
     (bus_ok False (remote c) \<or> bus_crashed (remote c))"

text \<open>The objects of the daemon in the process that the client has references to.\<close>

definition user_live :: "gum_object \<Rightarrow> client \<Rightarrow> bool" where
  "user_live u c \<longleftrightarrow> (\<forall>r. offline_object u = Some r \<longrightarrow> 0 < user_refs (local_daemon c) r)"

definition group_live :: "gum_object \<Rightarrow> client \<Rightarrow> bool" where
  "group_live g c \<longleftrightarrow> (\<forall>r. offline_object g = Some r \<longrightarrow> 0 < group_refs (local_daemon c) r)"

lemma daemon_steps_kept:
  assumes "config_ok C" "accounts_kept C a w" "tables_ok d" "daemon_steps C (d, w) (d', w')"
  shows "accounts_kept C a w'" "tables_ok d'"
  using steps_kept [OF assms(1,2) _ _ assms(4)] assms(3) by (simp_all add: tables_ok_def)

lemma bus_ok_world [simp]: "bus_ok E (b\<lparr>bus_world := w\<rparr>) = bus_ok E b" "bus_crashed (b\<lparr>bus_world := w\<rparr>) = bus_crashed b"
  by (simp_all add: bus_ok_def bus_crashed_def)

lemma local_keeps:
  assumes "config_ok C" "client_safe C a c"
    and "\<And>w. wp m (\<lambda>x (d', w'). daemon_steps C (local_daemon c, w) (d', w') \<and> Q x d') (local_daemon c, w)"
  shows "wp (on_local m) (\<lambda>x c'. client_safe C a c' \<and> Q x (local_daemon c')) c"
proof -
  let ?w = "(bus_world (remote c))\<lparr>gerror := None\<rparr>"
  have k: "accounts_kept C a ?w" using assms(2) accounts_kept_files [of ?w "bus_world (remote c)" C a]
    by (simp add: client_safe_def)
  from assms(2) have t: "tables_ok (local_daemon c)" by (simp add: client_safe_def)
  show ?thesis
    using assms(3) [of ?w] assms(2) daemon_steps_kept [OF assms(1) k t]
    by (auto simp: on_local_def wp_def client_safe_def split: prod.splits)
qed

lemma next_keeps:
  assumes "config_ok C" "accounts_kept C a (bus_world b)" "bus_ok False b" "bus_next C False b b'"
  shows "accounts_kept C a (bus_world b') \<and> (bus_ok False b' \<or> bus_crashed b')"
  using assms daemon_steps_kept(1) [OF assms(1,2), of "bus_daemon b" "bus_daemon b'" "bus_world b'"]
  by (auto simp: bus_next_def bus_ok_def)

lemma users_keep:
  assumes "config_ok C" "client_safe C a c"
    and "\<And>b. bus_ok False b \<Longrightarrow> running users_at b \<Longrightarrow> b = remote c \<Longrightarrow> bus_next C False b (at_users (m (client_call c)) b)"
  shows "wp (call_users m) (\<lambda>_ c'. client_safe C a c' \<and> local_daemon c' = local_daemon c) c"
proof -
  have "bus_ok False (remote c)" if "running users_at (remote c)"
    using that assms(2) by (auto simp: client_safe_def running_def bus_crashed_def)
  with assms(2) next_keeps [OF assms(1), of a "remote c"] assms(3) [of "remote c"] show ?thesis
    by (auto simp: call_users_def wp_def client_safe_def Let_def)
qed

lemma groups_keep:
  assumes "config_ok C" "client_safe C a c"
    and "\<And>b. bus_ok False b \<Longrightarrow> running groups_at b \<Longrightarrow> b = remote c \<Longrightarrow> bus_next C False b (at_groups (m (client_call c)) b)"
  shows "wp (call_groups m) (\<lambda>_ c'. client_safe C a c' \<and> local_daemon c' = local_daemon c) c"
proof -
  have "bus_ok False (remote c)" if "running groups_at (remote c)"
    using that assms(2) by (auto simp: client_safe_def running_def bus_crashed_def)
  with assms(2) next_keeps [OF assms(1), of a "remote c"] assms(3) [of "remote c"] show ?thesis
    by (auto simp: call_groups_def wp_def client_safe_def Let_def)
qed

lemma adapter_at_found: "adapter_at p s = Some i \<Longrightarrow> find_adapter i s \<noteq> None"
  by (auto simp: adapter_at_def find_adapter_def find_None_iff find_Some_iff intro: nth_mem)

lemma user_object_keeps:
  assumes "config_ok C" "client_safe C a c" "\<And>i. m i = user_adapter C i q"
  shows "wp (call_user_object p m) (\<lambda>_ c'. client_safe C a c' \<and> local_daemon c' = local_daemon c) c"
  unfolding call_user_object_def
  by (auto intro!: wp_bind wp_gets wp_case_option wp_return users_keep [OF assms(1,2)] user_adapter_next
      simp: assms(2,3) dest: adapter_at_found)

lemma group_object_keeps:
  assumes "config_ok C" "client_safe C a c" "\<And>i. m i = group_adapter C i q"
  shows "wp (call_group_object p m) (\<lambda>_ c'. client_safe C a c' \<and> local_daemon c' = local_daemon c) c"
  unfolding call_group_object_def
  by (auto intro!: wp_bind wp_gets wp_case_option wp_return groups_keep [OF assms(1,2)] group_adapter_next
      simp: assms(2,3) dest: adapter_at_found)

section \<open>Getting and making objects\<close>

lemma request_step:
  assumes "tables_ok d" "held q d" "serve C q = do { m; ret () }"
  shows "wp m (\<lambda>_ (d', w'). daemon_steps C (d, w) (d', w')) (d, w)"
  by (rule wp_mono [OF serve_step [OF assms]]) auto

lemma by_name_refs:
  assumes "tables_ok d"
  shows "wp (gumd_daemon_get_user_by_name C n) (\<lambda>x (d', w'). \<forall>r. x = Some r \<longrightarrow> 0 < user_refs d' r) (d, w)"
    "wp (gumd_daemon_get_group_by_name C n) (\<lambda>x (d', w'). \<forall>r. x = Some r \<longrightarrow> 0 < group_refs d' r) (d, w)"
proof -
  have u: "wp (gumd_daemon_get_user C uid) (\<lambda>x (d', w'). \<forall>r. x = Some r \<longrightarrow> 0 < user_refs d' r) (d, w)" for uid w
    by (rule wp_mono [OF get_user_refs [OF assms]]) auto
  have g: "wp (gumd_daemon_get_group C gid) (\<lambda>x (d', w'). \<forall>r. x = Some r \<longrightarrow> 0 < group_refs d' r) (d, w)" for gid w
    by (rule wp_mono [OF get_group_refs [OF assms]]) auto
  have e: "wp (dm_error e None) (\<lambda>x (d', w'). \<forall>r. x = Some r \<longrightarrow> P d' r) (d, w)" for e P and w :: world
    unfolding dm_error_def by (rule wp_bind, rule wp_lift, rule wp_of_run, rule wp_return) simp
  show "wp (gumd_daemon_get_user_by_name C n) (\<lambda>x (d', w'). \<forall>r. x = Some r \<longrightarrow> 0 < user_refs d' r) (d, w)"
    unfolding gumd_daemon_get_user_by_name_def by (rule wp_bind, rule wp_lift, rule wp_of_run, rule wp_if; rule u e)
  show "wp (gumd_daemon_get_group_by_name C n) (\<lambda>x (d', w'). \<forall>r. x = Some r \<longrightarrow> 0 < group_refs d' r) (d, w)"
    unfolding gumd_daemon_get_group_by_name_def by (rule wp_bind, rule wp_lift, rule wp_of_run, rule wp_if; rule g e)
qed

text \<open>What a call that gives an object keeps, and that the object is alive.\<close>

abbreviation gives_user :: "ctx \<Rightarrow> accounts \<Rightarrow> gum_object option cm \<Rightarrow> client \<Rightarrow> bool" where
  "gives_user C a m c \<equiv> wp m (\<lambda>x c'. client_safe C a c' \<and> (\<forall>u. x = Some u \<longrightarrow> user_live u c')) c"

abbreviation gives_group :: "ctx \<Rightarrow> accounts \<Rightarrow> gum_object option cm \<Rightarrow> client \<Rightarrow> bool" where
  "gives_group C a m c \<equiv> wp m (\<lambda>x c'. client_safe C a c' \<and> (\<forall>g. x = Some g \<longrightarrow> group_live g c')) c"

lemma live_new [simp]: "user_live (new_object b) c" "group_live (new_object b) c"
  "user_live (u\<lparr>dbus_object := p\<rparr>) c = user_live u c" "group_live (u\<lparr>dbus_object := p\<rparr>) c = group_live u c"
  "user_live (u\<lparr>offline_object := r\<rparr>) c \<longleftrightarrow> (\<forall>q. r = Some q \<longrightarrow> 0 < user_refs (local_daemon c) q)"
  "group_live (u\<lparr>offline_object := r\<rparr>) c \<longleftrightarrow> (\<forall>q. r = Some q \<longrightarrow> 0 < group_refs (local_daemon c) q)"
  by (simp_all add: user_live_def group_live_def new_object_def)

lemma with_objects:
  assumes "client_safe C a c"
  shows "user_live u c \<Longrightarrow> gives_user C a (with_dbus_object u x) c" "group_live u c \<Longrightarrow> gives_group C a (with_dbus_object u x) c"
    "(\<And>q. r = Some q \<Longrightarrow> 0 < user_refs (local_daemon c) q) \<Longrightarrow> gives_user C a (with_offline_object u r) c"
    "(\<And>q. r = Some q \<Longrightarrow> 0 < group_refs (local_daemon c) q) \<Longrightarrow> gives_group C a (with_offline_object u r) c"
  using assms unfolding with_dbus_object_def with_offline_object_def
  by (auto intro!: wp_bind wp_gets wp_return split: answer.splits reply.splits option.splits if_splits)

lemma far_user:
  assumes "config_ok C" "client_safe C a c" "\<And>k. m k = user_service C k q"
  shows "gives_user C a (do { x \<leftarrow> call_users m; with_dbus_object (new_object b) x }) c"
  by (rule wp_step [OF users_keep [OF assms(1,2)]])
    (auto simp: assms(3) intro!: user_service_next with_objects)

lemma far_group:
  assumes "config_ok C" "client_safe C a c" "\<And>k. m k = group_service C k q"
  shows "gives_group C a (do { x \<leftarrow> call_groups m; with_dbus_object (new_object b) x }) c"
  by (rule wp_step [OF groups_keep [OF assms(1,2)]])
    (auto simp: assms(3) intro!: group_service_next with_objects)

lemma client_tables: "client_safe C a c \<Longrightarrow> tables_ok (local_daemon c)"
  by (simp add: client_safe_def)

lemma near_user:
  assumes "config_ok C" "client_safe C a c" "serve C q = do { m; ret () }" "\<And>d. held q d"
    and "\<And>w. wp m (\<lambda>x (d', w'). \<forall>r. x = Some r \<longrightarrow> 0 < user_refs d' r) (local_daemon c, w)"
  shows "gives_user C a (do { r \<leftarrow> on_local m; with_offline_object u r }) c"
proof (rule wp_step [OF local_keeps [OF assms(1,2)]])
  show "wp m (\<lambda>x (d', w'). daemon_steps C (local_daemon c, w) (d', w') \<and> (\<forall>r. x = Some r \<longrightarrow> 0 < user_refs d' r)) (local_daemon c, w)" for w
    using wp_conj [OF request_step [OF client_tables [OF assms(2)] assms(4,3), of w] assms(5) [of w]]
    by (rule wp_mono) auto
qed (auto intro!: with_objects)

lemma near_group:
  assumes "config_ok C" "client_safe C a c" "serve C q = do { m; ret () }" "\<And>d. held q d"
    and "\<And>w. wp m (\<lambda>x (d', w'). \<forall>r. x = Some r \<longrightarrow> 0 < group_refs d' r) (local_daemon c, w)"
  shows "gives_group C a (do { r \<leftarrow> on_local m; with_offline_object u r }) c"
proof (rule wp_step [OF local_keeps [OF assms(1,2)]])
  show "wp m (\<lambda>x (d', w'). daemon_steps C (local_daemon c, w) (d', w') \<and> (\<forall>r. x = Some r \<longrightarrow> 0 < group_refs d' r)) (local_daemon c, w)" for w
    using wp_conj [OF request_step [OF client_tables [OF assms(2)] assms(4,3), of w] assms(5) [of w]]
    by (rule wp_mono) auto
qed (auto intro!: with_objects)

lemma gets_user:
  assumes "config_ok C" "client_safe C a c"
  shows "gives_user C a (gum_user_get_sync C uid off) c" "gives_user C a (gum_user_get_by_name_sync C n off) c"
proof -
  note t = client_tables [OF assms(2)]
  have far: "handle_get_user C k uid = user_service C k (Get_user uid)"
    "handle_get_user_by_name C k n = user_service C k (Get_user_by_name n)" for k by simp_all
  have near: "gives_user C a (do { r \<leftarrow> on_local (gumd_daemon_get_user C uid); with_offline_object u r }) c"
    "gives_user C a (do { r \<leftarrow> on_local (gumd_daemon_get_user_by_name C n); with_offline_object u r }) c" for u
    by (rule near_user [OF assms, where q = "GetUser uid"], simp, simp, rule wp_mono [OF get_user_refs [OF t]], auto) []
      (rule near_user [OF assms, where q = "GetUserByName n"], simp, simp, rule by_name_refs [OF t])
  show "gives_user C a (gum_user_get_sync C uid off) c"
    unfolding gum_user_get_sync_def Let_def by (rule wp_if, rule near, rule far_user [OF assms], rule far)
  show "gives_user C a (gum_user_get_by_name_sync C n off) c"
    unfolding gum_user_get_by_name_sync_def Let_def
    by (rule wp_if, rule wp_return, simp add: assms(2), rule wp_if, rule near, rule far_user [OF assms], rule far)
qed

lemma gets_group:
  assumes "config_ok C" "client_safe C a c"
  shows "gives_group C a (gum_group_get_sync C gid off) c" "gives_group C a (gum_group_get_by_name_sync C n off) c"
proof -
  note t = client_tables [OF assms(2)]
  have far: "handle_get_group C k gid = group_service C k (Get_group gid)"
    "handle_get_group_by_name C k n = group_service C k (Get_group_by_name n)" for k by simp_all
  have near: "gives_group C a (do { r \<leftarrow> on_local (gumd_daemon_get_group C gid); with_offline_object u r }) c"
    "gives_group C a (do { r \<leftarrow> on_local (gumd_daemon_get_group_by_name C n); with_offline_object u r }) c" for u
    by (rule near_group [OF assms, where q = "GetGroup gid"], simp, simp, rule wp_mono [OF get_group_refs [OF t]], auto) []
      (rule near_group [OF assms, where q = "GetGroupByName n"], simp, simp, rule by_name_refs [OF t])
  show "gives_group C a (gum_group_get_sync C gid off) c"
    unfolding gum_group_get_sync_def Let_def by (rule wp_if, rule near, rule far_group [OF assms], rule far)
  show "gives_group C a (gum_group_get_by_name_sync C n off) c"
    unfolding gum_group_get_by_name_sync_def Let_def
    by (rule wp_if, rule wp_return, simp add: assms(2), rule wp_if, rule near, rule far_group [OF assms], rule far)
qed

lemma daemon_reads:
  "wp (get_daemon f) (\<lambda>x (d', w'). daemon_steps C (d, w) (d', w') \<and> x = f d \<and> d' = d) (d, w)"
  by (rule wp_get_daemon) simp

lemma creates_user:
  assumes "config_ok C" "client_safe C a c"
  shows "gives_user C a (gum_user_create_sync C off) c"
proof -
  have far: "handle_create_new_user C k = user_service C k Create_new_user" for k by simp
  let ?new = "\<lambda>d. d\<lparr>d_users := obj_new gumd_daemon_user_new (d_users d)\<rparr>"
  have st: "daemon_steps C (d, w) (?new d, w)" for d w by (rule set_step [where q = NewUser]) simp_all
  have "wp (set_daemon ?new) (\<lambda>_ (d', w'). daemon_steps C (d, w) (d', w') \<and> d' = ?new d) (d, w)" for d w
    by (rule wp_set_daemon) (simp add: st)
  note new = local_keeps [OF assms(1) _ this, where a = a]
  have "gives_user C a (do { r \<leftarrow> on_local (get_daemon (\<lambda>d. obj_next (d_users d))); on_local (set_daemon ?new);
      ret (Some (u\<lparr>offline_object := Some r\<rparr>)) }) c" for u
    apply (rule wp_step [OF local_keeps [OF assms daemon_reads]])
    apply (rule wp_step [OF new])
     apply simp
    apply (rule wp_return)
    apply (auto simp: user_refs_def refs_new dest!: client_tables simp: tables_ok_def)
    done
  then show ?thesis
    unfolding gum_user_create_sync_def Let_def by (intro wp_if far_user [OF assms far])
qed

lemma creates_group:
  assumes "config_ok C" "client_safe C a c"
  shows "gives_group C a (gum_group_create_sync C off) c"
proof -
  have far: "handle_create_new_group C k = group_service C k Create_new_group" for k by simp
  let ?new = "\<lambda>d. d\<lparr>d_groups := obj_new gumd_daemon_group_new (d_groups d)\<rparr>"
  have st: "daemon_steps C (d, w) (?new d, w)" for d w by (rule set_step [where q = NewGroup]) simp_all
  have "wp (set_daemon ?new) (\<lambda>_ (d', w'). daemon_steps C (d, w) (d', w') \<and> d' = ?new d) (d, w)" for d w
    by (rule wp_set_daemon) (simp add: st)
  note new = local_keeps [OF assms(1) _ this, where a = a]
  have "gives_group C a (do { r \<leftarrow> on_local (get_daemon (\<lambda>d. obj_next (d_groups d))); on_local (set_daemon ?new);
      ret (Some (g\<lparr>offline_object := Some r\<rparr>)) }) c" for g
    apply (rule wp_step [OF local_keeps [OF assms daemon_reads]])
    apply (rule wp_step [OF new])
     apply simp
    apply (rule wp_return)
    apply (auto simp: group_refs_def refs_new dest!: client_tables simp: tables_ok_def)
    done
  then show ?thesis
    unfolding gum_group_create_sync_def Let_def using assms(2)
    by (intro wp_if wp_bind [of "gets connected"] wp_gets far_group [OF assms far]) (auto intro: wp_return)
qed

section \<open>Operations on an object\<close>

lemma near_works:
  assumes "config_ok C" "client_safe C a c" "users.works_with C r m" "0 < user_refs (local_daemon c) r"
  shows "wp (on_local m) (\<lambda>_ c'. client_safe C a c' \<and> user_refs (local_daemon c') = user_refs (local_daemon c) \<and>
     group_refs (local_daemon c') = group_refs (local_daemon c)) c"
  using assms(3,4) client_tables [OF assms(2)]
  by (auto intro!: local_keeps [OF assms(1,2)] simp: users.works_with_def elim!: wp_mono dest!: spec [of _ "local_daemon c"])

lemma near_group_works:
  assumes "config_ok C" "client_safe C a c" "groups.works_with C r m" "0 < group_refs (local_daemon c) r"
  shows "wp (on_local m) (\<lambda>_ c'. client_safe C a c' \<and> user_refs (local_daemon c') = user_refs (local_daemon c) \<and>
     group_refs (local_daemon c') = group_refs (local_daemon c)) c"
  using assms(3,4) client_tables [OF assms(2)]
  by (auto intro!: local_keeps [OF assms(1,2)] simp: groups.works_with_def elim!: wp_mono dest!: spec [of _ "local_daemon c"])

abbreviation keeps_user :: "ctx \<Rightarrow> accounts \<Rightarrow> gum_object \<Rightarrow> 'a cm \<Rightarrow> client \<Rightarrow> bool" where
  "keeps_user C a u m c \<equiv> wp m (\<lambda>_ c'. client_safe C a c' \<and> user_live u c') c"

abbreviation keeps_group :: "ctx \<Rightarrow> accounts \<Rightarrow> gum_object \<Rightarrow> 'a cm \<Rightarrow> client \<Rightarrow> bool" where
  "keeps_group C a g m c \<equiv> wp m (\<lambda>_ c'. client_safe C a c' \<and> group_live g c') c"

lemma user_call_keeps:
  assumes "config_ok C" "client_safe C a c" "user_live u c"
    and "\<And>r. users.works_with C r (op r)" "\<And>p. m p = call_user_object p (f p)" "\<And>p i. f p i = user_adapter C i q"
  shows "keeps_user C a u (object_call u op m) c"
proof -
  have "keeps_user C a u (on_local (op r)) c" if "offline_object u = Some r" for r
    using near_works [OF assms(1,2,4), of r] assms(3) that by (auto simp: user_live_def elim!: wp_mono)
  moreover have "keeps_user C a u (do { x \<leftarrow> m p; ret (answer_ok x) }) c" if "offline_object u = None" for p
    unfolding assms(5) using that
    by (auto intro!: wp_step [OF user_object_keeps [OF assms(1,2,6)]] wp_return simp: user_live_def)
  ultimately show ?thesis
    unfolding object_call_def using assms(2,3) by (auto intro!: wp_case_option wp_return)
qed

lemma group_call_keeps:
  assumes "config_ok C" "client_safe C a c" "group_live g c"
    and "\<And>r. groups.works_with C r (op r)" "\<And>p. m p = call_group_object p (f p)" "\<And>p i. f p i = group_adapter C i q"
  shows "keeps_group C a g (object_call g op m) c"
proof -
  have "keeps_group C a g (on_local (op r)) c" if "offline_object g = Some r" for r
    using near_group_works [OF assms(1,2,4), of r] assms(3) that by (auto simp: group_live_def elim!: wp_mono)
  moreover have "keeps_group C a g (do { x \<leftarrow> m p; ret (answer_ok x) }) c" if "offline_object g = None" for p
    unfolding assms(5) using that
    by (auto intro!: wp_step [OF group_object_keeps [OF assms(1,2,6)]] wp_return simp: group_live_def)
  ultimately show ?thesis
    unfolding object_call_def using assms(2,3) by (auto intro!: wp_case_option wp_return)
qed

lemma user_ops_keep:
  assumes "config_ok C" "client_safe C a c" "user_live u c"
  shows "keeps_user C a u (gum_user_add_sync C u) c" "keeps_user C a u (gum_user_delete_sync C u rem) c"
    "keeps_user C a u (gum_user_update_sync C u) c" "keeps_user C a u (gum_user_set_property C u p) c"
proof -
  have eqs: "handle_add_user C i = user_adapter C i Add_user" "handle_delete_user C i rem = user_adapter C i (Delete_user rem)"
    "handle_update_user C i = user_adapter C i Update_user" "write_user_property C i p = user_adapter C i (Write_user p)" for i
    by simp_all
  show "keeps_user C a u (gum_user_add_sync C u) c"
    unfolding gum_user_add_sync_def by (rule user_call_keeps [OF assms user_methods(1) refl eqs(1)])
  show "keeps_user C a u (gum_user_delete_sync C u rem) c"
    unfolding gum_user_delete_sync_def by (rule user_call_keeps [OF assms user_methods(2) refl eqs(2)])
  show "keeps_user C a u (gum_user_update_sync C u) c"
    unfolding gum_user_update_sync_def by (rule user_call_keeps [OF assms user_methods(3) refl eqs(3)])
  have "keeps_user C a u (on_local (call_user r (\<lambda>x. ret ((), user_set_property (c_env C) x p)))) c"
    if "offline_object u = Some r" for r
    using near_works [OF assms(1,2) user_methods(4) [where p = p], of r] assms(3) that by (auto simp: user_live_def elim!: wp_mono)
  moreover have "keeps_user C a u (do { x \<leftarrow> call_user_object path (\<lambda>i. write_user_property C i p); ret () }) c"
    if "offline_object u = None" for path
    using that by (intro wp_step [OF user_object_keeps [OF assms(1,2) eqs(4)]] wp_return) (simp add: user_live_def)
  ultimately show "keeps_user C a u (gum_user_set_property C u p) c"
    unfolding gum_user_set_property_def using assms(2,3) by (auto intro!: wp_case_option wp_return)
qed

lemma group_ops_keep:
  assumes "config_ok C" "client_safe C a c" "group_live g c"
  shows "keeps_group C a g (gum_group_add_sync C g) c" "keeps_group C a g (gum_group_delete_sync C g) c"
    "keeps_group C a g (gum_group_update_sync C g) c" "keeps_group C a g (gum_group_add_member_sync C g uid adm) c"
    "keeps_group C a g (gum_group_delete_member_sync C g uid) c" "keeps_group C a g (gum_group_set_property g p) c"
proof -
  have eqs: "handle_add_group C i = group_adapter C i Add_group" "handle_delete_group C i = group_adapter C i Delete_group"
    "handle_update_group C i = group_adapter C i Update_group"
    "handle_add_group_member C i uid adm = group_adapter C i (Add_member uid adm)"
    "handle_delete_group_member C i uid = group_adapter C i (Delete_member uid)"
    "write_group_property i p = group_adapter C i (Write_group p)" for i
    by simp_all
  show "keeps_group C a g (gum_group_add_sync C g) c"
    unfolding gum_group_add_sync_def by (rule group_call_keeps [OF assms group_methods(1) refl eqs(1)])
  show "keeps_group C a g (gum_group_delete_sync C g) c"
    unfolding gum_group_delete_sync_def by (rule group_call_keeps [OF assms group_methods(2) refl eqs(2)])
  show "keeps_group C a g (gum_group_update_sync C g) c"
    unfolding gum_group_update_sync_def by (rule group_call_keeps [OF assms group_methods(3) refl eqs(3)])
  show "keeps_group C a g (gum_group_add_member_sync C g uid adm) c"
    unfolding gum_group_add_member_sync_def by (rule group_call_keeps [OF assms group_methods(4) refl eqs(4)])
  show "keeps_group C a g (gum_group_delete_member_sync C g uid) c"
    unfolding gum_group_delete_member_sync_def by (rule group_call_keeps [OF assms group_methods(5) refl eqs(5)])
  have "keeps_group C a g (on_local (call_group r (\<lambda>x. ret ((), group_set_property x p)))) c"
    if "offline_object g = Some r" for r
    using near_group_works [OF assms(1,2) group_methods(6) [where p = p], of r] assms(3) that by (auto simp: group_live_def elim!: wp_mono)
  moreover have "keeps_group C a g (do { x \<leftarrow> call_group_object path (\<lambda>i. write_group_property i p); ret () }) c"
    if "offline_object g = None" for path
    using that by (intro wp_step [OF group_object_keeps [OF assms(1,2) eqs(6)]] wp_return) (simp add: group_live_def)
  ultimately show "keeps_group C a g (gum_group_set_property g p) c"
    unfolding gum_group_set_property_def using assms(2,3) by (auto intro!: wp_case_option wp_return)
qed

lemma list_keeps:
  assumes "config_ok C" "client_safe C a c"
  shows "wp (gum_user_service_get_user_list_sync C off svc types) (\<lambda>_ c'. client_safe C a c') c"
proof -
  have all: "wp (uids_to_user_list C ids b) (\<lambda>_ c'. client_safe C a c') c" if "client_safe C a c" for ids b c
    using that
  proof (induction ids arbitrary: c)
    case (Cons i ids)
    have one: "wp (if i = GUM_USER_INVALID_UID then ret None else gum_user_get_sync C i b) (\<lambda>_ c'. client_safe C a c') c"
      using wp_mono [OF gets_user(1) [OF assms(1) Cons.prems]] Cons.prems by (auto intro!: wp_if wp_return)
    show ?case
      unfolding uids_to_user_list.simps
      by (rule wp_step [OF one], rule wp_step [OF Cons.IH], assumption, rule wp_return)
  qed (simp add: wp_return)
  have far: "bus_next C False b (at_users (handle_get_user_list C types) b)" if "bus_ok False b" "running users_at b" for b
    using user_service_next [OF that, of "client_call c" C "Get_user_list types"] by simp
  have near: "wp (gumd_daemon_get_user_list C types) (\<lambda>x (d', w'). daemon_steps C (local_daemon c, w) (d', w') \<and> True) (local_daemon c, w)" for w
    using request_step [OF client_tables [OF assms(2)], of "ListUsers types" C "gumd_daemon_get_user_list C types" w] by simp
  have "wp (do { ids \<leftarrow> on_local (gumd_daemon_get_user_list C types);
      (case ids of None \<Rightarrow> ret [] | Some ids \<Rightarrow> uids_to_user_list C ids True) }) (\<lambda>_ c'. client_safe C a c') c"
    by (rule wp_step [OF local_keeps [OF assms near]]) (auto intro!: wp_case_option wp_return all)
  moreover have "wp (do { x \<leftarrow> call_users (\<lambda>_. handle_get_user_list C types);
      (case x of Replied (Reply_ids ids) \<Rightarrow> uids_to_user_list C ids False | _ \<Rightarrow> ret []) }) (\<lambda>_ c'. client_safe C a c') c"
    by (rule wp_step [OF users_keep [OF assms]])
      (auto intro!: far all wp_return split: answer.split reply.split)
  ultimately show ?thesis
    unfolding gum_user_service_get_user_list_sync_def using assms(2) by (auto intro!: wp_if wp_return)
qed

section \<open>Calls that only read\<close>

abbreviation dm_reads :: "'a dm \<Rightarrow> bool" where "dm_reads \<equiv> frame (\<lambda>s. files (snd s))"

abbreviation sm_reads :: "'a sm \<Rightarrow> bool" where "sm_reads \<equiv> frame (\<lambda>s. files (snd (snd s)))"

abbreviation cm_reads :: "'a cm \<Rightarrow> bool" where "cm_reads \<equiv> frame (\<lambda>c. files (bus_world (remote c)))"

lemma dm_reads_basic:
  "frame files m \<Longrightarrow> dm_reads (lift_wm m)" "dm_reads (get_daemon f)" "dm_reads (set_daemon g)"
  by (simp_all add: frame_def wp_def lift_wm_def get_daemon_def set_daemon_def case_prod_beta)

lemma sm_reads_basic:
  "dm_reads n \<Longrightarrow> sm_reads (lift_dm n)" "sm_reads (get_service f)" "sm_reads (set_service g)" "sm_reads (reply r)"
  by (simp_all add: frame_def wp_def lift_dm_def get_service_def set_service_def reply_def case_prod_beta)

lemma dm_reads_error: "dm_reads (dm_error e x)"
  unfolding dm_error_def by (intro frame_bind frame_return dm_reads_basic frame_set_error) simp

lemma dm_reads_gets:
  "dm_reads (gumd_daemon_get_user C uid)" "dm_reads (gumd_daemon_get_group C gid)"
  "dm_reads (gumd_daemon_get_user_list C types)"
  unfolding gumd_daemon_get_user_def gumd_daemon_get_group_def gumd_daemon_get_user_list_def
  by (intro frame_bind frame_return frame_if frame_case_option dm_reads_basic dm_reads_error frame_lookups frame_let)+

lemma dm_reads_by_name:
  "dm_reads (gumd_daemon_get_user_by_name C n)" "dm_reads (gumd_daemon_get_group_by_name C n)"
  unfolding gumd_daemon_get_user_by_name_def gumd_daemon_get_group_by_name_def
  by (intro frame_bind frame_if dm_reads_basic dm_reads_error dm_reads_gets frame_lookups)+

lemma sm_reads_errors: "sm_reads no_gerror" "sm_reads (reply_error e)"
  unfolding no_gerror_def reply_error_def
  by (intro frame_bind sm_reads_basic dm_reads_basic frame_gets frame_modify; simp)+

lemma sm_reads_adapter: "sm_reads (create_and_cache_adapter K k r)"
  unfolding create_and_cache_adapter_def adapter_new_with_connection_def
  by (intro frame_bind frame_if frame_return sm_reads_basic dm_reads_basic)

lemma sm_reads_for:
  assumes "dm_reads (k_get K i)"
  shows "sm_reads (reply_adapter_for K k i)"
  unfolding reply_adapter_for_def
  by (intro frame_bind frame_if frame_return frame_case_option sm_reads_basic sm_reads_errors sm_reads_adapter assms)

lemma sm_reads_calls: "sm_reads (user_service C k uq)" "sm_reads (group_service C k gq)"
proof -
  have ks: "dm_reads (k_get (user_kind C) i)" "dm_reads (k_get (group_kind C) i)"
    "frame files (k_by_name (user_kind C) n)" "frame files (k_by_name (group_kind C) n)" for i n
    by (simp_all add: user_kind_def group_kind_def dm_reads_gets frame_lookups)
  note rules = frame_bind frame_return frame_case_option sm_reads_basic sm_reads_errors sm_reads_adapter dm_reads_basic
    dm_reads_gets sm_reads_for ks
  show "sm_reads (user_service C k uq)"
    by (cases uq; simp add: handle_create_new_user_def handle_create_new_def handle_get_user_def handle_get_def
        handle_get_user_by_name_def handle_get_by_name_def handle_get_user_list_def; intro rules)
  show "sm_reads (group_service C k gq)"
    by (cases gq; simp add: handle_create_new_group_def handle_create_new_def handle_get_group_def handle_get_def
        handle_get_group_by_name_def handle_get_by_name_def; intro rules)
qed

lemma cm_reads_local: "dm_reads m \<Longrightarrow> cm_reads (on_local m)"
  by (simp add: frame_def wp_def on_local_def case_prod_beta)

lemma cm_reads_users: "(\<And>k. sm_reads (m k)) \<Longrightarrow> cm_reads (call_users m)" "(\<And>k. sm_reads (m k)) \<Longrightarrow> cm_reads (call_groups m)"
  by (simp_all add: frame_def wp_def call_users_def call_groups_def at_users_def at_groups_def Let_def case_prod_beta)

lemma cm_reads_with: "cm_reads (with_dbus_object u x)" "cm_reads (with_offline_object u r)"
  unfolding with_dbus_object_def with_offline_object_def by (intro frame_bind frame_gets frame_return)+

lemma cm_reads_far:
  "cm_reads (call_users (handle_create_new_user C))" "cm_reads (call_users (\<lambda>k. handle_get_user C k uid))"
  "cm_reads (call_users (\<lambda>k. handle_get_user_by_name C k n))" "cm_reads (call_users (\<lambda>_. handle_get_user_list C types))"
  "cm_reads (call_groups (handle_create_new_group C))" "cm_reads (call_groups (\<lambda>k. handle_get_group C k gid))"
  "cm_reads (call_groups (\<lambda>k. handle_get_group_by_name C k n))"
  using sm_reads_calls(1) [of C _ Create_new_user] sm_reads_calls(1) [of C _ "Get_user uid"]
    sm_reads_calls(1) [of C _ "Get_user_by_name n"] sm_reads_calls(1) [of C _ "Get_user_list types"]
    sm_reads_calls(2) [of C _ Create_new_group] sm_reads_calls(2) [of C _ "Get_group gid"]
    sm_reads_calls(2) [of C _ "Get_group_by_name n"]
  by (auto intro: cm_reads_users)

lemmas cm_rules = frame_bind frame_return frame_if frame_gets frame_case_option cm_reads_local cm_reads_with cm_reads_far
  dm_reads_gets dm_reads_by_name

lemma client_reads:
  "cm_reads (gum_user_get_sync C uid off)" "cm_reads (gum_user_get_by_name_sync C n off)"
  "cm_reads (gum_group_get_sync C gid off)" "cm_reads (gum_group_get_by_name_sync C n off)"
  unfolding gum_user_get_sync_def gum_user_get_by_name_sync_def gum_group_get_sync_def gum_group_get_by_name_sync_def Let_def
  by (intro cm_rules)+

lemma list_reads: "cm_reads (gum_user_service_get_user_list_sync C off svc types)"
proof -
  have "cm_reads (uids_to_user_list C ids b)" for ids b
    by (induction ids) (auto intro!: frame_bind frame_if frame_return client_reads)
  then show ?thesis
    unfolding gum_user_service_get_user_list_sync_def
    by (intro cm_rules; auto split: answer.split reply.split intro: frame_return)
qed

end
