(* ===== verification/Gum_User_Service.thy ===== *)
theory Gum_User_Service
  imports Gum_Client_Op "HOL-Library.Multiset"
begin

text \<open>
  The service objects of the client library (\<^verbatim>\<open>gum-user-service.c\<close>, \<^verbatim>\<open>gum-group-service.c\<close>):
  the table that gives each thread its proxy of a service, and the one user service of the
  process with its operation and its sources in the main loop. The properties: a thread that
  gives back what it got has one proxy at a time; and what the user service does when user
  objects are made while it has an operation.
\<close>

section \<open>A proxy for each thread\<close>

text \<open>
  The table of weak references by thread, NULL when there is none, and the proxies with their
  references. A weak reference to a proxy that is gone gives nothing.
\<close>

record proxy_table =
  service_objects :: "(nat \<times> nat) list option"
  proxy_refs :: "nat \<Rightarrow> nat"
  next_proxy :: nat

definition no_proxies :: proxy_table where
  "no_proxies = \<lparr>service_objects = None, proxy_refs = (\<lambda>_. 0), next_proxy = 0\<rparr>"

definition get_service_singleton :: "nat \<Rightarrow> proxy_table \<Rightarrow> nat option \<times> proxy_table" where
  "get_service_singleton thread s =
     (case service_objects s of
        None \<Rightarrow> (None, s)
      | Some objects \<Rightarrow>
          (case map_of objects thread of
             None \<Rightarrow> (None, s)
           | Some p \<Rightarrow> if proxy_refs s p = 0 then (None, s)
                       else (Some p, s\<lparr>proxy_refs := (proxy_refs s)(p := proxy_refs s p + 1)\<rparr>)))"

definition set_service_singleton :: "nat \<Rightarrow> nat \<Rightarrow> proxy_table \<Rightarrow> proxy_table" where
  "set_service_singleton thread p s =
     (let objects = (case service_objects s of None \<Rightarrow> [] | Some objects \<Rightarrow> objects)
      in s\<lparr>service_objects := Some ((thread, p) # filter (\<lambda>e. fst e \<noteq> thread) objects)\<rparr>)"

definition on_group_service_destroyed :: "nat \<Rightarrow> proxy_table \<Rightarrow> proxy_table" where
  "on_group_service_destroyed thread s =
     (case service_objects s of
        None \<Rightarrow> s
      | Some objects \<Rightarrow>
          (let objects = filter (\<lambda>e. fst e \<noteq> thread) objects
           in s\<lparr>service_objects := if objects = [] then None else Some objects\<rparr>))"

text \<open>\<open>made\<close>: the connection and the proxy can be made.\<close>

definition gum_group_service_get_instance :: "bool \<Rightarrow> nat \<Rightarrow> proxy_table \<Rightarrow> nat option \<times> proxy_table" where
  "gum_group_service_get_instance made thread s =
     (case get_service_singleton thread s of
        (Some p, s) \<Rightarrow> (Some p, s)
      | (None, s) \<Rightarrow>
          if \<not> made then (None, s)
          else (let p = next_proxy s;
                    s = s\<lparr>proxy_refs := (proxy_refs s)(p := 1), next_proxy := p + 1\<rparr>
                in (Some p, set_service_singleton thread p s)))"

text \<open>The last reference takes the entry of the thread that gives it back.\<close>

definition proxy_unref :: "nat \<Rightarrow> nat \<Rightarrow> proxy_table \<Rightarrow> proxy_table" where
  "proxy_unref thread p s =
     (let s' = s\<lparr>proxy_refs := (proxy_refs s)(p := proxy_refs s p - 1)\<rparr>
      in if proxy_refs s p = 1 then on_group_service_destroyed thread s' else s')"

text \<open>Threads that give back what they got: the multiset has who holds which proxy.\<close>

inductive proxy_step :: "proxy_table \<times> (nat \<times> nat) multiset \<Rightarrow> proxy_table \<times> (nat \<times> nat) multiset \<Rightarrow> bool" where
  got: "gum_group_service_get_instance made t s = (Some p, s') \<Longrightarrow> proxy_step (s, H) (s', add_mset (t, p) H)"
| failed: "gum_group_service_get_instance made t s = (None, s') \<Longrightarrow> proxy_step (s, H) (s', H)"
| gave: "(t, p) \<in># H \<Longrightarrow> proxy_step (s, H) (proxy_unref t p s, H - {#(t, p)#})"

definition thread_entry :: "proxy_table \<Rightarrow> nat \<Rightarrow> nat option" where
  "thread_entry s t = (case service_objects s of None \<Rightarrow> None | Some objects \<Rightarrow> map_of objects t)"

definition proxies_ok :: "proxy_table \<times> (nat \<times> nat) multiset \<Rightarrow> bool" where
  "proxies_ok z \<longleftrightarrow> (case z of (s, H) \<Rightarrow>
     (\<forall>t p. thread_entry s t = Some p \<longleftrightarrow> (t, p) \<in># H) \<and> (\<forall>t p. (t, p) \<in># H \<longrightarrow> proxy_refs s p = count H (t, p)) \<and>
     (\<forall>t u p. (t, p) \<in># H \<longrightarrow> (u, p) \<in># H \<longrightarrow> t = u) \<and> (\<forall>t p. (t, p) \<in># H \<longrightarrow> p < next_proxy s) \<and>
     service_objects s \<noteq> Some [])"

lemma proxies_okD:
  assumes "proxies_ok (s, H)"
  shows "thread_entry s t = Some p \<longleftrightarrow> (t, p) \<in># H" "(t, p) \<in># H \<Longrightarrow> proxy_refs s p = count H (t, p)"
    "(t, p) \<in># H \<Longrightarrow> (u, p) \<in># H \<Longrightarrow> u = t" "(t, p) \<in># H \<Longrightarrow> p < next_proxy s" "service_objects s \<noteq> Some []"
  using assms unfolding proxies_ok_def prod.case by blast+

lemma proxies_okI:
  assumes "\<And>t p. thread_entry s t = Some p \<longleftrightarrow> (t, p) \<in># H" "\<And>t p. (t, p) \<in># H \<Longrightarrow> proxy_refs s p = count H (t, p)"
    "\<And>t u p. (t, p) \<in># H \<Longrightarrow> (u, p) \<in># H \<Longrightarrow> t = u" "\<And>t p. (t, p) \<in># H \<Longrightarrow> p < next_proxy s"
    "service_objects s \<noteq> Some []"
  shows "proxies_ok (s, H)"
  using assms unfolding proxies_ok_def prod.case by blast

lemma map_of_filter_key: "map_of (filter (\<lambda>e. fst e \<noteq> t) xs) u = (if u = t then None else map_of xs u)"
  by (induction xs) auto

lemma thread_entry_set [simp]: "thread_entry (set_service_singleton t p s) u = (if u = t then Some p else thread_entry s u)"
  by (simp add: thread_entry_def set_service_singleton_def Let_def map_of_filter_key split: option.split)

lemma thread_entry_destroyed [simp]:
  "thread_entry (on_group_service_destroyed t s) u = (if u = t then None else thread_entry s u)"
proof (cases "service_objects s")
  case (Some objects)
  have "filter (\<lambda>e. fst e \<noteq> t) objects = [] \<Longrightarrow> u \<noteq> t \<Longrightarrow> map_of objects u = None"
    using map_of_filter_key [of t objects u] by simp
  then show ?thesis
    by (auto simp: thread_entry_def on_group_service_destroyed_def Let_def Some map_of_filter_key)
qed (simp add: thread_entry_def on_group_service_destroyed_def)

lemma thread_entry_update [simp]: "thread_entry (s\<lparr>proxy_refs := f\<rparr>) = thread_entry s"
  "thread_entry (s\<lparr>next_proxy := n\<rparr>) = thread_entry s"
  by (simp_all add: fun_eq_iff thread_entry_def)

lemma destroyed_simps [simp]: "proxy_refs (on_group_service_destroyed t s) = proxy_refs s"
  "next_proxy (on_group_service_destroyed t s) = next_proxy s"
  "service_objects s \<noteq> Some [] \<Longrightarrow> service_objects (on_group_service_destroyed t s) \<noteq> Some []"
  by (auto simp: on_group_service_destroyed_def Let_def split: option.split)

lemma set_singleton_simps [simp]: "proxy_refs (set_service_singleton t p s) = proxy_refs s"
  "next_proxy (set_service_singleton t p s) = next_proxy s" "service_objects (set_service_singleton t p s) \<noteq> Some []"
  by (simp_all add: set_service_singleton_def Let_def)

lemma get_instance_entry:
  assumes "proxies_ok (s, H)"
  shows "gum_group_service_get_instance made t s = (case thread_entry s t of
       Some p \<Rightarrow> (Some p, s\<lparr>proxy_refs := (proxy_refs s)(p := proxy_refs s p + 1)\<rparr>)
     | None \<Rightarrow> if \<not> made then (None, s) else
         (Some (next_proxy s), set_service_singleton t (next_proxy s)
            (s\<lparr>proxy_refs := (proxy_refs s)(next_proxy s := 1), next_proxy := next_proxy s + 1\<rparr>)))"
proof (cases "thread_entry s t")
  case (Some p)
  with proxies_okD(1,2) [OF assms] have "(t, p) \<in># H" "proxy_refs s p = count H (t, p)" by blast+
  then have "proxy_refs s p \<noteq> 0" by simp
  with Some show ?thesis
    by (auto simp: gum_group_service_get_instance_def get_service_singleton_def thread_entry_def split: option.splits)
qed (auto simp: gum_group_service_get_instance_def get_service_singleton_def thread_entry_def Let_def split: option.splits)

lemma got_ok:
  assumes "gum_group_service_get_instance made t s = (Some p, s')" "proxies_ok (s, H)"
  shows "proxies_ok (s', add_mset (t, p) H)"
proof (cases "thread_entry s t")
  case None
  note ok = proxies_okD [OF assms(2)]
  from None assms(1) get_instance_entry [OF assms(2)] have p: "p = next_proxy s"
    and s': "s' = set_service_singleton t p (s\<lparr>proxy_refs := (proxy_refs s)(p := 1), next_proxy := p + 1\<rparr>)"
    by (auto split: if_splits)
  have new: "(u, p) \<notin># H" for u using ok(4) [of u p] p by auto
  have old: "(t, q) \<notin># H" for q using ok(1) [of t q] None by simp
  have zero: "count H (t, p) = 0" using new [of t] by (simp add: not_in_iff)
  have "q \<noteq> p" if "(u, q) \<in># H" for u q using that new by blast
  then have cnt: "proxy_refs s' q = count (add_mset (t, p) H) (u, q)" if "(u, q) \<in># add_mset (t, p) H" for u q
    using that ok(2) zero by (auto simp: s')
  show ?thesis
  proof (rule proxies_okI)
    show "thread_entry s' u = Some q \<longleftrightarrow> (u, q) \<in># add_mset (t, p) H" for u q
      using ok(1) [of u q] old [of q] by (auto simp: s')
    show "q < next_proxy s'" if "(u, q) \<in># add_mset (t, p) H" for u q
      using that ok(4) [of u q] by (auto simp: s' p)
    show "u = v" if "(u, q) \<in># add_mset (t, p) H" "(v, q) \<in># add_mset (t, p) H" for u v q
      using that ok(3) [of u q v] new by auto
    show "service_objects s' \<noteq> Some []" by (simp add: s')
  qed (rule cnt)
next
  case (Some q)
  note ok = proxies_okD [OF assms(2)]
  from Some assms(1) get_instance_entry [OF assms(2)] have q: "q = p"
    and s': "s' = s\<lparr>proxy_refs := (proxy_refs s)(p := proxy_refs s p + 1)\<rparr>" by auto
  have tp: "(t, p) \<in># H" using ok(1) Some q by simp
  then have "set_mset (add_mset (t, p) H) = set_mset H" by auto
  moreover have "proxy_refs s' q = count (add_mset (t, p) H) (u, q)" if "(u, q) \<in># H" for u q
    using that ok(2) [OF that] ok(3) [OF tp] by (auto simp: s')
  ultimately show ?thesis using ok(1,3,4,5) unfolding proxies_ok_def prod.case by (simp add: s')
qed

lemma gave_ok:
  assumes "(t, p) \<in># H" "proxies_ok (s, H)"
  shows "proxies_ok (proxy_unref t p s, H - {#(t, p)#})"
proof (cases "count H (t, p) = 1")
  case True
  note ok = proxies_okD [OF assms(2)]
  have s': "proxy_unref t p s = on_group_service_destroyed t (s\<lparr>proxy_refs := (proxy_refs s)(p := 0)\<rparr>)"
    using ok(2) [OF assms(1)] True by (simp add: proxy_unref_def)
  have m: "e \<in># H - {#(t, p)#} \<longleftrightarrow> e \<in># H \<and> e \<noteq> (t, p)" for e
    using True by (cases "e = (t, p)") (auto simp: not_in_iff in_diff_count)
  have e: "(t, q) \<in># H \<longleftrightarrow> q = p" for q using ok(1) [of t q] ok(1) [of t p] assms(1) by auto
  have c: "count (H - {#(t, p)#}) f = count H f" if "f \<noteq> (t, p)" for f using that by simp
  have "proxy_refs (proxy_unref t p s) q = count (H - {#(t, p)#}) (u, q)" if "(u, q) \<in># H - {#(t, p)#}" for u q
  proof -
    from that m have h: "(u, q) \<in># H" "(u, q) \<noteq> (t, p)" by blast+
    with ok(3) [OF assms(1), of u] have "q \<noteq> p" by auto
    with ok(2) [OF h(1)] c [OF h(2)] show ?thesis by (simp add: s')
  qed
  moreover have "thread_entry (proxy_unref t p s) u = Some q \<longleftrightarrow> (u, q) \<in># H - {#(t, p)#}" for u q
    unfolding m using ok(1) [of u q] e [of q] by (auto simp: s')
  ultimately show ?thesis
    using ok(3,4,5) unfolding proxies_ok_def prod.case m by (simp add: s') metis
next
  case False
  note ok = proxies_okD [OF assms(2)]
  from assms(1) have "0 < count H (t, p)" by simp
  with False have c: "Suc 0 < count H (t, p)" by linarith
  then have m: "set_mset (H - {#(t, p)#}) = set_mset H"
    using assms(1) by (auto simp: in_diff_count dest: in_diffD)
  have s': "proxy_unref t p s = s\<lparr>proxy_refs := (proxy_refs s)(p := count H (t, p) - 1)\<rparr>"
    using ok(2) [OF assms(1)] False by (simp add: proxy_unref_def)
  have "proxy_refs (proxy_unref t p s) q = count (H - {#(t, p)#}) (u, q)" if "(u, q) \<in># H" for u q
    using ok(2) [OF that] ok(3) [OF assms(1), of u] that by (auto simp: s')
  then show ?thesis using ok(1,3,4,5) unfolding proxies_ok_def prod.case m by (simp add: s')
qed

lemma proxy_step_ok: "proxy_step z z' \<Longrightarrow> proxies_ok z \<Longrightarrow> proxies_ok z'"
proof (induction rule: proxy_step.induct)
  case (failed made t s s' H)
  with get_instance_entry [OF failed.prems] show ?case by (auto split: option.splits if_splits)
qed (auto intro: got_ok gave_ok)

lemma proxies_reach: "proxy_step\<^sup>*\<^sup>* (no_proxies, {#}) z \<Longrightarrow> proxies_ok z"
proof (induction rule: rtranclp_induct)
  case base
  show ?case by (simp add: proxies_ok_def no_proxies_def thread_entry_def)
qed (rule proxy_step_ok)

section \<open>The user service\<close>

text \<open>
  One object for the process, whatever it is asked for (\<open>sv_refs\<close> is 0 when there is none),
  with the operation it has and its sources in the main loop, each with the number of the
  object that it was made for. A callback is known by a number and by the kind that its
  caller gave; what is called is recorded with the kind that it is called as.
\<close>

datatype service_cb = Service_cb nat | List_cb nat

datatype service_called =
    As_service service_cb "client_error option"
  | As_list service_cb "uid_t list" "client_error option"

datatype service_source = Idle_service | Idle_list | Idle_proxy

record service_op =
  so_callback :: "service_cb option"
  so_error :: "client_error option"
  so_users :: "uid_t list"
  so_cb_id :: nat

record service_object =
  sv_refs :: nat
  sv_instance :: nat
  sv_offline :: bool
  sv_dbus :: bool
  sv_op :: "service_op option"
  dbus_proxy_cb_id :: nat
  sv_unanswered :: "nat list"
  sv_sources :: "(nat \<times> nat \<times> service_source) list"
  sv_next :: nat
  sv_called :: "service_called list"
  sv_crashed :: bool

definition no_service :: service_object where
  "no_service = \<lparr>sv_refs = 0, sv_instance = 0, sv_offline = False, sv_dbus = False, sv_op = None, dbus_proxy_cb_id = 0,
     sv_unanswered = [], sv_sources = [], sv_next = 1, sv_called = [], sv_crashed = False\<rparr>"

text \<open>\<open>g_object_new\<close> with the constructor of the class: an object that is there keeps its mode.\<close>

definition gum_user_service_new :: "bool \<Rightarrow> service_object \<Rightarrow> service_object" where
  "gum_user_service_new offline s =
     (if sv_refs s = 0
      then s\<lparr>sv_refs := 1, sv_instance := sv_instance s + 1, sv_offline := offline, sv_dbus := False, sv_op := None,
             dbus_proxy_cb_id := 0, sv_unanswered := []\<rparr>
      else s\<lparr>sv_refs := sv_refs s + 1\<rparr>)"

definition service_source_remove :: "nat \<Rightarrow> service_object \<Rightarrow> service_object" where
  "service_source_remove i s = s\<lparr>sv_sources := filter (\<lambda>e. fst e \<noteq> i) (sv_sources s)\<rparr>"

text \<open>\<open>g_idle_add\<close>; the callers store the number of the source.\<close>

definition service_idle_add :: "service_source \<Rightarrow> service_object \<Rightarrow> service_object" where
  "service_idle_add k s = s\<lparr>sv_sources := sv_sources s @ [(sv_next s, sv_instance s, k)], sv_next := sv_next s + 1\<rparr>"

text \<open>The users of a list hold a reference each.\<close>

definition service_free_op :: "service_object \<Rightarrow> service_object" where
  "service_free_op s =
     (case sv_op s of
        None \<Rightarrow> s
      | Some op \<Rightarrow>
          (let s = (if so_cb_id op > 0 then service_source_remove (so_cb_id op) s else s)
           in s\<lparr>sv_refs := sv_refs s - length (so_users op), sv_op := None\<rparr>))"

definition service_create_op :: "service_cb option \<Rightarrow> service_object \<Rightarrow> service_object" where
  "service_create_op callback s =
     (service_free_op s)\<lparr>sv_op := Some \<lparr>so_callback = callback, so_error = None, so_users = [], so_cb_id = 0\<rparr>\<rparr>"

definition service_trigger_callback :: "(service_object \<Rightarrow> service_object) \<Rightarrow> service_object \<Rightarrow> service_object" where
  "service_trigger_callback f s =
     (case sv_op s of
        None \<Rightarrow> s
      | Some op \<Rightarrow>
          (let s = (case so_callback op of None \<Rightarrow> s | Some k \<Rightarrow> f (s\<lparr>sv_called := sv_called s @ [As_service k (so_error op)]\<rparr>))
           in case sv_op s of None \<Rightarrow> s\<lparr>sv_crashed := True\<rparr> | Some op \<Rightarrow> s\<lparr>sv_op := Some (op\<lparr>so_cb_id := 0\<rparr>)\<rparr>))"

definition service_setup_idle_callback :: "client_error option \<Rightarrow> service_object \<Rightarrow> service_object" where
  "service_setup_idle_callback error s =
     (case sv_op s of
        None \<Rightarrow> s
      | Some op \<Rightarrow>
          if so_callback op = None then s
          else (let op = (if error \<noteq> None then op\<lparr>so_error := error\<rparr> else op)
                in (service_idle_add Idle_service s)\<lparr>sv_op := Some (op\<lparr>so_cb_id := sv_next s\<rparr>)\<rparr>))"

text \<open>\<open>made\<close>: the proxy of the thread is there or can be made.\<close>

definition service_dbus_proxy_callback :: "bool \<Rightarrow> service_object \<Rightarrow> service_object" where
  "service_dbus_proxy_callback made s =
     (let s = s\<lparr>dbus_proxy_cb_id := 0\<rparr>
      in if sv_dbus s then service_setup_idle_callback None s
         else if made then service_setup_idle_callback None (s\<lparr>sv_dbus := True\<rparr>)
         else service_setup_idle_callback (Some Transport_error) s)"

definition trigger_user_list_callback :: "(service_object \<Rightarrow> service_object) \<Rightarrow> service_object \<Rightarrow> service_object" where
  "trigger_user_list_callback f s =
     (case sv_op s of
        None \<Rightarrow> s
      | Some op \<Rightarrow>
          (case so_callback op of
             None \<Rightarrow> s\<lparr>sv_op := Some (op\<lparr>so_cb_id := 0\<rparr>)\<rparr>
           | Some k \<Rightarrow>
               (let s = f (s\<lparr>sv_called := sv_called s @ [As_list k (so_users op) (so_error op)]\<rparr>)
                in case sv_op s of
                     None \<Rightarrow> s\<lparr>sv_crashed := True\<rparr>
                   | Some op \<Rightarrow> s\<lparr>sv_op := Some (op\<lparr>so_users := [], so_cb_id := 0\<rparr>)\<rparr>)))"

definition setup_idle_user_list_callback :: "uid_t list \<Rightarrow> client_error option \<Rightarrow> service_object \<Rightarrow> service_object" where
  "setup_idle_user_list_callback users error s =
     (case sv_op s of
        None \<Rightarrow> s
      | Some op \<Rightarrow>
          if so_callback op = None then s
          else (let op = (if error \<noteq> None then op\<lparr>so_error := error\<rparr> else op)
                in (service_idle_add Idle_list s)\<lparr>sv_op := Some (op\<lparr>so_users := users, so_cb_id := sv_next s\<rparr>)\<rparr>))"

definition setup_idle_dbus_proxy_callback :: "service_object \<Rightarrow> service_object" where
  "setup_idle_dbus_proxy_callback s =
     (if dbus_proxy_cb_id s > 0 then s else (service_idle_add Idle_proxy s)\<lparr>dbus_proxy_cb_id := sv_next s\<rparr>)"

definition user_service_dispose :: "service_object \<Rightarrow> service_object" where
  "user_service_dispose s =
     (let s = (if dbus_proxy_cb_id s > 0 then (service_source_remove (dbus_proxy_cb_id s) s)\<lparr>dbus_proxy_cb_id := 0\<rparr> else s)
      in (service_free_op s)\<lparr>sv_unanswered := [], sv_dbus := False\<rparr>)"

definition user_service_unref :: "service_object \<Rightarrow> service_object" where
  "user_service_unref s =
     (let s' = s\<lparr>sv_refs := sv_refs s - 1\<rparr> in if sv_refs s = 1 then user_service_dispose s' else s')"

definition gum_user_service_create :: "nat \<Rightarrow> service_object \<Rightarrow> service_object" where
  "gum_user_service_create k s =
     setup_idle_dbus_proxy_callback (service_create_op (Some (Service_cb k)) (gum_user_service_new False s))"

definition gum_user_service_create_sync :: "bool \<Rightarrow> bool \<Rightarrow> service_object \<Rightarrow> service_object" where
  "gum_user_service_create_sync offline made s =
     (let s = gum_user_service_new offline s in if \<not> offline then service_dbus_proxy_callback made s else s)"

definition gum_user_service_get_user_list :: "nat \<Rightarrow> service_object \<Rightarrow> bool \<times> service_object" where
  "gum_user_service_get_user_list k s =
     (if \<not> sv_dbus s then (False, s)
      else (True, (service_create_op (Some (List_cb k)) s)\<lparr>sv_unanswered := sv_unanswered s @ [k]\<rparr>))"

text \<open>
  An online user object is made with a reference to the service, which goes with the object
  when the user cannot be got.
\<close>

definition got_user :: "bool \<Rightarrow> (uid_t \<Rightarrow> bool) \<Rightarrow> uid_t \<Rightarrow> uid_t list \<times> service_object \<Rightarrow> uid_t list \<times> service_object" where
  "got_user made got uid r =
     (case r of (users, s) \<Rightarrow>
        if uid = GUM_USER_INVALID_UID then (users, s)
        else (let s = gum_user_service_create_sync False made s
              in if got uid then (users @ [uid], s) else (users, user_service_unref s)))"

definition uids_variant_to_user_list :: "bool \<Rightarrow> (uid_t \<Rightarrow> bool) \<Rightarrow> uid_t list \<Rightarrow> service_object \<Rightarrow> uid_t list \<times> service_object" where
  "uids_variant_to_user_list made got uids s = fold (got_user made got) uids ([], s)"

text \<open>The answer of the list call \<open>k\<close>, unless the service has been disposed of.\<close>

definition on_get_user_list_cb :: "bool \<Rightarrow> (uid_t \<Rightarrow> bool) \<Rightarrow> nat \<Rightarrow> uid_t list \<Rightarrow> client_error option \<Rightarrow>
    service_object \<Rightarrow> service_object" where
  "on_get_user_list_cb made got k uids error s =
     (if k \<notin> set (sv_unanswered s) then s
      else (let s = s\<lparr>sv_unanswered := remove1 k (sv_unanswered s)\<rparr>;
                (users, s) = (if error = None then uids_variant_to_user_list made got uids s else ([], s))
            in setup_idle_user_list_callback users error s))"

text \<open>
  The main loop runs a source, and removes it as its callback returns FALSE. A source made
  for an object that is gone reads freed memory.
\<close>

definition run_service_source :: "(service_object \<Rightarrow> service_object) \<Rightarrow> bool \<Rightarrow> nat \<times> nat \<times> service_source \<Rightarrow>
    service_object \<Rightarrow> service_object" where
  "run_service_source f made e s =
     (case e of (i, inst, k) \<Rightarrow>
        service_source_remove i
          (if sv_refs s = 0 \<or> sv_instance s \<noteq> inst then s\<lparr>sv_crashed := True\<rparr>
           else case k of
             Idle_service \<Rightarrow> service_trigger_callback f s
           | Idle_list \<Rightarrow> trigger_user_list_callback f s
           | Idle_proxy \<Rightarrow> service_dbus_proxy_callback made s))"

text \<open>The loop runs the sources in their order; fuel counts them.\<close>

fun run_loop :: "(service_object \<Rightarrow> service_object) \<Rightarrow> bool \<Rightarrow> nat \<Rightarrow> service_object \<Rightarrow> service_object" where
  "run_loop f made 0 s = s"
| "run_loop f made (Suc n) s = (case sv_sources s of [] \<Rightarrow> s | e # _ \<Rightarrow> run_loop f made n (run_service_source f made e s))"

section \<open>A list of users\<close>

lemmas service_defs = gum_user_service_new_def service_source_remove_def service_idle_add_def service_free_op_def
  service_create_op_def service_trigger_callback_def service_setup_idle_callback_def service_dbus_proxy_callback_def
  trigger_user_list_callback_def setup_idle_user_list_callback_def setup_idle_dbus_proxy_callback_def
  user_service_dispose_def user_service_unref_def gum_user_service_create_def gum_user_service_create_sync_def
  gum_user_service_get_user_list_def run_service_source_def

definition sources_fresh :: "nat \<Rightarrow> (nat \<times> 'a) list \<Rightarrow> bool" where
  "sources_fresh n xs \<longleftrightarrow> distinct (map fst xs) \<and> (\<forall>e\<in>set xs. fst e < n)"

lemma sources_fresh_add [simp]: "sources_fresh n xs \<Longrightarrow> sources_fresh (Suc n) (xs @ [(n, q)])"
  by (fastforce simp: sources_fresh_def)

lemma sources_fresh_nil [simp]: "sources_fresh n []"
  by (simp add: sources_fresh_def)

lemma sources_fresh_tail:
  "sources_fresh n ((i, q) # xs) \<Longrightarrow> sources_fresh n xs" "sources_fresh n ((i, q) # xs) \<Longrightarrow> filter (\<lambda>e. fst e \<noteq> i) xs = xs"
  by (auto simp: sources_fresh_def filter_id_conv)

text \<open>A live service with an operation, and sources of the given kinds in the loop.\<close>

definition service_waits :: "service_cb \<Rightarrow> uid_t list \<Rightarrow> service_called list \<Rightarrow> service_source list \<Rightarrow> service_object \<Rightarrow> bool" where
  "service_waits k users cs ks s \<longleftrightarrow> 0 < sv_refs s \<and> sv_dbus s \<and> \<not> sv_crashed s \<and> sv_called s = cs \<and>
     map snd (sv_sources s) = map (\<lambda>j. (sv_instance s, j)) ks \<and>
     sources_fresh (sv_next s) (sv_sources s) \<and>
     (\<exists>i. sv_op s = Some \<lparr>so_callback = Some k, so_error = None, so_users = users, so_cb_id = i\<rparr>)"

lemma got_user_waits:
  assumes "service_waits k [] cs (replicate n Idle_service) s" "got_user made got uid (us, s) = (us', s')"
  shows "service_waits k [] cs (replicate (if uid = GUM_USER_INVALID_UID then n else n + 1) Idle_service) s' \<and>
     us' = us @ (if uid \<noteq> GUM_USER_INVALID_UID \<and> got uid then [uid] else [])"
  using assms
  by (auto simp: service_waits_def got_user_def service_defs Let_def replicate_append_same [symmetric] split: if_splits)

lemma got_users_wait:
  assumes "service_waits k [] cs (replicate n Idle_service) s" "fold (got_user made got) uids (us, s) = (us', s')"
  shows "service_waits k [] cs (replicate (n + length (filter (\<lambda>u. u \<noteq> GUM_USER_INVALID_UID) uids)) Idle_service) s' \<and>
     us' = us @ filter (\<lambda>u. u \<noteq> GUM_USER_INVALID_UID \<and> got u) uids"
  using assms
proof (induction uids arbitrary: n us s)
  case (Cons u uids)
  obtain us1 s1 where g: "got_user made got u (us, s) = (us1, s1)" by (cases "got_user made got u (us, s)")
  from Cons.prems(2) g have "fold (got_user made got) uids (us1, s1) = (us', s')" by simp
  with Cons.IH [of n s1 us1] Cons.IH [of "n + 1" s1 us1] got_user_waits [OF Cons.prems(1) g] show ?case
    by (cases "u = GUM_USER_INVALID_UID") auto
qed simp

lemma run_waits:
  assumes "service_waits k users cs (j # ks) s" "sv_sources s = e # es" "j \<noteq> Idle_proxy"
  shows "service_waits k (if j = Idle_list then [] else users)
      (cs @ [if j = Idle_list then As_list k users None else As_service k None]) ks (run_service_source (\<lambda>s. s) made e s)"
proof -
  obtain i where e: "e = (i, sv_instance s, j)" using assms(1,2) by (cases e) (auto simp: service_waits_def)
  have "filter (\<lambda>e. fst e \<noteq> i) es = es" "sources_fresh (sv_next s) es"
    using assms(1,2) sources_fresh_tail by (auto simp: service_waits_def e)
  with assms show ?thesis
    by (cases j) (auto simp: service_waits_def service_defs e)
qed

lemma run_loop_waits:
  assumes "service_waits k users cs (replicate n Idle_service @ [Idle_list]) s"
  shows "service_waits k [] (cs @ replicate n (As_service k None) @ [As_list k users None]) [] (run_loop (\<lambda>s. s) made (n + 1) s)"
  using assms
proof (induction n arbitrary: cs s)
  case 0
  then obtain e es where s: "sv_sources s = e # es" by (cases "sv_sources s") (auto simp: service_waits_def)
  from run_waits [OF _ s, of k users cs Idle_list "[]" made] 0 s show ?case by simp
next
  case (Suc n)
  then obtain e es where s: "sv_sources s = e # es" by (cases "sv_sources s") (auto simp: service_waits_def)
  from run_waits [OF _ s, of k users cs Idle_service "replicate n Idle_service @ [Idle_list]" made] Suc.prems
  have "service_waits k users (cs @ [As_service k None]) (replicate n Idle_service @ [Idle_list])
      (run_service_source (\<lambda>s. s) made e s)" by simp
  from Suc.IH [OF this] s show ?case by simp
qed

section \<open>Properties\<close>

text \<open>
  C34. Threads that give back what they got. A thread that has a proxy gets the same one again,
  whether or not another could be made; no proxy is had by two threads; a proxy has as many
  references as were got and not given back; and when nothing is held the table is gone.
\<close>

theorem one_proxy_per_thread:
  assumes "proxy_step\<^sup>*\<^sup>* (no_proxies, {#}) (s, H)"
  shows "(\<forall>t p made. (t, p) \<in># H \<longrightarrow> fst (gum_group_service_get_instance made t s) = Some p) \<and>
     (\<forall>t u p. (t, p) \<in># H \<longrightarrow> (u, p) \<in># H \<longrightarrow> t = u) \<and>
     (\<forall>t p. (t, p) \<in># H \<longrightarrow> proxy_refs s p = count H (t, p)) \<and> (H = {#} \<longleftrightarrow> service_objects s = None)"
proof -
  note reach = proxies_reach [OF assms]
  note ok = proxies_okD [OF reach]
  have "fst (gum_group_service_get_instance made t s) = Some p" if "(t, p) \<in># H" for t p made
    using that ok(1) [of t p] by (simp add: get_instance_entry [OF reach])
  moreover have "H = {#}" if "service_objects s = None"
  proof -
    have "thread_entry s t = None" for t using that by (simp add: thread_entry_def)
    with ok(1) have "e \<notin># H" for e by (cases e) auto
    then show ?thesis by (meson multiset_nonemptyE)
  qed
  moreover have "service_objects s = None" if "H = {#}"
  proof (rule ccontr)
    assume "service_objects s \<noteq> None"
    with ok(5) obtain t p xs where "service_objects s = Some ((t, p) # xs)" by (metis list.exhaust option.exhaust surj_pair)
    then have "thread_entry s t = Some p" by (simp add: thread_entry_def)
    with ok(1) [of t p] that show False by simp
  qed
  ultimately show ?thesis using ok(2,3) by blast
qed

definition ref_proxies :: "proxy_table \<times> (nat \<times> nat) multiset" where
  "ref_proxies = (snd (gum_group_service_get_instance True 5 no_proxies), {#(5, 0)#})"

theorem one_proxy_per_thread_witness:
  "fst (gum_group_service_get_instance True 5 (fst ref_proxies)) = Some 0"
proof -
  have "proxy_step\<^sup>*\<^sup>* (no_proxies, {#}) ref_proxies"
    unfolding ref_proxies_def
    by (rule r_into_rtranclp, rule proxy_step.got [where made = True])
      (simp add: gum_group_service_get_instance_def get_service_singleton_def no_proxies_def Let_def prod_eq_iff)
  from one_proxy_per_thread [of "fst ref_proxies" "snd ref_proxies", simplified, OF this] show ?thesis
    by (simp add: ref_proxies_def)
qed

text \<open>
  The last reference given back by another thread: that thread loses its entry, and gets a
  second proxy although its first is alive.
\<close>

theorem foreign_thread_loses_proxy:
  assumes "proxies_ok (s, H)" "count H (t, p) = 1" "(u, q) \<in># H" "t \<noteq> u"
  shows "fst (gum_group_service_get_instance True u (proxy_unref u p s)) \<noteq> Some q \<and> 0 < proxy_refs (proxy_unref u p s) q"
proof -
  note ok = proxies_okD [OF assms(1)]
  have tp: "(t, p) \<in># H" using assms(2) by (metis count_eq_zero_iff zero_neq_one)
  then have "q \<noteq> p" using ok(3) [OF tp, of u] assms(3,4) by auto
  moreover have "proxy_refs s p = 1" using ok(2) [OF tp] assms(2) by simp
  moreover have "0 < proxy_refs s q" using ok(2) [OF assms(3)] assms(3) by simp
  moreover have "q < next_proxy s" by (rule ok(4) [OF assms(3)])
  moreover have "map_of objects u = None" if "service_objects (on_group_service_destroyed u s') = Some objects" for s' objects
    using thread_entry_destroyed [of u s' u] that by (simp add: thread_entry_def)
  ultimately show ?thesis
    by (auto simp: gum_group_service_get_instance_def get_service_singleton_def proxy_unref_def Let_def split: option.split)
qed

text \<open>
  C32. The answer to an asynchronous list of users. Making the user objects of the list sets up
  the callback of the operation once for every uid, as if the service itself had been made: so
  the callback of the list is first called that many times with the arguments of the other
  kind of callback, before it gets the users, those of the valid ids that could be got.
\<close>

theorem user_list_calls_back_too_often:
  assumes "0 < sv_refs s" and "sv_dbus s" and "\<not> sv_crashed s" and "sv_sources s = []"
    and "\<And>op. sv_op s = Some op \<Longrightarrow> so_users op = []" and "gum_user_service_get_user_list k s = (True, s1)" and "sv_unanswered s = []"
  shows "(let n = length (filter (\<lambda>u. u \<noteq> GUM_USER_INVALID_UID) uids);
         t = run_loop (\<lambda>s. s) made (n + 1) (on_get_user_list_cb made got k uids None s1)
     in sv_called t = sv_called s @ replicate n (As_service (List_cb k) None) @
          [As_list (List_cb k) (filter (\<lambda>u. u \<noteq> GUM_USER_INVALID_UID \<and> got u) uids) None] \<and>
        sv_sources t = [] \<and> \<not> sv_crashed t)"
proof -
  let ?n = "length (filter (\<lambda>u. u \<noteq> GUM_USER_INVALID_UID) uids)"
  let ?s = "s1\<lparr>sv_unanswered := remove1 k (sv_unanswered s1)\<rparr>"
  have "service_waits (List_cb k) [] (sv_called s) (replicate 0 Idle_service) ?s"
    using assms by (auto simp: service_waits_def service_defs split: option.splits if_splits)
  moreover obtain us s2 where u: "fold (got_user made got) uids ([], ?s) = (us, s2)"
    by (cases "fold (got_user made got) uids ([], ?s)")
  ultimately have w: "service_waits (List_cb k) [] (sv_called s) (replicate ?n Idle_service) s2"
    and us: "us = filter (\<lambda>u. u \<noteq> GUM_USER_INVALID_UID \<and> got u) uids"
    using got_users_wait [of "List_cb k" "sv_called s" 0 ?s made got uids "[]" us s2] by simp_all
  have "k \<in> set (sv_unanswered s1)" using assms(2,6) by (auto simp: service_defs)
  then have a: "on_get_user_list_cb made got k uids None s1 = setup_idle_user_list_callback us None s2"
    by (simp add: on_get_user_list_cb_def Let_def uids_variant_to_user_list_def u)
  have "service_waits (List_cb k) us (sv_called s) (replicate ?n Idle_service @ [Idle_list]) (setup_idle_user_list_callback us None s2)"
    using w by (auto simp: service_waits_def service_defs)
  from run_loop_waits [OF this, of made] show ?thesis
    unfolding Let_def a us by (simp add: service_waits_def)
qed

definition ref_service :: service_object where
  "ref_service = gum_user_service_create_sync False True no_service"

theorem user_list_calls_back_too_often_witness:
  "sv_called (run_loop (\<lambda>s. s) True 3 (on_get_user_list_cb True (\<lambda>u. u = 1000) 7 [1000, 1001] None
      (snd (gum_user_service_get_user_list 7 ref_service)))) =
    [As_service (List_cb 7) None, As_service (List_cb 7) None, As_list (List_cb 7) [1000] None]"
proof -
  have "gum_user_service_get_user_list 7 ref_service = (True, snd (gum_user_service_get_user_list 7 ref_service))"
    by (simp add: ref_service_def no_service_def service_defs)
  moreover have "length (filter (\<lambda>u. u \<noteq> GUM_USER_INVALID_UID) [1000, 1001]) = 2"
    "filter (\<lambda>u. u \<noteq> GUM_USER_INVALID_UID \<and> u = 1000) [1000, 1001] = [1000]"
    by (simp_all add: GUM_USER_INVALID_UID_def)
  moreover have "0 < sv_refs ref_service" "sv_dbus ref_service" "\<not> sv_crashed ref_service" "sv_sources ref_service = []"
    "sv_op ref_service = None" "sv_unanswered ref_service = []" "sv_called ref_service = []"
    by (simp_all add: ref_service_def no_service_def service_defs)
  moreover have "replicate 2 x = [x, x]" for x :: service_called by (simp add: numeral_2_eq_2)
  ultimately show ?thesis
    using user_list_calls_back_too_often [of ref_service 7 _ "[1000, 1001]" True "\<lambda>u. u = 1000"]
    by (simp del: run_loop.simps filter.simps add: Let_def)
qed

text \<open>
  C33. The service of a process that has none, made asynchronously. By itself the caller is
  called back once, with an error just when the proxy cannot be made, and a service that is
  given up before leaves nothing in the main loop. But if a user object is made before the
  main loop runs, the caller is called back twice, and a service given up then is read after
  it is gone. Whoever asks for a service that is there gets it in the mode that it has.
\<close>

theorem user_service_create_calls_back:
  assumes "sv_refs s = 0" and "sv_sources s = []" and "\<not> sv_crashed s" and "0 < sv_next s"
  shows "(let s1 = gum_user_service_create k s;
         s2 = gum_user_service_create_sync False True s1
     in sv_called (run_loop (\<lambda>s. s) made 2 s1) =
          sv_called s @ [As_service (Service_cb k) (if made then None else Some Transport_error)] \<and>
        sv_sources (run_loop (\<lambda>s. s) made 2 s1) = [] \<and>
        sv_sources (user_service_unref s1) = [] \<and>
        sv_called (run_loop (\<lambda>s. s) True 3 s2) =
          sv_called s @ [As_service (Service_cb k) None, As_service (Service_cb k) None] \<and>
        sv_crashed (run_loop (\<lambda>s. s) True 1 (user_service_unref (user_service_unref s2))) \<and>
        sv_offline (gum_user_service_create_sync True made s1) = False)"
proof -
  have s1: "gum_user_service_create k s = s\<lparr>sv_refs := 1, sv_instance := sv_instance s + 1, sv_offline := False,
      sv_dbus := False, sv_unanswered := [],
      sv_op := Some \<lparr>so_callback = Some (Service_cb k), so_error = None, so_users = [], so_cb_id = 0\<rparr>,
      sv_sources := [(sv_next s, sv_instance s + 1, Idle_proxy)], sv_next := sv_next s + 1, dbus_proxy_cb_id := sv_next s\<rparr>"
    using assms by (simp add: service_defs)
  show ?thesis
    unfolding Let_def s1 using assms by (simp add: service_defs numeral_2_eq_2 numeral_3_eq_3 Let_def)
qed

theorem user_service_create_calls_back_witness:
  "sv_called (run_loop (\<lambda>s. s) True 2 (gum_user_service_create 3 no_service)) = [As_service (Service_cb 3) None]"
  using user_service_create_calls_back [of no_service 3 True] by (simp add: no_service_def Let_def)

end
