(* ===== verification/Gumd_Utils.thy ===== *)
theory Gumd_Utils
  imports Gum_Client_Keeps Gum_User_Service
begin

text \<open>
  The command line tool (\<^verbatim>\<open>gumd-utils.c\<close>) over the client library: what each command does
  once the options are parsed, and what it prints. The property: whatever the options, the
  accounts change by steps of the abstract system only, and not at all for a command that
  reads.
\<close>

section \<open>Input and output\<close>

record input_user =
  iu_uid :: uid_t
  iu_gid :: gid_t
  iu_user_type :: pstr
  iu_user_name :: pstr
  iu_nick_name :: pstr
  iu_real_name :: pstr
  iu_office :: pstr
  iu_office_phone :: pstr
  iu_home_phone :: pstr
  iu_home_dir :: pstr
  iu_shell :: pstr
  iu_secret :: pstr
  iu_icon :: pstr

record input_group =
  ig_gid :: gid_t
  ig_group_type :: pstr
  ig_group_name :: pstr
  ig_group_secret :: pstr
  ig_mem_uid :: uid_t

definition create_test_user :: input_user where
  "create_test_user = \<lparr>iu_uid = GUM_USER_INVALID_UID, iu_gid = GUM_GROUP_INVALID_GID, iu_user_type = None,
     iu_user_name = None, iu_nick_name = None, iu_real_name = None, iu_office = None, iu_office_phone = None,
     iu_home_phone = None, iu_home_dir = None, iu_shell = None, iu_secret = None, iu_icon = None\<rparr>"

definition create_test_group :: input_group where
  "create_test_group = \<lparr>ig_gid = GUM_GROUP_INVALID_GID, ig_group_type = None, ig_group_name = None,
     ig_group_secret = None, ig_mem_uid = GUM_USER_INVALID_UID\<rparr>"

text \<open>The process: the client with the lines it has printed.\<close>

type_synonym 'a um = "(client \<times> string list, 'a) state"

definition lift_cm :: "'a cm \<Rightarrow> 'a um" where
  "lift_cm m = State (\<lambda>(c, out). case run_state m c of (x, c') \<Rightarrow> (x, c', out))"

definition INFO :: "string \<Rightarrow> unit um" where
  "INFO line = modify (\<lambda>(c, out). (c, out @ [line]))"

text \<open>What D-Bus has in the cache of a proxy, by its object path.\<close>

record proxy_cache =
  cached_user :: "client \<Rightarrow> string \<Rightarrow> input_user"
  cached_group :: "client \<Rightarrow> string \<Rightarrow> input_group"

section \<open>Properties of the objects\<close>

text \<open>The properties of an object of the daemon in the process, as \<open>g_object_get\<close> reads them.\<close>

definition user_properties :: "env \<Rightarrow> daemon_user \<Rightarrow> input_user" where
  "user_properties E u = create_test_user
     \<lparr>iu_uid := pw_uid (du_pw u), iu_gid := pw_gid (du_pw u), iu_user_name := pw_name (du_pw u),
      iu_user_type := gum_user_type_to_string (get_usertype_from_gecos E (du_pw u)), iu_nick_name := nick_name u,
      iu_real_name := user_get_gecos E u GECOS_FIELD_REALNAME, iu_office := user_get_gecos E u GECOS_FIELD_OFFICE,
      iu_office_phone := user_get_gecos E u GECOS_FIELD_OFFICEPHONE, iu_home_phone := user_get_gecos E u GECOS_FIELD_HOMEPHONE,
      iu_home_dir := pw_dir (du_pw u), iu_shell := pw_shell (du_pw u), iu_icon := du_icon u\<rparr>"

text \<open>Without a remote object nothing is read: numbers are 0 and strings NULL.\<close>

definition read_user :: "ctx \<Rightarrow> proxy_cache \<Rightarrow> gum_object \<Rightarrow> client \<Rightarrow> input_user" where
  "read_user C P u c =
     (case offline_object u of
        Some r \<Rightarrow> user_properties (c_env C) (user_object r (local_daemon c))
      | None \<Rightarrow> (case dbus_object u of Some path \<Rightarrow> cached_user P c path
                 | None \<Rightarrow> create_test_user\<lparr>iu_uid := 0, iu_gid := 0\<rparr>))"

definition read_group :: "proxy_cache \<Rightarrow> gum_object \<Rightarrow> client \<Rightarrow> input_group" where
  "read_group P g c =
     (case offline_object g of
        Some r \<Rightarrow> create_test_group\<lparr>ig_gid := gr_gid (gd_group (group_object r (local_daemon c))),
                                    ig_group_name := gr_name (gd_group (group_object r (local_daemon c)))\<rparr>
      | None \<Rightarrow> (case dbus_object g of Some path \<Rightarrow> cached_group P c path | None \<Rightarrow> create_test_group\<lparr>ig_gid := 0\<rparr>))"

definition or_unknown :: "pstr \<Rightarrow> string" where
  "or_unknown s = (case s of None \<Rightarrow> ''UNKNOWN'' | Some s \<Rightarrow> s)"

definition user_lines :: "input_user \<Rightarrow> string list" where
  "user_lines u = [
     ''uid : '' @ decimal_digits (unat (iu_uid u)),
     ''gid : '' @ decimal_digits (unat (iu_gid u)),
     ''username : '' @ or_unknown (iu_user_name u),
     ''usertype : '' @ or_unknown (iu_user_type u),
     ''nickname : '' @ or_unknown (iu_nick_name u),
     ''realname : '' @ or_unknown (iu_real_name u),
     ''office : '' @ or_unknown (iu_office u),
     ''officephone : '' @ or_unknown (iu_office_phone u),
     ''homephone : '' @ or_unknown (iu_home_phone u),
     ''homedir : '' @ or_unknown (iu_home_dir u),
     ''icon: '' @ or_unknown (iu_icon u),
     ''shell : '' @ or_unknown (iu_shell u) @ [char_of (10 :: nat)]]"

definition print_user_prop :: "ctx \<Rightarrow> proxy_cache \<Rightarrow> gum_object \<Rightarrow> unit um" where
  "print_user_prop C P guser = modify (\<lambda>(c, out). (c, out @ user_lines (read_user C P guser c)))"

definition print_group_prop :: "proxy_cache \<Rightarrow> gum_object \<Rightarrow> unit um" where
  "print_group_prop P grp = modify (\<lambda>(c, out). (c, out @ [
     ''gid : '' @ decimal_digits (unat (ig_gid (read_group P grp c))),
     ''groupname : '' @ or_unknown (ig_group_name (read_group P grp c))]))"

definition set_given :: "('a \<Rightarrow> unit um) \<Rightarrow> 'a option \<Rightarrow> unit um" where
  "set_given f x = (case x of None \<Rightarrow> ret () | Some v \<Rightarrow> f v)"

definition set_string :: "ctx \<Rightarrow> gum_object \<Rightarrow> (pstr \<Rightarrow> user_prop) \<Rightarrow> pstr \<Rightarrow> unit um" where
  "set_string C guser prop s = set_given (\<lambda>v. lift_cm (gum_user_set_property C guser (prop (Some v)))) s"

definition set_user_update_prop :: "ctx \<Rightarrow> gum_object \<Rightarrow> input_user \<Rightarrow> unit um" where
  "set_user_update_prop C guser user = do {
     set_string C guser PROP_REALNAME (iu_real_name user);
     set_string C guser PROP_OFFICE (iu_office user);
     set_string C guser PROP_OFFICEPHONE (iu_office_phone user);
     set_string C guser PROP_HOMEPHONE (iu_home_phone user);
     set_string C guser PROP_SHELL (iu_shell user);
     set_string C guser PROP_USER_SECRET (iu_secret user);
     set_string C guser PROP_ICON (iu_icon user) }"

definition set_user_prop :: "ctx \<Rightarrow> gum_object \<Rightarrow> input_user \<Rightarrow> unit um" where
  "set_user_prop C guser user = do {
     set_given (\<lambda>t. lift_cm (gum_user_set_property C guser (PROP_USERTYPE (gum_user_type_from_string (Some t)))))
       (iu_user_type user);
     set_string C guser PROP_USERNAME (iu_user_name user);
     set_string C guser PROP_NICKNAME (iu_nick_name user);
     set_string C guser PROP_HOMEDIR (iu_home_dir user);
     set_user_update_prop C guser user }"

definition group_type_from_string :: "string \<Rightarrow> GumGroupType" where
  "group_type_from_string in_type =
     (if in_type = ''user'' then GUM_GROUPTYPE_USER
      else if in_type = ''system'' then GUM_GROUPTYPE_SYSTEM
      else GUM_GROUPTYPE_NONE)"

definition set_group_update_prop :: "gum_object \<Rightarrow> input_group \<Rightarrow> unit um" where
  "set_group_update_prop grp igroup =
     set_given (\<lambda>v. lift_cm (gum_group_set_property grp (PROP_SECRET (Some v)))) (ig_group_secret igroup)"

definition set_group_prop :: "gum_object \<Rightarrow> input_group \<Rightarrow> unit um" where
  "set_group_prop grp igroup = do {
     set_given (\<lambda>t. lift_cm (gum_group_set_property grp (PROP_GROUPTYPE (group_type_from_string t)))) (ig_group_type igroup);
     set_given (\<lambda>v. lift_cm (gum_group_set_property grp (PROP_GROUPNAME (Some v)))) (ig_group_name igroup);
     set_group_update_prop grp igroup }"

section \<open>Users\<close>

text \<open>Built without NFC.\<close>

definition handle_write_nfc :: "unit um" where
  "handle_write_nfc = INFO ''gum-utils was compiled without libtlm-nfc support''"

definition handle_user_add :: "ctx \<Rightarrow> proxy_cache \<Rightarrow> bool \<Rightarrow> input_user \<Rightarrow> bool \<Rightarrow> unit um" where
  "handle_user_add C P offline_mode user write_nfc = do {
     guser \<leftarrow> lift_cm (gum_user_create_sync C offline_mode);
     case guser of
       None \<Rightarrow> ret ()
     | Some guser \<Rightarrow> do {
         set_user_prop C guser user;
         ok \<leftarrow> lift_cm (gum_user_add_sync C guser);
         if \<not> ok then INFO ''Failed user add setup''
         else do {
           INFO ''User added successfully'';
           print_user_prop C P guser;
           if write_nfc then handle_write_nfc else ret () } } }"

definition handle_user_del :: "ctx \<Rightarrow> bool \<Rightarrow> input_user \<Rightarrow> unit um" where
  "handle_user_del C offline_mode user = do {
     guser \<leftarrow> lift_cm (gum_user_get_sync C (iu_uid user) offline_mode);
     case guser of
       None \<Rightarrow> ret ()
     | Some guser \<Rightarrow> do {
         ok \<leftarrow> lift_cm (gum_user_delete_sync C guser True);
         if \<not> ok then INFO ''Failed user update setup'' else INFO ''User deleted successfully'' } }"

definition handle_user_up :: "ctx \<Rightarrow> proxy_cache \<Rightarrow> bool \<Rightarrow> input_user \<Rightarrow> bool \<Rightarrow> unit um" where
  "handle_user_up C P offline_mode user write_nfc = do {
     guser \<leftarrow> lift_cm (gum_user_get_sync C (iu_uid user) offline_mode);
     case guser of
       None \<Rightarrow> ret ()
     | Some guser \<Rightarrow> do {
         set_user_update_prop C guser user;
         ok \<leftarrow> lift_cm (gum_user_update_sync C guser);
         if \<not> ok then INFO ''Failed user update setup''
         else do {
           INFO ''User updated successfully'';
           print_user_prop C P guser;
           if write_nfc then handle_write_nfc else ret () } } }"

definition handle_user_get :: "ctx \<Rightarrow> proxy_cache \<Rightarrow> bool \<Rightarrow> input_user \<Rightarrow> unit um" where
  "handle_user_get C P offline_mode user = do {
     guser \<leftarrow> lift_cm (gum_user_get_sync C (iu_uid user) offline_mode);
     case guser of
       None \<Rightarrow> ret ()
     | Some guser \<Rightarrow> do {
         INFO ''User retrieved successfully'';
         print_user_prop C P guser } }"

definition handle_user_get_by_name :: "ctx \<Rightarrow> proxy_cache \<Rightarrow> bool \<Rightarrow> input_user \<Rightarrow> unit um" where
  "handle_user_get_by_name C P offline_mode user = do {
     guser \<leftarrow> lift_cm (gum_user_get_by_name_sync C (iu_user_name user) offline_mode);
     case guser of
       None \<Rightarrow> ret ()
     | Some guser \<Rightarrow> do {
         INFO ''User retrieved by name successfully'';
         print_user_prop C P guser } }"

fun print_users :: "ctx \<Rightarrow> proxy_cache \<Rightarrow> gum_object list \<Rightarrow> unit um" where
  "print_users C P [] = ret ()"
| "print_users C P (guser # users) = do { print_user_prop C P guser; print_users C P users }"

text \<open>The process has no service yet, so it gets one in the mode it asks for.\<close>

definition handle_user_get_list :: "ctx \<Rightarrow> proxy_cache \<Rightarrow> bool \<Rightarrow> pstr \<Rightarrow> unit um" where
  "handle_user_get_list C P offline_mode types = do {
     service \<leftarrow> lift_cm (gets (\<lambda>c. gum_user_service_create_sync offline_mode (connected c) no_service));
     let strv = (case types of Some types \<Rightarrow> g_strsplit (c_env C) types '','' | None \<Rightarrow> []);
     users \<leftarrow> lift_cm (gum_user_service_get_user_list_sync C (sv_offline service) (sv_dbus service) (Some strv));
     print_users C P users }"

section \<open>Groups\<close>

definition handle_group_add :: "ctx \<Rightarrow> proxy_cache \<Rightarrow> bool \<Rightarrow> input_group \<Rightarrow> unit um" where
  "handle_group_add C P offline_mode igroup = do {
     grp \<leftarrow> lift_cm (gum_group_create_sync C offline_mode);
     case grp of
       None \<Rightarrow> ret ()
     | Some grp \<Rightarrow> do {
         set_group_prop grp igroup;
         ok \<leftarrow> lift_cm (gum_group_add_sync C grp);
         if \<not> ok then INFO ''Failed group add setup''
         else do {
           INFO ''Group added successfully'';
           print_group_prop P grp } } }"

definition handle_group_del :: "ctx \<Rightarrow> bool \<Rightarrow> input_group \<Rightarrow> unit um" where
  "handle_group_del C offline_mode igroup = do {
     grp \<leftarrow> lift_cm (gum_group_get_sync C (ig_gid igroup) offline_mode);
     case grp of
       None \<Rightarrow> ret ()
     | Some grp \<Rightarrow> do {
         ok \<leftarrow> lift_cm (gum_group_delete_sync C grp);
         if \<not> ok then INFO ''Failed group delete setup'' else INFO ''Group deleted successfully'' } }"

definition handle_group_up :: "ctx \<Rightarrow> proxy_cache \<Rightarrow> bool \<Rightarrow> input_group \<Rightarrow> unit um" where
  "handle_group_up C P offline_mode igroup = do {
     grp \<leftarrow> lift_cm (gum_group_get_sync C (ig_gid igroup) offline_mode);
     case grp of
       None \<Rightarrow> ret ()
     | Some grp \<Rightarrow> do {
         set_group_update_prop grp igroup;
         ok \<leftarrow> lift_cm (gum_group_update_sync C grp);
         if \<not> ok then INFO ''Failed group update setup''
         else do {
           INFO ''Group updated successfully'';
           print_group_prop P grp } } }"

definition handle_group_get :: "ctx \<Rightarrow> proxy_cache \<Rightarrow> bool \<Rightarrow> input_group \<Rightarrow> unit um" where
  "handle_group_get C P offline_mode igroup = do {
     grp \<leftarrow> lift_cm (gum_group_get_sync C (ig_gid igroup) offline_mode);
     case grp of
       None \<Rightarrow> ret ()
     | Some grp \<Rightarrow> do {
         INFO ''Group retrieved successfully'';
         print_group_prop P grp } }"

definition handle_group_get_by_name :: "ctx \<Rightarrow> proxy_cache \<Rightarrow> bool \<Rightarrow> input_group \<Rightarrow> unit um" where
  "handle_group_get_by_name C P offline_mode igroup = do {
     grp \<leftarrow> lift_cm (gum_group_get_by_name_sync C (ig_group_name igroup) offline_mode);
     case grp of
       None \<Rightarrow> ret ()
     | Some grp \<Rightarrow> do {
         INFO ''Group retrieved by name successfully'';
         print_group_prop P grp } }"

text \<open>A member is always added as an administrator.\<close>

definition handle_group_add_mem :: "ctx \<Rightarrow> bool \<Rightarrow> input_group \<Rightarrow> unit um" where
  "handle_group_add_mem C offline_mode igroup = do {
     grp \<leftarrow> lift_cm (gum_group_get_sync C (ig_gid igroup) offline_mode);
     case grp of
       None \<Rightarrow> ret ()
     | Some grp \<Rightarrow> do {
         ok \<leftarrow> lift_cm (gum_group_add_member_sync C grp (ig_mem_uid igroup) True);
         if \<not> ok then INFO ''Failed group addmem setup'' else INFO ''Group mem added successfully'' } }"

definition handle_group_del_mem :: "ctx \<Rightarrow> bool \<Rightarrow> input_group \<Rightarrow> unit um" where
  "handle_group_del_mem C offline_mode igroup = do {
     grp \<leftarrow> lift_cm (gum_group_get_sync C (ig_gid igroup) offline_mode);
     case grp of
       None \<Rightarrow> ret ()
     | Some grp \<Rightarrow> do {
         ok \<leftarrow> lift_cm (gum_group_delete_member_sync C grp (ig_mem_uid igroup));
         if \<not> ok then INFO ''Failed group delmem setup'' else INFO ''Group mem deleted successfully'' } }"

section \<open>The program\<close>

text \<open>What GLib makes of the command line: the options given with their arguments, or an error.\<close>

datatype utils_op =
    User_add | User_del | User_up | User_get | User_get_by_name | User_list
  | Group_add | Group_del | Group_up | Group_get | Group_get_by_name | Group_add_mem | Group_del_mem

record utils_options =
  given :: "utils_op \<Rightarrow> bool"
  offline_mode :: bool
  write_nfc :: bool
  opt_sysroot :: pstr
  user_types :: pstr
  opt_user :: input_user
  opt_group :: input_group

text \<open>The configuration is that of the sysroot, which is for offline mode only.\<close>

definition utils_sysroot :: "utils_options \<Rightarrow> pstr" where
  "utils_sysroot opts = (if \<not> offline_mode opts \<and> opt_sysroot opts \<noteq> None then None else opt_sysroot opts)"

definition utils_command :: "ctx \<Rightarrow> proxy_cache \<Rightarrow> utils_options \<Rightarrow> unit um" where
  "utils_command C P opts =
     (let off = offline_mode opts; user = opt_user opts; igroup = opt_group opts; nfc = write_nfc opts
      in if given opts User_add then handle_user_add C P off user nfc
         else if given opts User_del then handle_user_del C off user
         else if given opts User_up then handle_user_up C P off user nfc
         else if given opts User_get then handle_user_get C P off user
         else if given opts User_get_by_name then handle_user_get_by_name C P off user
         else if given opts User_list then handle_user_get_list C P off (user_types opts)
         else if given opts Group_add then handle_group_add C P off igroup
         else if given opts Group_del then handle_group_del C off igroup
         else if given opts Group_up then handle_group_up C P off igroup
         else if given opts Group_get then handle_group_get C P off igroup
         else if given opts Group_get_by_name then handle_group_get_by_name C P off igroup
         else if given opts Group_add_mem then handle_group_add_mem C off igroup
         else if given opts Group_del_mem then handle_group_del_mem C off igroup
         else INFO ''No option specified'')"

definition utils_main :: "(pstr \<Rightarrow> ctx) \<Rightarrow> proxy_cache \<Rightarrow> utils_options option \<Rightarrow> nat um" where
  "utils_main config P parsed =
     (case parsed of
        None \<Rightarrow> do { INFO ''option parsing failed''; ret 1 }
      | Some opts \<Rightarrow> do {
          (if \<not> offline_mode opts \<and> opt_sysroot opts \<noteq> None
           then INFO ''sysroot is ONLY supported in offline mode'' else ret ());
          utils_command (config (utils_sysroot opts)) P opts;
          ret 0 })"

section \<open>What a command keeps\<close>

abbreviation tool_safe :: "ctx \<Rightarrow> accounts \<Rightarrow> 'a um \<Rightarrow> client \<times> string list \<Rightarrow> bool" where
  "tool_safe C a m s \<equiv> wp m (\<lambda>_ s'. client_safe C a (fst s')) s"

lemma wp_lift_cm: "wp m (\<lambda>x c'. Q x (c', out)) c \<Longrightarrow> wp (lift_cm m) Q (c, out)"
  by (simp add: wp_def lift_cm_def case_prod_beta)

lemma wp_INFO: "Q () (c, out @ [line]) \<Longrightarrow> wp (INFO line) Q (c, out)"
  unfolding INFO_def by (rule wp_modify) simp

lemma wp_prints:
  "(\<And>out. Q () (c, out)) \<Longrightarrow> wp (print_user_prop C P u) Q (c, out)" "(\<And>out. Q () (c, out)) \<Longrightarrow> wp (print_group_prop P g) Q (c, out)"
  "(\<And>out. Q () (c, out)) \<Longrightarrow> wp (print_users C P us) Q (c, out)"
  unfolding print_user_prop_def print_group_prop_def
    apply (rule wp_modify, simp)
   apply (rule wp_modify, simp)
  apply (induction us arbitrary: out)
   apply (simp add: wp_return)
  apply (simp add: print_user_prop_def)
  apply (rule wp_bind, rule wp_modify, simp)
  done

text \<open>Work with an object that is alive keeps it so.\<close>

abbreviation user_work :: "ctx \<Rightarrow> accounts \<Rightarrow> gum_object \<Rightarrow> 'a um \<Rightarrow> bool" where
  "user_work C a u \<equiv> balanced (\<lambda>s. client_safe C a (fst s) \<and> user_live u (fst s)) (\<lambda>_. 0)"

abbreviation group_work :: "ctx \<Rightarrow> accounts \<Rightarrow> gum_object \<Rightarrow> 'a um \<Rightarrow> bool" where
  "group_work C a g \<equiv> balanced (\<lambda>s. client_safe C a (fst s) \<and> group_live g (fst s)) (\<lambda>_. 0)"

lemma balancedD: "balanced J d m \<Longrightarrow> J s \<Longrightarrow> wp m (\<lambda>_ s'. J s' \<and> d s' = d s) s"
  by (simp add: balanced_def)

lemma balanced_cond: "balanced J d m \<Longrightarrow> balanced J d n \<Longrightarrow> balanced J d (if b then m else n)"
  by simp

lemma balanced_given: "(\<And>v. balanced J d (f v)) \<Longrightarrow> balanced J d (set_given f x)"
  by (simp add: set_given_def balanced_return split: option.split)

lemma user_work_lift:
  assumes "\<And>c. client_safe C a c \<Longrightarrow> user_live u c \<Longrightarrow> keeps_user C a u m c"
  shows "user_work C a u (lift_cm m)"
  using assms by (auto simp: balanced_def intro!: wp_lift_cm)

lemma group_work_lift:
  assumes "\<And>c. client_safe C a c \<Longrightarrow> group_live g c \<Longrightarrow> keeps_group C a g m c"
  shows "group_work C a g (lift_cm m)"
  using assms by (auto simp: balanced_def intro!: wp_lift_cm)

lemma work_prints:
  "user_work C a u (INFO l)" "group_work C a g (INFO l)" "user_work C a u (print_user_prop C P x)"
  "group_work C a g (print_group_prop P y)"
  by (auto simp: balanced_def intro!: wp_INFO wp_prints)

lemmas work_rules = balanced_bind balanced_return balanced_cond balanced_given work_prints user_work_lift group_work_lift

lemma user_work_set:
  assumes "config_ok C"
  shows "user_work C a u (set_user_update_prop C u user)" "user_work C a u (set_user_prop C u user)"
proof -
  note keep = user_ops_keep(4) [OF assms]
  show up: "user_work C a u (set_user_update_prop C u user)"
    unfolding set_user_update_prop_def set_string_def by (intro work_rules keep)
  show "user_work C a u (set_user_prop C u user)"
    unfolding set_user_prop_def set_string_def by (intro work_rules keep up)
qed

lemma group_work_set:
  assumes "config_ok C"
  shows "group_work C a g (set_group_update_prop g igroup)" "group_work C a g (set_group_prop g igroup)"
  unfolding set_group_prop_def set_group_update_prop_def
  by ((intro work_rules group_ops_keep(6) [OF assms]; assumption), (intro work_rules group_ops_keep(6) [OF assms]; assumption))

text \<open>A command gets or makes an object, and works with it.\<close>

lemma with_user:
  assumes "\<And>c. client_safe C a c \<Longrightarrow> gives_user C a m c" "\<And>u. user_work C a u (f u)" "client_safe C a c"
  shows "tool_safe C a (do { u \<leftarrow> lift_cm m; case u of None \<Rightarrow> ret () | Some u \<Rightarrow> f u }) (c, out)"
proof (rule wp_bind, rule wp_lift_cm, rule wp_mono [OF assms(1) [OF assms(3)]])
  fix x c' assume h: "client_safe C a c' \<and> (\<forall>u. x = Some u \<longrightarrow> user_live u c')"
  show "tool_safe C a (case x of None \<Rightarrow> ret () | Some u \<Rightarrow> f u) (c', out)"
  proof (cases x)
    case (Some u)
    with h balancedD [OF assms(2) [of u], of "(c', out)"] show ?thesis by (auto elim: wp_mono)
  qed (use h in \<open>simp add: wp_return\<close>)
qed

lemma with_group:
  assumes "\<And>c. client_safe C a c \<Longrightarrow> gives_group C a m c" "\<And>g. group_work C a g (f g)" "client_safe C a c"
  shows "tool_safe C a (do { g \<leftarrow> lift_cm m; case g of None \<Rightarrow> ret () | Some g \<Rightarrow> f g }) (c, out)"
proof (rule wp_bind, rule wp_lift_cm, rule wp_mono [OF assms(1) [OF assms(3)]])
  fix x c' assume h: "client_safe C a c' \<and> (\<forall>g. x = Some g \<longrightarrow> group_live g c')"
  show "tool_safe C a (case x of None \<Rightarrow> ret () | Some g \<Rightarrow> f g) (c', out)"
  proof (cases x)
    case (Some g)
    with h balancedD [OF assms(2) [of g], of "(c', out)"] show ?thesis by (auto elim: wp_mono)
  qed (use h in \<open>simp add: wp_return\<close>)
qed

lemma user_commands:
  assumes "config_ok C" "client_safe C a c"
  shows "tool_safe C a (handle_user_add C P off user nfc) (c, out)" "tool_safe C a (handle_user_del C off user) (c, out)"
    "tool_safe C a (handle_user_up C P off user nfc) (c, out)" "tool_safe C a (handle_user_get C P off user) (c, out)"
    "tool_safe C a (handle_user_get_by_name C P off user) (c, out)"
  unfolding handle_user_add_def handle_user_del_def handle_user_up_def handle_user_get_def handle_user_get_by_name_def
    handle_write_nfc_def
  by (intro with_user assms(2) creates_user [OF assms(1)] gets_user [OF assms(1)] work_rules user_work_set [OF assms(1)]
      user_ops_keep(1,2,3) [OF assms(1)]; assumption)+

lemma group_commands:
  assumes "config_ok C" "client_safe C a c"
  shows "tool_safe C a (handle_group_add C P off igroup) (c, out)" "tool_safe C a (handle_group_del C off igroup) (c, out)"
    "tool_safe C a (handle_group_up C P off igroup) (c, out)" "tool_safe C a (handle_group_get C P off igroup) (c, out)"
    "tool_safe C a (handle_group_get_by_name C P off igroup) (c, out)" "tool_safe C a (handle_group_add_mem C off igroup) (c, out)"
    "tool_safe C a (handle_group_del_mem C off igroup) (c, out)"
  unfolding handle_group_add_def handle_group_del_def handle_group_up_def handle_group_get_def handle_group_get_by_name_def
    handle_group_add_mem_def handle_group_del_mem_def
  by (intro with_group assms(2) creates_group [OF assms(1)] gets_group [OF assms(1)] work_rules group_work_set [OF assms(1)]
      group_ops_keep(1,2,3,4,5) [OF assms(1)]; assumption)+

lemma list_command:
  assumes "config_ok C" "client_safe C a c"
  shows "tool_safe C a (handle_user_get_list C P off types) (c, out)"
  unfolding handle_user_get_list_def Let_def
  by (rule wp_bind, rule wp_lift_cm, rule wp_gets, rule wp_bind, rule wp_lift_cm, rule wp_mono [OF list_keeps [OF assms]])
    (auto intro: wp_prints)

lemma command_safe:
  assumes "config_ok C" "client_safe C a c"
  shows "tool_safe C a (utils_command C P opts) (c, out)"
  unfolding utils_command_def Let_def
  by (intro wp_if user_commands [OF assms] group_commands [OF assms] list_command [OF assms] wp_INFO) (simp add: assms(2))

section \<open>Commands that only read\<close>

abbreviation um_reads :: "'a um \<Rightarrow> bool" where "um_reads \<equiv> frame (\<lambda>s. files (bus_world (remote (fst s))))"

lemma um_reads_lift: "cm_reads m \<Longrightarrow> um_reads (lift_cm m)"
  by (simp add: frame_def wp_def lift_cm_def case_prod_beta)

lemma um_reads_prints:
  "um_reads (INFO l)" "um_reads (print_user_prop C P u)" "um_reads (print_group_prop P g)" "um_reads (print_users C P us)"
proof -
  show 1: "um_reads (INFO l)" "um_reads (print_user_prop C P u)" "um_reads (print_group_prop P g)" for u
    unfolding INFO_def print_user_prop_def print_group_prop_def by (rule frame_modify, simp add: case_prod_beta)+
  show "um_reads (print_users C P us)" by (induction us) (auto intro!: frame_bind frame_return 1)
qed

definition changing :: "utils_op list" where
  "changing = [User_add, User_del, User_up, Group_add, Group_del, Group_up, Group_add_mem, Group_del_mem]"

lemma command_reads:
  assumes "\<forall>op\<in>set changing. \<not> given opts op"
  shows "um_reads (utils_command C P opts)"
proof -
  note rules = frame_bind frame_return frame_if frame_case_option frame_gets um_reads_lift um_reads_prints client_reads list_reads
  have "um_reads (handle_user_get C P off user)" "um_reads (handle_user_get_by_name C P off user)"
    "um_reads (handle_user_get_list C P off ts)" "um_reads (handle_group_get C P off igroup)"
    "um_reads (handle_group_get_by_name C P off igroup)" for off user ts igroup
    unfolding handle_user_get_def handle_user_get_by_name_def handle_user_get_list_def handle_group_get_def
      handle_group_get_by_name_def Let_def by (intro rules)+
  with assms show ?thesis
    unfolding utils_command_def Let_def by (auto simp: changing_def intro!: frame_if um_reads_prints)
qed

lemma main_safe:
  assumes "config_ok (config (utils_sysroot opts))" "client_safe (config (utils_sysroot opts)) a c"
  shows "wp (utils_main config P (Some opts)) (\<lambda>code s. client_safe (config (utils_sysroot opts)) a (fst s) \<and> code = 0) (c, out)"
proof -
  have "wp (do { utils_command (config (utils_sysroot opts)) P opts; ret (0 :: nat) })
      (\<lambda>code s. client_safe (config (utils_sysroot opts)) a (fst s) \<and> code = 0) (c, out)" for out
    by (rule wp_step [OF command_safe [OF assms]]) (auto intro: wp_return)
  note command = this
  show ?thesis
    unfolding utils_main_def option.case by (rule wp_bind, intro wp_if wp_INFO wp_return command)
qed

lemma main_reads: "\<forall>op\<in>set changing. \<not> given opts op \<Longrightarrow> um_reads (utils_main config P (Some opts))"
  unfolding utils_main_def option.case by (intro frame_bind frame_if frame_return um_reads_prints command_reads)

text \<open>A process that begins has no object and a new daemon.\<close>

lemma client_starts:
  assumes "db_wf C w" "acct_inv (accounts_of C w)" "config_ok C" "bus_steps C False (bus_start C bus w) (remote c)"
    and "local_daemon c = gumd_daemon_init"
  shows "client_safe C (accounts_of C w) c"
proof -
  have n: "bus_next C False (bus_start C bus w) (remote c)" by (rule bus_steps_next [OF assms(4) bus_start_ok])
  have k: "accounts_kept C (accounts_of C w) (bus_world (bus_start C bus w))"
    using assms(1,2) by (simp add: accounts_kept_def bus_start_def)
  have "tables_ok gumd_daemon_init" by (simp add: tables_ok_def gumd_daemon_init_def objects_ok_none)
  with next_keeps [OF assms(3) k bus_start_ok n] show ?thesis by (simp add: client_safe_def assms(5))
qed

end
