(* ===== verification/Gumd_Main.thy ===== *)
theory Gumd_Main
  imports Gum_World
begin

text \<open>
  The process of the daemon (\<^verbatim>\<open>main.c\<close>): one server at a time behind the interface of
  \<^verbatim>\<open>gumd-dbus-server-interface.c\<close>, a main loop, and the signals that restart the server or
  end the loop. What the process needs of a server is the locale \<open>bus_server\<close>.
\<close>

section \<open>The process\<close>

text \<open>
  Server objects have numbers that stand for their addresses. \<open>close_watch\<close> is the weak
  reference on the server with the main loop as its data; \<open>failed\<close> says that freed memory
  was used. The servers extend the record by what they keep.
\<close>

record process =
  the_server :: "nat option"
  close_watch :: "nat option"
  loop_running :: bool
  failed :: bool

text \<open>A server class: \<open>g_object_new\<close>, the operations of the interface, and \<open>g_object_unref\<close>.\<close>

record 'p server_class =
  new_server :: "'p \<Rightarrow> nat \<times> 'p"
  start_server :: "nat \<Rightarrow> 'p \<Rightarrow> bool \<times> 'p"
  unref_server :: "nat \<Rightarrow> 'p \<Rightarrow> 'p"

definition on_server_closed :: "'a process_scheme \<Rightarrow> 'a process_scheme" where
  "on_server_closed p = p\<lparr>the_server := None, loop_running := False\<rparr>"

text \<open>The weak reference of a server that is disposed of is notified.\<close>

definition notify_closed :: "nat \<Rightarrow> 'a process_scheme \<Rightarrow> 'a process_scheme" where
  "notify_closed n p = (if close_watch p = Some n then on_server_closed (p\<lparr>close_watch := None\<rparr>) else p)"

definition start_dbus_server :: "'a process_scheme server_class \<Rightarrow> 'a process_scheme \<Rightarrow> bool \<times> 'a process_scheme" where
  "start_dbus_server K p =
     (let (n, p) = new_server K p;
          p = p\<lparr>the_server := Some n\<rparr>;
          (started, p) = start_server K n p
      in if \<not> started then (False, (unref_server K n p)\<lparr>the_server := None\<rparr>)
         else (True, p\<lparr>close_watch := Some n\<rparr>))"

definition handle_reload_signal :: "'a process_scheme server_class \<Rightarrow> 'a process_scheme \<Rightarrow> 'a process_scheme" where
  "handle_reload_signal K p =
     (case the_server p of
        None \<Rightarrow> p
      | Some n \<Rightarrow> snd (start_dbus_server K (unref_server K n (p\<lparr>close_watch := None\<rparr>))))"

definition handle_quit_signal :: "'a process_scheme \<Rightarrow> 'a process_scheme" where
  "handle_quit_signal p = p\<lparr>loop_running := False\<rparr>"

text \<open>\<open>main\<close> up to the loop: None when the server cannot be started, with exit status -1.\<close>

definition main_start :: "'a process_scheme server_class \<Rightarrow> 'a process_scheme \<Rightarrow> 'a process_scheme option" where
  "main_start K p =
     (let p = snd (start_dbus_server K p)
      in if the_server p = None then None else Some (p\<lparr>loop_running := True\<rparr>))"

text \<open>The end of \<open>main\<close>, after the loop.\<close>

definition main_end :: "'a process_scheme server_class \<Rightarrow> 'a process_scheme \<Rightarrow> 'a process_scheme" where
  "main_end K p = (case the_server p of None \<Rightarrow> p | Some n \<Rightarrow> unref_server K n p)"

text \<open>
  The loop: events of the server and signals, while it runs. A reload happens only in a state
  that \<open>calm\<close> allows.
\<close>

inductive main_step :: "'a process_scheme server_class \<Rightarrow> ('a process_scheme \<Rightarrow> 'a process_scheme \<Rightarrow> bool) \<Rightarrow>
    ('a process_scheme \<Rightarrow> bool) \<Rightarrow> 'a process_scheme \<Rightarrow> 'a process_scheme \<Rightarrow> bool" for K event calm where
  server_event: "loop_running p \<Longrightarrow> \<not> failed p \<Longrightarrow> event p p' \<Longrightarrow> main_step K event calm p p'"
| reload: "loop_running p \<Longrightarrow> \<not> failed p \<Longrightarrow> calm p \<Longrightarrow> main_step K event calm p (handle_reload_signal K p)"
| quit: "loop_running p \<Longrightarrow> \<not> failed p \<Longrightarrow> main_step K event calm p (handle_quit_signal p)"

inductive_cases main_stepE: "main_step K event calm p p'"

abbreviation main_steps where "main_steps K event calm \<equiv> (main_step K event calm)\<^sup>*\<^sup>*"

section \<open>What a server promises\<close>

text \<open>
  At most one server object \<open>obj\<close> is alive. Its operations keep the invariant and leave the
  fields of the process alone, except that the last reference notifies the process.
\<close>

abbreviation same_process :: "'a process_scheme \<Rightarrow> 'a process_scheme \<Rightarrow> bool" where
  "same_process p p' \<equiv> process.truncate p' = process.truncate p"

lemma truncate_fields:
  "process.truncate p' = process.truncate p \<longleftrightarrow> the_server p' = the_server p \<and> close_watch p' = close_watch p \<and>
     loop_running p' = loop_running p \<and> failed p' = failed p"
  by (simp add: process.truncate_def)

locale bus_server =
  fixes K :: "'a process_scheme server_class" and event :: "'a process_scheme \<Rightarrow> 'a process_scheme \<Rightarrow> bool"
    and calm :: "'a process_scheme \<Rightarrow> bool" and obj :: "'a process_scheme \<Rightarrow> nat option" and inv :: "'a process_scheme \<Rightarrow> bool"
  assumes fields: "calm (p\<lparr>the_server := x\<rparr>) = calm p" "obj (p\<lparr>the_server := x\<rparr>) = obj p" "inv (p\<lparr>the_server := x\<rparr>) = inv p"
      "calm (p\<lparr>close_watch := x\<rparr>) = calm p" "obj (p\<lparr>close_watch := x\<rparr>) = obj p" "inv (p\<lparr>close_watch := x\<rparr>) = inv p"
      "obj (p\<lparr>loop_running := l\<rparr>) = obj p" "inv (p\<lparr>loop_running := l\<rparr>) = inv p"
    and launch: "inv p \<Longrightarrow> \<not> failed p \<Longrightarrow> obj p = None \<Longrightarrow> calm p \<Longrightarrow> new_server K p = (n, p1) \<Longrightarrow>
      start_server K n (p1\<lparr>the_server := Some n\<rparr>) = (started, p2) \<Longrightarrow>
      inv p2 \<and> obj p2 = Some n \<and> calm p2 \<and> same_process (p\<lparr>the_server := Some n\<rparr>) p2"
    and unref: "inv p \<Longrightarrow> \<not> failed p \<Longrightarrow> obj p = Some n \<Longrightarrow>
      inv (unref_server K n p) \<and> obj (unref_server K n p) = None \<and> same_process (notify_closed n p) (unref_server K n p) \<and>
      (calm p \<longrightarrow> calm (unref_server K n p))"
    and event: "inv p \<Longrightarrow> \<not> failed p \<Longrightarrow> event p p' \<Longrightarrow>
      inv p' \<and> (failed p' \<or> obj p' = obj p \<and> same_process p p' \<or>
        (\<exists>n. obj p = Some n \<and> obj p' = None \<and> same_process (notify_closed n p) p'))"
begin

text \<open>The process knows just the server that is alive, and watches it.\<close>

definition main_ok :: "'a process_scheme \<Rightarrow> bool" where
  "main_ok p \<longleftrightarrow> inv p \<and> (\<not> failed p \<longrightarrow> obj p = the_server p \<and> close_watch p = the_server p)"

lemma started:
  assumes "inv p" "\<not> failed p" "obj p = None" "calm p" "close_watch p = None" "start_dbus_server K p = (b, p')"
  shows "main_ok p' \<and> \<not> failed p' \<and> loop_running p' = loop_running p \<and> (b \<longleftrightarrow> the_server p' \<noteq> None)"
proof -
  obtain n p1 where n: "new_server K p = (n, p1)" by (cases "new_server K p")
  obtain s p2 where s: "start_server K n (p1\<lparr>the_server := Some n\<rparr>) = (s, p2)"
    by (cases "start_server K n (p1\<lparr>the_server := Some n\<rparr>)")
  from launch [OF assms(1-4) n s]
  have 2: "inv p2" "obj p2 = Some n" "same_process (p\<lparr>the_server := Some n\<rparr>) p2" by simp_all
  with assms(2,5) have f: "\<not> failed p2" "close_watch p2 = None" "the_server p2 = Some n" "loop_running p2 = loop_running p"
    by (simp_all add: truncate_fields)
  from unref [OF 2(1) f(1) 2(2)] f(1,2)
  have 3: "inv (unref_server K n p2)" "obj (unref_server K n p2) = None" "same_process p2 (unref_server K n p2)"
    by (simp_all add: notify_closed_def)
  show ?thesis
  proof (cases s)
    case True
    with assms(6) have "b" "p' = p2\<lparr>close_watch := Some n\<rparr>" by (simp_all add: start_dbus_server_def n s)
    with 2 f show ?thesis by (simp add: main_ok_def fields)
  next
    case False
    with assms(6) have "\<not> b" "p' = (unref_server K n p2)\<lparr>the_server := None\<rparr>" by (simp_all add: start_dbus_server_def n s)
    with 3 f show ?thesis by (simp add: main_ok_def fields truncate_fields)
  qed
qed

lemma reload_ok:
  assumes "main_ok p" "\<not> failed p" "calm p"
  shows "main_ok (handle_reload_signal K p) \<and> \<not> failed (handle_reload_signal K p) \<and>
     loop_running (handle_reload_signal K p) = loop_running p"
proof (cases "the_server p")
  case None
  with assms show ?thesis by (simp add: handle_reload_signal_def)
next
  case (Some n)
  let ?p = "unref_server K n (p\<lparr>close_watch := None\<rparr>)"
  obtain b p' where s: "start_dbus_server K ?p = (b, p')" by (cases "start_dbus_server K ?p")
  have "inv ?p \<and> obj ?p = None \<and> same_process (p\<lparr>close_watch := None\<rparr>) ?p \<and> calm ?p"
    using unref [of "p\<lparr>close_watch := None\<rparr>" n] assms Some by (simp add: main_ok_def fields notify_closed_def)
  with started [OF _ _ _ _ _ s] assms(2) Some s show ?thesis
    by (simp add: truncate_fields handle_reload_signal_def)
qed

lemma closed_ok:
  assumes "main_ok p" "\<not> failed p" "obj p = Some n" "inv p'" "obj p' = None" "same_process (notify_closed n p) p'"
  shows "main_ok p' \<and> \<not> failed p' \<and> the_server p' = None \<and> \<not> loop_running p'"
  using assms by (simp add: main_ok_def notify_closed_def truncate_fields on_server_closed_def)

lemma step_ok:
  assumes "main_step K event calm p p'" "main_ok p"
  shows "main_ok p' \<and> (the_server p = None \<longrightarrow> the_server p' = None \<or> failed p')"
  using assms(1)
proof cases
  case server_event
  with event [of p p'] assms(2) have i: "inv p'" by (simp add: main_ok_def)
  from event [of p p'] assms(2) server_event consider "failed p'" | "obj p' = obj p" "same_process p p'"
    | n where "obj p = Some n" "obj p' = None" "same_process (notify_closed n p) p'" by (auto simp: main_ok_def)
  then show ?thesis
  proof cases
    case 3
    from closed_ok [OF assms(2) _ 3(1) i 3(2,3)] server_event show ?thesis by simp
  qed (use i assms(2) server_event in \<open>auto simp: main_ok_def truncate_fields\<close>)
next
  case reload
  with reload_ok [OF assms(2)] show ?thesis by (auto simp: handle_reload_signal_def)
next
  case quit
  with assms(2) show ?thesis by (auto simp: main_ok_def handle_quit_signal_def fields)
qed

text \<open>Where a server always starts, there is one as long as the loop runs.\<close>

lemma served_step:
  assumes "main_step K event calm p p'" "main_ok p" "the_server p \<noteq> None" "\<And>n p. fst (start_server K n p)" "\<not> failed p'" "loop_running p'"
  shows "the_server p' \<noteq> None"
  using assms(1)
proof cases
  case server_event
  with event [of p p'] assms(2,3,5,6) show ?thesis
    by (auto simp: main_ok_def notify_closed_def truncate_fields on_server_closed_def)
next
  case reload
  obtain n where n: "the_server p = Some n" using assms(3) by auto
  let ?p = "unref_server K n (p\<lparr>close_watch := None\<rparr>)"
  obtain b q where s: "start_dbus_server K ?p = (b, q)" by (cases "start_dbus_server K ?p")
  have b: "b"
    using s assms(4) by (auto simp: start_dbus_server_def split: prod.splits if_splits) (metis fst_conv)
  have "inv ?p \<and> obj ?p = None \<and> same_process (p\<lparr>close_watch := None\<rparr>) ?p \<and> calm ?p"
    using unref [of "p\<lparr>close_watch := None\<rparr>" n] assms(2) reload n by (simp add: main_ok_def fields notify_closed_def)
  with started [OF _ _ _ _ _ s] reload n s b show ?thesis by (simp add: truncate_fields handle_reload_signal_def)
qed (use assms in \<open>simp add: handle_quit_signal_def\<close>)

lemma steps_ok: "main_steps K event calm p p' \<Longrightarrow> main_ok p \<Longrightarrow> main_ok p'"
  by (induction rule: rtranclp_induct) (use step_ok in blast)+

lemma served:
  assumes "main_steps K event calm p p'" "main_ok p" "the_server p \<noteq> None" "\<And>n p. fst (start_server K n p)" "\<not> failed p'" "loop_running p'"
  shows "the_server p' \<noteq> None"
  using assms(1,5,6)
proof (induction rule: rtranclp_induct)
  case (step q r)
  then have "\<not> failed q" "loop_running q" by (auto elim: main_stepE)
  with step served_step [OF step(2) steps_ok [OF step(1) assms(2)] _ assms(4)] show ?case by simp
qed (use assms in simp)

text \<open>A process without a server stays without one.\<close>

lemma no_server_stays: "main_steps K event calm p p' \<Longrightarrow> main_ok p \<Longrightarrow> the_server p = None \<Longrightarrow> the_server p' = None \<or> failed p'"
proof (induction rule: rtranclp_induct)
  case (step q r)
  then have "\<not> failed q" by (auto elim: main_stepE)
  with step step_ok [OF step(2) steps_ok [OF step(1)]] show ?case by simp
qed simp

lemma main_start_ok:
  assumes "inv p" "\<not> failed p" "obj p = None" "calm p" "close_watch p = None" "main_start K p = Some p'"
  shows "main_ok p' \<and> \<not> failed p' \<and> loop_running p' \<and> the_server p' \<noteq> None"
proof -
  obtain b q where s: "start_dbus_server K p = (b, q)" by (cases "start_dbus_server K p")
  with assms(6) have "p' = q\<lparr>loop_running := True\<rparr>" "the_server q \<noteq> None"
    by (auto simp: main_start_def Let_def split: if_splits)
  with started [OF assms(1-5) s] show ?thesis by (simp add: main_ok_def fields)
qed

lemma main_end_ok:
  assumes "main_ok p" "\<not> failed p"
  shows "inv (main_end K p) \<and> obj (main_end K p) = None \<and> the_server (main_end K p) = None \<and> \<not> failed (main_end K p)"
proof (cases "the_server p")
  case None
  with assms show ?thesis by (simp add: main_end_def main_ok_def)
next
  case (Some n)
  with unref [of p n] assms show ?thesis
    by (simp add: main_end_def main_ok_def notify_closed_def on_server_closed_def truncate_fields)
qed

end

end
