(* ===== verification/Gumd_Msg_Bus.thy ===== *)
theory Gumd_Msg_Bus
  imports Gumd_Main Gum_Client_Keeps
begin

text \<open>
  The server on the message bus (\<^verbatim>\<open>gumd-dbus-server-msg-bus.c\<close>): it owns the name of the
  daemon, makes the two services when the bus is there, and goes when the name is lost or
  both services have gone. With \<open>Gumd_Main\<close> and \<open>Gumd_Bus\<close> this is the whole daemon.
\<close>

section \<open>The server\<close>

datatype bus_type = G_BUS_TYPE_SYSTEM | G_BUS_TYPE_SESSION

text \<open>
  The one server object that is alive, if any, with its number; \<open>main\<close> has the only
  reference to it. A pointer to a service is there or NULL.
\<close>

record msg_bus_server =
  msg_id :: nat
  has_user_service :: bool
  has_group_service :: bool
  name_owner_id :: nat

text \<open>
  The process with the services over their daemon. \<open>user_watch\<close> and \<open>group_watch\<close> are the weak
  references on the services with the server as their data, \<open>close_sources\<close> the idle sources
  of \<open>_close_server\<close>, \<open>owners\<close> what GLib keeps for \<open>g_bus_own_name\<close>: the id, the data for the
  callbacks, and whether the bus is there already.
\<close>

record msg_process = process +
  msg_server :: "msg_bus_server option"
  at_bus :: bus
  user_watch :: "nat option"
  group_watch :: "nat option"
  close_sources :: "nat list"
  owners :: "(nat \<times> nat \<times> bool) list"
  next_server :: nat
  next_owner :: nat

definition msg_crash :: "msg_process \<Rightarrow> msg_process" where
  "msg_crash p = p\<lparr>failed := True\<rparr>"

text \<open>A server that is used after it has gone.\<close>

definition with_server :: "nat \<Rightarrow> (msg_bus_server \<Rightarrow> msg_process) \<Rightarrow> msg_process \<Rightarrow> msg_process" where
  "with_server n f p =
     (case msg_server p of
        Some s \<Rightarrow> if msg_id s = n then f s else msg_crash p
      | None \<Rightarrow> msg_crash p)"

definition on_user_interface_dispose :: "nat \<Rightarrow> msg_process \<Rightarrow> msg_process" where
  "on_user_interface_dispose n p = with_server n (\<lambda>s.
     let p = p\<lparr>msg_server := Some (s\<lparr>has_user_service := False\<rparr>)\<rparr>
     in if \<not> has_group_service s then p\<lparr>close_sources := close_sources p @ [n]\<rparr> else p) p"

definition on_group_interface_dispose :: "nat \<Rightarrow> msg_process \<Rightarrow> msg_process" where
  "on_group_interface_dispose n p = with_server n (\<lambda>s.
     let p = p\<lparr>msg_server := Some (s\<lparr>has_group_service := False\<rparr>)\<rparr>
     in if \<not> has_user_service s then p\<lparr>close_sources := close_sources p @ [n]\<rparr> else p) p"

definition drop_privileges :: "ctx \<Rightarrow> msg_process \<Rightarrow> msg_process" where
  "drop_privileges C p =
     p\<lparr>at_bus := (at_bus p)\<lparr>bus_world := snd (run_state (gum_utils_drop_privileges C) (bus_world (at_bus p)))\<rparr>\<rparr>"

text \<open>A service that is NULL.\<close>

definition null_service :: service where
  "null_service = \<lparr>peers = [], caller_watchers = [], msg_bus = True, service_timer = gum_disposable_init\<lparr>ref_count := 0\<rparr>,
     next_adapter = 0, object_counter = 0, replies = [], crashed = False\<rparr>"

definition or_null :: "service option \<Rightarrow> service" where
  "or_null s = (case s of None \<Rightarrow> null_service | Some s \<Rightarrow> s)"

text \<open>
  \<open>exu\<close> and \<open>exg\<close>: the interfaces can be exported. A weak reference on NULL is not taken.
\<close>

definition on_bus_acquired :: "ctx \<Rightarrow> bus_type \<Rightarrow> bool \<Rightarrow> bool \<Rightarrow> nat \<Rightarrow> msg_process \<Rightarrow> msg_process" where
  "on_bus_acquired C T exu exg n p = with_server n (\<lambda>s.
     let us = gumd_dbus_user_service_adapter_new_with_connection C True exu;
         gs = gumd_dbus_group_service_adapter_new_with_connection C True exg;
         p = p\<lparr>msg_server := Some (s\<lparr>has_user_service := us \<noteq> None, has_group_service := gs \<noteq> None\<rparr>),
               at_bus := (at_bus p)\<lparr>users_at := or_null us, groups_at := or_null gs\<rparr>,
               user_watch := (if us \<noteq> None then Some n else user_watch p),
               group_watch := (if gs \<noteq> None then Some n else group_watch p)\<rparr>
     in if T = G_BUS_TYPE_SYSTEM then drop_privileges C p else p) p"

text \<open>\<open>g_object_unref\<close> of a service.\<close>

definition service_unref :: "kind \<Rightarrow> service \<times> daemon \<Rightarrow> service \<times> daemon" where
  "service_unref K sd =
     (let (s, d) = sd;
          s' = s\<lparr>service_timer := disposable_unref (service_timer s)\<rparr>
      in if ref_count (service_timer s') = 0 then service_dispose K (s', d) else (s', d))"

definition stop :: "ctx \<Rightarrow> nat \<Rightarrow> msg_process \<Rightarrow> msg_process" where
  "stop C n p = with_server n (\<lambda>s.
     let p = (if has_group_service s
              then p\<lparr>group_watch := None, at_bus := loop_groups (service_unref (group_kind C)) (at_bus p)\<rparr> else p);
         p = (if has_user_service s
              then p\<lparr>user_watch := None, at_bus := loop_users (service_unref (user_kind C)) (at_bus p)\<rparr> else p);
         p = (if name_owner_id s \<noteq> 0 then p\<lparr>owners := filter (\<lambda>e. fst e \<noteq> name_owner_id s) (owners p)\<rparr> else p)
     in p\<lparr>msg_server := Some (s\<lparr>has_user_service := False, has_group_service := False, name_owner_id := 0\<rparr>)\<rparr>) p"

text \<open>The last reference to the server goes with its reference to the daemon.\<close>

definition msg_bus_dispose :: "ctx \<Rightarrow> nat \<Rightarrow> msg_process \<Rightarrow> msg_process" where
  "msg_bus_dispose C n p =
     (let p = stop C n p
      in (notify_closed n p)\<lparr>at_bus := (at_bus p)\<lparr>bus_daemon := daemon_dispose (bus_daemon (at_bus p))\<rparr>, msg_server := None\<rparr>)"

definition msg_bus_unref :: "ctx \<Rightarrow> nat \<Rightarrow> msg_process \<Rightarrow> msg_process" where
  "msg_bus_unref C n p = with_server n (\<lambda>s. msg_bus_dispose C n p) p"

definition gumd_dbus_server_msg_bus_new :: "msg_process \<Rightarrow> nat \<times> msg_process" where
  "gumd_dbus_server_msg_bus_new p =
     (let n = next_server p
      in (n, p\<lparr>msg_server := Some \<lparr>msg_id = n, has_user_service = False, has_group_service = False, name_owner_id = 0\<rparr>,
               at_bus := (at_bus p)\<lparr>bus_daemon := gumd_daemon_init\<rparr>, next_server := n + 1\<rparr>))"

definition msg_bus_start :: "ctx \<Rightarrow> bus_type \<Rightarrow> nat \<Rightarrow> msg_process \<Rightarrow> bool \<times> msg_process" where
  "msg_bus_start C T n p =
     (let p = (if T = G_BUS_TYPE_SESSION then drop_privileges C p else p)
      in (True, with_server n (\<lambda>s.
            p\<lparr>msg_server := Some (s\<lparr>name_owner_id := next_owner p\<rparr>), owners := owners p @ [(next_owner p, n, False)],
              next_owner := next_owner p + 1\<rparr>) p))"

definition on_name_lost :: "ctx \<Rightarrow> nat \<Rightarrow> msg_process \<Rightarrow> msg_process" where
  "on_name_lost C n p = msg_bus_unref C n p"

definition close_server :: "ctx \<Rightarrow> nat \<Rightarrow> msg_process \<Rightarrow> msg_process" where
  "close_server C n p = msg_bus_unref C n (p\<lparr>close_sources := remove1 n (close_sources p)\<rparr>)"

definition msg_bus_class :: "ctx \<Rightarrow> bus_type \<Rightarrow> msg_process server_class" where
  "msg_bus_class C T = \<lparr>new_server = gumd_dbus_server_msg_bus_new, start_server = msg_bus_start C T, unref_server = msg_bus_unref C\<rparr>"

text \<open>The process before its first server.\<close>

definition msg_process_init :: "world \<Rightarrow> msg_process" where
  "msg_process_init w = \<lparr>the_server = None, close_watch = None, loop_running = False, failed = False, msg_server = None,
     at_bus = \<lparr>users_at = null_service, groups_at = null_service, bus_daemon = gumd_daemon_init, bus_world = w\<rparr>,
     user_watch = None, group_watch = None, close_sources = [], owners = [], next_server = 0, next_owner = 1\<rparr>"

section \<open>Events\<close>

abbreviation user_alive :: "bus \<Rightarrow> nat" where "user_alive b \<equiv> ref_count (service_timer (users_at b))"
abbreviation group_alive :: "bus \<Rightarrow> nat" where "group_alive b \<equiv> ref_count (service_timer (groups_at b))"

text \<open>What happens on the bus, with the notifications of services that are disposed of in it.\<close>

definition notify_user :: "bool \<Rightarrow> msg_process \<Rightarrow> msg_process" where
  "notify_user gone p =
     (if gone then (case user_watch p of None \<Rightarrow> p | Some n \<Rightarrow> on_user_interface_dispose n (p\<lparr>user_watch := None\<rparr>)) else p)"

definition notify_group :: "bool \<Rightarrow> msg_process \<Rightarrow> msg_process" where
  "notify_group gone p =
     (if gone then (case group_watch p of None \<Rightarrow> p | Some n \<Rightarrow> on_group_interface_dispose n (p\<lparr>group_watch := None\<rparr>)) else p)"

definition after_bus :: "bus \<Rightarrow> msg_process \<Rightarrow> msg_process" where
  "after_bus b p =
     notify_group (0 < group_alive (at_bus p) \<and> group_alive b = 0)
       (notify_user (0 < user_alive (at_bus p) \<and> user_alive b = 0) (p\<lparr>at_bus := b, failed := bus_crashed b\<rparr>))"

text \<open>The bus is there once for every ownership, and its name can be lost at any time.\<close>

definition bus_there :: "nat \<Rightarrow> msg_process \<Rightarrow> msg_process" where
  "bus_there i p = p\<lparr>owners := map (\<lambda>(j, n, a). (j, n, a \<or> j = i)) (owners p)\<rparr>"

inductive msg_event :: "ctx \<Rightarrow> bus_type \<Rightarrow> bool \<Rightarrow> msg_process \<Rightarrow> msg_process \<Rightarrow> bool" for C T E where
  on_bus: "bus_step C E (at_bus p) b \<Longrightarrow> msg_event C T E p (after_bus b p)"
| bus_acquired: "(i, n, False) \<in> set (owners p) \<Longrightarrow> E \<longrightarrow> exu \<and> exg \<Longrightarrow> msg_event C T E p (on_bus_acquired C T exu exg n (bus_there i p))"
| name_lost: "(i, n, a) \<in> set (owners p) \<Longrightarrow> msg_event C T E p (on_name_lost C n p)"
| closing: "n \<in> set (close_sources p) \<Longrightarrow> msg_event C T E p (close_server C n p)"

section \<open>The services of a server\<close>

lemma service_new_cases:
  obtains s where "service_new to True True = Some s" "service_ok (\<lambda>_. 0) s" "ref_count (service_timer s) = 1" "no_null s" "\<not> crashed s"
proof -
  obtain s where s: "service_new to True True = Some s" by (simp add: service_new_def)
  with service_new_ok [of to True] have "service_ok (\<lambda>_. 0) s" by simp
  moreover from s have "no_null s" "\<not> crashed s" by (auto simp: service_new_def no_null_def)
  ultimately show ?thesis using s running_ref that by blast
qed

lemma service_new_not: "service_new to True False = None"
  by (simp add: service_new_def)

lemma or_null_new: "side_ok E (\<lambda>_. 0) (or_null (service_new to True ex))"
proof (cases ex)
  case True
  obtain s where "service_new to True True = Some s" "service_ok (\<lambda>_. 0) s" "ref_count (service_timer s) = 1" "no_null s" "\<not> crashed s"
    by (rule service_new_cases)
  with True show ?thesis by (simp add: or_null_def side_ok_def)
qed (simp add: or_null_def service_new_not null_service_def side_ok_def)

lemma or_null_alive:
  "0 < ref_count (service_timer (or_null (service_new to True ex))) \<longleftrightarrow> ex" "(\<exists>s. service_new to True ex = Some s) \<longleftrightarrow> ex"
proof -
  obtain s where "service_new to True True = Some s" "ref_count (service_timer s) = 1" by (rule service_new_cases)
  then show "0 < ref_count (service_timer (or_null (service_new to True ex))) \<longleftrightarrow> ex" "(\<exists>s. service_new to True ex = Some s) \<longleftrightarrow> ex"
    by (cases ex; simp add: or_null_def service_new_not null_service_def)+
qed

lemma gone_refs: "side_ok E R s \<Longrightarrow> ref_count (service_timer s) = 0 \<Longrightarrow> R = (\<lambda>_. 0)"
  by (simp add: side_ok_def)

text \<open>New services for those that have gone, and a new daemon.\<close>

lemma bus_services:
  assumes "bus_ok E b" "user_alive b = 0" "group_alive b = 0"
  shows "bus_ok E (b\<lparr>users_at := or_null (service_new to True exu), groups_at := or_null (service_new to True exg)\<rparr>)"
  using assms gone_refs [of E "user_refs (bus_daemon b)" "users_at b"] gone_refs [of E "group_refs (bus_daemon b)" "groups_at b"]
  by (simp add: bus_ok_def or_null_new)

lemma init_refs: "user_refs gumd_daemon_init = (\<lambda>_. 0)" "group_refs gumd_daemon_init = (\<lambda>_. 0)" "tables_ok gumd_daemon_init"
  by (simp_all add: user_refs_def group_refs_def gumd_daemon_init_def fun_eq_iff refs_def no_objects_def tables_ok_def
      objects_ok_none [unfolded no_objects_def])

lemma objects_ok_clear: "objects_ok S \<Longrightarrow> objects_ok (obj_clear S)"
  using clear_weak_refs [of "weak_refs S" "obj_table S"] objects_okD(3) [of S]
  by (auto simp: objects_ok_def obj_clear_def)

lemma dispose_refs:
  "user_refs (daemon_dispose d) = user_refs d" "group_refs (daemon_dispose d) = group_refs d"
  "tables_ok d \<Longrightarrow> tables_ok (daemon_dispose d)"
  by (simp_all add: user_refs_def group_refs_def daemon_dispose_def obj_clear_def refs_def fun_eq_iff)
    (simp add: tables_ok_def daemon_dispose_def objects_ok_clear [unfolded obj_clear_def])

lemma bus_daemons:
  assumes "bus_ok E b" "user_alive b = 0" "group_alive b = 0"
  shows "bus_ok E (b\<lparr>bus_daemon := gumd_daemon_init\<rparr>)" "bus_ok E (b\<lparr>bus_daemon := daemon_dispose (bus_daemon b)\<rparr>)"
  using assms gone_refs [of E "user_refs (bus_daemon b)" "users_at b"] gone_refs [of E "group_refs (bus_daemon b)" "groups_at b"]
  by (simp_all add: bus_ok_def init_refs dispose_refs)

lemma service_unref_dispose:
  "ref_count (service_timer s) = 1 \<Longrightarrow> service_unref K (s, d) = service_dispose K (s\<lparr>service_timer := disposable_unref (service_timer s)\<rparr>, d)"
  "ref_count t = 1 \<Longrightarrow> ref_count (disposable_unref t) = 0"
  by (simp_all add: service_unref_def disposable_unref_def disposable_dispose_def g_source_remove_def Let_def)

lemma drop_users:
  assumes "bus_ok E b" "0 < user_alive b"
  shows "bus_ok E (loop_users (service_unref (user_kind C)) b) \<and> user_alive (loop_users (service_unref (user_kind C)) b) = 0 \<and>
     groups_at (loop_users (service_unref (user_kind C)) b) = groups_at b \<and>
     bus_world (loop_users (service_unref (user_kind C)) b) = bus_world b"
proof -
  from assms have r: "running users_at b" by (simp add: running_def bus_ok_def side_ok_def)
  obtain s d where f: "service_unref (user_kind C) (users_at b, bus_daemon b) = (s, d)"
    by (cases "service_unref (user_kind C) (users_at b, bus_daemon b)")
  have one: "user_alive b = 1" using assms running_ref [of "user_refs (bus_daemon b)" "users_at b"]
    by (auto simp: bus_ok_def side_ok_def split: if_splits)
  from users.service_dispose_good [OF users_good [OF assms(1) r, of C] f [unfolded service_unref_dispose(1) [OF one]]
      service_unref_dispose(2) [OF one]] assms(1) f
  show ?thesis by (simp add: loop_users_def bus_ok_def side_ok_def)
qed

lemma drop_groups:
  assumes "bus_ok E b" "0 < group_alive b"
  shows "bus_ok E (loop_groups (service_unref (group_kind C)) b) \<and> group_alive (loop_groups (service_unref (group_kind C)) b) = 0 \<and>
     users_at (loop_groups (service_unref (group_kind C)) b) = users_at b \<and>
     bus_world (loop_groups (service_unref (group_kind C)) b) = bus_world b"
proof -
  from assms have r: "running groups_at b" by (simp add: running_def bus_ok_def side_ok_def)
  obtain s d where f: "service_unref (group_kind C) (groups_at b, bus_daemon b) = (s, d)"
    by (cases "service_unref (group_kind C) (groups_at b, bus_daemon b)")
  have one: "group_alive b = 1" using assms running_ref [of "group_refs (bus_daemon b)" "groups_at b"]
    by (auto simp: bus_ok_def side_ok_def split: if_splits)
  from groups.service_dispose_good [OF groups_good [OF assms(1) r, of C] f [unfolded service_unref_dispose(1) [OF one]]
      service_unref_dispose(2) [OF one]] assms(1) f
  show ?thesis by (simp add: loop_groups_def bus_ok_def side_ok_def)
qed

section \<open>What the server promises\<close>

text \<open>
  The pointers of the server are those to services that are alive, and the weak references
  and the ownership of the name are its own.
\<close>

definition server_ok :: "msg_process \<Rightarrow> bool" where
  "server_ok p \<longleftrightarrow> 0 < next_owner p \<and>
     (case msg_server p of
        None \<Rightarrow> owners p = [] \<and> user_watch p = None \<and> group_watch p = None \<and> user_alive (at_bus p) = 0 \<and> group_alive (at_bus p) = 0
      | Some s \<Rightarrow> msg_id s < next_server p \<and>
          (has_user_service s \<longleftrightarrow> 0 < user_alive (at_bus p)) \<and> (has_group_service s \<longleftrightarrow> 0 < group_alive (at_bus p)) \<and>
          user_watch p = (if has_user_service s then Some (msg_id s) else None) \<and>
          group_watch p = (if has_group_service s then Some (msg_id s) else None) \<and>
          (name_owner_id s = 0 \<and> owners p = [] \<and> \<not> has_user_service s \<and> \<not> has_group_service s \<or>
           name_owner_id s \<noteq> 0 \<and> (\<exists>a. owners p = [(name_owner_id s, msg_id s, a)] \<and>
             (a \<or> \<not> has_user_service s \<and> \<not> has_group_service s))))"

text \<open>
  At most one idle source, that of a server whose services have gone. If they could be
  exported, such a server has one.
\<close>

definition sources_ok :: "bool \<Rightarrow> msg_process \<Rightarrow> bool" where
  "sources_ok E p \<longleftrightarrow>
     (case msg_server p of
        None \<Rightarrow> True
      | Some s \<Rightarrow>
          (let gone = (\<not> has_user_service s \<and> \<not> has_group_service s \<and> (\<forall>e\<in>set (owners p). snd (snd e)) \<and> owners p \<noteq> [])
           in close_sources p = [] \<and> (E \<longrightarrow> \<not> gone) \<or> close_sources p = [msg_id s] \<and> gone))"

definition msg_inv :: "bool \<Rightarrow> bool \<Rightarrow> ctx \<Rightarrow> accounts \<Rightarrow> msg_process \<Rightarrow> bool" where
  "msg_inv E G C a p \<longleftrightarrow> config_ok C \<and> accounts_kept C a (bus_world (at_bus p)) \<and>
     (\<not> failed p \<longrightarrow> bus_ok E (at_bus p) \<and> server_ok p \<and> (G \<longrightarrow> sources_ok E p))"

definition msg_calm :: "bool \<Rightarrow> msg_process \<Rightarrow> bool" where
  "msg_calm G p \<longleftrightarrow> G \<longrightarrow> close_sources p = []"

abbreviation msg_obj :: "msg_process \<Rightarrow> nat option" where
  "msg_obj p \<equiv> map_option msg_id (msg_server p)"

lemma server_fields_cong:
  assumes "msg_server p' = msg_server p" "owners p' = owners p" "user_watch p' = user_watch p" "group_watch p' = group_watch p"
    "next_owner p' = next_owner p" "users_at (at_bus p') = users_at (at_bus p)"
    "groups_at (at_bus p') = groups_at (at_bus p)" "next_server p' = next_server p"
  shows "server_ok p' = server_ok p" "close_sources p' = close_sources p \<Longrightarrow> sources_ok E p' = sources_ok E p"
  unfolding server_ok_def sources_ok_def assms by (simp, simp only:)

lemma msg_fields:
  "msg_calm G (p\<lparr>the_server := x\<rparr>) = msg_calm G p" "msg_inv E G C a (p\<lparr>the_server := x\<rparr>) = msg_inv E G C a p"
  "msg_calm G (p\<lparr>close_watch := x\<rparr>) = msg_calm G p" "msg_inv E G C a (p\<lparr>close_watch := x\<rparr>) = msg_inv E G C a p"
  "msg_inv E G C a (p\<lparr>loop_running := l\<rparr>) = msg_inv E G C a p"
  by (simp_all add: msg_calm_def msg_inv_def server_fields_cong [of "p\<lparr>the_server := x\<rparr>" p]
      server_fields_cong [of "p\<lparr>close_watch := x\<rparr>" p] server_fields_cong [of "p\<lparr>loop_running := l\<rparr>" p])

lemma drop_privileges_files:
  "files (snd (run_state (gum_utils_drop_privileges C) w)) = files w"
proof -
  have "frame files (gum_utils_drop_privileges C)"
    unfolding gum_utils_drop_privileges_def seteuid_def by (intro frame_rules) auto
  from frame_wp [OF this] show ?thesis by (simp add: wp_def case_prod_beta)
qed

lemma drop_privileges_fields [simp]:
  "msg_server (drop_privileges C p) = msg_server p" "owners (drop_privileges C p) = owners p"
  "user_watch (drop_privileges C p) = user_watch p" "group_watch (drop_privileges C p) = group_watch p"
  "close_sources (drop_privileges C p) = close_sources p" "next_owner (drop_privileges C p) = next_owner p"
  "next_server (drop_privileges C p) = next_server p" "users_at (at_bus (drop_privileges C p)) = users_at (at_bus p)" "groups_at (at_bus (drop_privileges C p)) = groups_at (at_bus p)"
  "bus_ok E (at_bus (drop_privileges C p)) = bus_ok E (at_bus p)" "failed (drop_privileges C p) = failed p"
  "same_process p (drop_privileges C p)"
  "accounts_kept D a (bus_world (at_bus (drop_privileges C p))) = accounts_kept D a (bus_world (at_bus p))"
  by (simp_all add: drop_privileges_def accounts_kept_files [OF drop_privileges_files] truncate_fields)

lemma drop_privileges_keeps [simp]:
  "msg_inv E G C a (drop_privileges D p) = msg_inv E G C a p" "msg_calm G (drop_privileges D p) = msg_calm G p"
  unfolding msg_inv_def msg_calm_def by (simp_all add: server_fields_cong [of "drop_privileges D p" p])

lemma msg_new:
  assumes "msg_inv E G C a p" "\<not> failed p" "msg_obj p = None" "msg_calm G p" "gumd_dbus_server_msg_bus_new p = (n, p')"
  shows "msg_inv E G C a p' \<and> msg_obj p' = Some n \<and> msg_calm G p' \<and> same_process p p' \<and> owners p' = []"
  using assms bus_daemons(1) [of E "at_bus p"]
  by (auto simp: msg_inv_def server_ok_def sources_ok_def msg_calm_def gumd_dbus_server_msg_bus_new_def Let_def truncate_fields)

lemma msg_start:
  assumes "msg_inv E G C a p" "\<not> failed p" "msg_server p = Some s" "msg_id s = n" "msg_calm G p" "owners p = []"
    and "msg_bus_start D T n p = (started, p')"
  shows "msg_inv E G C a p' \<and> msg_obj p' = Some n \<and> msg_calm G p' \<and> same_process p p'"
proof -
  obtain q where q: "q = (if T = G_BUS_TYPE_SESSION then drop_privileges D p else p)" by simp
  then have k: "msg_inv E G C a q" "msg_server q = Some s" "msg_calm G q" "same_process p q" "owners q = []" "\<not> failed q"
    using assms by (simp_all split: if_splits)
  have p': "p' = q\<lparr>msg_server := Some (s\<lparr>name_owner_id := next_owner q\<rparr>), owners := owners q @ [(next_owner q, n, False)],
              next_owner := next_owner q + 1\<rparr>"
    using assms(4,7) k(2) unfolding q [symmetric] msg_bus_start_def by (simp add: with_server_def Let_def q [symmetric])
  from k(1,2,5,6) have s: "\<not> has_user_service s" "\<not> has_group_service s" "0 < next_owner q" "msg_id s < next_server q"
    by (auto simp: msg_inv_def server_ok_def)
  show ?thesis
    using k s assms(4) unfolding p'
    by (auto simp: msg_inv_def server_ok_def sources_ok_def msg_calm_def truncate_fields)
qed

text \<open>A server that stops gives up what it has.\<close>

lemma msg_stop:
  assumes "bus_ok E (at_bus p)" "server_ok p" "msg_server p = Some s" "msg_id s = n"
  shows "bus_ok E (at_bus (stop C n p)) \<and> user_alive (at_bus (stop C n p)) = 0 \<and> group_alive (at_bus (stop C n p)) = 0 \<and>
     bus_world (at_bus (stop C n p)) = bus_world (at_bus p) \<and> owners (stop C n p) = [] \<and> user_watch (stop C n p) = None \<and>
     group_watch (stop C n p) = None \<and> next_owner (stop C n p) = next_owner p \<and> close_sources (stop C n p) = close_sources p \<and>
     same_process p (stop C n p)"
proof -
  obtain g where g: "g = (if has_group_service s then loop_groups (service_unref (group_kind C)) (at_bus p) else at_bus p)" by simp
  obtain u where u: "u = (if has_user_service s then loop_users (service_unref (user_kind C)) g else g)" by simp
  have w: "has_user_service s \<longleftrightarrow> 0 < user_alive (at_bus p)" "has_group_service s \<longleftrightarrow> 0 < group_alive (at_bus p)"
    "user_watch p = (if has_user_service s then Some n else None)" "group_watch p = (if has_group_service s then Some n else None)"
    "name_owner_id s = 0 \<and> owners p = [] \<or> (\<exists>a. owners p = [(name_owner_id s, n, a)] \<and> name_owner_id s \<noteq> 0)"
    using assms(2-4) by (auto simp: server_ok_def)
  have 1: "bus_ok E g" "group_alive g = 0" "users_at g = users_at (at_bus p)" "bus_world g = bus_world (at_bus p)"
    using drop_groups [OF assms(1), of C] assms(1) w(2) by (simp_all add: g)
  with w(1) have 2: "bus_ok E u" "user_alive u = 0" "groups_at u = groups_at g" "bus_world u = bus_world g"
    using drop_users [OF 1(1), of C] by (simp_all add: u)
  have "at_bus (stop C n p) = u" "owners (stop C n p) = []" "user_watch (stop C n p) = None" "group_watch (stop C n p) = None"
    "next_owner (stop C n p) = next_owner p" "close_sources (stop C n p) = close_sources p" "same_process p (stop C n p)"
    using assms(3,4) w(3-5) by (auto simp: stop_def with_server_def g u Let_def truncate_fields)
  with 1 2 show ?thesis by simp
qed

lemma msg_unref:
  assumes "msg_inv E G C a p" "\<not> failed p" "msg_obj p = Some n"
  shows "msg_inv E G C a (msg_bus_unref C n p) \<and> msg_obj (msg_bus_unref C n p) = None \<and>
     same_process (notify_closed n p) (msg_bus_unref C n p) \<and> close_sources (msg_bus_unref C n p) = close_sources p"
proof -
  obtain s where s: "msg_server p = Some s" "msg_id s = n" using assms(3) by auto
  let ?q = "stop C n p"
  from assms(1,2) have i: "bus_ok E (at_bus p)" "server_ok p" "config_ok C \<and> accounts_kept C a (bus_world (at_bus p))"
    by (simp_all add: msg_inv_def)
  note q = msg_stop [OF i(1,2) s, of C]
  from q bus_daemons(2) [of E "at_bus ?q"] have b: "bus_ok E ((at_bus ?q)\<lparr>bus_daemon := daemon_dispose (bus_daemon (at_bus ?q))\<rparr>)"
    by simp
  have n: "notify_closed n x = (if close_watch x = Some n then x\<lparr>close_watch := None, the_server := None, loop_running := False\<rparr> else x)"
    for x :: msg_process by (simp add: notify_closed_def on_server_closed_def)
  have "msg_bus_unref C n p = (notify_closed n ?q)
      \<lparr>at_bus := (at_bus ?q)\<lparr>bus_daemon := daemon_dispose (bus_daemon (at_bus ?q))\<rparr>, msg_server := None\<rparr>"
    using s by (simp add: msg_bus_unref_def with_server_def msg_bus_dispose_def Let_def)
  with q b i s assms(2) show ?thesis
    by (simp add: msg_inv_def server_ok_def sources_ok_def n truncate_fields)
qed

section \<open>Events keep the promise\<close>

lemma bus_step_dead:
  assumes "bus_step C E b b'"
  shows "user_alive b = 0 \<Longrightarrow> user_alive b' = 0" "group_alive b = 0 \<Longrightarrow> group_alive b' = 0"
  using assms by (cases; auto simp: running_def at_users_def at_groups_def loop_users_def loop_groups_def split: prod.splits)+

text \<open>What the notifications leave.\<close>

definition without_gone :: "bool \<Rightarrow> bool \<Rightarrow> msg_bus_server \<Rightarrow> msg_bus_server" where
  "without_gone ug gg s = s\<lparr>has_user_service := has_user_service s \<and> \<not> ug, has_group_service := has_group_service s \<and> \<not> gg\<rparr>"

lemma server_okD:
  assumes "server_ok p" "msg_server p = Some s"
  shows "0 < next_owner p" "has_user_service s \<longleftrightarrow> 0 < user_alive (at_bus p)" "has_group_service s \<longleftrightarrow> 0 < group_alive (at_bus p)"
    "user_watch p = (if has_user_service s then Some (msg_id s) else None)"
    "group_watch p = (if has_group_service s then Some (msg_id s) else None)"
    "name_owner_id s = 0 \<and> owners p = [] \<and> \<not> has_user_service s \<and> \<not> has_group_service s \<or>
     name_owner_id s \<noteq> 0 \<and> (\<exists>a. owners p = [(name_owner_id s, msg_id s, a)] \<and> (a \<or> \<not> has_user_service s \<and> \<not> has_group_service s))"
    "msg_id s < next_server p"
  using assms(1) unfolding server_ok_def assms(2) option.case by blast+

lemma notify_user_eq:
  assumes "msg_server q = Some s" "ug \<longrightarrow> user_watch q = Some (msg_id s)"
  shows "notify_user ug q = q\<lparr>msg_server := Some (without_gone ug False s), user_watch := (if ug then None else user_watch q),
     close_sources := close_sources q @ (if ug \<and> \<not> has_group_service s then [msg_id s] else [])\<rparr>"
  using assms by (cases q; cases s) (simp add: notify_user_def on_user_interface_dispose_def with_server_def without_gone_def)

lemma notify_group_eq:
  assumes "msg_server q = Some s" "gg \<longrightarrow> group_watch q = Some (msg_id s)"
  shows "notify_group gg q = q\<lparr>msg_server := Some (without_gone False gg s), group_watch := (if gg then None else group_watch q),
     close_sources := close_sources q @ (if gg \<and> \<not> has_user_service s then [msg_id s] else [])\<rparr>"
  using assms by (cases q; cases s) (simp add: notify_group_def on_group_interface_dispose_def with_server_def without_gone_def)

lemma after_bus_eq:
  assumes "server_ok p" "msg_server p = Some s"
    and "ug \<longleftrightarrow> 0 < user_alive (at_bus p) \<and> user_alive b = 0" "gg \<longleftrightarrow> 0 < group_alive (at_bus p) \<and> group_alive b = 0"
  shows "after_bus b p = p\<lparr>at_bus := b, failed := bus_crashed b, msg_server := Some (without_gone ug gg s),
     user_watch := (if ug then None else user_watch p), group_watch := (if gg then None else group_watch p),
     close_sources := close_sources p @ (if ug \<and> \<not> has_group_service s then [msg_id s] else []) @
       (if gg \<and> \<not> (has_user_service s \<and> \<not> ug) then [msg_id s] else [])\<rparr>"
proof -
  note w = server_okD [OF assms(1,2)]
  let ?q = "p\<lparr>at_bus := b, failed := bus_crashed b\<rparr>"
  have u: "ug \<longrightarrow> user_watch ?q = Some (msg_id s)" and g: "gg \<longrightarrow> group_watch p = Some (msg_id s)"
    using w(2-5) assms(3,4) by simp_all
  have "notify_user ug ?q = ?q\<lparr>msg_server := Some (without_gone ug False s), user_watch := (if ug then None else user_watch ?q),
     close_sources := close_sources ?q @ (if ug \<and> \<not> has_group_service s then [msg_id s] else [])\<rparr>"
    by (rule notify_user_eq [OF _ u]) (simp add: assms(2))
  then show ?thesis
    unfolding after_bus_def assms(3) [symmetric] assms(4) [symmetric] using g
    by (simp add: notify_group_eq [where s = "without_gone ug False s"] without_gone_def)
qed

lemma msg_after_bus:
  assumes "msg_inv E G C a p" "\<not> failed p" "bus_step C E (at_bus p) b"
  shows "msg_inv E G C a (after_bus b p) \<and> (failed (after_bus b p) \<longleftrightarrow> bus_crashed b) \<and> msg_obj (after_bus b p) = msg_obj p \<and>
     (\<not> bus_crashed b \<longrightarrow> same_process p (after_bus b p))"
proof -
  from assms(1,2) have i: "config_ok C" "bus_ok E (at_bus p)" "server_ok p" "G \<longrightarrow> sources_ok E p" "accounts_kept C a (bus_world (at_bus p))"
    by (simp_all add: msg_inv_def)
  from bus_step_next [OF assms(3) i(2)] have n: "bus_next C E (at_bus p) b" .
  have k: "accounts_kept C a (bus_world b)"
    using n i(2) by (intro daemon_steps_kept(1) [OF i(1) i(5), of "bus_daemon (at_bus p)"]) (auto simp: bus_next_def bus_ok_def)
  from n have ok: "\<not> bus_crashed b \<longrightarrow> bus_ok E b" by (auto simp: bus_next_def)
  note dead = bus_step_dead [OF assms(3)]
  show ?thesis
  proof (cases "msg_server p")
    case None
    with i(3) dead have d: "user_alive (at_bus p) = 0" "group_alive (at_bus p) = 0" "user_alive b = 0" "group_alive b = 0"
      by (simp_all add: server_ok_def)
    with None have "after_bus b p = p\<lparr>at_bus := b, failed := bus_crashed b\<rparr>"
      by (simp add: after_bus_def notify_user_def notify_group_def)
    with None d k ok i(1,3) assms(2) show ?thesis by (simp add: msg_inv_def server_ok_def sources_ok_def truncate_fields)
  next
    case (Some s)
    obtain ug gg where g: "ug \<longleftrightarrow> 0 < user_alive (at_bus p) \<and> user_alive b = 0" "gg \<longleftrightarrow> 0 < group_alive (at_bus p) \<and> group_alive b = 0"
      by simp
    note e = after_bus_eq [OF i(3) Some g]
    note w = server_okD [OF i(3) Some]
    have h: "has_user_service s \<and> \<not> ug \<longleftrightarrow> 0 < user_alive b" "has_group_service s \<and> \<not> gg \<longleftrightarrow> 0 < group_alive b"
      using w(2,3) g dead by auto
    have "server_ok (after_bus b p)"
      using w(1,4,5,6,7) h unfolding e server_ok_def by (auto simp: without_gone_def)
    moreover have "sources_ok E (after_bus b p)" if G
    proof -
      have su: "ug \<longrightarrow> has_user_service s" "gg \<longrightarrow> has_group_service s" using w(2,3) g by simp_all
      have c: "close_sources p = [] \<and> (E \<longrightarrow> has_user_service s \<or> has_group_service s \<or> (\<exists>e\<in>set (owners p). \<not> snd (snd e)) \<or> owners p = []) \<or>
          close_sources p = [msg_id s] \<and> \<not> has_user_service s \<and> \<not> has_group_service s \<and>
            (\<forall>e\<in>set (owners p). snd (snd e)) \<and> owners p \<noteq> []"
        using i(4) that Some by (auto simp: sources_ok_def Let_def)
      have "has_user_service s \<or> has_group_service s \<longrightarrow> (\<forall>e\<in>set (owners p). snd (snd e)) \<and> owners p \<noteq> []" using w(6) by auto
      with su c show ?thesis
        unfolding e sources_ok_def
        by (cases ug; cases gg; cases "has_user_service s"; cases "has_group_service s"; simp add: without_gone_def; blast?)
    qed
    moreover have "at_bus (after_bus b p) = b" "failed (after_bus b p) = bus_crashed b" "msg_obj (after_bus b p) = msg_obj p"
      "\<not> bus_crashed b \<longrightarrow> same_process p (after_bus b p)"
      using assms(2) Some by (simp_all add: e without_gone_def truncate_fields)
    ultimately show ?thesis using k ok i(1) by (simp add: msg_inv_def)
  qed
qed

lemma msg_bus_acquired:
  assumes "msg_inv E G C a p" "\<not> failed p" "(i, n, False) \<in> set (owners p)" "E \<longrightarrow> exu \<and> exg"
  shows "msg_inv E G C a (on_bus_acquired D T exu exg n (bus_there i p)) \<and>
     same_process p (on_bus_acquired D T exu exg n (bus_there i p)) \<and>
     msg_obj (on_bus_acquired D T exu exg n (bus_there i p)) = msg_obj p"
proof -
  from assms(1,2) have h: "bus_ok E (at_bus p)" "server_ok p" "G \<longrightarrow> sources_ok E p"
      "config_ok C \<and> accounts_kept C a (bus_world (at_bus p))"
    by (simp_all add: msg_inv_def)
  obtain s where s: "msg_server p = Some s"
    using h(2) assms(3) by (cases "msg_server p") (simp_all add: server_ok_def)
  note w = server_okD [OF h(2) s]
  from w(6) assms(3) have o: "owners p = [(name_owner_id s, n, False)]" "i = name_owner_id s" "name_owner_id s \<noteq> 0" "msg_id s = n"
    and z: "\<not> has_user_service s" "\<not> has_group_service s" by auto
  let ?us = "gumd_dbus_user_service_adapter_new_with_connection D True exu"
    and ?gs = "gumd_dbus_group_service_adapter_new_with_connection D True exg"
  note new = gumd_dbus_user_service_adapter_new_with_connection_def gumd_dbus_group_service_adapter_new_with_connection_def
  let ?q = "(bus_there i p)\<lparr>msg_server := Some (s\<lparr>has_user_service := exu, has_group_service := exg\<rparr>),
      at_bus := (at_bus p)\<lparr>users_at := or_null ?us, groups_at := or_null ?gs\<rparr>,
      user_watch := (if exu then Some n else user_watch p), group_watch := (if exg then Some n else group_watch p)\<rparr>"
  have q: "on_bus_acquired D T exu exg n (bus_there i p) = (if T = G_BUS_TYPE_SYSTEM then drop_privileges D ?q else ?q)"
    using s o by (simp add: on_bus_acquired_def with_server_def bus_there_def new or_null_alive(2) Let_def)
  have "bus_ok E (at_bus ?q)"
    using bus_services [OF h(1)] w(2,3) z by (simp add: new)
  moreover have "server_ok ?q"
    using w(1,4,5,7) o z by (auto simp: server_ok_def new or_null_alive(1) bus_there_def)
  moreover have "G \<longrightarrow> sources_ok E ?q"
    using h(3) o s assms(4) by (auto simp: sources_ok_def bus_there_def Let_def)
  ultimately have "msg_inv E G C a ?q \<and> same_process p ?q \<and> msg_obj ?q = msg_obj p"
    using h(4) assms(2) s by (simp add: msg_inv_def bus_there_def truncate_fields)
  then show ?thesis unfolding q using drop_privileges_fields(12) [of D ?q] by (cases T) (simp_all add: truncate_fields)
qed

lemma msg_event_keeps:
  assumes "msg_inv E G C a p" "\<not> failed p" "msg_event C T E p p'"
  shows "msg_inv E G C a p' \<and> (failed p' \<or> msg_obj p' = msg_obj p \<and> same_process p p' \<or>
     (\<exists>n. msg_obj p = Some n \<and> msg_obj p' = None \<and> same_process (notify_closed n p) p'))"
  using assms(3)
proof cases
  case (on_bus b)
  with msg_after_bus [OF assms(1,2), of b] show ?thesis by auto
next
  case (bus_acquired i n exu exg)
  with msg_bus_acquired [OF assms(1,2), of i n exu exg] show ?thesis by simp
next
  case (name_lost i n x)
  have "msg_obj p = Some n"
    using assms(1,2) name_lost(2) by (auto simp: msg_inv_def server_ok_def split: option.splits)
  with name_lost msg_unref [OF assms(1,2), of n] show ?thesis by (auto simp: on_name_lost_def)
next
  case (closing n)
  let ?p = "p\<lparr>close_sources := remove1 n (close_sources p)\<rparr>"
  have i: "msg_inv E False C a ?p"
    using assms(1,2) by (simp add: msg_inv_def server_fields_cong(1) [of ?p p])
  show ?thesis
  proof (cases "msg_obj p = Some n")
    case True
    with msg_unref [OF i, of n] assms(2) have v: "msg_inv E False C a p'" "msg_obj p' = None" "same_process (notify_closed n ?p) p'"
      by (simp_all add: close_server_def closing(1))
    then have u: "msg_inv E G C a p'" "msg_obj p' = None" "same_process (notify_closed n ?p) p'"
      by (simp_all add: msg_inv_def sources_ok_def)
    from u(3) have "same_process (notify_closed n p) p'"
      by (simp add: notify_closed_def on_server_closed_def truncate_fields split: if_splits)
    with u True show ?thesis by blast
  next
    case False
    then have "p' = msg_crash ?p"
      using closing(1) by (auto simp: close_server_def msg_bus_unref_def with_server_def split: option.split)
    with assms(1) show ?thesis by (simp add: msg_crash_def msg_inv_def)
  qed
qed

lemma msg_launch:
  assumes "msg_inv E G C a p" "\<not> failed p" "msg_obj p = None" "msg_calm G p" "gumd_dbus_server_msg_bus_new p = (n, p1)"
    and "msg_bus_start D T n (p1\<lparr>the_server := Some n\<rparr>) = (started, p2)"
  shows "msg_inv E G C a p2 \<and> msg_obj p2 = Some n \<and> msg_calm G p2 \<and> same_process (p\<lparr>the_server := Some n\<rparr>) p2"
proof -
  from msg_new [OF assms(1-5)] assms(2) have n: "msg_inv E G C a p1" "msg_obj p1 = Some n" "msg_calm G p1" "same_process p p1"
    "owners p1 = []" "\<not> failed p1" by (simp_all add: truncate_fields)
  then obtain s where "msg_server p1 = Some s" "msg_id s = n" by auto
  with msg_start [OF _ _ _ _ _ _ assms(6), of E G C a s] n show ?thesis by (simp add: msg_fields truncate_fields)
qed

text \<open>The process with a server on the message bus. With \<open>G\<close>, a reload does not meet a server that is about to close.\<close>

interpretation msg: bus_server "msg_bus_class C T" "msg_event C T E" "msg_calm G" msg_obj "msg_inv E G C a"
  for C T E G a
proof (unfold_locales, goal_cases)
  case (9 p n p1 started p2)
  then show ?case by (intro msg_launch) (simp_all add: msg_bus_class_def)
next
  case (10 p n)
  then show ?case using msg_unref [of E G C a p n] by (simp add: msg_bus_class_def msg_calm_def)
next
  case (11 p p')
  then show ?case by (rule msg_event_keeps)
qed (simp_all add: msg_fields)

section \<open>Runs\<close>

text \<open>A process begins with a server that has the name to be owned.\<close>

lemma msg_init:
  assumes "config_ok C" "db_wf C w" "acct_inv (accounts_of C w)"
  shows "msg_inv E G C (accounts_of C w) (msg_process_init w)"
proof -
  have "side_ok E (\<lambda>_. 0) null_service" by (simp add: side_ok_def null_service_def)
  then have "bus_ok E (at_bus (msg_process_init w))" by (simp add: msg_process_init_def bus_ok_def init_refs)
  with assms show ?thesis
    by (simp add: msg_inv_def server_ok_def sources_ok_def msg_process_init_def accounts_kept_def null_service_def)
qed

lemma msg_starts: "fst (start_server (msg_bus_class C T) n p)"
  by (simp add: msg_bus_class_def msg_bus_start_def Let_def)

lemma msg_main_start:
  assumes "config_ok C" "db_wf C w" "acct_inv (accounts_of C w)" "main_start (msg_bus_class C T) (msg_process_init w) = Some p"
  shows "msg.main_ok E G C (accounts_of C w) p \<and> \<not> failed p \<and> loop_running p \<and> the_server p \<noteq> None"
  by (rule msg.main_start_ok [OF msg_init [OF assms(1-3)] _ _ _ _ assms(4)])
    (simp_all add: msg_process_init_def msg_calm_def)

lemma msg_run:
  assumes "config_ok C" "db_wf C w" "acct_inv (accounts_of C w)" "main_start (msg_bus_class C T) (msg_process_init w) = Some p"
    and "main_steps (msg_bus_class C T) (msg_event C T E) (msg_calm G) p q"
  shows "msg_inv E G C (accounts_of C w) q \<and> (\<not> failed q \<longrightarrow> msg_obj q = the_server q \<and> close_watch q = the_server q) \<and>
     (\<not> failed q \<and> loop_running q \<longrightarrow> the_server q \<noteq> None)"
proof -
  note s = msg_main_start [OF assms(1-4), of E G]
  from s have k: "msg.main_ok E G C (accounts_of C w) p" "the_server p \<noteq> None" by simp_all
  from msg.steps_ok [OF assms(5) k(1)] have "msg.main_ok E G C (accounts_of C w) q" .
  moreover have "\<not> failed q \<and> loop_running q \<longrightarrow> the_server q \<noteq> None"
    using msg.served [OF assms(5) k msg_starts] by blast
  ultimately show ?thesis unfolding msg.main_ok_def by blast
qed

text \<open>With exports that succeed and reloads that spare a closing server nothing fails.\<close>

lemma msg_step_sound:
  assumes "main_step (msg_bus_class C T) (msg_event C T True) (msg_calm True) p q" "msg.main_ok True True C a p" "the_server p \<noteq> None"
  shows "\<not> failed q"
  using assms(1)
proof cases
  case server_event
  from assms(2) server_event(2) have i: "msg_inv True True C a p" "msg_obj p = the_server p" by (simp_all add: msg.main_ok_def)
  then obtain s where s: "msg_server p = Some s" using assms(3) by auto
  from server_event(3) show ?thesis
  proof cases
    case (on_bus b)
    from i(1) server_event(2) have "bus_ok True (at_bus p)" by (simp add: msg_inv_def)
    from bus_step_next [OF on_bus(2) this] have "\<not> bus_crashed b"
      by (auto simp: bus_next_def bus_ok_def side_ok_def bus_crashed_def)
    with msg_after_bus [OF i(1) server_event(2) on_bus(2)] on_bus(1) show ?thesis by simp
  next
    case (bus_acquired j n exu exg)
    with msg_bus_acquired [OF i(1) server_event(2) bus_acquired(2,3)] server_event(2) show ?thesis by (simp add: truncate_fields)
  next
    case (name_lost j n x)
    have "msg_obj p = Some n"
      using i(1) server_event(2) name_lost(2) by (auto simp: msg_inv_def server_ok_def split: option.splits)
    with msg_unref [OF i(1) server_event(2), of n] name_lost(1) server_event(2) show ?thesis
      by (simp add: on_name_lost_def notify_closed_def on_server_closed_def truncate_fields split: if_splits)
  next
    case (closing n)
    let ?p = "p\<lparr>close_sources := remove1 n (close_sources p)\<rparr>"
    have "msg_inv True False C a ?p"
      using i(1) server_event(2) by (simp add: msg_inv_def server_fields_cong(1) [of ?p p])
    moreover have "msg_obj p = Some n"
      using i(1) server_event(2) closing(2) s by (auto simp: msg_inv_def sources_ok_def Let_def)
    ultimately show ?thesis
      using msg_unref [of True False C a ?p n] closing(1) server_event(2)
      by (simp add: close_server_def notify_closed_def on_server_closed_def truncate_fields split: if_splits)
  qed
next
  case reload
  with msg.reload_ok [OF assms(2)] show ?thesis by simp
qed (simp add: handle_quit_signal_def)

lemma msg_sound_run:
  assumes "config_ok C" "db_wf C w" "acct_inv (accounts_of C w)" "main_start (msg_bus_class C T) (msg_process_init w) = Some p"
    and "main_steps (msg_bus_class C T) (msg_event C T True) (msg_calm True) p q"
  shows "\<not> failed q"
  using assms(5)
proof (induction rule: rtranclp_induct)
  case base
  from msg_main_start [OF assms(1-4)] show ?case by simp
next
  case (step q r)
  from msg_main_start [OF assms(1-4), of True True] have k: "msg.main_ok True True C (accounts_of C w) p" by simp
  have "loop_running q" using step(2) by cases
  with msg_run [OF assms(1-4) step(1)] step(3) have "the_server q \<noteq> None" by simp
  with msg_step_sound [OF step(2) msg.steps_ok [OF step(1) k]] show ?case .
qed

text \<open>The end of \<open>main\<close> gives up everything.\<close>

lemma msg_end:
  assumes "msg.main_ok E G C a q" "\<not> failed q" "e = main_end (msg_bus_class C T) q"
  shows "\<not> failed e \<and> the_server e = None \<and> msg_server e = None \<and> owners e = [] \<and> user_alive (at_bus e) = 0 \<and>
     group_alive (at_bus e) = 0 \<and> user_refs (bus_daemon (at_bus e)) = (\<lambda>_. 0) \<and> group_refs (bus_daemon (at_bus e)) = (\<lambda>_. 0)"
proof -
  from msg.main_end_ok [OF assms(1,2), of T] assms(3)
  have e: "msg_inv E G C a e" "msg_server e = None" "the_server e = None" "\<not> failed e" by simp_all
  then have o: "server_ok e" "bus_ok E (at_bus e)" by (simp_all add: msg_inv_def)
  from o(1) e(2) have z: "owners e = []" "user_alive (at_bus e) = 0" "group_alive (at_bus e) = 0" by (simp_all add: server_ok_def)
  from o(2) have s: "side_ok E (user_refs (bus_daemon (at_bus e))) (users_at (at_bus e))"
    "side_ok E (group_refs (bus_daemon (at_bus e))) (groups_at (at_bus e))" by (simp_all add: bus_ok_def)
  from gone_refs [OF s(1) z(2)] gone_refs [OF s(2) z(3)] e z show ?thesis by simp
qed

text \<open>A server without services has an idle source, and ends the process with it.\<close>

lemma msg_idle_ends:
  assumes "msg.main_ok True True C a q" "\<not> failed q" "the_server q \<noteq> None" "owners q \<noteq> []" "\<forall>e\<in>set (owners q). snd (snd e)"
    and "user_alive (at_bus q) = 0" "group_alive (at_bus q) = 0"
  shows "\<exists>n. close_sources q = [n] \<and> msg_event C T True q (close_server C n q) \<and> \<not> failed (close_server C n q) \<and>
     \<not> loop_running (close_server C n q) \<and> the_server (close_server C n q) = None"
proof -
  from assms(1,2) have i: "msg_inv True True C a q" "msg_obj q = the_server q" "close_watch q = the_server q"
    by (simp_all add: msg.main_ok_def)
  with assms(3) obtain s where s: "msg_server q = Some s" "the_server q = Some (msg_id s)" by auto
  from i(1) assms(2) have o: "server_ok q" "sources_ok True q" by (simp_all add: msg_inv_def)
  note w = server_okD [OF o(1) s(1)]
  have c: "close_sources q = [msg_id s]"
    using o(2) w(2,3) assms(4-7) s(1) by (auto simp: sources_ok_def Let_def)
  let ?p = "q\<lparr>close_sources := remove1 (msg_id s) (close_sources q)\<rparr>"
  have "msg_inv True False C a ?p"
    using i(1) assms(2) by (simp add: msg_inv_def server_fields_cong(1) [of ?p q])
  from msg_unref [OF this, of "msg_id s"] s assms(2) i(3)
  have "\<not> failed (close_server C (msg_id s) q) \<and> \<not> loop_running (close_server C (msg_id s) q) \<and> the_server (close_server C (msg_id s) q) = None"
    by (simp add: close_server_def notify_closed_def on_server_closed_def truncate_fields)
  with c msg_event.closing [of "msg_id s" q C T True] show ?thesis by simp
qed

text \<open>A reload takes the server that an idle source is for away from it.\<close>

lemma msg_unref_fields [simp]:
  "next_server (msg_bus_unref C n p) = next_server p" "close_sources (msg_bus_unref C n p) = close_sources p"
  by (simp_all add: msg_bus_unref_def with_server_def msg_bus_dispose_def stop_def msg_crash_def notify_closed_def
      on_server_closed_def Let_def split: option.split)

lemma msg_reload_fields:
  assumes "the_server p = Some n" "q = handle_reload_signal (msg_bus_class C T) p"
  shows "close_sources q = close_sources p" "msg_obj q = Some (next_server p)"
proof -
  let ?u = "msg_bus_unref C n (p\<lparr>close_watch := None\<rparr>)"
  obtain m p1 where m: "gumd_dbus_server_msg_bus_new ?u = (m, p1)" by (cases "gumd_dbus_server_msg_bus_new ?u")
  obtain b p2 where s: "msg_bus_start C T m (p1\<lparr>the_server := Some m\<rparr>) = (b, p2)"
    by (cases "msg_bus_start C T m (p1\<lparr>the_server := Some m\<rparr>)")
  from m have p1: "m = next_server p" "msg_obj p1 = Some m" "close_sources p1 = close_sources p"
    by (auto simp: gumd_dbus_server_msg_bus_new_def Let_def)
  then obtain x where x: "msg_server p1 = Some x" "msg_id x = m" by auto
  have b: "b" "msg_obj p2 = Some m" "close_sources p2 = close_sources p1"
    using s x by (auto simp: msg_bus_start_def with_server_def Let_def split: if_splits)
  have q: "q = p2\<lparr>close_watch := Some m\<rparr>"
    using m s b(1) assms by (simp add: handle_reload_signal_def start_dbus_server_def msg_bus_class_def)
  from b p1 show "close_sources q = close_sources p" "msg_obj q = Some (next_server p)" by (simp_all add: q)
qed

lemma msg_reload_fails:
  assumes "msg.main_ok E True C a p" "\<not> failed p" "loop_running p" "n \<in> set (close_sources p)" "the_server p \<noteq> None"
    and "q = handle_reload_signal (msg_bus_class C T) p"
  shows "\<not> failed q \<and> loop_running q \<and> msg_event C T E q (close_server C n q) \<and> failed (close_server C n q)"
proof -
  from assms(1,2) have i: "msg_inv E True C a p" "msg_obj p = the_server p" by (simp_all add: msg.main_ok_def)
  then obtain s where s: "msg_server p = Some s" "the_server p = Some (msg_id s)" using assms(5) by auto
  from i(1) assms(2) have o: "server_ok p" "sources_ok E p" by (simp_all add: msg_inv_def)
  from o(2) s(1) assms(4) have n: "n = msg_id s" by (auto simp: sources_ok_def Let_def)
  note f = msg_reload_fields [OF s(2) assms(6)]
  have "msg.main_ok E False C a p" using assms(1) by (auto simp: msg.main_ok_def msg_inv_def)
  from msg.reload_ok [OF this assms(2), of T] assms(3,6) have r: "\<not> failed q" "loop_running q" by (simp_all add: msg_calm_def)
  have "msg_id x \<noteq> n" if "msg_server q = Some x" for x using f(2) that server_okD(7) [OF o(1) s(1)] n by simp
  then have "failed (close_server C n q)"
    by (auto simp: close_server_def msg_bus_unref_def with_server_def msg_crash_def split: option.split)
  moreover have "msg_event C T E q (close_server C n q)"
    by (rule msg_event.closing) (use f(1) assms(4) in simp)
  ultimately show ?thesis using r by simp
qed

end
