(* ===== verification/Gumd_P2p.thy ===== *)
theory Gumd_P2p
  imports Gumd_Main
begin

text \<open>
  The server for peers that connect directly (\<^verbatim>\<open>gumd-dbus-server-p2p.c\<close>): every connection
  has a user and a group service of its own, entered in two tables under the connection. The
  services are known here by number only; what they do is in \<open>Gumd_Dbus\<close>.
\<close>

section \<open>Connections and services\<close>

datatype p2p_kind = User_service | Group_service

text \<open>
  A service that is alive: the connection it holds a reference to, and the server that its
  weak reference has as data. Its one reference is that of the table. \<open>p2p_tables\<close> are
  \<open>user_service_adapters\<close> and \<open>group_service_adapters\<close>; a service that could not be exported
  is NULL there.
\<close>

record p2p_service =
  svc_conn :: nat
  svc_kind :: p2p_kind
  svc_watch :: "nat option"

record p2p_server =
  p2p_id :: nat
  p2p_tables :: "p2p_kind \<Rightarrow> (nat \<times> nat option) list"
  bus_server :: bool
  bus_active :: bool
  address :: string

text \<open>
  The process with its connections, their references and the handlers for their \<open>closed\<close>
  signal with the server as data, which go with the connection. \<open>sockets\<close> are the socket
  files that are there.
\<close>

record p2p_process = process +
  p2p_server :: "p2p_server option"
  conn_refs :: "nat \<Rightarrow> nat"
  closed_handlers :: "(nat \<times> nat) list"
  p2p_services :: "(nat \<times> p2p_service) list"
  next_service :: nat
  next_p2p :: nat
  sockets :: "string list"
  p2p_world :: world

definition p2p_crash :: "p2p_process \<Rightarrow> p2p_process" where
  "p2p_crash p = p\<lparr>failed := True\<rparr>"

definition with_p2p :: "nat \<Rightarrow> (p2p_server \<Rightarrow> p2p_process) \<Rightarrow> p2p_process \<Rightarrow> p2p_process" where
  "with_p2p n f p =
     (case p2p_server p of
        Some s \<Rightarrow> if p2p_id s = n then f s else p2p_crash p
      | None \<Rightarrow> p2p_crash p)"

definition set_table :: "p2p_kind \<Rightarrow> ((nat \<times> nat option) list \<Rightarrow> (nat \<times> nat option) list) \<Rightarrow> p2p_server \<Rightarrow> p2p_server" where
  "set_table k f s = s\<lparr>p2p_tables := (p2p_tables s)(k := f (p2p_tables s k))\<rparr>"

definition conn_ref :: "nat \<Rightarrow> p2p_process \<Rightarrow> p2p_process" where
  "conn_ref c p = p\<lparr>conn_refs := (conn_refs p)(c := conn_refs p c + 1)\<rparr>"

definition conn_unref :: "nat \<Rightarrow> p2p_process \<Rightarrow> p2p_process" where
  "conn_unref c p =
     (let p' = p\<lparr>conn_refs := (conn_refs p)(c := conn_refs p c - 1)\<rparr>
      in if conn_refs p' c = 0 then p'\<lparr>closed_handlers := filter (\<lambda>h. fst h \<noteq> c) (closed_handlers p')\<rparr> else p')"

text \<open>Entries with a service that dies are taken out without giving it back.\<close>

definition on_service_dispose :: "p2p_kind \<Rightarrow> nat \<Rightarrow> nat \<Rightarrow> p2p_process \<Rightarrow> p2p_process" where
  "on_service_dispose k n dead p = with_p2p n (\<lambda>s.
     p\<lparr>p2p_server := Some (set_table k (filter (\<lambda>e. snd e \<noteq> Some dead)) s)\<rparr>) p"

text \<open>\<open>g_object_unref\<close> of a service: it gives up its connection and is gone.\<close>

definition p2p_service_unref :: "nat \<Rightarrow> p2p_process \<Rightarrow> p2p_process" where
  "p2p_service_unref i p =
     (case map_of (p2p_services p) i of
        None \<Rightarrow> p2p_crash p
      | Some v \<Rightarrow>
          (let p = conn_unref (svc_conn v) (p\<lparr>p2p_services := filter (\<lambda>e. fst e \<noteq> i) (p2p_services p)\<rparr>)
           in case svc_watch v of None \<Rightarrow> p | Some n \<Rightarrow> on_service_dispose (svc_kind v) n i p))"

definition unref_value :: "nat option \<Rightarrow> p2p_process \<Rightarrow> p2p_process" where
  "unref_value x p = (case x of None \<Rightarrow> p | Some i \<Rightarrow> p2p_service_unref i p)"

definition set_watch :: "nat option \<Rightarrow> nat option \<Rightarrow> p2p_process \<Rightarrow> p2p_process" where
  "set_watch x w p = p\<lparr>p2p_services := map (\<lambda>(j, v). (j, if x = Some j then v\<lparr>svc_watch := w\<rparr> else v)) (p2p_services p)\<rparr>"

text \<open>Handlers are disconnected through the connection.\<close>

definition clear_watchers :: "nat \<Rightarrow> nat \<times> nat option \<Rightarrow> p2p_process \<Rightarrow> p2p_process" where
  "clear_watchers n e p =
     (case e of (c, x) \<Rightarrow>
        if conn_refs p c = 0 then p2p_crash p
        else set_watch x None (p\<lparr>closed_handlers := filter (\<lambda>h. h \<noteq> (c, n)) (closed_handlers p)\<rparr>))"

definition add_watchers :: "p2p_kind \<Rightarrow> nat \<Rightarrow> nat option \<Rightarrow> nat \<Rightarrow> p2p_process \<Rightarrow> p2p_process" where
  "add_watchers k c x n p = with_p2p n (\<lambda>s.
     unref_value (case map_of (p2p_tables s k) c of None \<Rightarrow> None | Some old \<Rightarrow> old)
       ((set_watch x (Some n) (p\<lparr>closed_handlers := closed_handlers p @ [(c, n)]\<rparr>))
         \<lparr>p2p_server := Some (set_table k (\<lambda>t. (c, x) # filter (\<lambda>e. fst e \<noteq> c) t) s)\<rparr>)) p"

text \<open>A new service, NULL if its interface cannot be exported.\<close>

definition new_service :: "p2p_kind \<Rightarrow> nat \<Rightarrow> bool \<Rightarrow> p2p_process \<Rightarrow> nat option \<times> p2p_process" where
  "new_service k c ex p =
     (let p = conn_ref c p
      in if \<not> ex then (None, conn_unref c p)
         else (Some (next_service p), p\<lparr>p2p_services := p2p_services p @ [(next_service p, \<lparr>svc_conn = c, svc_kind = k, svc_watch = None\<rparr>)],
                                        next_service := next_service p + 1\<rparr>))"

definition start_user_service :: "nat \<Rightarrow> bool \<Rightarrow> bool \<Rightarrow> nat \<Rightarrow> p2p_process \<Rightarrow> p2p_process" where
  "start_user_service c exu exg n p =
     (let (x, p) = new_service User_service c exu p;
          p = add_watchers User_service c x n p;
          (y, p) = new_service Group_service c exg p
      in add_watchers Group_service c y n p)"

text \<open>The \<open>GDBusServer\<close> holds the connection while it is announced.\<close>

definition on_client_request :: "nat \<Rightarrow> bool \<Rightarrow> bool \<Rightarrow> nat \<Rightarrow> p2p_process \<Rightarrow> p2p_process" where
  "on_client_request c exu exg n p = conn_unref c (start_user_service c exu exg n (conn_ref c p))"

definition close_one :: "p2p_kind \<Rightarrow> nat \<Rightarrow> nat \<Rightarrow> p2p_process \<Rightarrow> p2p_process" where
  "close_one k c n p = with_p2p n (\<lambda>s.
     case map_of (p2p_tables s k) c of
       Some (Some i) \<Rightarrow>
         (let p = clear_watchers n (c, Some i) p
          in p2p_service_unref i (p\<lparr>p2p_server := Some (set_table k (filter (\<lambda>e. fst e \<noteq> c)) s)\<rparr>))
     | _ \<Rightarrow> p) p"

definition on_connection_closed :: "nat \<Rightarrow> nat \<Rightarrow> p2p_process \<Rightarrow> p2p_process" where
  "on_connection_closed c n p = close_one Group_service c n (close_one User_service c n p)"

text \<open>The signal, with the handlers that are still connected when it comes to them.\<close>

definition emit_closed :: "nat \<Rightarrow> p2p_process \<Rightarrow> p2p_process" where
  "emit_closed c p =
     conn_unref c (fold (\<lambda>h p. if h \<in> set (closed_handlers p) then on_connection_closed c (snd h) p else p)
       (filter (\<lambda>h. fst h = c) (closed_handlers p)) (conn_ref c p))"

section \<open>The server\<close>

definition clear_table :: "p2p_kind \<Rightarrow> nat \<Rightarrow> p2p_process \<Rightarrow> p2p_process" where
  "clear_table k n p = with_p2p n (\<lambda>s.
     let p = fold (clear_watchers n) (p2p_tables s k) p;
         p = fold (\<lambda>e. unref_value (snd e)) (p2p_tables s k) p
     in with_p2p n (\<lambda>s. p\<lparr>p2p_server := Some (set_table k (\<lambda>_. []) s)\<rparr>) p) p"

definition p2p_stop :: "nat \<Rightarrow> p2p_process \<Rightarrow> p2p_process" where
  "p2p_stop n p = with_p2p n (\<lambda>s. p\<lparr>p2p_server := Some (s\<lparr>bus_server := False, bus_active := False\<rparr>)\<rparr>) p"

definition unix_path :: "string \<Rightarrow> string option" where
  "unix_path a = (if take 10 a = ''unix:path='' then Some (drop 10 a) else None)"

definition p2p_finalize :: "nat \<Rightarrow> p2p_process \<Rightarrow> p2p_process" where
  "p2p_finalize n p = with_p2p n (\<lambda>s.
     (case unix_path (address s) of None \<Rightarrow> p | Some path \<Rightarrow> p\<lparr>sockets := removeAll path (sockets p)\<rparr>)\<lparr>p2p_server := None\<rparr>) p"

definition p2p_dispose :: "nat \<Rightarrow> p2p_process \<Rightarrow> p2p_process" where
  "p2p_dispose n p = notify_closed n (p2p_stop n (clear_table User_service n (clear_table Group_service n p)))"

definition p2p_unref :: "nat \<Rightarrow> p2p_process \<Rightarrow> p2p_process" where
  "p2p_unref n p = with_p2p n (\<lambda>_. p2p_finalize n (p2p_dispose n p)) p"

text \<open>A socket file that is in the way is removed.\<close>

definition p2p_new_with_address :: "string \<Rightarrow> p2p_process \<Rightarrow> nat \<times> p2p_process" where
  "p2p_new_with_address a p =
     (let n = next_p2p p;
          p = p\<lparr>p2p_server := Some \<lparr>p2p_id = n, p2p_tables = (\<lambda>_. []), bus_server = False, bus_active = False, address = a\<rparr>,
                next_p2p := n + 1\<rparr>
      in (n, case unix_path a of None \<Rightarrow> p | Some path \<Rightarrow> p\<lparr>sockets := removeAll path (sockets p)\<rparr>))"

definition GUM_DBUS_ADDRESS :: "string \<Rightarrow> string" where
  "GUM_DBUS_ADDRESS dir = ''unix:path='' @ dir @ ''/gumd/bus-sock''"

definition p2p_new :: "ctx \<Rightarrow> string \<Rightarrow> p2p_process \<Rightarrow> nat \<times> p2p_process" where
  "p2p_new C dir p =
     p2p_new_with_address (GUM_DBUS_ADDRESS dir) (p\<lparr>p2p_world := snd (run_state (gum_utils_drop_privileges C) (p2p_world p))\<rparr>)"

text \<open>\<open>listen\<close>: the server can be made at its address.\<close>

definition p2p_start :: "(nat \<Rightarrow> bool) \<Rightarrow> nat \<Rightarrow> p2p_process \<Rightarrow> bool \<times> p2p_process" where
  "p2p_start listen n p =
     (case p2p_server p of
        None \<Rightarrow> (False, p2p_crash p)
      | Some s \<Rightarrow>
          if p2p_id s \<noteq> n then (False, p2p_crash p)
          else if \<not> bus_server s \<and> \<not> listen n then (False, p)
          else (True, p\<lparr>p2p_server := Some (s\<lparr>bus_server := True, bus_active := True\<rparr>),
                        sockets := (case unix_path (address s) of None \<Rightarrow> sockets p
                                    | Some path \<Rightarrow> if bus_active s then sockets p else List.insert path (sockets p))\<rparr>))"

definition p2p_class :: "ctx \<Rightarrow> string \<Rightarrow> (nat \<Rightarrow> bool) \<Rightarrow> p2p_process server_class" where
  "p2p_class C dir listen = \<lparr>new_server = p2p_new C dir, start_server = p2p_start listen, unref_server = p2p_unref\<rparr>"

definition p2p_init :: "world \<Rightarrow> p2p_process" where
  "p2p_init w = \<lparr>the_server = None, close_watch = None, loop_running = False, failed = False, p2p_server = None,
     conn_refs = (\<lambda>_. 0), closed_handlers = [], p2p_services = [], next_service = 0, next_p2p = 0, sockets = [], p2p_world = w\<rparr>"

text \<open>
  The events: a peer connects to a server that listens, a connection that somebody holds is
  closed, and a service that is given up by another part of the program. With \<open>E\<close>, exports
  succeed.
\<close>

inductive p2p_event :: "bool \<Rightarrow> p2p_process \<Rightarrow> p2p_process \<Rightarrow> bool" for E where
  connects: "p2p_server p = Some s \<Longrightarrow> bus_active s \<Longrightarrow> conn_refs p c = 0 \<Longrightarrow> E \<longrightarrow> exu \<and> exg \<Longrightarrow>
    p2p_event E p (on_client_request c exu exg (p2p_id s) p)"
| closed: "0 < conn_refs p c \<Longrightarrow> p2p_event E p (emit_closed c p)"
| service_dies: "i \<in> fst ` set (p2p_services p) \<Longrightarrow> p2p_event E p (p2p_service_unref i p)"

section \<open>The tables match the services\<close>

text \<open>
  The references to a connection are those of its services, and others \<open>x\<close> while it is
  announced or closed. Only connections that are alive have handlers, all for the server \<open>n\<close>.
\<close>

definition held_by :: "nat \<Rightarrow> (nat \<times> p2p_service) list \<Rightarrow> nat" where
  "held_by c svcs = length (filter (\<lambda>e. svc_conn (snd e) = c) svcs)"

definition conns_ok :: "nat \<Rightarrow> (nat \<Rightarrow> nat) \<Rightarrow> p2p_process \<Rightarrow> bool" where
  "conns_ok n x p \<longleftrightarrow> distinct (map fst (p2p_services p)) \<and> (\<forall>e\<in>set (p2p_services p). fst e < next_service p) \<and>
     (\<forall>c. conn_refs p c = held_by c (p2p_services p) + x c) \<and>
     (\<forall>h\<in>set (closed_handlers p). snd h = n \<and> 0 < conn_refs p (fst h))"

text \<open>Every service is entered under its connection in the table of its kind, and nothing else is.\<close>

definition entered :: "nat \<Rightarrow> (p2p_kind \<Rightarrow> (nat \<times> nat option) list) \<Rightarrow> (nat \<times> p2p_service) list \<Rightarrow> bool" where
  "entered n tabs svcs \<longleftrightarrow>
     (\<forall>k. distinct (map fst (tabs k))) \<and>
     (\<forall>k c y. (c, y) \<in> set (tabs k) \<longleftrightarrow> (\<exists>i v. y = Some i \<and> (i, v) \<in> set svcs \<and> svc_conn v = c \<and> svc_kind v = k)) \<and>
     (\<forall>e\<in>set svcs. svc_watch (snd e) = Some n)"

definition p2p_ok :: "nat \<Rightarrow> (nat \<Rightarrow> nat) \<Rightarrow> p2p_process \<Rightarrow> bool" where
  "p2p_ok n x p \<longleftrightarrow> conns_ok n x p \<and>
     (case p2p_server p of None \<Rightarrow> False | Some s \<Rightarrow> p2p_id s = n \<and> entered n (p2p_tables s) (p2p_services p))"

lemma conns_ok_fields [simp]:
  "conns_ok n x (p\<lparr>p2p_server := s\<rparr>) = conns_ok n x p" "conns_ok n x (p\<lparr>the_server := m\<rparr>) = conns_ok n x p"
  "conns_ok n x (p\<lparr>close_watch := m\<rparr>) = conns_ok n x p" "conns_ok n x (p\<lparr>loop_running := l\<rparr>) = conns_ok n x p"
  "conns_ok n x (p\<lparr>sockets := ss\<rparr>) = conns_ok n x p"
  by (simp_all add: conns_ok_def)

lemma held_by_simps [simp]:
  "held_by c [] = 0" "held_by c (e # es) = (if svc_conn (snd e) = c then 1 else 0) + held_by c es"
  "held_by c (xs @ ys) = held_by c xs + held_by c ys"
  by (simp_all add: held_by_def)

lemma held_by_without:
  assumes "distinct (map fst svcs)" "(i, v) \<in> set svcs"
  shows "held_by c svcs = held_by c (filter (\<lambda>e. fst e \<noteq> i) svcs) + (if svc_conn v = c then 1 else 0)"
  using assms
proof (induction svcs)
  case (Cons e es)
  show ?case
  proof (cases "fst e = i")
    case True
    with Cons.prems have "e = (i, v)" "i \<notin> fst ` set es" by (auto simp: image_iff)
    then have "filter (\<lambda>e. fst e \<noteq> i) es = es" by (intro filter_True) auto
    with \<open>e = (i, v)\<close> show ?thesis by simp
  next
    case False
    with Cons show ?thesis by auto
  qed
qed simp

text \<open>One service goes.\<close>

lemma unref_conns:
  assumes "conns_ok n x p" "(i, v) \<in> set (p2p_services p)"
    and "q = conn_unref (svc_conn v) (p\<lparr>p2p_services := filter (\<lambda>e. fst e \<noteq> i) (p2p_services p)\<rparr>)"
  shows "conns_ok n x q \<and> p2p_services q = filter (\<lambda>e. fst e \<noteq> i) (p2p_services p) \<and> p2p_server q = p2p_server p \<and> same_process p q"
proof -
  from assms(1) have d: "distinct (map fst (p2p_services p))" "\<And>c. conn_refs p c = held_by c (p2p_services p) + x c"
    by (simp_all add: conns_ok_def)
  let ?c = "svc_conn v" and ?svcs = "filter (\<lambda>e. fst e \<noteq> i) (p2p_services p)"
  have r: "conn_refs p c - (if c = ?c then 1 else 0) = held_by c ?svcs + x c" for c
    using d(2) [of c] held_by_without [OF d(1) assms(2), of c] by simp
  have f: "p2p_services q = ?svcs" "p2p_server q = p2p_server p" "same_process p q" "next_service q = next_service p"
    "conn_refs q = (\<lambda>c. conn_refs p c - (if c = ?c then 1 else 0))"
    "closed_handlers q = (if conn_refs p ?c - 1 = 0 then filter (\<lambda>h. fst h \<noteq> ?c) (closed_handlers p) else closed_handlers p)"
    by (auto simp: assms(3) conn_unref_def Let_def truncate_fields fun_eq_iff)
  have "distinct (map fst ?svcs)" using d(1) by (simp add: distinct_map_filter)
  moreover have "snd h = n \<and> 0 < conn_refs q (fst h)" if "h \<in> set (closed_handlers q)" for h
    using that assms(1) unfolding f(5,6) by (auto simp: conns_ok_def split: if_splits)
  moreover have "conn_refs q c = held_by c ?svcs + x c" for c unfolding f(5) by (rule r)
  ultimately have "conns_ok n x q"
    using assms(1) unfolding conns_ok_def f(1,4) by auto
  with f show ?thesis by simp
qed

lemma entered_drop:
  assumes "entered n tabs svcs" "distinct (map fst svcs)" "(i, v) \<in> set svcs"
  shows "entered n (tabs(svc_kind v := filter (\<lambda>e. snd e \<noteq> Some i) (tabs (svc_kind v)))) (filter (\<lambda>e. fst e \<noteq> i) svcs)"
    "filter (\<lambda>e. fst e \<noteq> svc_conn v) (tabs (svc_kind v)) = filter (\<lambda>e. snd e \<noteq> Some i) (tabs (svc_kind v))"
proof -
  have e: "(c, y) \<in> set (tabs k) \<longleftrightarrow> (\<exists>i v. y = Some i \<and> (i, v) \<in> set svcs \<and> svc_conn v = c \<and> svc_kind v = k)" for k c y
    using assms(1) by (simp add: entered_def)
  have u: "w = v" if "(i, w) \<in> set svcs" for w
    using that assms(2,3) by (metis distinct_map inj_onD fst_conv prod.inject)
  have d: "distinct (map fst (tabs k))" for k using assms(1) by (simp add: entered_def)
  have m: "(svc_conn v, Some i) \<in> set (tabs (svc_kind v))" using e assms(3) by blast
  show "filter (\<lambda>e. fst e \<noteq> svc_conn v) (tabs (svc_kind v)) = filter (\<lambda>e. snd e \<noteq> Some i) (tabs (svc_kind v))"
  proof (rule filter_cong [OF refl])
    fix z assume z: "z \<in> set (tabs (svc_kind v))"
    have "fst z = svc_conn v \<Longrightarrow> snd z = Some i"
      using z m d [of "svc_kind v"] by (metis distinct_map inj_onD fst_conv snd_conv)
    moreover have "fst z = svc_conn v" if "snd z = Some i"
    proof -
      have "(fst z, Some i) \<in> set (tabs (svc_kind v))" using z that by (metis prod.collapse)
      then obtain w where "(i, w) \<in> set svcs" "svc_conn w = fst z" unfolding e by blast
      with u show ?thesis by metis
    qed
    ultimately show "(fst z \<noteq> svc_conn v) = (snd z \<noteq> Some i)" by blast
  qed
  let ?t = "tabs(svc_kind v := filter (\<lambda>e. snd e \<noteq> Some i) (tabs (svc_kind v)))"
  have 1: "(c, y) \<in> set (?t k) \<longleftrightarrow>
      (\<exists>j w. y = Some j \<and> (j, w) \<in> set (filter (\<lambda>e. fst e \<noteq> i) svcs) \<and> svc_conn w = c \<and> svc_kind w = k)" for k c y
  proof (cases "k = svc_kind v")
    case True
    then show ?thesis by (auto simp: e)
  next
    case False
    have "j \<noteq> i" if "(j, w) \<in> set svcs" "svc_kind w = k" for j w using that u False by blast
    with False show ?thesis by (auto simp: e)
  qed
  have 2: "distinct (map fst (?t k))" for k using d by (simp add: distinct_map_filter)
  have 3: "svc_watch (snd e) = Some n" if "e \<in> set (filter (\<lambda>e. fst e \<noteq> i) svcs)" for e
    using that assms(1) by (simp add: entered_def)
  from 1 2 3 show "entered n ?t (filter (\<lambda>e. fst e \<noteq> i) svcs)" unfolding entered_def by blast
qed

lemma service_map_of: "conns_ok n x p \<Longrightarrow> (i, v) \<in> set (p2p_services p) \<Longrightarrow> map_of (p2p_services p) i = Some v"
  by (simp add: conns_ok_def)

text \<open>A service that dies is taken out of its table.\<close>

lemma service_dies_ok:
  assumes "p2p_ok n x p" "(i, v) \<in> set (p2p_services p)"
  shows "p2p_ok n x (p2p_service_unref i p) \<and> same_process p (p2p_service_unref i p)"
proof -
  from assms(1) obtain s where s: "p2p_server p = Some s" "p2p_id s = n" "entered n (p2p_tables s) (p2p_services p)"
    and c: "conns_ok n x p" by (auto simp: p2p_ok_def split: option.splits)
  let ?q = "conn_unref (svc_conn v) (p\<lparr>p2p_services := filter (\<lambda>e. fst e \<noteq> i) (p2p_services p)\<rparr>)"
  let ?s = "set_table (svc_kind v) (filter (\<lambda>e. snd e \<noteq> Some i)) s"
  note q = unref_conns [OF c assms(2) refl]
  have "svc_watch v = Some n" using s(3) assms(2) by (force simp: entered_def)
  then have r: "p2p_service_unref i p = ?q\<lparr>p2p_server := Some ?s\<rparr>"
    using q s(1,2) service_map_of [OF c assms(2)]
    by (simp add: p2p_service_unref_def on_service_dispose_def with_p2p_def Let_def)
  have "conns_ok n x (?q\<lparr>p2p_server := Some ?s\<rparr>)" using q by simp
  moreover have "entered n (p2p_tables ?s) (filter (\<lambda>e. fst e \<noteq> i) (p2p_services p))"
    using entered_drop(1) [OF s(3) _ assms(2)] c by (simp add: set_table_def conns_ok_def)
  ultimately show ?thesis
    using q s(2) unfolding r by (simp add: p2p_ok_def truncate_fields set_table_def)
qed

text \<open>Watchers that are cleared.\<close>

definition unwatch :: "nat option set \<Rightarrow> nat \<times> p2p_service \<Rightarrow> nat \<times> p2p_service" where
  "unwatch X e = (fst e, if Some (fst e) \<in> X then (snd e)\<lparr>svc_watch := None\<rparr> else snd e)"

definition unwatched :: "nat \<Rightarrow> nat set \<Rightarrow> nat option set \<Rightarrow> p2p_process \<Rightarrow> p2p_process" where
  "unwatched n cs X p = p\<lparr>closed_handlers := filter (\<lambda>h. \<not> (snd h = n \<and> fst h \<in> cs)) (closed_handlers p),
     p2p_services := map (unwatch X) (p2p_services p)\<rparr>"

lemma unwatch_simps [simp]: "fst (unwatch X e) = fst e" "svc_conn (snd (unwatch X e)) = svc_conn (snd e)"
  "unwatch X (unwatch Y e) = unwatch (X \<union> Y) e" "Some (fst e) \<notin> X \<Longrightarrow> unwatch X e = e"
  by (simp_all add: unwatch_def)

lemma unwatch_rest [simp]:
  "map fst (map (unwatch X) svcs) = map fst svcs" "held_by c (map (unwatch X) svcs) = held_by c svcs"
  by (simp_all add: held_by_def filter_map comp_def)

lemma filter_unwatch: "filter (\<lambda>e. Some (fst e) \<notin> X) (map (unwatch X) svcs) = filter (\<lambda>e. Some (fst e) \<notin> X) svcs"
  by (induction svcs) auto

lemma unwatched_ok:
  assumes "conns_ok n x p"
  shows "conns_ok n x (unwatched n cs X p)"
proof -
  have "\<forall>e\<in>set (map (unwatch X) (p2p_services p)). fst e < next_service p" using assms by (auto simp: conns_ok_def)
  moreover have "\<forall>h\<in>set (closed_handlers (unwatched n cs X p)). snd h = n \<and> 0 < conn_refs p (fst h)"
  proof
    fix h assume "h \<in> set (closed_handlers (unwatched n cs X p))"
    then have "h \<in> set (closed_handlers p)" by (simp add: unwatched_def)
    with assms show "snd h = n \<and> 0 < conn_refs p (fst h)" unfolding conns_ok_def by blast
  qed
  moreover have "conn_refs (unwatched n cs X p) = conn_refs p" "next_service (unwatched n cs X p) = next_service p"
    "p2p_services (unwatched n cs X p) = map (unwatch X) (p2p_services p)" by (simp_all add: unwatched_def)
  moreover from assms have "distinct (map fst (map (unwatch X) (p2p_services p)))"
    "\<forall>c. conn_refs p c = held_by c (map (unwatch X) (p2p_services p)) + x c"
    by (simp_all add: conns_ok_def del: map_map)
  ultimately show ?thesis unfolding conns_ok_def by (simp only:) blast
qed

lemma clear_watchers_eq:
  assumes "0 < conn_refs p (fst e)"
  shows "clear_watchers n e p = unwatched n {fst e} {snd e} p"
proof -
  obtain c y where e: "e = (c, y)" by (cases e)
  have h: "filter (\<lambda>h. h \<noteq> (c, n)) hs = filter (\<lambda>h. snd h = n \<longrightarrow> fst h \<noteq> c) hs" for hs
    by (rule filter_cong) auto
  have s: "map (\<lambda>(j, v). (j, if y = Some j then v\<lparr>svc_watch := None\<rparr> else v)) xs = map (unwatch {y}) xs" for xs
    by (rule map_cong) (auto simp: unwatch_def)
  from assms show ?thesis by (simp add: e clear_watchers_def set_watch_def unwatched_def h s)
qed

lemma clear_fold:
  "(\<forall>e\<in>set es. 0 < conn_refs p (fst e)) \<Longrightarrow> fold (clear_watchers n) es p = unwatched n (fst ` set es) (snd ` set es) p"
proof (induction es arbitrary: p)
  case Nil
  have "map (unwatch {}) xs = xs" for xs by (induction xs) (simp_all add: unwatch_def)
  then show ?case by (simp add: unwatched_def)
next
  case (Cons e es)
  have h: "filter (\<lambda>h. \<not> (snd h = n \<and> fst h \<in> B)) (filter (\<lambda>h. \<not> (snd h = n \<and> fst h \<in> A)) hs) =
      filter (\<lambda>h. \<not> (snd h = n \<and> fst h \<in> A \<union> B)) hs" for A B hs
    unfolding filter_filter by (rule filter_cong) auto
  have "unwatched n B Y (unwatched n A X q) = unwatched n (A \<union> B) (Y \<union> X) q" for A B X Y q
    unfolding unwatched_def by (simp add: h [simplified] comp_def)
  moreover have "\<forall>e\<in>set es. 0 < conn_refs (unwatched n A X p) (fst e)" for A X using Cons.prems by (simp add: unwatched_def)
  ultimately show ?case using Cons by (simp add: clear_watchers_eq)
qed

text \<open>Services without watchers that are given up.\<close>

lemma unref_unwatched:
  assumes "conns_ok n x p" "(i, v) \<in> set (p2p_services p)" "svc_watch v = None"
  shows "conns_ok n x (p2p_service_unref i p) \<and> p2p_services (p2p_service_unref i p) = filter (\<lambda>e. fst e \<noteq> i) (p2p_services p) \<and>
     p2p_server (p2p_service_unref i p) = p2p_server p \<and> same_process p (p2p_service_unref i p)"
  using unref_conns [OF assms(1,2) refl] service_map_of [OF assms(1,2)] assms(3)
  by (simp add: p2p_service_unref_def Let_def)

lemma unref_fold:
  assumes "conns_ok n x p" "distinct (map snd es)" "\<forall>e\<in>set es. \<exists>i v. snd e = Some i \<and> (i, v) \<in> set (p2p_services p) \<and> svc_watch v = None"
    and "q = fold (\<lambda>e. unref_value (snd e)) es p"
  shows "conns_ok n x q \<and> p2p_services q = filter (\<lambda>e. Some (fst e) \<notin> snd ` set es) (p2p_services p) \<and>
     p2p_server q = p2p_server p \<and> same_process p q"
  using assms
proof (induction es arbitrary: p)
  case (Cons e es)
  from Cons.prems(3) obtain i v where i: "snd e = Some i" "(i, v) \<in> set (p2p_services p)" "svc_watch v = None" by auto
  let ?p = "p2p_service_unref i p"
  note u = unref_unwatched [OF Cons.prems(1) i(2,3)]
  have "\<exists>j w. snd z = Some j \<and> (j, w) \<in> set (p2p_services ?p) \<and> svc_watch w = None" if z: "z \<in> set es" for z
  proof -
    have "snd z \<noteq> snd e" using Cons.prems(2) z by (auto simp: image_iff)
    with Cons.prems(3) z i(1) u show ?thesis by fastforce
  qed
  with Cons.IH [of ?p] Cons.prems(2,4) u i(1) show ?case
    by (auto simp: unref_value_def truncate_fields intro!: filter_cong)
qed simp

text \<open>A table that is given up, with its services.\<close>

lemma entered_iff:
  assumes "entered n tabs svcs"
  shows "(c, y) \<in> set (tabs k) \<longleftrightarrow> (\<exists>i v. y = Some i \<and> (i, v) \<in> set svcs \<and> svc_conn v = c \<and> svc_kind v = k)"
    "distinct (map fst (tabs k))" "e \<in> set svcs \<Longrightarrow> svc_watch (snd e) = Some n"
  using assms by (simp_all add: entered_def)

lemma entered_values:
  assumes "entered n tabs svcs" "distinct (map fst svcs)"
  shows "Some i \<in> snd ` set (tabs k) \<longleftrightarrow> (\<exists>v. (i, v) \<in> set svcs \<and> svc_kind v = k)" "distinct (map snd (tabs k))"
proof -
  note e = entered_iff [OF assms(1)]
  show "Some i \<in> snd ` set (tabs k) \<longleftrightarrow> (\<exists>v. (i, v) \<in> set svcs \<and> svc_kind v = k)"
    using e(1) [of _ "Some i" k] by (force simp: image_iff)
  have "a = b" if "a \<in> set (tabs k)" "b \<in> set (tabs k)" "snd a = snd b" for a b
  proof -
    from that(1) e(1) [of "fst a" "snd a" k] obtain i v where a: "snd a = Some i" "(i, v) \<in> set svcs" "svc_conn v = fst a" by auto
    from that(2) e(1) [of "fst b" "snd b" k] obtain j w where b: "snd b = Some j" "(j, w) \<in> set svcs" "svc_conn w = fst b" by auto
    from a b that(3) have "v = w" using assms(2) by (metis distinct_map inj_onD fst_conv option.inject prod.inject)
    with a b that(3) show ?thesis by (simp add: prod_eq_iff)
  qed
  then have "inj_on snd (set (tabs k))" by (auto intro: inj_onI)
  with e(2) [of k] show "distinct (map snd (tabs k))" by (simp add: distinct_map)
qed

lemma clear_table_ok:
  assumes "p2p_ok n x p"
  shows "p2p_ok n x (clear_table k n p) \<and> same_process p (clear_table k n p) \<and>
     p2p_services (clear_table k n p) = filter (\<lambda>e. svc_kind (snd e) \<noteq> k) (p2p_services p)"
proof -
  from assms obtain s where s: "p2p_server p = Some s" "p2p_id s = n" "entered n (p2p_tables s) (p2p_services p)"
    and c: "conns_ok n x p" by (auto simp: p2p_ok_def split: option.splits)
  from c have d: "distinct (map fst (p2p_services p))" by (simp add: conns_ok_def)
  note e = entered_iff [OF s(3)]
  note v = entered_values [OF s(3) d]
  let ?t = "p2p_tables s k"
  let ?X = "snd ` set ?t"
  let ?p = "unwatched n (fst ` set ?t) ?X p"
  let ?q = "fold (\<lambda>e. unref_value (snd e)) ?t ?p"
  have "0 < conn_refs p (fst z)" if z: "z \<in> set ?t" for z
  proof -
    from z e(1) [of "fst z" "snd z" k] obtain i v where i: "(i, v) \<in> set (p2p_services p)" "svc_conn v = fst z" by auto
    with held_by_without [OF d i(1), of "fst z"] c show ?thesis by (simp add: conns_ok_def)
  qed
  then have f: "fold (clear_watchers n) ?t p = ?p" by (simp add: clear_fold)
  have "\<exists>i v. snd z = Some i \<and> (i, v) \<in> set (p2p_services ?p) \<and> svc_watch v = None" if z: "z \<in> set ?t" for z
  proof -
    from z e(1) [of "fst z" "snd z" k] obtain i v where i: "(i, v) \<in> set (p2p_services p)" "snd z = Some i" by auto
    with z have "Some i \<in> ?X" by force
    then have "unwatch ?X (i, v) = (i, v\<lparr>svc_watch := None\<rparr>)" by (simp add: unwatch_def)
    with i(1) have "(i, v\<lparr>svc_watch := None\<rparr>) \<in> set (p2p_services ?p)" unfolding unwatched_def by force
    with i(2) show ?thesis by fastforce
  qed
  then have q: "conns_ok n x ?q \<and> p2p_services ?q = filter (\<lambda>e. Some (fst e) \<notin> ?X) (p2p_services ?p) \<and>
     p2p_server ?q = p2p_server ?p \<and> same_process ?p ?q"
    using unref_fold [OF unwatched_ok [OF c] v(2) _ refl] by blast
  have "filter (\<lambda>e. Some (fst e) \<notin> ?X) (p2p_services p) = filter (\<lambda>e. svc_kind (snd e) \<noteq> k) (p2p_services p)"
  proof (rule filter_cong [OF refl])
    fix z assume z: "z \<in> set (p2p_services p)"
    have "(\<exists>v. (fst z, v) \<in> set (p2p_services p) \<and> svc_kind v = k) \<longleftrightarrow> svc_kind (snd z) = k"
      using z d by (metis distinct_map inj_onD fst_conv prod.collapse snd_conv)
    then show "(Some (fst z) \<notin> ?X) = (svc_kind (snd z) \<noteq> k)" unfolding v(1) by blast
  qed
  with q have svcs: "p2p_services ?q = filter (\<lambda>e. svc_kind (snd e) \<noteq> k) (p2p_services p)"
    by (simp add: unwatched_def filter_unwatch)
  let ?s = "set_table k (\<lambda>_. []) s"
  have r: "clear_table k n p = ?q\<lparr>p2p_server := Some ?s\<rparr>"
    using s q by (simp add: clear_table_def with_p2p_def f Let_def unwatched_def)
  have "entered n (p2p_tables ?s) (p2p_services ?q)"
    unfolding entered_def svcs set_table_def using e by auto
  with q svcs s(2) show ?thesis
    unfolding r by (simp add: p2p_ok_def truncate_fields set_table_def unwatched_def)
qed

section \<open>Events keep the tables\<close>

lemma p2p_okE:
  assumes "p2p_ok n x p"
  obtains s where "p2p_server p = Some s" "p2p_id s = n" "entered n (p2p_tables s) (p2p_services p)" "conns_ok n x p"
    "distinct (map fst (p2p_services p))"
  using assms by (auto simp: p2p_ok_def conns_ok_def split: option.splits)

lemma p2p_okI:
  "p2p_server p = Some s \<Longrightarrow> p2p_id s = n \<Longrightarrow> entered n (p2p_tables s) (p2p_services p) \<Longrightarrow> conns_ok n x p \<Longrightarrow> p2p_ok n x p"
  by (simp add: p2p_ok_def)

lemma close_one_ok:
  assumes "p2p_ok n x p"
  shows "p2p_ok n x (close_one k c n p) \<and> same_process p (close_one k c n p)"
proof -
  from assms obtain s where s: "p2p_server p = Some s" "p2p_id s = n" "entered n (p2p_tables s) (p2p_services p)" "conns_ok n x p"
    and d: "distinct (map fst (p2p_services p))" by (rule p2p_okE)
  note e = entered_iff [OF s(3)]
  show ?thesis
  proof (cases "map_of (p2p_tables s k) c")
    case None
    with s(1,2) assms show ?thesis by (simp add: close_one_def with_p2p_def)
  next
    case (Some y)
    from map_of_SomeD [OF Some] e(1) [of c y k] obtain i v
      where i: "y = Some i" "(i, v) \<in> set (p2p_services p)" "svc_conn v = c" "svc_kind v = k" by auto
    have "0 < conn_refs p c" using held_by_without [OF d i(2), of c] s(4) i(3) by (simp add: conns_ok_def)
    then have w: "clear_watchers n (c, Some i) p = unwatched n {c} {Some i} p" by (simp add: clear_watchers_eq)
    let ?s = "set_table k (filter (\<lambda>e. fst e \<noteq> c)) s"
    let ?p = "(unwatched n {c} {Some i} p)\<lparr>p2p_server := Some ?s\<rparr>"
    have "unwatch {Some i} (i, v) = (i, v\<lparr>svc_watch := None\<rparr>)" by (simp add: unwatch_def)
    with i(2) have m: "(i, v\<lparr>svc_watch := None\<rparr>) \<in> set (p2p_services ?p)" unfolding unwatched_def by force
    have c: "conns_ok n x ?p" using unwatched_ok [OF s(4)] by simp
    have "filter (\<lambda>e. fst e \<noteq> i) (map (unwatch {Some i}) xs) = filter (\<lambda>e. fst e \<noteq> i) xs" for xs
      using filter_unwatch [of "{Some i}" xs] by simp
    with unref_unwatched [OF c m] have u: "conns_ok n x (p2p_service_unref i ?p)"
      "p2p_services (p2p_service_unref i ?p) = filter (\<lambda>e. fst e \<noteq> i) (p2p_services p)"
      "p2p_server (p2p_service_unref i ?p) = Some ?s" "same_process p (p2p_service_unref i ?p)"
      by (simp_all add: unwatched_def truncate_fields)
    have "entered n (p2p_tables ?s) (filter (\<lambda>e. fst e \<noteq> i) (p2p_services p))"
      using entered_drop [OF s(3) d i(2)] i(3,4) by (simp add: set_table_def)
    with u s(2) have "p2p_ok n x (p2p_service_unref i ?p)" by (simp add: p2p_ok_def set_table_def)
    moreover have "close_one k c n p = p2p_service_unref i ?p"
      using s(1,2) Some i(1) by (simp add: close_one_def with_p2p_def w Let_def)
    ultimately show ?thesis using u(4) by simp
  qed
qed

lemma conn_ref_ok: "p2p_ok n x p \<Longrightarrow> p2p_ok n (x(c := x c + 1)) (conn_ref c p)"
proof -
  assume "p2p_ok n x p"
  then obtain s where s: "p2p_server p = Some s" "p2p_id s = n" "entered n (p2p_tables s) (p2p_services p)" "conns_ok n x p"
    by (rule p2p_okE)
  from s(4) have "conns_ok n (x(c := x c + 1)) (conn_ref c p)" by (auto simp: conns_ok_def conn_ref_def)
  with s show ?thesis by (simp add: p2p_ok_def conn_ref_def)
qed

lemma conn_unref_ok:
  assumes "p2p_ok n x p" "0 < x c"
  shows "p2p_ok n (x(c := x c - 1)) (conn_unref c p) \<and> same_process p (conn_unref c p)"
proof -
  from assms(1) obtain s where s: "p2p_server p = Some s" "p2p_id s = n" "entered n (p2p_tables s) (p2p_services p)" "conns_ok n x p"
    by (rule p2p_okE)
  have f: "p2p_services (conn_unref c p) = p2p_services p" "p2p_server (conn_unref c p) = Some s" "same_process p (conn_unref c p)"
    "next_service (conn_unref c p) = next_service p" "conn_refs (conn_unref c p) = (conn_refs p)(c := conn_refs p c - 1)"
    "closed_handlers (conn_unref c p) = (if conn_refs p c - 1 = 0 then filter (\<lambda>h. fst h \<noteq> c) (closed_handlers p) else closed_handlers p)"
    by (simp_all add: conn_unref_def Let_def truncate_fields s(1))
  have r: "conn_refs (conn_unref c p) a = held_by a (p2p_services p) + (x(c := x c - 1)) a" for a
    using s(4) assms(2) by (simp add: f(5) conns_ok_def)
  have h: "snd h = n \<and> 0 < conn_refs (conn_unref c p) (fst h)" if "h \<in> set (closed_handlers (conn_unref c p))" for h
    using that s(4) unfolding f(5,6) by (auto simp: conns_ok_def split: if_splits)
  have "conns_ok n (x(c := x c - 1)) (conn_unref c p)"
    using s(4) r h unfolding conns_ok_def f(1,4) by blast
  with f s show ?thesis by (simp add: p2p_ok_def)
qed

lemma on_connection_closed_ok:
  assumes "p2p_ok n x p"
  shows "p2p_ok n x (on_connection_closed c n p) \<and> same_process p (on_connection_closed c n p)"
  using close_one_ok [OF assms, of User_service c] close_one_ok [of n x "close_one User_service c n p" Group_service c]
  by (simp add: on_connection_closed_def)

lemma closed_fold_ok:
  assumes "p2p_ok n x p" "q = fold (\<lambda>h p. if h \<in> set (closed_handlers p) then on_connection_closed c (snd h) p else p) hs p"
  shows "p2p_ok n x q \<and> same_process p q"
  using assms
proof (induction hs arbitrary: p)
  case (Cons h hs)
  have "snd h = n" if "h \<in> set (closed_handlers p)" using that Cons.prems(1) by (auto simp: p2p_ok_def conns_ok_def)
  with Cons on_connection_closed_ok [OF Cons.prems(1), of c] show ?case by (simp split: if_splits)
qed simp

lemma emit_closed_ok:
  assumes "p2p_ok n (\<lambda>_. 0) p"
  shows "p2p_ok n (\<lambda>_. 0) (emit_closed c p) \<and> same_process p (emit_closed c p)"
proof -
  obtain x :: "nat \<Rightarrow> nat" where x: "x = (\<lambda>_. 0)(c := 1)" by simp
  have "p2p_ok n x (conn_ref c p)" using conn_ref_ok [OF assms, of c] by (simp add: x)
  note f = closed_fold_ok [OF this refl, of c "filter (\<lambda>h. fst h = c) (closed_handlers p)"]
  have z: "x(c := x c - 1) = (\<lambda>_. 0)" "0 < x c" "same_process p (conn_ref c p)"
    by (simp_all add: x conn_ref_def truncate_fields fun_eq_iff)
  from f conn_unref_ok [of n x _ c] z show ?thesis by (simp add: emit_closed_def)
qed

text \<open>A new connection.\<close>

lemma add_service_ok:
  assumes "p2p_ok n x p" "\<forall>e\<in>set (p2p_services p). \<not> (svc_conn (snd e) = c \<and> svc_kind (snd e) = k)"
    and "new_service k c True p = (y, p1)" "q = add_watchers k c y n p1"
  shows "p2p_ok n x q \<and> same_process p q \<and>
     p2p_services q = p2p_services p @ [(next_service p, \<lparr>svc_conn = c, svc_kind = k, svc_watch = Some n\<rparr>)]"
proof -
  from assms(1) obtain s where s: "p2p_server p = Some s" "p2p_id s = n" "entered n (p2p_tables s) (p2p_services p)" "conns_ok n x p"
    and d: "distinct (map fst (p2p_services p))" by (rule p2p_okE)
  note e = entered_iff [OF s(3)]
  let ?i = "next_service p" and ?v = "\<lparr>svc_conn = c, svc_kind = k, svc_watch = Some n\<rparr>"
  have none: "(c, z) \<notin> set (p2p_tables s k)" for z using e(1) [of c z k] assms(2) by force
  then have t: "map_of (p2p_tables s k) c = None" "filter (\<lambda>e. fst e \<noteq> c) (p2p_tables s k) = p2p_tables s k"
    by (auto simp: map_of_eq_None_iff intro!: filter_True)
  have fresh: "\<forall>e\<in>set (p2p_services p). fst e < ?i" using s(4) by (simp add: conns_ok_def)
  then have m: "map (\<lambda>(j, v). (j, if j = ?i then v\<lparr>svc_watch := Some n\<rparr> else v)) (p2p_services p) = p2p_services p"
    by (intro map_idI) auto
  let ?s = "s\<lparr>p2p_tables := (p2p_tables s)(k := (c, Some ?i) # p2p_tables s k)\<rparr>"
  have q: "q = p\<lparr>conn_refs := (conn_refs p)(c := conn_refs p c + 1), closed_handlers := closed_handlers p @ [(c, n)],
      p2p_services := p2p_services p @ [(?i, ?v)], next_service := ?i + 1, p2p_server := Some ?s\<rparr>"
    using assms(3,4) s(1,2) t m
    by (auto simp: new_service_def conn_ref_def add_watchers_def with_p2p_def set_watch_def unref_value_def set_table_def Let_def
        eq_commute [of "next_service p"])
  have "conns_ok n x q"
    using s(4) fresh unfolding q by (auto simp: conns_ok_def)
  moreover have "entered n (p2p_tables ?s) (p2p_services p @ [(?i, ?v)])"
  proof -
    obtain w where w: "w = ?v" "svc_conn w = c" "svc_kind w = k" "svc_watch w = Some n" by (rule that [OF refl]) simp_all
    have "(a, y) \<in> set (p2p_tables ?s l) \<longleftrightarrow>
        (\<exists>i v. y = Some i \<and> (i, v) \<in> set (p2p_services p @ [(?i, w)]) \<and> svc_conn v = a \<and> svc_kind v = l)" for l a y
      using e(1) [of a y l] w(2,3) by (cases "l = k") auto
    moreover have "distinct (map fst (p2p_tables ?s l))" for l using e(2) none by (auto simp: image_iff)
    moreover have "\<forall>z\<in>set (p2p_services p @ [(?i, w)]). svc_watch (snd z) = Some n" using e(3) w(4) by simp
    ultimately show ?thesis unfolding entered_def w(1) by blast
  qed
  ultimately show ?thesis using s(2) unfolding q by (simp add: p2p_ok_def truncate_fields)
qed

lemma on_client_request_ok:
  assumes "p2p_ok n (\<lambda>_. 0) p" "conn_refs p c = 0"
  shows "p2p_ok n (\<lambda>_. 0) (on_client_request c True True n p) \<and> same_process p (on_client_request c True True n p)"
proof -
  obtain x :: "nat \<Rightarrow> nat" where x: "x = (\<lambda>_. 0)(c := 1)" by simp
  have r: "p2p_ok n x (conn_ref c p)" using conn_ref_ok [OF assms(1), of c] by (simp add: x)
  have none: "\<forall>e\<in>set (p2p_services p). svc_conn (snd e) \<noteq> c"
    using assms by (auto simp: p2p_ok_def conns_ok_def held_by_def filter_empty_conv)
  obtain y p1 where y: "new_service User_service c True (conn_ref c p) = (y, p1)" by (cases "new_service User_service c True (conn_ref c p)")
  note u = add_service_ok [OF r _ y refl]
  have n1: "\<forall>e\<in>set (p2p_services (conn_ref c p)). \<not> (svc_conn (snd e) = c \<and> svc_kind (snd e) = k)" for k
    using none by (simp add: conn_ref_def)
  from u [OF n1] have 1: "p2p_ok n x (add_watchers User_service c y n p1)" "same_process (conn_ref c p) (add_watchers User_service c y n p1)"
    "\<forall>e\<in>set (p2p_services (add_watchers User_service c y n p1)). \<not> (svc_conn (snd e) = c \<and> svc_kind (snd e) = Group_service)"
    using none by (auto simp: conn_ref_def)
  obtain z p2 where z: "new_service Group_service c True (add_watchers User_service c y n p1) = (z, p2)"
    by (cases "new_service Group_service c True (add_watchers User_service c y n p1)")
  note g = add_service_ok [OF 1(1,3) z refl]
  have e: "on_client_request c True True n p = conn_unref c (add_watchers Group_service c z n p2)"
    by (simp add: on_client_request_def start_user_service_def y z)
  have "x(c := x c - 1) = (\<lambda>_. 0)" "0 < x c" "same_process p (conn_ref c p)"
    by (simp_all add: x conn_ref_def truncate_fields fun_eq_iff)
  with conn_unref_ok [of n x "add_watchers Group_service c z n p2" c] g 1(2) show ?thesis unfolding e by simp
qed

section \<open>What the server promises\<close>

definition p2p_inv :: "p2p_process \<Rightarrow> bool" where
  "p2p_inv p \<longleftrightarrow> failed p \<or>
     (case p2p_server p of
        None \<Rightarrow> p2p_services p = [] \<and> closed_handlers p = [] \<and> conn_refs p = (\<lambda>_. 0)
      | Some s \<Rightarrow> p2p_ok (p2p_id s) (\<lambda>_. 0) p)"

abbreviation p2p_obj :: "p2p_process \<Rightarrow> nat option" where "p2p_obj p \<equiv> map_option p2p_id (p2p_server p)"

lemma p2p_unref_ok:
  assumes "p2p_ok n (\<lambda>_. 0) p" "q = p2p_unref n p"
  shows "p2p_server q = None \<and> p2p_services q = [] \<and> closed_handlers q = [] \<and> conn_refs q = (\<lambda>_. 0) \<and>
     same_process (notify_closed n p) q"
proof -
  let ?g = "clear_table Group_service n p"
  let ?u = "clear_table User_service n ?g"
  note g = clear_table_ok [OF assms(1), of Group_service]
  then have u: "p2p_ok n (\<lambda>_. 0) ?u" "same_process p ?u" and svcs: "p2p_services ?u = []"
    using clear_table_ok [of n "\<lambda>_. 0" ?g User_service] by (auto simp: filter_empty_conv) (metis p2p_kind.exhaust)
  from u(1) obtain s where s: "p2p_server ?u = Some s" "p2p_id s = n" "conns_ok n (\<lambda>_. 0) ?u" by (rule p2p_okE)
  from s(3) svcs have z: "conn_refs ?u = (\<lambda>_. 0)" by (simp add: conns_ok_def fun_eq_iff)
  with s(3) have h: "closed_handlers ?u = []" by (cases "closed_handlers ?u") (auto simp: conns_ok_def)
  obtain s' where s': "p2p_server p = Some s'" "p2p_id s' = n" using assms(1) by (rule p2p_okE)
  have n: "notify_closed n y = (if close_watch y = Some n then y\<lparr>close_watch := None, the_server := None, loop_running := False\<rparr> else y)"
    for y :: p2p_process by (simp add: notify_closed_def on_server_closed_def)
  show ?thesis
    using u(2) s(1,2) s' svcs z h unfolding assms(2)
    by (simp add: p2p_unref_def p2p_finalize_def p2p_dispose_def p2p_stop_def with_p2p_def n truncate_fields split: option.split)
qed

lemma p2p_launch:
  assumes "p2p_inv p" "\<not> failed p" "p2p_server p = None" "p2p_new C dir p = (n, p1)"
    and "p2p_start listen n (p1\<lparr>the_server := Some n\<rparr>) = (started, p2)"
  shows "p2p_inv p2 \<and> p2p_obj p2 = Some n \<and> same_process (p\<lparr>the_server := Some n\<rparr>) p2"
proof -
  have z: "p2p_services p = []" "closed_handlers p = []" "conn_refs p = (\<lambda>_. 0)"
    using assms(1-3) by (simp_all add: p2p_inv_def)
  from assms(4,5) obtain s where s: "p2p_server p2 = Some s" "p2p_id s = n" "p2p_tables s = (\<lambda>_. [])"
    and f: "p2p_services p2 = []" "closed_handlers p2 = []" "conn_refs p2 = (\<lambda>_. 0)" "same_process (p\<lparr>the_server := Some n\<rparr>) p2"
    by (auto simp: p2p_new_def p2p_new_with_address_def p2p_start_def Let_def truncate_fields z split: if_splits option.splits)
  then show ?thesis by (simp add: p2p_inv_def p2p_ok_def conns_ok_def entered_def)
qed

lemma p2p_event_keeps:
  assumes "p2p_inv p" "\<not> failed p" "p2p_event True p p'"
  shows "p2p_inv p' \<and> p2p_obj p' = p2p_obj p \<and> same_process p p'"
proof -
  have server: "p2p_obj q = Some n" if "p2p_ok n x q" for n x q using that by (auto simp: p2p_ok_def split: option.splits)
  have keeps: "p2p_inv q \<and> p2p_obj q = Some n" if "p2p_ok n (\<lambda>_. 0) q" for n q
    using that server [OF that] by (auto simp: p2p_inv_def)
  show ?thesis
    using assms(3)
  proof cases
    case (connects s c exu exg)
    then have "p2p_ok (p2p_id s) (\<lambda>_. 0) p" using assms(1,2) by (simp add: p2p_inv_def)
    note r = on_client_request_ok [OF this connects(4)]
    from r keeps [OF conjunct1 [OF r]] connects show ?thesis by simp
  next
    case (closed c)
    then obtain s where s: "p2p_server p = Some s" "p2p_ok (p2p_id s) (\<lambda>_. 0) p"
      using assms(1,2) by (auto simp: p2p_inv_def split: option.splits)
    note r = emit_closed_ok [OF s(2), of c]
    from r keeps [OF conjunct1 [OF r]] closed(1) s(1) show ?thesis by simp
  next
    case (service_dies i)
    then obtain s where s: "p2p_server p = Some s" "p2p_ok (p2p_id s) (\<lambda>_. 0) p"
      using assms(1,2) by (auto simp: p2p_inv_def split: option.splits)
    from service_dies(2) obtain v where "(i, v) \<in> set (p2p_services p)" by auto
    note r = service_dies_ok [OF s(2) this]
    from r keeps [OF conjunct1 [OF r]] service_dies(1) s(1) show ?thesis by simp
  qed
qed

interpretation p2p: bus_server "p2p_class C dir listen" "p2p_event True" "\<lambda>_. True" p2p_obj p2p_inv for C dir listen
proof
  fix p p1 p2 :: p2p_process and n started
  assume "p2p_inv p" "\<not> failed p" "p2p_obj p = None" "new_server (p2p_class C dir listen) p = (n, p1)"
    "start_server (p2p_class C dir listen) n (p1\<lparr>the_server := Some n\<rparr>) = (started, p2)"
  with p2p_launch [of p C dir n p1 listen started p2]
  show "p2p_inv p2 \<and> p2p_obj p2 = Some n \<and> True \<and> same_process (p\<lparr>the_server := Some n\<rparr>) p2" by (simp add: p2p_class_def)
next
  fix p :: p2p_process and n
  assume "p2p_inv p" "\<not> failed p" "p2p_obj p = Some n"
  then have "p2p_ok n (\<lambda>_. 0) p" by (auto simp: p2p_inv_def split: option.splits)
  from p2p_unref_ok [OF this refl]
  show "p2p_inv (unref_server (p2p_class C dir listen) n p) \<and> p2p_obj (unref_server (p2p_class C dir listen) n p) = None \<and>
      same_process (notify_closed n p) (unref_server (p2p_class C dir listen) n p) \<and> (True \<longrightarrow> True)"
    by (simp add: p2p_class_def p2p_inv_def)
next
  fix p p' :: p2p_process
  assume "p2p_inv p" "\<not> failed p" "p2p_event True p p'"
  from p2p_event_keeps [OF this]
  show "p2p_inv p' \<and> (failed p' \<or> p2p_obj p' = p2p_obj p \<and> same_process p p' \<or>
      (\<exists>n. p2p_obj p = Some n \<and> p2p_obj p' = None \<and> same_process (notify_closed n p) p'))" by simp
qed (simp_all add: p2p_inv_def p2p_ok_def split: option.split)

section \<open>Runs\<close>

abbreviation p2p_steps :: "ctx \<Rightarrow> string \<Rightarrow> (nat \<Rightarrow> bool) \<Rightarrow> p2p_process \<Rightarrow> p2p_process \<Rightarrow> bool" where
  "p2p_steps C dir listen \<equiv> main_steps (p2p_class C dir listen) (p2p_event True) (\<lambda>_. True)"

lemma p2p_main_start:
  assumes "main_start (p2p_class C dir listen) (p2p_init w) = Some p"
  shows "p2p.main_ok p \<and> \<not> failed p \<and> loop_running p \<and> the_server p \<noteq> None"
  by (rule p2p.main_start_ok [OF _ _ _ _ _ assms]) (simp_all add: p2p_inv_def p2p_init_def)

lemma p2p_run:
  assumes "p2p_steps C dir listen p q" "p2p.main_ok p" "\<not> failed p"
  shows "p2p.main_ok q \<and> \<not> failed q"
  using assms(1)
proof (induction rule: rtranclp_induct)
  case (step q r)
  from step(2) show ?case
  proof cases
    case server_event
    with p2p_event_keeps [of q r] p2p.step_ok [OF step(2)] step(3) show ?thesis by (simp add: p2p.main_ok_def truncate_fields)
  next
    case reload
    with p2p.reload_ok [of q C dir listen] step(3) show ?thesis by simp
  next
    case quit
    with p2p.step_ok [OF step(2)] step(3) show ?thesis by (simp add: handle_quit_signal_def)
  qed
qed (use assms in simp)

text \<open>The number of the next server, which \<open>listen\<close> is asked for.\<close>

lemma next_p2p_ops [simp]:
  "next_p2p (p2p_crash p) = next_p2p p" "next_p2p (conn_unref c p) = next_p2p p" "next_p2p (set_watch y w p) = next_p2p p"
  by (simp_all add: p2p_crash_def conn_unref_def set_watch_def Let_def)

lemma next_p2p_with: "(\<And>s. next_p2p (f s) = next_p2p p) \<Longrightarrow> next_p2p (with_p2p n f p) = next_p2p p"
  by (simp add: with_p2p_def split: option.split)

lemma next_p2p_unref_value [simp]: "next_p2p (unref_value y p) = next_p2p p"
  by (simp add: unref_value_def p2p_service_unref_def on_service_dispose_def next_p2p_with Let_def split: option.split)

lemma next_p2p_folds [simp]:
  "next_p2p (fold (clear_watchers n) es p) = next_p2p p" "next_p2p (fold (\<lambda>e. unref_value (snd e)) es p) = next_p2p p"
  by (induction es arbitrary: p) (simp_all add: clear_watchers_def split: prod.split)

lemma next_p2p_clear [simp]: "next_p2p (clear_table k n p) = next_p2p p"
  unfolding clear_table_def Let_def by (rule next_p2p_with) (subst next_p2p_with; simp)

lemma next_p2p_notify [simp]: "next_p2p (notify_closed n p) = next_p2p p"
  by (simp add: notify_closed_def on_server_closed_def)

lemma next_p2p_dispose [simp]: "next_p2p (p2p_dispose n p) = next_p2p p"
  unfolding p2p_dispose_def p2p_stop_def by (simp, subst next_p2p_with; simp)

lemma next_p2p_server_unref [simp]: "next_p2p (p2p_unref n p) = next_p2p p"
  unfolding p2p_unref_def p2p_finalize_def
  by (rule next_p2p_with) (subst next_p2p_with; simp split: option.split)

lemma p2p_new_server:
  "fst (p2p_new C dir u) = next_p2p u" "\<exists>s. p2p_server (snd (p2p_new C dir u)) = Some s \<and> p2p_id s = next_p2p u \<and> \<not> bus_server s"
  by (simp_all add: p2p_new_def p2p_new_with_address_def Let_def split: option.split)

lemma p2p_failed_reload:
  assumes "p2p.main_ok q" "\<not> failed q" "the_server q = Some n" "\<not> listen (next_p2p q)"
    and "r = handle_reload_signal (p2p_class C dir listen) q"
  shows "p2p.main_ok r \<and> \<not> failed r \<and> loop_running r = loop_running q \<and> the_server r = None"
proof -
  let ?u = "p2p_unref n (q\<lparr>close_watch := None\<rparr>)"
  obtain m x where n: "p2p_new C dir ?u = (m, x)" by (cases "p2p_new C dir ?u")
  with p2p_new_server [of C dir ?u] have "m = next_p2p q" "\<exists>s. p2p_server x = Some s \<and> p2p_id s = m \<and> \<not> bus_server s" by simp_all
  then have s: "p2p_start listen m (x\<lparr>the_server := Some m\<rparr>) = (False, x\<lparr>the_server := Some m\<rparr>)"
    using assms(4) by (auto simp: p2p_start_def)
  have "the_server r = None"
    using assms(3) by (simp add: assms(5) handle_reload_signal_def start_dbus_server_def p2p_class_def n s)
  with p2p.reload_ok [OF assms(1,2), of C dir listen] assms(5) show ?thesis by simp
qed

lemma p2p_main_okD:
  assumes "p2p.main_ok q" "\<not> failed q"
  shows "p2p_server q = None \<Longrightarrow> p2p_services q = [] \<and> closed_handlers q = [] \<and> conn_refs q = (\<lambda>_. 0)"
    "p2p_server q = Some s \<Longrightarrow> p2p_ok (p2p_id s) (\<lambda>_. 0) q" "p2p_server q = None \<longleftrightarrow> the_server q = None"
  using assms by (auto simp: p2p.main_ok_def p2p_inv_def)

section \<open>Properties\<close>

text \<open>The process when its first server listens, and a peer connects to it.\<close>

definition ref_p2p :: p2p_process where
  "ref_p2p = the (main_start (p2p_class ref_ctx ''/run'' (\<lambda>n. n < 1)) (p2p_init ref_world))"

definition ref_peer :: p2p_process where
  "ref_peer = on_client_request 7 True True 0 ref_p2p"

lemma ref_p2p_facts:
  "main_start (p2p_class ref_ctx ''/run'' (\<lambda>n. n < 1)) (p2p_init ref_world) = Some ref_p2p" "loop_running ref_p2p" "\<not> failed ref_p2p"
  "\<exists>s. p2p_server ref_p2p = Some s \<and> bus_active s \<and> p2p_id s = 0" "conn_refs ref_p2p 7 = 0" "the_server ref_p2p = Some 0"
  "next_p2p ref_p2p = 1"
  by (simp_all add: ref_p2p_def main_start_def start_dbus_server_def p2p_class_def p2p_new_def p2p_new_with_address_def
      p2p_start_def p2p_init_def GUM_DBUS_ADDRESS_def unix_path_def Let_def)

lemma ref_peer_steps: "p2p_steps ref_ctx ''/run'' (\<lambda>n. n < 1) ref_p2p ref_peer"
proof -
  obtain s where s: "p2p_server ref_p2p = Some s" "bus_active s" "p2p_id s = 0" using ref_p2p_facts(4) by auto
  show ?thesis
    unfolding ref_peer_def using p2p_event.connects [OF s(1,2) ref_p2p_facts(5), of True True True] s(3)
    by (intro r_into_rtranclp main_step.server_event ref_p2p_facts) simp
qed



text \<open>
  C29. A restart that fails. When the new server cannot listen, the loop of the process goes
  on without one; from then on nobody is served, further restarts do nothing, and only a
  signal that ends the loop ends the process.
\<close>

theorem failed_reload_serves_nobody:
  assumes "main_start (p2p_class C dir listen) (p2p_init w) = Some p" and "p2p_steps C dir listen p q"
    and "the_server q = Some n" and "\<not> listen (next_p2p q)" and "r = handle_reload_signal (p2p_class C dir listen) q"
    and "p2p_steps C dir listen r r'"
  shows "loop_running r = loop_running q \<and> the_server r' = None \<and> p2p_server r' = None \<and> p2p_services r' = [] \<and>
     handle_reload_signal (p2p_class C dir listen) r' = r' \<and> \<not> p2p_event True r' r''"
proof -
  from p2p_run [OF assms(2)] p2p_main_start [OF assms(1)] have q: "p2p.main_ok q" "\<not> failed q" by simp_all
  from p2p_failed_reload [OF q assms(3,4,5)] have r: "p2p.main_ok r" "\<not> failed r" "loop_running r = loop_running q" "the_server r = None"
    by simp_all
  from p2p_run [OF assms(6) r(1,2)] have r': "p2p.main_ok r'" "\<not> failed r'" by simp_all
  from p2p.no_server_stays [OF assms(6) r(1,4)] r'(2) have n: "the_server r' = None" by simp
  with p2p_main_okD(3) [OF r'] have s: "p2p_server r' = None" by simp
  from p2p_main_okD(1) [OF r' s] have z: "p2p_services r' = []" "conn_refs r' = (\<lambda>_. 0)" by simp_all
  from s z have "\<not> p2p_event True r' r''" by (auto elim: p2p_event.cases)
  with r(3) n s z(1) show ?thesis by (simp add: handle_reload_signal_def)
qed

theorem failed_reload_serves_nobody_witness:
  "loop_running (handle_reload_signal (p2p_class ref_ctx ''/run'' (\<lambda>n. n < 1)) ref_p2p) \<and>
   the_server (handle_reload_signal (p2p_class ref_ctx ''/run'' (\<lambda>n. n < 1)) ref_p2p) = None"
  using failed_reload_serves_nobody [OF ref_p2p_facts(1) rtranclp.rtrancl_refl ref_p2p_facts(6) _ refl rtranclp.rtrancl_refl]
    ref_p2p_facts(2,7) by simp

end
