(* ===== verification/Spec2Isabelle.thy ===== *)
theory Spec2Isabelle
  imports Gumd_Utils Gumd_Msg_Bus Gumd_P2p
begin

text \<open>
  gumd is a daemon that manages the users and groups of a machine. It owns the four account
  databases (passwd, shadow, group and gshadow) and the home directories, and serves requests
  over D-Bus. This development models the daemon from the requests of its peers down to the
  lines of the files, the common library below it, the client library that makes the requests
  and the command line tool over it.

  The parts, from the bottom up, with the theories that model them:

  \<^item> Data: \<open>Gum_Types\<close> has the error codes, the user and group types as bit sets, the libc
    structures as records and the record \<open>env\<close> of functions that are not under \<^verbatim>\<open>src/\<close>
    (\<open>gum-error.c\<close>, \<open>gum-user-types.c\<close>). \<open>Gum_String_Utils\<close> is \<open>gum-string-utils.c\<close>,
    \<open>Gum_Validate\<close> is \<open>gum-validate.c\<close>, \<open>Gum_Config\<close> is \<open>gum-dictionary.c\<close> and
    \<open>gum-config.c\<close>.
  \<^item> The machine: \<open>Gum_World\<close> has the state that C functions change (files, home directory
    trees, the counted database lock of \<open>gum-lock.c\<close>, effective user id, the error under
    construction, a log of effects) as a record under the \<^theory_text>\<open>State_Monad\<close>. What the
    system decides is an oracle of the record \<open>ctx\<close> asked at every call, so a statement
    about all contexts is one about every pattern of failing calls.
  \<^item> Files: \<open>Gum_File\<close> models opening a database with its duplicate, the pass over it with
    a callback, and the commit by link and rename (\<open>gum_file_update\<close>), and the look-ups;
    \<open>Gum_Home\<close> and \<open>Gum_Home_Spec\<close> the copy of the skeleton into a home directory and its
    deletion; \<open>Gum_Crypt\<close> is \<open>gum-crypt.c\<close> over \<open>crypt(3)\<close>; \<open>Gum_Utils\<close> the script
    runner of \<open>gum-utils.c\<close>.
  \<^item> Groups: \<open>Gumd_Entries\<close> is the loop that the update callbacks share, \<open>Gumd_Group\<close> the
    object and handlers of \<open>gumd-daemon-group.c\<close>; \<open>Gumd_Group_Db\<close>, \<open>Gumd_Group_Props\<close> and
    \<open>Gumd_Membership\<close> say what they do to the files.
  \<^item> Users: \<open>Gumd_User\<close> is \<open>gumd-daemon-user.c\<close>; \<open>Gumd_User_Lock\<close>, \<open>Gumd_User_Db\<close>,
    \<open>Gumd_User_Add\<close>, \<open>Gumd_User_Delete\<close>, \<open>Gumd_User_Update\<close> and \<open>Gumd_User_List\<close> say what
    its handlers do.
  \<^item> The databases: \<open>Gumd_Db\<close> has what users and groups share (the contract of a file of
    entries, the search for a free id), \<open>Gumd_Wf\<close> shows that the lines stay readable, and
    \<open>Gumd_Accounts\<close> is the abstract specification: users with an id, a name and a group, groups
    with an id and a name, and the few steps that may change them.
  \<^item> The daemon: \<open>Gumd_Daemon\<close> is \<open>gumd-daemon.c\<close>, its tables of live objects with weak
    references and the operations on them; \<open>Gumd_System\<close> serves requests and shows what every
    request keeps.
  \<^item> The bus: \<open>Gum_Disposable\<close> is \<open>gum-disposable.c\<close>, objects that dispose of themselves
    when a timer expires; \<open>Gumd_Peers\<close> the list of adapters of a service; \<open>Gumd_Dbus\<close> the
    methods of the services and adapters (\<open>gumd-dbus-*-adapter.c\<close>); \<open>Gumd_Dbus_Inv\<close> their
    invariant; \<open>Gumd_Bus\<close> both services over one daemon with every event that reaches them.
  \<^item> The process: \<open>Gumd_Main\<close> is \<open>main.c\<close> over the interface of a server
    (\<open>gumd-dbus-server-interface.c\<close>), \<open>Gumd_Msg_Bus\<close> the server on the message bus with the
    services of \<open>Gumd_Bus\<close>, \<open>Gumd_P2p\<close> the server for peers that connect directly.
  \<^item> The client: \<open>Gum_Client_Op\<close> is the machinery of the asynchronous calls of \<open>gum-user.c\<close>
    and \<open>gum-group.c\<close>, \<open>Gum_Client\<close> the synchronous calls, each offline (with a daemon in the
    process of the client) or over the bus; \<open>Gum_Client_Keeps\<close> shows what they keep.
    \<open>Gum_User_Service\<close> has the proxies of \<open>gum-group-service.c\<close>, one for every thread, and
    the service object of \<open>gum-user-service.c\<close>. \<open>Gumd_Utils\<close> is the command line tool
    \<open>gumd-utils.c\<close> over the client.

  A C function that can fail returns a bool or an option in the monad and leaves the error it
  sets in \<open>gerror\<close>; an object is a value that a handler takes and returns, and objects that
  are shared are numbers in a table with a reference count (\<open>objects\<close>). Integers of a fixed
  width are words. \<open>wp m Q s\<close> states that \<open>m\<close> run in \<open>s\<close> ends with a result and state in
  \<open>Q\<close>; every computation of the model returns, so this is total correctness.

  The interfaces are locales: \<open>strv_ops\<close>, \<open>gecos_env\<close>, \<open>checksum_env\<close> and \<open>crypt_env\<close> state
  what the code relies on in GLib and libc (interpreted on concrete functions);
  \<open>nested_lock\<close> is what the handlers need of the database lock; \<open>update_callback\<close> is what
  \<open>gum_file_update\<close> needs of a callback, \<open>entry_file\<close> what a database file offers, \<open>id_search\<close>
  the search for a free id; \<open>object_operations\<close> is what the daemon needs of its objects,
  \<open>served_objects\<close> what a D-Bus service needs of the daemon, \<open>bus_server\<close> what the process
  needs of a server. Each is interpreted on the model.

  What is shown: C1 to C3, C6, C7 and C9 are about the system as a whole (the accounts change
  as the abstract specification does, ids and names stay unique, primary groups exist,
  references balance, the lock is given back, nothing is used after it has gone); C4, C5, C10
  to C13 and C22 to C25 give the effect of each operation on the files in every outcome; C8,
  C14, C20, C21, C37 and C38 are about files, locked accounts, homes, the lock and secrets;
  C15, C26, C27, C35 and C36 about the objects on the bus; C18, C19, C28 and C29 about the
  servers and the process; C16, C17 and C30 to C34 about the client and the tool; the others
  about the common library. The theories from \<open>Gumd_Group_Db\<close> on assume of the configuration (\<open>config_ok\<close>)
  that the four paths are set and different, that files can be opened for reading and read to
  their end (the code takes a failure for a missing entry or the end of the file) and that no
  id range ends at the largest id. The last makes the loop that searches an id end: its fuel is the \<open>2 ^ 32\<close> ids
  there are, and no range within the bound needs more. All other recursion is
  structural or ends by a measure.

  Not modelled: builds with ENABLE_DEBUG or ENABLE_TESTS; the registration of types,
  properties and signals with GObject; the transport of D-Bus, the copies of properties that
  its objects keep, and the process ids of callers; the options and group id of the daemon's
  process; the nonce generator; the cache of properties of a client's proxies, which is a
  parameter where the tool prints them; the parsing of the command line, which GLib does, and
  the tags of libtlm-nfc. Of the file
  system: set-id bits that the kernel clears on chown, devices and sockets in a home, and the
  part of a file that a failed copy leaves. Sessions of logind are an oracle.
\<close>

section \<open>Instances\<close>

text \<open>A daemon with one new user object over the machine of the instances.\<close>

definition ref_daemon :: daemon where
  "ref_daemon = gumd_daemon_init\<lparr>d_users := obj_new ref_new_user no_objects\<rparr>"

definition ref_added :: "daemon \<times> world" where
  "ref_added = snd (run_state (serve ref_ctx (AddUser (Some 0))) (ref_daemon, ref_world))"

lemma ref_daemon_ok:
  "objects_ok (d_users ref_daemon)" "objects_ok (d_groups ref_daemon)" "held (AddUser (Some 0)) ref_daemon"
  "lock_ok ref_world" "acct_inv (accounts_of ref_ctx ref_world)" "config_ok ref_ctx"
proof -
  show "objects_ok (d_users ref_daemon)" "objects_ok (d_groups ref_daemon)" "held (AddUser (Some 0)) ref_daemon"
    by (simp_all add: ref_daemon_def gumd_daemon_init_def objects_ok_new objects_ok_none)
      (simp add: alive_def obj_new_def no_objects_def)
  show "lock_ok ref_world" by (simp add: lock_ok_def ref_world_def)
  have "distinct (map pw_uid (passwd_db ref_ctx ref_world)) \<and> distinct (map pw_name (passwd_db ref_ctx ref_world)) \<and>
      pw_gid ` set (passwd_db ref_ctx ref_world) \<subseteq> gr_gid ` set (group_db ref_ctx ref_world)" by code_simp
  with ref_group_db(1) show "acct_inv (accounts_of ref_ctx ref_world)"
    by (simp add: acct_inv_def accounts_unique group_ids_ok_def)
  show "config_ok ref_ctx" by (simp add: config_ok_def ref_paths_ok ref_reads_ok ref_user_facts(1))
qed

lemma ref_added_step: "daemon_steps ref_ctx (ref_daemon, ref_world) (fst ref_added, snd ref_added)"
  unfolding ref_added_def prod.collapse
  by (intro r_into_rtranclp daemon_step.request [OF ref_daemon_ok(3)]) (rule prod.collapse [symmetric])

section \<open>Properties\<close>

text \<open>
  C1. A run of the whole daemon. The process starts its server on the message bus over
  well-formed databases with unique ids and names and existing primary groups. Whatever
  happens then, calls, peers and timers, services that come and go, lost names, restarts of
  the server by a signal, failing calls and crashes included, the users and groups change by
  steps of the abstract system of accounts only and the databases stay in order; and as long
  as nothing fails, the process knows just the server that is alive and has one while its
  loop runs.
\<close>

theorem process_refines_accounts:
  assumes "config_ok C" and "db_wf C w" and "acct_inv (accounts_of C w)"
    and "main_start (msg_bus_class C T) (msg_process_init w) = Some p"
    and "main_steps (msg_bus_class C T) (msg_event C T E) (msg_calm G) p q"
  shows "acct_steps (accounts_of C w) (accounts_of C (bus_world (at_bus q))) \<and> db_wf C (bus_world (at_bus q)) \<and>
     acct_inv (accounts_of C (bus_world (at_bus q))) \<and>
     (failed q \<or> map_option msg_id (msg_server q) = the_server q \<and> (loop_running q \<longrightarrow> the_server q \<noteq> None))"
  using msg_run [OF assms] by (auto simp: msg_inv_def accounts_kept_def)

text \<open>The process over the machine of the instances, with its services made and both timed out.\<close>

abbreviation ref_class :: "msg_process server_class" where "ref_class \<equiv> msg_bus_class ref_ctx G_BUS_TYPE_SYSTEM"

definition ref_main :: msg_process where
  "ref_main = the (main_start ref_class (msg_process_init ref_world))"

definition ref_served :: msg_process where
  "ref_served = on_bus_acquired ref_ctx G_BUS_TYPE_SYSTEM True True 0 (bus_there 1 ref_main)"

definition ref_users_gone :: msg_process where
  "ref_users_gone = after_bus (loop_users (service_loop (user_kind ref_ctx) 1 Timer_dispose) (at_bus ref_served)) ref_served"

definition ref_idle :: msg_process where
  "ref_idle = after_bus (loop_groups (service_loop (group_kind ref_ctx) 1 Timer_dispose) (at_bus ref_users_gone)) ref_users_gone"

lemma ref_main_facts:
  "main_start ref_class (msg_process_init ref_world) = Some ref_main" "owners ref_main = [(1, 0, False)]"
  "loop_running ref_main" "\<not> failed ref_main"
  by (simp_all add: ref_main_def main_start_def start_dbus_server_def msg_bus_class_def gumd_dbus_server_msg_bus_new_def
      msg_bus_start_def with_server_def msg_process_init_def Let_def)

lemma ref_served_facts:
  "loop_running ref_served" "\<not> failed ref_served" "running users_at (at_bus ref_served)"
  "(1, Timer_dispose) \<in> set (sources (service_timer (users_at (at_bus ref_served))))"
  "loop_running ref_users_gone" "\<not> failed ref_users_gone" "running groups_at (at_bus ref_users_gone)"
  "(1, Timer_dispose) \<in> set (sources (service_timer (groups_at (at_bus ref_users_gone))))"
  by code_simp+

lemma ref_idle_facts:
  "loop_running ref_idle" "\<not> failed ref_idle" "close_sources ref_idle = [0]" "owners ref_idle = [(1, 0, True)]"
  "user_alive (at_bus ref_idle) = 0" "group_alive (at_bus ref_idle) = 0"
  by code_simp+

lemma ref_idle_steps: "main_steps ref_class (msg_event ref_ctx G_BUS_TYPE_SYSTEM True) (msg_calm True) ref_main ref_idle"
proof -
  let ?step = "main_step ref_class (msg_event ref_ctx G_BUS_TYPE_SYSTEM True) (msg_calm True)"
  have "?step ref_main ref_served"
    unfolding ref_served_def
    by (rule main_step.server_event [OF ref_main_facts(3,4)], rule msg_event.bus_acquired) (simp_all add: ref_main_facts)
  moreover have "?step ref_served ref_users_gone"
    unfolding ref_users_gone_def
    by (rule main_step.server_event [OF ref_served_facts(1,2)], rule msg_event.on_bus, rule bus_step.user_service_timer)
      (rule ref_served_facts)+
  moreover have "?step ref_users_gone ref_idle"
    unfolding ref_idle_def
    by (rule main_step.server_event [OF ref_served_facts(5,6)], rule msg_event.on_bus, rule bus_step.group_service_timer)
      (rule ref_served_facts)+
  ultimately show ?thesis by (meson converse_rtranclp_into_rtranclp rtranclp.rtrancl_refl)
qed

theorem process_refines_accounts_witness:
  "acct_steps (accounts_of ref_ctx ref_world) (accounts_of ref_ctx (bus_world (at_bus ref_idle))) \<and> the_server ref_idle = Some 0"
proof -
  have "map_option msg_id (msg_server ref_idle) = Some 0" by code_simp
  with process_refines_accounts [OF ref_daemon_ok(6) ref_user_facts(2) ref_daemon_ok(5) ref_main_facts(1) ref_idle_steps]
    ref_idle_facts(2) show ?thesis by simp
qed

text \<open>
  C2. What holds of every state that requests can reach, in whatever order they are served and
  whatever calls fail, from well-formed databases with unique ids and names and existing
  primary groups: the lines of the four files can be read
  back as they were written; no user or group id and no user or group name occurs twice; the
  primary group of every user is in the group file; and the object tables are in order.
\<close>

theorem daemon_invariant:
  assumes "config_ok C" and "db_wf C w" and "acct_inv (accounts_of C w)"
    and "objects_ok (d_users d)" and "objects_ok (d_groups d)" and "daemon_steps C (d, w) (d', w')"
  shows "db_wf C w' \<and> objects_ok (d_users d') \<and> objects_ok (d_groups d') \<and>
     distinct (map pw_uid (passwd_db C w')) \<and> distinct (map pw_name (passwd_db C w')) \<and>
     distinct (map gr_gid (group_db C w')) \<and> distinct (map gr_name (group_db C w')) \<and>
     pw_gid ` set (passwd_db C w') \<subseteq> gr_gid ` set (group_db C w')"
proof -
  have "accounts_kept C (accounts_of C w) w" using assms(2,3) by (simp add: accounts_kept_def)
  from steps_kept [OF assms(1) this assms(4-6)] show ?thesis
    by (simp add: accounts_kept_def acct_inv_def accounts_unique)
qed

theorem daemon_invariant_witness:
  "distinct (map pw_uid (passwd_db ref_ctx (snd ref_added))) \<and> objects_ok (d_users (fst ref_added))"
  using daemon_invariant [OF ref_daemon_ok(6) ref_user_facts(2) ref_daemon_ok(5,1,2) ref_added_step] by simp



text \<open>
  The daemon refines the abstract system of accounts. Whatever requests are served from
  a state with well-formed databases, unique ids and names and existing primary groups, in
  whatever order, and whatever calls fail in them, the users and groups of the files have
  changed by steps of that system only: a new group or user has a valid name and an id that
  were not there, a new user a group that was there, a group that went was nobody's primary
  group.
\<close>

theorem daemon_refines_accounts:
  assumes "config_ok C" and "db_wf C w" and "acct_inv (accounts_of C w)"
    and "objects_ok (d_users d)" and "objects_ok (d_groups d)" and "daemon_steps C (d, w) (d', w')"
  shows "acct_steps (accounts_of C w) (accounts_of C w')"
proof -
  have "accounts_kept C (accounts_of C w) w" using assms(2,3) by (simp add: accounts_kept_def)
  from steps_kept [OF assms(1) this assms(4-6)] show ?thesis by (simp add: accounts_kept_def)
qed

theorem daemon_refines_accounts_witness:
  "acct_steps (accounts_of ref_ctx ref_world) (accounts_of ref_ctx (snd ref_added))"
  by (rule daemon_refines_accounts [OF ref_daemon_ok(6) ref_user_facts(2) ref_daemon_ok(5,1,2) ref_added_step])

text \<open>
  C6. The accounts over the bus. From well-formed databases with unique ids and names and
  existing primary groups, whatever happens on the bus, crashes included, changes the users
  and groups by steps of the abstract system of accounts only, and the databases stay
  well-formed with unique ids and names and existing primary groups.
\<close>

theorem bus_refines_accounts:
  assumes "config_ok C" and "db_wf C w" and "acct_inv (accounts_of C w)" and "bus_steps C E (bus_start C bus w) b"
  shows "acct_steps (accounts_of C w) (accounts_of C (bus_world b)) \<and> db_wf C (bus_world b) \<and>
     acct_inv (accounts_of C (bus_world b))"
proof -
  have d: "daemon_steps C (gumd_daemon_init, w) (bus_daemon b, bus_world b)"
    using bus_steps_next [OF assms(4) bus_start_ok] by (simp add: bus_next_def bus_start_def)
  have "accounts_kept C (accounts_of C w) w" using assms(2,3) by (simp add: accounts_kept_def)
  from steps_kept [OF assms(1) this _ _ d] show ?thesis
    by (simp add: accounts_kept_def gumd_daemon_init_def objects_ok_none)
qed

theorem bus_refines_accounts_witness:
  "acct_steps (accounts_of ref_ctx ref_world) (accounts_of ref_ctx (bus_world ref_bus_user))"
  using bus_refines_accounts [OF ref_daemon_ok(6) ref_user_facts(2) ref_daemon_ok(5) ref_bus_step [unfolded ref_bus_def]]
  by simp

text \<open>
  C7. Whatever request is served, and whatever calls fail in it, the daemon holds the
  database lock afterwards as often as before: no path through a handler keeps the lock, and
  none gives it back that does not have it.
\<close>

theorem requests_return_the_lock:
  assumes "lock_ok w" and "objects_ok (d_users d)" and "objects_ok (d_groups d)" and "held q d"
  shows "wp (serve C q) (\<lambda>_ s'. lock_ok (snd s') \<and> lock_count (snd s') = lock_count w) (d, w)"
proof -
  have "lock_keeper.daemon_ok (d, w)" using assms by (simp add: lock_keeper.daemon_ok_def)
  from lock_keeper.request_kept [OF assms(4) this, of C] show ?thesis
    by (rule wp_mono) (simp add: lock_keeper.daemon_ok_def)
qed

theorem requests_return_the_lock_witness:
  "wp (serve ref_ctx (AddUser (Some 0)))
     (\<lambda>_ s'. lock_ok (snd s') \<and> lock_count (snd s') = lock_count ref_world) (ref_daemon, ref_world)"
  by (rule requests_return_the_lock [OF ref_daemon_ok(4,1,2,3)])



text \<open>
  C15. Getting a user over the bus, from any state reached. The peer is answered once: with an
  error, or with the path of an adapter of its own. The adapters of all peers stay; at most
  one entry is added, for this peer; and none if the peer has an adapter for that user that
  is not to be deleted.
\<close>

theorem get_user_own_adapter:
  assumes "bus_steps C E (bus_start C bus w) b" and "running users_at b"
    and "b' = at_users (handle_get_user C c uid) b" and "\<not> bus_crashed b'"
  shows "(\<exists>rp. replies (users_at b') = replies (users_at b) @ [rp] \<and>
        (error_reply rp \<or> (\<exists>a. (sender c, Some a) \<in> set (peers (users_at b')) \<and> rp = Reply_path (Some (a_path a))))) \<and>
     (peers (users_at b') = peers (users_at b) \<or> (\<exists>ad. peers (users_at b') = peers (users_at b) @ [(sender c, ad)])) \<and>
     ((\<exists>a. (sender c, Some a) \<in> set (peers (users_at b)) \<and> \<not> delete_later (a_timer a) \<and>
         gumd_dbus_user_adapter_get_uid (a_object a) (bus_daemon b) = uid) \<and> uid \<noteq> GUM_USER_INVALID_UID \<longrightarrow>
       peers (users_at b') = peers (users_at b))"
proof -
  let ?found = "in_cache C c uid b"
  have a: "answered c ?found (users_at b) (users_at b')"
    using get_user_answered [OF at_once [OF assms(1,2)] assms(2,3)] assms(4) by simp
  have cached: "(sender c, Some a) \<in> set (peers (users_at b))" if "?found = Some (Some a)" for a
    using that adapter_from_list_found [of "user_kind C" "bus_daemon b" "sender c" uid "peers (users_at b)" a]
    by (auto simp: get_adapter_from_cache_def split: if_splits)
  consider "?found = None" | "?found = Some None" | a' where "?found = Some (Some a')" by (cases ?found; force)
  then show ?thesis
  proof cases
    case 2
    with adapter_from_list_hit [of "sender c" _ "peers (users_at b)" "user_kind C" "bus_daemon b" uid]
    have "\<not> ((\<exists>a. (sender c, Some a) \<in> set (peers (users_at b)) \<and> \<not> delete_later (a_timer a) \<and>
       gumd_dbus_user_adapter_get_uid (a_object a) (bus_daemon b) = uid) \<and> uid \<noteq> GUM_USER_INVALID_UID)"
      by (auto simp: get_adapter_from_cache_def user_id_of_kind GUM_USER_INVALID_UID_def split: if_splits)
    with a 2 show ?thesis by (auto simp: answered_def)
  qed (use a cached in \<open>auto simp: answered_def\<close>)
qed

theorem get_user_own_adapter_witness:
  "\<exists>rp. replies (users_at (at_users (handle_get_user ref_ctx (ref_call True) 1000) ref_bus)) = replies (users_at ref_bus) @ [rp]"
proof -
  let ?b = "at_users (handle_get_user ref_ctx (ref_call True) 1000) ref_bus"
  have "bus_step ref_ctx True ref_bus ?b"
    using bus_step.user_service [OF ref_bus_running, of True "ref_call True" ref_ctx "Get_user 1000"]
    by (simp add: ref_call_def)
  from bus_step_next [OF this] have "\<not> bus_crashed ?b"
    using bus_start_ok [of True ref_ctx True ref_world] by (auto simp: ref_bus_def bus_next_def bus_ok_def side_ok_def bus_crashed_def)
  from get_user_own_adapter [OF rtranclp.rtrancl_refl ref_bus_running [unfolded ref_bus_def] refl this [unfolded ref_bus_def]]
  show ?thesis by (auto simp: ref_bus_def)
qed

text \<open>
  C17. A run of the command line tool. The tool starts with a daemon on the bus in any state
  that can be reached, and in offline mode with a daemon of its own, over the configuration
  of its sysroot. Whatever its options and whatever calls fail, the users and groups change by
  steps of the abstract system of accounts only, the databases stay well-formed with unique
  ids and names and existing primary groups, and a command that gets or lists leaves every
  file as it is. The exit status is 0 whether or not the command succeeded.
\<close>

theorem utils_refines_accounts:
  assumes "C = config (utils_sysroot opts)" and "config_ok C" and "db_wf C w" and "acct_inv (accounts_of C w)"
    and "bus_steps C False (bus_start C bus w) (remote c)" and "local_daemon c = gumd_daemon_init"
    and "run_state (utils_main config P (Some opts)) (c, []) = (code, c', out)"
  shows "acct_steps (accounts_of C w) (accounts_of C (bus_world (remote c'))) \<and> db_wf C (bus_world (remote c')) \<and>
     acct_inv (accounts_of C (bus_world (remote c'))) \<and> code = 0 \<and>
     ((\<forall>op\<in>set changing. \<not> given opts op) \<longrightarrow> files (bus_world (remote c')) = files (bus_world (remote c)))"
proof -
  have safe: "client_safe C (accounts_of C w) c" by (rule client_starts [OF assms(3,4,2,5,6)])
  note main = main_safe [where config = config and opts = opts and P = P and out = "[]"]
  have "client_safe C (accounts_of C w) c' \<and> code = 0"
    using wp_run [OF assms(7) main] assms(1,2) safe by simp
  moreover have "files (bus_world (remote c')) = files (bus_world (remote c))" if "\<forall>op\<in>set changing. \<not> given opts op"
    using frame_run [OF main_reads [OF that] assms(7)] by simp
  ultimately show ?thesis by (simp add: client_safe_def accounts_kept_def)
qed

definition ref_options :: utils_options where
  "ref_options = \<lparr>given = (\<lambda>op. op = User_get), offline_mode = True, write_nfc = False, opt_sysroot = None,
     user_types = None, opt_user = create_test_user\<lparr>iu_uid := 1000\<rparr>, opt_group = create_test_group\<rparr>"

definition ref_process :: client where
  "ref_process = \<lparr>remote = ref_bus, local_daemon = gumd_daemon_init, client_call = ref_call True, connected = False,
     proxies = False\<rparr>"

definition ref_cache :: proxy_cache where
  "ref_cache = \<lparr>cached_user = (\<lambda>_ _. create_test_user), cached_group = (\<lambda>_ _. create_test_group)\<rparr>"

theorem utils_refines_accounts_witness:
  "files (bus_world (remote (fst (snd (run_state (utils_main (\<lambda>_. ref_ctx) ref_cache (Some ref_options)) (ref_process, [])))))) =
   files ref_world"
proof -
  have start: "remote ref_process = bus_start ref_ctx True ref_world" "local_daemon ref_process = gumd_daemon_init"
    by (simp_all add: ref_process_def ref_bus_def)
  have steps: "bus_steps ref_ctx False (bus_start ref_ctx True ref_world) (remote ref_process)"
    unfolding start(1) by (rule rtranclp.rtrancl_refl)
  have reads: "\<forall>op\<in>set changing. \<not> given ref_options op" by (simp add: ref_options_def changing_def)
  obtain code c' out where run: "run_state (utils_main (\<lambda>_. ref_ctx) ref_cache (Some ref_options)) (ref_process, []) = (code, c', out)"
    by (metis prod_cases3)
  from utils_refines_accounts [OF refl ref_daemon_ok(6) ref_user_facts(2) ref_daemon_ok(5) steps start(2) run] reads
  have "files (bus_world (remote c')) = files (bus_world (remote ref_process))" by blast
  then show ?thesis by (simp add: run start(1) bus_start_def)
qed



text \<open>
  C26. A peer of the user service is gone. The adapters it had leave the list, those of the
  others stay; every user object has again as many references as adapters, so those that only
  this peer had are disposed of; the service may dispose of itself just when no adapter is
  left; groups and files are as they were.
\<close>

theorem lost_peer_is_forgotten:
  assumes "bus_steps C E (bus_start C bus w) b" and "running users_at b"
    and "b' = loop_users (on_bus_name_lost (user_kind C) name) b"
  shows "peers (users_at b') = filter (\<lambda>e. snd e = None \<or> fst e \<noteq> name) (peers (users_at b)) \<and>
     (\<forall>r. user_refs (bus_daemon b') r = holders (peers (users_at b')) r) \<and>
     (\<forall>r. alive r (d_users (bus_daemon b')) \<longleftrightarrow> (\<exists>a\<in>set (adapters (peers (users_at b'))). a_object a = r)) \<and>
     gum_disposable_get_auto_dispose (service_timer (users_at b')) = (peers (users_at b') = []) \<and>
     group_refs (bus_daemon b') = group_refs (bus_daemon b) \<and> groups_at b' = groups_at b \<and> bus_world b' = bus_world b"
proof -
  note l = lost_peer [OF at_once [OF assms(1,2)] assms(2,3)]
  then have u: "side_ok False (user_refs (bus_daemon b')) (users_at b')" and t: "objects_ok (d_users (bus_daemon b'))"
    by (simp_all add: bus_ok_def tables_ok_def)
  have "alive r (d_users (bus_daemon b')) \<longleftrightarrow> 0 < user_refs (bus_daemon b') r" for r
    using objects_okD(4) [OF t] by (auto simp: alive_def user_refs_def refs_def split: option.splits)
  then have "alive r (d_users (bus_daemon b')) \<longleftrightarrow> (\<exists>a\<in>set (adapters (peers (users_at b'))). a_object a = r)" for r
    unfolding side_okD(2) [OF u] by (auto simp: holders_def filter_empty_conv)
  with l side_okD(2,4) [OF u] show ?thesis by (simp add: running_def)
qed

theorem lost_peer_is_forgotten_witness:
  "peers (users_at (loop_users (on_bus_name_lost (user_kind ref_ctx) '':1.7'') ref_bus)) =
     filter (\<lambda>e. snd e = None \<or> fst e \<noteq> '':1.7'') (peers (users_at ref_bus))"
  using lost_peer_is_forgotten [OF rtranclp.rtrancl_refl ref_bus_running [unfolded ref_bus_def] refl]
  by (simp add: ref_bus_def)

text \<open>
  C27. An adapter that cannot be exported leaves an entry without adapter in the list of its
  peer. The next time this peer gets a user for which the list has no adapter of it, the
  daemon reads through that entry and crashes. The entry is not removed when the peer is
  gone either, and as long as it is there the service does not dispose of itself.
\<close>

theorem failed_export_crashes:
  assumes "bus_steps C E (bus_start C bus w) b" and "running users_at b"
  shows "(\<not> exported c \<and> \<not> E \<longrightarrow>
       (sender c, None) \<in> set (peers (users_at (at_users (handle_create_new_user C c) b)))) \<and>
     ((sender c, None) \<in> set (peers (users_at b)) \<and> uid \<noteq> GUM_USER_INVALID_UID \<and>
       (\<forall>a. (sender c, Some a) \<in> set (peers (users_at b)) \<longrightarrow>
          gumd_dbus_user_adapter_get_uid (a_object a) (bus_daemon b) \<noteq> uid) \<longrightarrow>
       bus_crashed (at_users (handle_get_user C c uid) b)) \<and>
     ((sender c, None) \<in> set (peers (users_at b)) \<longrightarrow>
       (let b' = loop_users (on_bus_name_lost (user_kind C) (sender c)) b
        in (sender c, None) \<in> set (peers (users_at b')) \<and>
           \<not> gum_disposable_get_auto_dispose (service_timer (users_at b'))))"
proof (intro conjI impI)
  note ok = at_once [OF assms]
  note g = users_good [OF ok assms(2), of C]
  { assume "\<not> exported c \<and> \<not> E"
    moreover have "wp (handle_create_new_user C c) (\<lambda>_ (s', d', w').
        \<exists>ad. peers s' = peers (users_at b) @ [(sender c, ad)] \<and> (ad = None \<longleftrightarrow> \<not> exported c))
        (users_at b, bus_daemon b, bus_world b)"
      unfolding handle_create_new_user_def by (rule wp_mono [OF users.create_new_good [OF g]]) auto
    ultimately show "(sender c, None) \<in> set (peers (users_at (at_users (handle_create_new_user C c) b)))"
      by (auto simp: at_users_def wp_def split: prod.splits) }
  { assume h: "(sender c, None) \<in> set (peers (users_at b)) \<and> uid \<noteq> GUM_USER_INVALID_UID \<and>
       (\<forall>a. (sender c, Some a) \<in> set (peers (users_at b)) \<longrightarrow>
          gumd_dbus_user_adapter_get_uid (a_object a) (bus_daemon b) \<noteq> uid)"
    have "in_cache C c uid b = None"
      using h by (simp add: get_adapter_from_cache_def GUM_USER_INVALID_UID_def adapter_from_list_stuck user_id_of_kind)
    with get_user_answered [OF ok assms(2) refl, of C c uid]
    show "bus_crashed (at_users (handle_get_user C c uid) b)" by (simp add: answered_def) }
  { assume e: "(sender c, None) \<in> set (peers (users_at b))"
    define b' where "b' = loop_users (on_bus_name_lost (user_kind C) (sender c)) b"
    note l = lost_peer [OF ok assms(2) b'_def]
    then have "side_ok False (user_refs (bus_daemon b')) (users_at b')" by (simp add: bus_ok_def)
    from l e side_okD(4) [OF this]
    show "let b' = loop_users (on_bus_name_lost (user_kind C) (sender c)) b
        in (sender c, None) \<in> set (peers (users_at b')) \<and>
           \<not> gum_disposable_get_auto_dispose (service_timer (users_at b'))"
      unfolding b'_def [symmetric] Let_def by (auto simp: running_def filter_empty_conv) }
qed

theorem failed_export_crashes_witness:
  "bus_crashed (at_users (handle_get_user ref_ctx (ref_call False) 1000) ref_bus_null)"
  using failed_export_crashes [OF ref_bus_null(3) [unfolded ref_bus_def] ref_bus_null(1), of "ref_call False" 1000]
  by (simp add: ref_bus_null(2)) (simp add: ref_call_def GUM_USER_INVALID_UID_def)

text \<open>
  C28. A restart that comes when both services have gone and the server is about to close. It
  replaces the server, but the idle source stays, and when it runs it gives up a server that
  is no longer there.
\<close>

theorem reload_of_closing_server_fails:
  assumes "config_ok C" and "db_wf C w" and "acct_inv (accounts_of C w)"
    and "main_start (msg_bus_class C T) (msg_process_init w) = Some p"
    and "main_steps (msg_bus_class C T) (msg_event C T True) (msg_calm True) p q"
    and "loop_running q" and "n \<in> set (close_sources q)" and "r = handle_reload_signal (msg_bus_class C T) q"
  shows "\<not> failed r \<and> loop_running r \<and> msg_event C T True r (close_server C n r) \<and> failed (close_server C n r)"
proof -
  have "msg.main_ok True True C (accounts_of C w) p" using msg_main_start [OF assms(1-4)] by simp
  from msg_reload_fails [OF msg.steps_ok [OF assms(5) this] msg_sound_run [OF assms(1-5)] assms(6,7) _ assms(8)]
    msg_run [OF assms(1-5)] msg_sound_run [OF assms(1-5)] assms(6)
  show ?thesis by simp
qed

theorem reload_of_closing_server_fails_witness:
  "failed (close_server ref_ctx 0 (handle_reload_signal ref_class ref_idle))"
  using reload_of_closing_server_fails [OF ref_daemon_ok(6) ref_user_facts(2) ref_daemon_ok(5) ref_main_facts(1) ref_idle_steps
      ref_idle_facts(1) _ refl, of 0] ref_idle_facts(3) by simp

end
